(* ===== verification/Ordered_Map.thy ===== *)
theory Ordered_Map
  imports Prelude
begin

text \<open>
  \<^verbatim>\<open>BTreeMap\<close> of the standard library as a strictly ascending association list: the
  iteration order of \<open>values\<close> and \<open>keys\<close>, on which several results of the code
  depend (the first matching link, the order of ambiguous candidates), is the list order,
  and two maps are equal exactly when the lists are. The locale \<open>ordered_map\<close> states
  what the clients use of it.
\<close>

type_synonym ('k, 'v) btree = "('k \<times> 'v) list"


definition bt_get :: "('k, 'v) btree \<Rightarrow> 'k \<Rightarrow> 'v option" where
  "bt_get m k = map_of m k"

fun bt_insert :: "'k::linorder \<Rightarrow> 'v \<Rightarrow> ('k, 'v) btree \<Rightarrow> ('k, 'v) btree" where
  "bt_insert k v [] = [(k, v)]"
| "bt_insert k v ((k', v') # m) =
     (if k < k' then (k, v) # (k', v') # m
      else if k = k' then (k, v) # m
      else (k', v') # bt_insert k v m)"

definition bt_remove :: "'k \<Rightarrow> ('k, 'v) btree \<Rightarrow> ('k, 'v) btree" where
  "bt_remove k m = filter (\<lambda>e. fst e \<noteq> k) m"

text \<open>An update through \<^verbatim>\<open>get_mut\<close>.\<close>

definition bt_modify :: "'k \<Rightarrow> ('v \<Rightarrow> 'v) \<Rightarrow> ('k, 'v) btree \<Rightarrow> ('k, 'v) btree" where
  "bt_modify k f m = map (\<lambda>(k', v). (k', if k' = k then f v else v)) m"

definition bt_contains :: "('k, 'v) btree \<Rightarrow> 'k \<Rightarrow> bool" where
  "bt_contains m k = (bt_get m k \<noteq> None)"

definition bt_values :: "('k, 'v) btree \<Rightarrow> 'v list" where
  "bt_values m = map snd m"

definition bt_keys :: "('k, 'v) btree \<Rightarrow> 'k list" where
  "bt_keys m = map fst m"

definition bt_wf :: "('k::linorder, 'v) btree \<Rightarrow> bool" where
  "bt_wf m = sorted_wrt (<) (map fst m)"

subsection \<open>Laws\<close>

lemma bt_wf_empty [simp]: "bt_wf []"
  by (simp add: bt_wf_def)

lemma bt_wf_Cons [simp]: "bt_wf ((k, v) # m) \<longleftrightarrow> (\<forall>e \<in> set m. k < fst e) \<and> bt_wf m"
  by (auto simp: bt_wf_def)

lemma bt_get_empty [simp]: "bt_get [] k = None"
  by (simp add: bt_get_def)

lemma bt_get_Cons: "bt_get ((k, v) # m) x = (if x = k then Some v else bt_get m x)"
  by (simp add: bt_get_def)

lemma bt_get_insert [simp]:
  "bt_get (bt_insert k v m) x = (if x = k then Some v else bt_get m x)"
  by (induction k v m rule: bt_insert.induct) (auto simp: bt_get_Cons)

lemma fst_set_bt_insert: "fst ` set (bt_insert k v m) = insert k (fst ` set m)"
  by (induction k v m rule: bt_insert.induct) auto

lemma bt_wf_insert [simp]: "bt_wf m \<Longrightarrow> bt_wf (bt_insert k v m)"
proof (induction k v m rule: bt_insert.induct)
  case (1 k v)
  show ?case by simp
next
  case (2 k v k' v' m)
  have "fst ` set (bt_insert k v m) = insert k (fst ` set m)"
    by (rule fst_set_bt_insert)
  then have "\<forall>e \<in> set (bt_insert k v m). k' < fst e" if "k' < k"
    using 2(2) that by (metis bt_wf_Cons image_iff insert_iff)
  with 2 show ?case by fastforce
qed

lemma bt_get_remove [simp]: "bt_get (bt_remove k m) x = (if x = k then None else bt_get m x)"
  by (induction m) (auto simp: bt_remove_def bt_get_Cons)

lemma bt_wf_remove [simp]: "bt_wf m \<Longrightarrow> bt_wf (bt_remove k m)"
  by (induction m) (auto simp: bt_remove_def)

lemma bt_get_modify [simp]:
  "bt_get (bt_modify k f m) x = (if x = k then map_option f (bt_get m x) else bt_get m x)"
  by (induction m) (auto simp: bt_modify_def bt_get_Cons)

lemma bt_wf_modify [simp]: "bt_wf (bt_modify k f m) = bt_wf m"
  by (simp add: bt_wf_def bt_modify_def comp_def case_prod_beta)

lemma length_bt_modify [simp]: "length (bt_modify k f m) = length m"
  by (simp add: bt_modify_def)

lemma bt_keys_modify [simp]: "bt_keys (bt_modify k f m) = bt_keys m"
  by (simp add: bt_keys_def bt_modify_def case_prod_beta)

lemma bt_get_Some_in: "bt_get m k = Some v \<Longrightarrow> (k, v) \<in> set m"
  by (simp add: bt_get_def map_of_SomeD)

lemma bt_get_SomeI: "bt_wf m \<Longrightarrow> (k, v) \<in> set m \<Longrightarrow> bt_get m k = Some v"
  by (induction m) (force simp: bt_get_Cons)+

lemma bt_get_iff: "bt_wf m \<Longrightarrow> bt_get m k = Some v \<longleftrightarrow> (k, v) \<in> set m"
  using bt_get_SomeI bt_get_Some_in by metis

lemma set_bt_values: "bt_wf m \<Longrightarrow> v \<in> set (bt_values m) \<longleftrightarrow> (\<exists>k. bt_get m k = Some v)"
  by (force simp: bt_values_def bt_get_iff)

lemma in_bt_values: "bt_get m k = Some v \<Longrightarrow> v \<in> set (bt_values m)"
  by (force simp: bt_values_def dest: bt_get_Some_in)

lemma set_bt_keys: "set (bt_keys m) = {k. bt_get m k \<noteq> None}"
  by (auto simp: bt_keys_def bt_get_def map_of_eq_None_iff)

lemma distinct_bt_keys: "bt_wf m \<Longrightarrow> distinct (bt_keys m)"
  by (simp add: bt_wf_def bt_keys_def strict_sorted_iff)

lemma bt_remove_absent: "bt_get m k = None \<Longrightarrow> bt_remove k m = m"
  by (auto simp: bt_remove_def bt_get_def map_of_eq_None_iff filter_id_conv)

lemma length_bt_insert: "bt_wf m \<Longrightarrow>
  length (bt_insert k v m) = (if bt_contains m k then length m else Suc (length m))"
proof (induction k v m rule: bt_insert.induct)
  case (1 k v)
  show ?case by (simp add: bt_contains_def)
next
  case (2 k v k' v' m)
  have "bt_get m k = None" if "k < k'"
  proof (rule ccontr)
    assume "bt_get m k \<noteq> None"
    then obtain w where "(k, w) \<in> set m" by (auto dest: bt_get_Some_in)
    with 2(2) that show False by (auto dest: less_asym)
  qed
  with 2 show ?case
    by (auto simp: bt_contains_def bt_get_Cons)
qed

lemma bt_remove_subset: "set (bt_remove k m) \<subseteq> set m"
  by (auto simp: bt_remove_def)

lemma length_bt_remove_le: "length (bt_remove k m) \<le> length m"
  by (simp add: bt_remove_def)

lemma bt_keys_remove: "set (bt_keys (bt_remove k m)) = set (bt_keys m) - {k}"
  by (auto simp: bt_keys_def bt_remove_def)

lemma bt_wf_filter: "bt_wf m \<Longrightarrow> bt_wf (filter P m)"
  by (induction m) auto

text \<open>Two well-formed maps with the same lookups are the same list.\<close>

lemma bt_eqI:
  assumes "bt_wf m" and "bt_wf m'" and "\<And>k. bt_get m k = bt_get m' k"
  shows "m = m'"
proof (rule map_sorted_distinct_set_unique [of fst])
  have eq: "set m = set m'"
    using assms by (metis bt_get_iff subrelI subset_antisym)
  show "inj_on fst (set m \<union> set m')"
    using eq assms(1) by (metis bt_wf_def distinct_map strict_sorted_iff sup.idem)
  show "sorted (map fst m)" "sorted (map fst m')" "distinct (map fst m)" "distinct (map fst m')"
    using assms(1,2) by (auto simp: bt_wf_def strict_sorted_iff)
  show "set m = set m'" by (rule eq)
qed

lemma bt_remove_insert_fresh:
  "bt_wf m \<Longrightarrow> bt_get m k = None \<Longrightarrow> bt_remove k (bt_insert k v m) = m"
  by (rule bt_eqI) auto

subsection \<open>The interface the clients use\<close>

locale ordered_map =
  fixes empty :: "'m"
    and get :: "'m \<Rightarrow> 'k::linorder \<Rightarrow> 'v option"
    and ins :: "'k \<Rightarrow> 'v \<Rightarrow> 'm \<Rightarrow> 'm"
    and del :: "'k \<Rightarrow> 'm \<Rightarrow> 'm"
    and vals :: "'m \<Rightarrow> 'v list"
    and wf :: "'m \<Rightarrow> bool"
  assumes get_empty: "get empty k = None"
    and get_ins: "get (ins k v m) x = (if x = k then Some v else get m x)"
    and get_del: "get (del k m) x = (if x = k then None else get m x)"
    and wf_empty: "wf empty"
    and wf_ins: "wf m \<Longrightarrow> wf (ins k v m)"
    and wf_del: "wf m \<Longrightarrow> wf (del k m)"
    and vals_get: "wf m \<Longrightarrow> v \<in> set (vals m) \<longleftrightarrow> (\<exists>k. get m k = Some v)"
begin

lemma vals_ins:
  assumes "wf m"
  shows "set (vals (ins k v m)) = insert v {w. \<exists>x. x \<noteq> k \<and> get m x = Some w}"
  using assms by (auto simp: vals_get wf_ins get_ins split: if_splits)

lemma vals_ins_fresh:
  assumes "wf m" and "get m k = None"
  shows "set (vals (ins k v m)) = insert v (set (vals m))"
proof -
  have "x \<noteq> k" if "get m x = Some w" for x w
    using that assms(2) by auto
  then have "{w. \<exists>x. x \<noteq> k \<and> get m x = Some w} = set (vals m)"
    using vals_get [OF assms(1)] by (auto simp: set_eq_iff)
  then show ?thesis
    using vals_ins [OF assms(1)] by simp
qed

lemma vals_del:
  assumes "wf m"
  shows "set (vals (del k m)) = {w. \<exists>x. x \<noteq> k \<and> get m x = Some w}"
  using assms by (auto simp: vals_get wf_del get_del split: if_splits)

lemma del_ins_get:
  "get (del k (ins k v m)) x = (if x = k then None else get m x)"
  by (simp add: get_ins get_del)

end

interpretation bt: ordered_map "[]" bt_get bt_insert bt_remove bt_values bt_wf
  by unfold_locales (auto simp: set_bt_values)

end
