(* ===== verification/Ids.thy ===== *)
theory Ids
  imports Ordered_Map
begin

unbundle bit_operations_syntax

text \<open>
  Graph identifiers (\<^verbatim>\<open>crates/pw-graph-core/src/id.rs\<close>): the newtypes over \<^verbatim>\<open>u64\<close>
  with their derived order, and the namespace byte that says which native backend owns a
  resource. \<^verbatim>\<open>encode_backend_id\<close> is modelled as a release build runs it: the debug
  assertion that a native id fits in 56 bits is the hypothesis \<open>fits_local\<close> where a
  property needs it.
\<close>

subsection \<open>The id newtypes\<close>

datatype node_id = NodeId (node_raw: u64)
datatype port_id = PortId (port_raw: u64)
datatype link_id = LinkId (link_raw: u64)

instantiation node_id :: linorder
begin
definition less_eq_node_id :: "node_id \<Rightarrow> node_id \<Rightarrow> bool" where
  "less_eq_node_id a b = (node_raw a \<le> node_raw b)"
definition less_node_id :: "node_id \<Rightarrow> node_id \<Rightarrow> bool" where
  "less_node_id a b = (node_raw a < node_raw b)"
instance
  by standard (auto simp: less_eq_node_id_def less_node_id_def intro: node_id.expand)
end

instantiation port_id :: linorder
begin
definition less_eq_port_id :: "port_id \<Rightarrow> port_id \<Rightarrow> bool" where
  "less_eq_port_id a b = (port_raw a \<le> port_raw b)"
definition less_port_id :: "port_id \<Rightarrow> port_id \<Rightarrow> bool" where
  "less_port_id a b = (port_raw a < port_raw b)"
instance
  by standard (auto simp: less_eq_port_id_def less_port_id_def intro: port_id.expand)
end

instantiation link_id :: linorder
begin
definition less_eq_link_id :: "link_id \<Rightarrow> link_id \<Rightarrow> bool" where
  "less_eq_link_id a b = (link_raw a \<le> link_raw b)"
definition less_link_id :: "link_id \<Rightarrow> link_id \<Rightarrow> bool" where
  "less_link_id a b = (link_raw a < link_raw b)"
instance
  by standard (auto simp: less_eq_link_id_def less_link_id_def intro: link_id.expand)
end

text \<open>The derived \<^verbatim>\<open>Default\<close> of an id and its \<^verbatim>\<open>Display\<close>.\<close>

definition port_id_default :: port_id where
  "port_id_default = PortId 0"

definition show_node_id :: "node_id \<Rightarrow> string" where
  "show_node_id n = show_word (node_raw n)"

definition show_port_id :: "port_id \<Rightarrow> string" where
  "show_port_id p = show_word (port_raw p)"

definition show_link_id :: "link_id \<Rightarrow> string" where
  "show_link_id l = show_word (link_raw l)"

lemmas id_order_defs =
  less_eq_node_id_def less_node_id_def less_eq_port_id_def less_port_id_def
  less_eq_link_id_def less_link_id_def

subsection \<open>Backends and namespaces\<close>

datatype backend_kind =
  BK_PipeWire | BK_AlsaMidi | BK_WindowsAudio | BK_WindowsMidi | BK_Demo

datatype backend_namespace =
  NS_Unknown | NS_PipeWire | NS_AlsaMidi | NS_WindowsAudio | NS_WindowsMidi | NS_Effect | NS_Demo

fun backend_kind_as_str :: "backend_kind \<Rightarrow> string" where
  "backend_kind_as_str BK_PipeWire = ''pipewire''"
| "backend_kind_as_str BK_AlsaMidi = ''alsa_midi''"
| "backend_kind_as_str BK_WindowsAudio = ''windows_audio''"
| "backend_kind_as_str BK_WindowsMidi = ''windows_midi''"
| "backend_kind_as_str BK_Demo = ''demo''"

fun kind_namespace :: "backend_kind \<Rightarrow> backend_namespace" where
  "kind_namespace BK_PipeWire = NS_PipeWire"
| "kind_namespace BK_AlsaMidi = NS_AlsaMidi"
| "kind_namespace BK_WindowsAudio = NS_WindowsAudio"
| "kind_namespace BK_WindowsMidi = NS_WindowsMidi"
| "kind_namespace BK_Demo = NS_Demo"

text \<open>The \<^verbatim>\<open>repr(u8)\<close> discriminant, read by \<^verbatim>\<open>namespace as u8\<close>.\<close>

fun namespace_byte :: "backend_namespace \<Rightarrow> u8" where
  "namespace_byte NS_Unknown = 0"
| "namespace_byte NS_PipeWire = 1"
| "namespace_byte NS_AlsaMidi = 2"
| "namespace_byte NS_WindowsAudio = 3"
| "namespace_byte NS_WindowsMidi = 4"
| "namespace_byte NS_Effect = 5"
| "namespace_byte NS_Demo = 6"

fun namespace_backend_kind :: "backend_namespace \<Rightarrow> backend_kind option" where
  "namespace_backend_kind NS_PipeWire = Some BK_PipeWire"
| "namespace_backend_kind NS_AlsaMidi = Some BK_AlsaMidi"
| "namespace_backend_kind NS_WindowsAudio = Some BK_WindowsAudio"
| "namespace_backend_kind NS_WindowsMidi = Some BK_WindowsMidi"
| "namespace_backend_kind NS_Demo = Some BK_Demo"
| "namespace_backend_kind NS_Unknown = None"
| "namespace_backend_kind NS_Effect = None"

definition backend_shift :: nat where
  "backend_shift = 56"

definition local_id_mask :: u64 where
  "local_id_mask = 0x00FFFFFFFFFFFFFF"

definition legacy_alsa_id_flag :: u64 where
  "legacy_alsa_id_flag = push_bit 63 1"

definition fits_local :: "u64 \<Rightarrow> bool" where
  "fits_local x = (x AND NOT local_id_mask = 0)"

definition encode_backend_id :: "backend_namespace \<Rightarrow> u64 \<Rightarrow> u64" where
  "encode_backend_id ns native =
     push_bit backend_shift (ucast (namespace_byte ns)) OR (native AND local_id_mask)"

definition namespace_bits :: "u64 \<Rightarrow> u8" where
  "namespace_bits x = ucast (drop_bit backend_shift x)"

definition decode_backend_namespace :: "u64 \<Rightarrow> backend_namespace" where
  "decode_backend_namespace x =
     (let b = namespace_bits x in
      if b = 1 then NS_PipeWire
      else if b = 2 then NS_AlsaMidi
      else if b = 3 then NS_WindowsAudio
      else if b = 4 then NS_WindowsMidi
      else if b = 5 then NS_Effect
      else if b = 6 then NS_Demo
      else if b = 0x80 then NS_AlsaMidi
      else NS_Unknown)"

definition decode_backend_local_id :: "u64 \<Rightarrow> u64" where
  "decode_backend_local_id x =
     (if namespace_bits x = 0x80 then x AND NOT legacy_alsa_id_flag else x AND local_id_mask)"

definition backend_for_id :: "u64 \<Rightarrow> backend_kind option" where
  "backend_for_id x =
     (case namespace_backend_kind (decode_backend_namespace x) of
        Some k \<Rightarrow> Some k
      | None \<Rightarrow> if x \<noteq> 0 \<and> drop_bit backend_shift x = 0 then Some BK_PipeWire else None)"

definition backend_for_node :: "node_id \<Rightarrow> backend_kind option" where
  "backend_for_node n = backend_for_id (node_raw n)"

definition backend_for_port :: "port_id \<Rightarrow> backend_kind option" where
  "backend_for_port p = backend_for_id (port_raw p)"

definition backend_for_link :: "link_id \<Rightarrow> backend_kind option" where
  "backend_for_link l = backend_for_id (link_raw l)"

subsection \<open>Bit-level facts\<close>

lemma local_id_mask_eq: "local_id_mask = mask 56"
  by (simp add: local_id_mask_def mask_eq_exp_minus_1)

lemma namespace_byte_small: "namespace_byte ns < 7"
  by (cases ns) simp_all

lemma bit_ucast_byte:
  "bit (ucast (b :: u8) :: u64) n \<longleftrightarrow> n < 8 \<and> bit b n"
  by (auto simp: bit_ucast_iff dest: bit_imp_le_length)

lemma drop_encode: "drop_bit 56 (encode_backend_id ns x) = ucast (namespace_byte ns)"
  by (rule bit_word_eqI)
     (auto simp: encode_backend_id_def backend_shift_def local_id_mask_eq bit_simps
       bit_ucast_byte dest: bit_imp_le_length)

lemma mask_encode: "encode_backend_id ns x AND local_id_mask = x AND local_id_mask"
  by (rule bit_word_eqI)
     (auto simp: encode_backend_id_def backend_shift_def local_id_mask_eq bit_simps)

lemma namespace_bits_encode: "namespace_bits (encode_backend_id ns x) = namespace_byte ns"
  by (cases ns) (simp_all add: namespace_bits_def backend_shift_def drop_encode)

lemma fits_local_iff: "fits_local x \<longleftrightarrow> x AND local_id_mask = x"
proof
  assume "fits_local x"
  then have "\<not> bit (x AND NOT (mask 56)) n" for n
    by (simp add: fits_local_def local_id_mask_eq)
  then show "x AND local_id_mask = x"
    by (intro bit_word_eqI) (auto simp: local_id_mask_eq bit_simps)
next
  assume "x AND local_id_mask = x"
  then show "fits_local x"
    unfolding fits_local_def by (metis and.assoc and.right_idem bit.conj_cancel_right bit.conj_zero_right)
qed

subsection \<open>Properties\<close>

lemma decode_namespace_encode:
  "decode_backend_namespace (encode_backend_id ns x) = ns"
  by (cases ns) (simp_all add: decode_backend_namespace_def namespace_bits_encode Let_def)

lemma decode_local_encode:
  "decode_backend_local_id (encode_backend_id ns x) = x AND local_id_mask"
proof -
  have "namespace_byte ns \<noteq> 0x80"
    by (cases ns) simp_all
  then show ?thesis
    by (simp add: decode_backend_local_id_def namespace_bits_encode mask_encode)
qed

text \<open>
  An identifier encoded for a namespace decodes to exactly that namespace and, when the
  native id fits the 56 local bits, to exactly that native id; so encoding is injective in
  both arguments.
\<close>

lemma encode_decode_roundtrip:
  assumes "fits_local x"
  shows "decode_backend_namespace (encode_backend_id ns x) = ns
    \<and> decode_backend_local_id (encode_backend_id ns x) = x
    \<and> (\<forall>ns' y. fits_local y \<and> encode_backend_id ns' y = encode_backend_id ns x
         \<longrightarrow> ns' = ns \<and> y = x)"
  using assms by (metis decode_local_encode decode_namespace_encode fits_local_iff)

text \<open>
  Ownership of an encoded identifier. A namespace with a backend routes to that backend
  whatever the native id; the reserved effect namespace routes nowhere; the unknown
  namespace routes to PipeWire exactly for a non-zero local part, the raw identifiers of
  releases before namespaces; and the legacy ALSA identifiers (high byte 0x80) route to ALSA.
\<close>

lemma backend_for_encoded_id:
  "backend_for_id (encode_backend_id (kind_namespace k) x) = Some k
    \<and> backend_for_id (encode_backend_id NS_Effect x) = None
    \<and> backend_for_id (encode_backend_id NS_Unknown x) =
        (if x AND local_id_mask = 0 then None else Some BK_PipeWire)
    \<and> backend_for_id (legacy_alsa_id_flag OR (x AND local_id_mask)) = Some BK_AlsaMidi"
proof (intro conjI)
  show "backend_for_id (encode_backend_id (kind_namespace k) x) = Some k"
    by (cases k) (simp_all add: backend_for_id_def decode_namespace_encode)
  show "backend_for_id (encode_backend_id NS_Effect x) = None"
    by (simp add: backend_for_id_def decode_namespace_encode drop_encode backend_shift_def)
  have "encode_backend_id NS_Unknown x = x AND local_id_mask"
    by (simp add: encode_backend_id_def)
  then show "backend_for_id (encode_backend_id NS_Unknown x) =
      (if x AND local_id_mask = 0 then None else Some BK_PipeWire)"
    using drop_encode [of NS_Unknown x]
    by (simp add: backend_for_id_def decode_backend_namespace_def namespace_bits_def
        backend_shift_def)
  have "drop_bit 56 (legacy_alsa_id_flag OR (x AND local_id_mask)) = 0x80"
  proof -
    have "drop_bit 56 legacy_alsa_id_flag = 0x80"
      by (simp add: legacy_alsa_id_flag_def)
    moreover have "drop_bit 56 (x AND local_id_mask) = 0"
      by (rule bit_word_eqI) (auto simp: local_id_mask_eq bit_simps)
    ultimately show ?thesis by (simp add: drop_bit_or)
  qed
  then show "backend_for_id (legacy_alsa_id_flag OR (x AND local_id_mask)) = Some BK_AlsaMidi"
    by (simp add: backend_for_id_def decode_backend_namespace_def namespace_bits_def
        backend_shift_def)
qed

end
