(* ===== verification/Endpoint.thy ===== *)
theory Endpoint
  imports Ids
begin

text \<open>
  The data of the graph model (\<^verbatim>\<open>crates/pw-graph-core/src\<close>: \<^verbatim>\<open>endpoint.rs\<close>,
  \<^verbatim>\<open>identity.rs\<close>, \<^verbatim>\<open>node.rs\<close>, \<^verbatim>\<open>appearance.rs\<close>, \<^verbatim>\<open>relay.rs\<close>) and the identity
  matching of \<^verbatim>\<open>matching.rs\<close>: how well a node fits a saved endpoint selector. Strings
  are byte strings (UTF-8), the strings the code compares byte-wise.
\<close>

subsection \<open>Enums\<close>

datatype direction = Source | Sink

fun is_source :: "direction \<Rightarrow> bool" where
  "is_source Source = True"
| "is_source Sink = False"

fun is_sink :: "direction \<Rightarrow> bool" where
  "is_sink Sink = True"
| "is_sink Source = False"

datatype node_type =
  NT_PipeWire | NT_Effect | NT_Recorder | NT_AlsaMidi | NT_WindowsAudioEndpoint
| NT_WindowsAudioSession | NT_WindowsMidi | NT_Unknown

datatype port_type = PT_Audio | PT_Video | PT_MidiJack | PT_MidiAlsa | PT_Unknown

datatype endpoint_match_mode = Instance | Application | NamePattern

fun port_type_color_hex :: "port_type \<Rightarrow> string" where
  "port_type_color_hex PT_Audio = ''#57c785''"
| "port_type_color_hex PT_Video = ''#4e9de6''"
| "port_type_color_hex PT_MidiJack = ''#e35d6a''"
| "port_type_color_hex PT_MidiAlsa = ''#a979d1''"
| "port_type_color_hex PT_Unknown = ''#a5a5a5''"

subsection \<open>Identity\<close>

record node_identity =
  application_id :: "string option"
  application_name :: "string option"
  process_binary :: "string option"
  ident_node_name :: string
  description :: "string option"
  media_role :: "string option"
  media_name :: "string option"
  media_class :: string
  client_name :: "string option"
  client_api :: "string option"
  client_id :: "u32 option"
  object_path :: "string option"
  object_serial :: "u64 option"
  ident_effect_instance_id :: "string option"

definition default_identity :: node_identity where
  "default_identity =
     \<lparr>application_id = None, application_name = None, process_binary = None,
      ident_node_name = '''', description = None, media_role = None, media_name = None,
      media_class = '''', client_name = None, client_api = None, client_id = None,
      object_path = None, object_serial = None, ident_effect_instance_id = None\<rparr>"

definition identity_with_node_name :: "string \<Rightarrow> node_identity" where
  "identity_with_node_name name = default_identity\<lparr>ident_node_name := name\<rparr>"

definition has_application_identity :: "node_identity \<Rightarrow> bool" where
  "has_application_identity i =
     (application_id i \<noteq> None \<or> process_binary i \<noteq> None \<or> application_name i \<noteq> None)"

definition identity_is_empty :: "node_identity \<Rightarrow> bool" where
  "identity_is_empty i =
     (application_id i = None \<and> application_name i = None \<and> process_binary i = None
      \<and> ident_node_name i = '''' \<and> description i = None \<and> media_role i = None
      \<and> media_name i = None \<and> client_name i = None \<and> client_api i = None
      \<and> client_id i = None \<and> object_path i = None \<and> object_serial i = None
      \<and> ident_effect_instance_id i = None)"

subsection \<open>Nodes, ports, links\<close>

record node =
  node_ident :: node_id
  node_name :: string
  node_kind :: node_type
  node_serial :: "u64 option"
  effect_instance_id :: "string option"
  identity :: node_identity
  icon_name :: "string option"
  node_ports :: "port_id list"
  node_position :: position

record port =
  port_ident :: port_id
  port_node :: node_id
  port_name :: string
  port_channel :: "string option"
  port_direction :: direction
  port_kind :: port_type

record link =
  link_ident :: link_id
  output_port :: port_id
  input_port :: port_id

definition new_node :: "node_id \<Rightarrow> string \<Rightarrow> node_type \<Rightarrow> node" where
  "new_node i name kind =
     \<lparr>node_ident = i, node_name = name, node_kind = kind, node_serial = None,
      effect_instance_id = None, identity = identity_with_node_name name,
      icon_name = None, node_ports = [], node_position = (0, 0)\<rparr>"

definition with_serial :: "u64 \<Rightarrow> node \<Rightarrow> node" where
  "with_serial s n =
     n\<lparr>node_serial := Some s, identity := (identity n)\<lparr>object_serial := Some s\<rparr>\<rparr>"

definition with_effect_instance :: "string \<Rightarrow> node \<Rightarrow> node" where
  "with_effect_instance i n =
     n\<lparr>effect_instance_id := Some i,
       identity := (identity n)\<lparr>ident_effect_instance_id := Some i\<rparr>\<rparr>"

definition with_identity :: "node_identity \<Rightarrow> node \<Rightarrow> node" where
  "with_identity i n =
     n\<lparr>node_serial := object_serial i,
       effect_instance_id := ident_effect_instance_id i,
       identity := (if ident_node_name i = '''' then i\<lparr>ident_node_name := node_name n\<rparr> else i)\<rparr>"

text \<open>
  \<^verbatim>\<open>matching_identity\<close>: the identity with the legacy fields of the node mirrored into it.
\<close>

definition matching_identity :: "node \<Rightarrow> node_identity" where
  "matching_identity n =
     (let i = identity n;
          i = (if ident_node_name i = '''' then i\<lparr>ident_node_name := node_name n\<rparr> else i);
          i = (if object_serial i = None then i\<lparr>object_serial := node_serial n\<rparr> else i);
          i = (if ident_effect_instance_id i = None
               then i\<lparr>ident_effect_instance_id := effect_instance_id n\<rparr> else i)
      in i)"

definition ascii_lower :: "char \<Rightarrow> char" where
  "ascii_lower c =
     (if 65 \<le> (of_char c :: nat) \<and> (of_char c :: nat) \<le> 90 then char_of ((of_char c :: nat) + 32)
      else c)"

definition eq_ignore_ascii_case :: "string \<Rightarrow> string \<Rightarrow> bool" where
  "eq_ignore_ascii_case a b = (map ascii_lower a = map ascii_lower b)"

definition starts_with :: "string \<Rightarrow> string \<Rightarrow> bool" where
  "starts_with s pat = (take (length pat) s = pat)"

definition is_camera :: "node \<Rightarrow> bool" where
  "is_camera n =
     ((case media_role (identity n) of
         None \<Rightarrow> False | Some role \<Rightarrow> eq_ignore_ascii_case role ''camera'')
      \<or> eq_ignore_ascii_case (media_class (identity n)) ''video/source''
      \<or> starts_with (node_name n) ''v4l2_input.''
      \<or> starts_with (node_name n) ''libcamera_input.'')"

definition new_port :: "port_id \<Rightarrow> node_id \<Rightarrow> string \<Rightarrow> direction \<Rightarrow> port_type \<Rightarrow> port" where
  "new_port i n name d t =
     \<lparr>port_ident = i, port_node = n, port_name = name, port_channel = None,
      port_direction = d, port_kind = t\<rparr>"

definition with_channel :: "string \<Rightarrow> port \<Rightarrow> port" where
  "with_channel c p = p\<lparr>port_channel := Some c\<rparr>"

subsection \<open>Selectors and keys\<close>

record endpoint_selector =
  sel_node_type :: node_type
  sel_identity :: node_identity
  sel_port_name :: string
  sel_channel :: "string option"
  sel_direction :: direction
  sel_port_type :: port_type
  sel_match_mode :: endpoint_match_mode

record port_key =
  key_node_name :: string
  key_node_serial :: "u64 option"
  key_node_type :: node_type
  key_port_name :: string
  key_channel :: "string option"
  key_direction :: direction
  key_port_type :: port_type
  key_identity :: "node_identity option"
  key_match_mode :: endpoint_match_mode

definition selector :: "port_key \<Rightarrow> endpoint_selector" where
  "selector k =
     \<lparr>sel_node_type = key_node_type k,
      sel_identity =
        (case key_identity k of
           Some i \<Rightarrow> i
         | None \<Rightarrow> default_identity\<lparr>ident_node_name := key_node_name k,
                                     object_serial := key_node_serial k\<rparr>),
      sel_port_name = key_port_name k,
      sel_channel = key_channel k,
      sel_direction = key_direction k,
      sel_port_type = key_port_type k,
      sel_match_mode = key_match_mode k\<rparr>"

datatype endpoint_resolution =
  Exact port_id | UniqueFallback port_id | Ambiguous "port_id list" | Missing

fun resolution_port_id :: "endpoint_resolution \<Rightarrow> port_id option" where
  "resolution_port_id (Exact i) = Some i"
| "resolution_port_id (UniqueFallback i) = Some i"
| "resolution_port_id (Ambiguous _) = None"
| "resolution_port_id Missing = None"

lemma resolution_port_id_Some:
  "resolution_port_id r = Some i \<longleftrightarrow> r = Exact i \<or> r = UniqueFallback i"
  by (cases r) auto

subsection \<open>The relay port rename\<close>

definition relay_source_node_name :: string where
  "relay_source_node_name = ''qpwgraph-rs.relay.source''"

definition relay_sink_node_name :: string where
  "relay_sink_node_name = ''qpwgraph-rs.relay.sink''"

definition legacy_relay_port_name :: "string \<Rightarrow> string \<Rightarrow> direction \<Rightarrow> string option" where
  "legacy_relay_port_name node_nm port_nm d =
     (if \<not> (port_nm = ''FL'' \<or> port_nm = ''FR'') then None
      else if node_nm = relay_source_node_name \<and> d = Source then
        (if port_nm = ''FL'' then Some ''capture_FL'' else Some ''capture_FR'')
      else if node_nm = relay_sink_node_name \<and> d = Sink then
        (if port_nm = ''FL'' then Some ''playback_FL'' else Some ''playback_FR'')
      else None)"

subsection \<open>Identity confidence\<close>

text \<open>
  \<^verbatim>\<open>endpoint_match_score\<close>: a score fits in the \<^verbatim>\<open>u16\<close> of the code (\<open>match_score_bound\<close>),
  so it is a natural number here.
\<close>

definition name_pattern_prefix :: "string \<Rightarrow> string" where
  "name_pattern_prefix s = (if s \<noteq> [] \<and> last s = CHR ''*'' then butlast s else s)"

definition application_id_score ::
  "endpoint_match_mode \<Rightarrow> string \<Rightarrow> node_identity \<Rightarrow> node_identity \<Rightarrow> nat option" where
  "application_id_score mode app actual expected =
    (if application_id actual \<noteq> Some app then None
     else if mode = Instance then
       Some (800
         + (if ident_node_name expected \<noteq> ''''
               \<and> ident_node_name actual = ident_node_name expected then 70 else 0)
         + (if media_role expected \<noteq> None
               \<and> media_role expected = media_role actual then 20 else 0)
         + (if object_serial expected \<noteq> None
               \<and> object_serial expected = object_serial actual then 10 else 0))
     else Some 800)"

definition process_score ::
  "endpoint_match_mode \<Rightarrow> node_identity \<Rightarrow> node_identity \<Rightarrow> nat option" where
  "process_score mode actual expected =
    (if process_binary expected \<noteq> None
        \<and> process_binary expected \<noteq> process_binary actual then None
     else if application_name expected \<noteq> None
        \<and> application_name expected \<noteq> application_name actual then None
     else
       Some (620
         + (if media_role expected \<noteq> None
               \<and> media_role expected = media_role actual then 30 else 0)
         + (if mode = Instance \<and> ident_node_name expected \<noteq> ''''
               \<and> ident_node_name actual = ident_node_name expected then 30 else 0)))"

definition name_matches ::
  "endpoint_match_mode \<Rightarrow> string \<Rightarrow> string \<Rightarrow> string \<Rightarrow> bool" where
  "name_matches mode expected node_nm actual =
    (case mode of
       NamePattern \<Rightarrow>
         starts_with node_nm (name_pattern_prefix expected)
         \<or> starts_with actual (name_pattern_prefix expected)
     | Instance \<Rightarrow> node_nm = expected \<or> actual = expected
     | Application \<Rightarrow> node_nm = expected \<or> actual = expected)"

definition session_or_name_score ::
  "endpoint_selector \<Rightarrow> string \<Rightarrow> node_identity \<Rightarrow> node_identity \<Rightarrow> nat option" where
  "session_or_name_score sel node_nm actual expected =
    (if object_serial expected \<noteq> None
        \<and> object_serial expected = object_serial actual
        \<and> (sel_node_type sel \<noteq> NT_PipeWire
           \<or> ident_node_name expected = ''''
           \<or> ident_node_name expected = ident_node_name actual
           \<or> ident_node_name expected = node_nm) then Some 600
     else if ident_node_name expected = '''' then Some 100
     else if name_matches (sel_match_mode sel) (ident_node_name expected) node_nm
               (ident_node_name actual) then Some 450
     else None)"

definition endpoint_match_score :: "node \<Rightarrow> endpoint_selector \<Rightarrow> nat option" where
  "endpoint_match_score n sel =
    (let actual = matching_identity n; expected = sel_identity sel in
     case ident_effect_instance_id expected of
       Some e \<Rightarrow> (if ident_effect_instance_id actual = Some e then Some 1000 else None)
     | None \<Rightarrow>
       (case application_id expected of
          Some a \<Rightarrow> application_id_score (sel_match_mode sel) a actual expected
        | None \<Rightarrow>
          (if process_binary expected \<noteq> None \<or> application_name expected \<noteq> None
           then process_score (sel_match_mode sel) actual expected
           else session_or_name_score sel (node_name n) actual expected)))"

definition endpoint_identity_basis :: "endpoint_selector \<Rightarrow> string" where
  "endpoint_identity_basis sel =
    (let i = sel_identity sel in
     if ident_effect_instance_id i \<noteq> None then ''effect instance id''
     else if application_id i \<noteq> None then ''application.id''
     else if process_binary i \<noteq> None \<or> application_name i \<noteq> None
       then ''process binary/application name''
     else if object_serial i \<noteq> None then ''object.serial session hint''
     else if sel_match_mode sel = NamePattern then ''name pattern''
     else if ident_node_name i = '''' then ''unqualified selector''
     else ''legacy node name + port name'')"

subsection \<open>Lemmas\<close>

lemma matching_identity_fields:
  "ident_node_name (matching_identity n) =
     (if ident_node_name (identity n) = '''' then node_name n else ident_node_name (identity n))"
  "object_serial (matching_identity n) =
     (if object_serial (identity n) = None then node_serial n else object_serial (identity n))"
  "ident_effect_instance_id (matching_identity n) =
     (if ident_effect_instance_id (identity n) = None then effect_instance_id n
      else ident_effect_instance_id (identity n))"
  "application_id (matching_identity n) = application_id (identity n)"
  "application_name (matching_identity n) = application_name (identity n)"
  "process_binary (matching_identity n) = process_binary (identity n)"
  "media_role (matching_identity n) = media_role (identity n)"
  by (auto simp: matching_identity_def Let_def)

lemma direction_simps [simp]:
  "is_source d \<longleftrightarrow> d = Source" "is_sink d \<longleftrightarrow> d = Sink"
  by (cases d; simp)+

text \<open>
  The highest score a selector can give, per identity tier. A node scores exactly that
  against a selector that carries its own matching identity: the fact that makes a captured
  port key come back to its own port.
\<close>

definition score_cap :: "endpoint_selector \<Rightarrow> nat" where
  "score_cap sel =
    (let e = sel_identity sel; inst = (sel_match_mode sel = Instance) in
     if ident_effect_instance_id e \<noteq> None then 1000
     else if application_id e \<noteq> None then
       800 + (if inst \<and> ident_node_name e \<noteq> '''' then 70 else 0)
           + (if inst \<and> media_role e \<noteq> None then 20 else 0)
           + (if inst \<and> object_serial e \<noteq> None then 10 else 0)
     else if process_binary e \<noteq> None \<or> application_name e \<noteq> None then
       620 + (if media_role e \<noteq> None then 30 else 0)
           + (if inst \<and> ident_node_name e \<noteq> '''' then 30 else 0)
     else if object_serial e \<noteq> None then 600
     else if ident_node_name e = '''' then 100
     else 450)"

lemma application_id_score_le:
  "application_id_score mode app actual e = Some s \<Longrightarrow>
    s \<le> 800 + (if mode = Instance \<and> ident_node_name e \<noteq> '''' then 70 else 0)
           + (if mode = Instance \<and> media_role e \<noteq> None then 20 else 0)
           + (if mode = Instance \<and> object_serial e \<noteq> None then 10 else 0)"
  by (simp add: application_id_score_def del: not_None_eq split: if_splits)

lemma process_score_le:
  "process_score mode actual e = Some s \<Longrightarrow>
    s \<le> 620 + (if media_role e \<noteq> None then 30 else 0)
           + (if mode = Instance \<and> ident_node_name e \<noteq> '''' then 30 else 0)"
  by (simp add: process_score_def del: not_None_eq split: if_splits)

lemma session_or_name_score_le:
  "session_or_name_score sel nm actual e = Some s \<Longrightarrow>
    s \<le> (if object_serial e \<noteq> None then 600 else if ident_node_name e = '''' then 100 else 450)"
  by (simp add: session_or_name_score_def del: not_None_eq split: if_splits)

lemma match_score_le_cap:
  assumes "endpoint_match_score n sel = Some s"
  shows "s \<le> score_cap sel"
proof (cases "ident_effect_instance_id (sel_identity sel)")
  case (Some i)
  with assms show ?thesis
    by (simp add: endpoint_match_score_def score_cap_def Let_def split: if_splits)
next
  case no_effect: None
  show ?thesis
  proof (cases "application_id (sel_identity sel)")
    case (Some a)
    with no_effect assms
    have "application_id_score (sel_match_mode sel) a (matching_identity n) (sel_identity sel)
        = Some s"
      by (simp add: endpoint_match_score_def Let_def)
    from application_id_score_le [OF this] Some no_effect show ?thesis
      by (simp add: score_cap_def Let_def)
  next
    case None
    show ?thesis
    proof (cases "process_binary (sel_identity sel) \<noteq> None
        \<or> application_name (sel_identity sel) \<noteq> None")
      case True
      with None no_effect assms
      have "process_score (sel_match_mode sel) (matching_identity n) (sel_identity sel) = Some s"
        by (simp add: endpoint_match_score_def Let_def)
      from process_score_le [OF this] None True no_effect show ?thesis
        by (simp add: score_cap_def Let_def)
    next
      case False
      with None no_effect assms
      have "session_or_name_score sel (node_name n) (matching_identity n) (sel_identity sel)
          = Some s"
        by (simp add: endpoint_match_score_def Let_def)
      from session_or_name_score_le [OF this] None False no_effect show ?thesis
        by (simp add: score_cap_def Let_def)
    qed
  qed
qed

lemma score_cap_le: "score_cap sel \<le> 1000"
  by (simp add: score_cap_def Let_def)

lemma own_identity_score:
  assumes "sel_identity sel = matching_identity n" and "sel_match_mode sel = Instance"
  shows "endpoint_match_score n sel = Some (score_cap sel)"
proof -
  have "application_id (matching_identity n) = Some a \<Longrightarrow>
      application_id_score Instance a (matching_identity n) (matching_identity n) = Some
       (800 + (if ident_node_name (matching_identity n) \<noteq> '''' then 70 else 0)
            + (if media_role (matching_identity n) \<noteq> None then 20 else 0)
            + (if object_serial (matching_identity n) \<noteq> None then 10 else 0))" for a
    by (simp add: application_id_score_def)
  moreover have "process_score Instance (matching_identity n) (matching_identity n) = Some
       (620 + (if media_role (matching_identity n) \<noteq> None then 30 else 0)
            + (if ident_node_name (matching_identity n) \<noteq> '''' then 30 else 0))"
    by (simp add: process_score_def)
  moreover have "session_or_name_score sel nm (matching_identity n) (matching_identity n) = Some
       (if object_serial (matching_identity n) \<noteq> None then 600
        else if ident_node_name (matching_identity n) = '''' then 100 else 450)" for nm
    using assms(2) by (simp add: session_or_name_score_def name_matches_def)
  ultimately show ?thesis
    using assms by (simp add: endpoint_match_score_def score_cap_def Let_def split: option.split)
qed

text \<open>Equal resolution tiers: at least 800 is a durable identity (effect or application id).\<close>

lemma match_score_tier:
  assumes "endpoint_match_score n sel = Some s" and "800 \<le> s"
  shows "ident_effect_instance_id (sel_identity sel) \<noteq> None
    \<or> application_id (sel_identity sel) \<noteq> None"
proof (rule ccontr)
  assume no: "\<not> ?thesis"
  from match_score_le_cap [OF assms(1)] assms(2) have "800 \<le> score_cap sel" by simp
  with no show False by (simp add: score_cap_def Let_def split: if_splits)
qed

lemma match_score_durable:
  assumes "endpoint_match_score n sel = Some s"
  shows "(\<forall>e. ident_effect_instance_id (sel_identity sel) = Some e \<longrightarrow>
            ident_effect_instance_id (matching_identity n) = Some e)
       \<and> (\<forall>a. ident_effect_instance_id (sel_identity sel) = None
            \<and> application_id (sel_identity sel) = Some a \<longrightarrow>
            application_id (matching_identity n) = Some a \<and> 800 \<le> s)"
  using assms
  by (auto simp: endpoint_match_score_def Let_def application_id_score_def split: if_splits)

end
