(* ===== verification/Graph_Model.thy ===== *)
theory Graph_Model
  imports Endpoint
begin

text \<open>
  The graph and its mutations (\<^verbatim>\<open>crates/pw-graph-core/src/graph.rs\<close>). A mutation through
  \<^verbatim>\<open>&mut self\<close> takes the graph and returns the result together with the graph it leaves,
  so that what an error leaves behind is part of the model. Selector resolution is modelled
  with its filters in the code's order, the stable sort by descending score and the tie
  rule; the lemmas characterise it by the set of candidates.
\<close>

record graph =
  g_nodes :: "(node_id, node) btree"
  g_ports :: "(port_id, port) btree"
  g_links :: "(link_id, link) btree"

definition empty_graph :: graph where
  "empty_graph = \<lparr>g_nodes = [], g_ports = [], g_links = []\<rparr>"

datatype graph_error =
  DuplicateNode node_id
| DuplicatePort port_id
| DuplicateLink link_id
| MissingNode node_id
| MissingPort port_id
| PortNodeMismatch port_id node_id node_id
| NotSource port_id
| NotSink port_id
| IncompatiblePorts port_id port_id
| DuplicateConnection port_id port_id
| MissingLink link_id

fun show_graph_error :: "graph_error \<Rightarrow> string" where
  "show_graph_error (DuplicateNode n) = ''node '' @ show_node_id n @ '' already exists''"
| "show_graph_error (DuplicatePort p) = ''port '' @ show_port_id p @ '' already exists''"
| "show_graph_error (DuplicateLink l) = ''link '' @ show_link_id l @ '' already exists''"
| "show_graph_error (MissingNode n) = ''node '' @ show_node_id n @ '' does not exist''"
| "show_graph_error (MissingPort p) = ''port '' @ show_port_id p @ '' does not exist''"
| "show_graph_error (PortNodeMismatch p n m) =
     ''port '' @ show_port_id p @ '' belongs to node '' @ show_node_id n
       @ '', not node '' @ show_node_id m"
| "show_graph_error (NotSource p) = ''source port '' @ show_port_id p @ '' must be a source''"
| "show_graph_error (NotSink p) = ''destination port '' @ show_port_id p @ '' must be a sink''"
| "show_graph_error (IncompatiblePorts p q) =
     ''ports '' @ show_port_id p @ '' and '' @ show_port_id q @ '' are not compatible''"
| "show_graph_error (DuplicateConnection p q) =
     ''ports '' @ show_port_id p @ '' and '' @ show_port_id q @ '' are already linked''"
| "show_graph_error (MissingLink l) = ''link '' @ show_link_id l @ '' does not exist''"

subsection \<open>Lookups\<close>

definition graph_node :: "graph \<Rightarrow> node_id \<Rightarrow> node option" where
  "graph_node g n = bt_get (g_nodes g) n"

definition graph_port :: "graph \<Rightarrow> port_id \<Rightarrow> port option" where
  "graph_port g p = bt_get (g_ports g) p"

definition graph_link :: "graph \<Rightarrow> link_id \<Rightarrow> link option" where
  "graph_link g l = bt_get (g_links g) l"

definition links_for_port :: "graph \<Rightarrow> port_id \<Rightarrow> link list" where
  "links_for_port g p =
     filter (\<lambda>l. output_port l = p \<or> input_port l = p) (bt_values (g_links g))"

subsection \<open>Mutations\<close>

definition add_node :: "node \<Rightarrow> graph \<Rightarrow> (graph_error, unit) result \<times> graph" where
  "add_node n g =
     (if bt_contains (g_nodes g) (node_ident n) then (Inl (DuplicateNode (node_ident n)), g)
      else (Inr (), g\<lparr>g_nodes := bt_insert (node_ident n) n (g_nodes g)\<rparr>))"

definition push_port :: "port_id \<Rightarrow> node \<Rightarrow> node" where
  "push_port p n = (if p \<in> set (node_ports n) then n else n\<lparr>node_ports := node_ports n @ [p]\<rparr>)"

definition add_port :: "port \<Rightarrow> graph \<Rightarrow> (graph_error, unit) result \<times> graph" where
  "add_port p g =
     (case bt_get (g_nodes g) (port_node p) of
        None \<Rightarrow> (Inl (MissingNode (port_node p)), g)
      | Some n \<Rightarrow>
          if bt_contains (g_ports g) (port_ident p) then (Inl (DuplicatePort (port_ident p)), g)
          else (Inr (), g\<lparr>g_nodes := bt_modify (port_node p) (push_port (port_ident p)) (g_nodes g),
                          g_ports := bt_insert (port_ident p) p (g_ports g)\<rparr>))"

definition remove_link :: "link_id \<Rightarrow> graph \<Rightarrow> (graph_error, link) result \<times> graph" where
  "remove_link l g =
     (case bt_get (g_links g) l of
        None \<Rightarrow> (Inl (MissingLink l), g)
      | Some lk \<Rightarrow> (Inr lk, g\<lparr>g_links := bt_remove l (g_links g)\<rparr>))"

definition connected_pair :: "graph \<Rightarrow> port_id \<Rightarrow> port_id \<Rightarrow> bool" where
  "connected_pair g p q =
     list_ex (\<lambda>l. output_port l = p \<and> input_port l = q) (bt_values (g_links g))"

definition add_link ::
  "link_id \<Rightarrow> port_id \<Rightarrow> port_id \<Rightarrow> graph \<Rightarrow> (graph_error, link) result \<times> graph" where
  "add_link l p q g =
     (if bt_contains (g_links g) l then (Inl (DuplicateLink l), g)
      else case bt_get (g_ports g) p of
        None \<Rightarrow> (Inl (MissingPort p), g)
      | Some out \<Rightarrow>
        (case bt_get (g_ports g) q of
           None \<Rightarrow> (Inl (MissingPort q), g)
         | Some inp \<Rightarrow>
           if \<not> is_source (port_direction out) then (Inl (NotSource p), g)
           else if \<not> is_sink (port_direction inp) then (Inl (NotSink q), g)
           else if port_kind out \<noteq> port_kind inp then (Inl (IncompatiblePorts p q), g)
           else if connected_pair g p q then (Inl (DuplicateConnection p q), g)
           else
             (let lk = \<lparr>link_ident = l, output_port = p, input_port = q\<rparr>
              in (Inr lk, g\<lparr>g_links := bt_insert l lk (g_links g)\<rparr>))))"

definition insert_existing_link :: "link \<Rightarrow> graph \<Rightarrow> (graph_error, unit) result \<times> graph" where
  "insert_existing_link lk g =
     (if bt_contains (g_links g) (link_ident lk) then (Inl (DuplicateLink (link_ident lk)), g)
      else if \<not> bt_contains (g_ports g) (output_port lk)
        then (Inl (MissingPort (output_port lk)), g)
      else if \<not> bt_contains (g_ports g) (input_port lk)
        then (Inl (MissingPort (input_port lk)), g)
      else (Inr (), g\<lparr>g_links := bt_insert (link_ident lk) lk (g_links g)\<rparr>))"

subsection \<open>Keys and resolution\<close>

definition graph_port_key :: "graph \<Rightarrow> port_id \<Rightarrow> port_key option" where
  "graph_port_key g p =
     (case graph_port g p of
        None \<Rightarrow> None
      | Some port \<Rightarrow>
        (case graph_node g (port_node port) of
           None \<Rightarrow> None
         | Some n \<Rightarrow> Some
             \<lparr>key_node_name = node_name n,
              key_node_serial = node_serial n,
              key_node_type = node_kind n,
              key_port_name = port_name port,
              key_channel = port_channel port,
              key_direction = port_direction port,
              key_port_type = port_kind port,
              key_identity = Some (matching_identity n),
              key_match_mode = Instance\<rparr>))"

definition application_channel :: "endpoint_selector \<Rightarrow> port \<Rightarrow> bool" where
  "application_channel sel port =
     (sel_match_mode sel \<noteq> NamePattern
      \<and> has_application_identity (sel_identity sel)
      \<and> sel_channel sel \<noteq> None
      \<and> sel_channel sel = port_channel port)"

definition name_candidate :: "endpoint_selector \<Rightarrow> port \<Rightarrow> bool" where
  "name_candidate sel port =
     ((port_name port = sel_port_name sel
       \<or> (case legacy_relay_port_name (ident_node_name (sel_identity sel)) (sel_port_name sel)
                 (sel_direction sel) of
            None \<Rightarrow> False | Some nm \<Rightarrow> port_name port = nm))
      \<or> application_channel sel port)"

definition type_candidate :: "endpoint_selector \<Rightarrow> port \<Rightarrow> bool" where
  "type_candidate sel port =
     (port_kind port = sel_port_type sel \<or> port_kind port = PT_Unknown
      \<or> sel_port_type sel = PT_Unknown)"

definition score_candidate :: "graph \<Rightarrow> endpoint_selector \<Rightarrow> port \<Rightarrow> (nat \<times> port_id) option" where
  "score_candidate g sel port =
     (case graph_node g (port_node port) of
        None \<Rightarrow> None
      | Some n \<Rightarrow>
        if sel_node_type sel \<noteq> NT_Unknown \<and> node_kind n \<noteq> sel_node_type sel then None
        else if port_name port \<noteq> sel_port_name sel
            \<and> node_name n \<noteq> ident_node_name (sel_identity sel)
            \<and> ident_node_name (matching_identity n) \<noteq> ident_node_name (sel_identity sel)
            \<and> \<not> application_channel sel port then None
        else if sel_channel sel \<noteq> None \<and> port_channel port \<noteq> None
            \<and> sel_channel sel \<noteq> port_channel port then None
        else (case endpoint_match_score n sel of
                None \<Rightarrow> None | Some s \<Rightarrow> Some (s, port_ident port)))"

definition candidates :: "graph \<Rightarrow> endpoint_selector \<Rightarrow> (nat \<times> port_id) list" where
  "candidates g sel =
     filter_map (score_candidate g sel)
       (filter (type_candidate sel)
         (filter (\<lambda>port. port_direction port = sel_direction sel)
           (filter (name_candidate sel) (bt_values (g_ports g)))))"

definition resolve_endpoint :: "graph \<Rightarrow> endpoint_selector \<Rightarrow> endpoint_resolution" where
  "resolve_endpoint g sel =
     (let sorted = sort_key (\<lambda>c. - int (fst c)) (candidates g sel) in
      if sorted = [] then Missing
      else
        (let best_score = fst (hd sorted);
             best = map snd (takeWhile (\<lambda>c. fst c = best_score) sorted) in
         if 1 < length best then Ambiguous best
         else if 800 \<le> best_score then Exact (hd best)
         else UniqueFallback (hd best)))"

definition resolve_port_key_result :: "graph \<Rightarrow> port_key \<Rightarrow> endpoint_resolution" where
  "resolve_port_key_result g k = resolve_endpoint g (selector k)"

definition resolve_port_key :: "graph \<Rightarrow> port_key \<Rightarrow> port_id option" where
  "resolve_port_key g k = resolution_port_id (resolve_endpoint g (selector k))"

definition find_link_by_keys :: "graph \<Rightarrow> port_key \<Rightarrow> port_key \<Rightarrow> link option" where
  "find_link_by_keys g out inp =
     (case resolve_port_key g out of
        None \<Rightarrow> None
      | Some p \<Rightarrow>
        (case resolve_port_key g inp of
           None \<Rightarrow> None
         | Some q \<Rightarrow>
             List.find (\<lambda>l. output_port l = p \<and> input_port l = q) (bt_values (g_links g))))"

text \<open>The \<^verbatim>\<open>Debug\<close> rendering of a list of port ids, as the explanation prints it.\<close>

definition debug_port_ids :: "port_id list \<Rightarrow> string" where
  "debug_port_ids ids =
     ''['' @ join '', '' (map (\<lambda>i. ''PortId('' @ show_port_id i @ '')'') ids) @ '']''"

definition endpoint_resolution_explanation :: "graph \<Rightarrow> endpoint_selector \<Rightarrow> string" where
  "endpoint_resolution_explanation g sel =
     (let basis = endpoint_identity_basis sel in
      case resolve_endpoint g sel of
        Exact i \<Rightarrow> ''matched port '' @ show_port_id i @ '' via '' @ basis
      | UniqueFallback i \<Rightarrow> ''matched port '' @ show_port_id i @ '' via fallback '' @ basis
      | Ambiguous ids \<Rightarrow>
          ''ambiguous ('' @ show_nat (length ids) @ '') via '' @ basis @ '': ''
            @ debug_port_ids ids
      | Missing \<Rightarrow> ''missing via '' @ basis)"

end
