(* ===== verification/Graph_Props.thy ===== *)
theory Graph_Props
  imports Graph_Model
begin

text \<open>
  What is true of the graph model: the structural invariant of a graph and its preservation
  by every mutation, the link typing invariant of graphs built through \<^verbatim>\<open>add_link\<close>, the
  exact conditions and effects of each mutation, and the characterisation of selector
  resolution by its candidates.
\<close>

subsection \<open>Structural invariant\<close>

text \<open>
  Every map is ordered and keyed by the ids of its values, every port belongs to a node that
  lists it, no node lists a port twice, and every link joins two known ports.
\<close>

definition graph_wf :: "graph \<Rightarrow> bool" where
  "graph_wf g \<longleftrightarrow>
     bt_wf (g_nodes g) \<and> bt_wf (g_ports g) \<and> bt_wf (g_links g)
     \<and> (\<forall>i n. bt_get (g_nodes g) i = Some n \<longrightarrow> node_ident n = i \<and> distinct (node_ports n))
     \<and> (\<forall>i p. bt_get (g_ports g) i = Some p \<longrightarrow> port_ident p = i
          \<and> (\<exists>n. bt_get (g_nodes g) (port_node p) = Some n \<and> i \<in> set (node_ports n)))
     \<and> (\<forall>i l. bt_get (g_links g) i = Some l \<longrightarrow> link_ident l = i
          \<and> bt_get (g_ports g) (output_port l) \<noteq> None
          \<and> bt_get (g_ports g) (input_port l) \<noteq> None)"

lemma graph_wfD:
  assumes "graph_wf g"
  shows "bt_wf (g_nodes g)" "bt_wf (g_ports g)" "bt_wf (g_links g)"
    "bt_get (g_nodes g) i = Some n \<Longrightarrow> node_ident n = i"
    "bt_get (g_nodes g) i = Some n \<Longrightarrow> distinct (node_ports n)"
    "bt_get (g_ports g) j = Some p \<Longrightarrow> port_ident p = j"
    "bt_get (g_ports g) j = Some p \<Longrightarrow> \<exists>n. bt_get (g_nodes g) (port_node p) = Some n"
    "bt_get (g_links g) k = Some l \<Longrightarrow> link_ident l = k"
    "bt_get (g_links g) k = Some l \<Longrightarrow> \<exists>p. bt_get (g_ports g) (output_port l) = Some p"
    "bt_get (g_links g) k = Some l \<Longrightarrow> \<exists>p. bt_get (g_ports g) (input_port l) = Some p"
  using assms unfolding graph_wf_def by blast+

lemma graph_wf_listed:
  "graph_wf g \<Longrightarrow> bt_get (g_ports g) i = Some p \<Longrightarrow>
    \<exists>n. bt_get (g_nodes g) (port_node p) = Some n \<and> i \<in> set (node_ports n)"
  unfolding graph_wf_def by blast

text \<open>A link created locally joins a source to a sink of the same type, and no pair twice.\<close>

definition links_typed :: "graph \<Rightarrow> bool" where
  "links_typed g \<longleftrightarrow>
     (\<forall>i l. bt_get (g_links g) i = Some l \<longrightarrow>
        (\<exists>p q. bt_get (g_ports g) (output_port l) = Some p
          \<and> bt_get (g_ports g) (input_port l) = Some q
          \<and> port_direction p = Source \<and> port_direction q = Sink
          \<and> port_kind p = port_kind q))
     \<and> (\<forall>i j l m. bt_get (g_links g) i = Some l \<and> bt_get (g_links g) j = Some m
          \<and> output_port l = output_port m \<and> input_port l = input_port m \<longrightarrow> i = j)"

lemma graph_wf_empty [simp]: "graph_wf empty_graph"
  by (simp add: graph_wf_def empty_graph_def)

lemma links_typed_empty [simp]: "links_typed empty_graph"
  by (simp add: links_typed_def empty_graph_def)

lemma connected_pair_iff:
  "bt_wf (g_links g) \<Longrightarrow> connected_pair g p q \<longleftrightarrow>
     (\<exists>i l. bt_get (g_links g) i = Some l \<and> output_port l = p \<and> input_port l = q)"
  unfolding connected_pair_def list_ex_iff by (metis set_bt_values)

subsection \<open>Every mutation preserves the invariants\<close>

lemma push_port_fields [simp]:
  "node_ident (push_port p n) = node_ident n"
  "node_name (push_port p n) = node_name n"
  "distinct (node_ports (push_port p n)) = distinct (node_ports n)"
  "set (node_ports (push_port p n)) = insert p (set (node_ports n))"
  by (auto simp: push_port_def)

lemma add_node_wf:
  assumes "graph_wf g" and "distinct (node_ports n)"
  shows "graph_wf (snd (add_node n g))"
proof (cases "bt_get (g_nodes g) (node_ident n)")
  case None
  show ?thesis
    using assms None unfolding graph_wf_def add_node_def bt_contains_def
    by (auto split: if_splits) (metis None option.distinct(1))+
next
  case (Some m)
  with assms show ?thesis by (simp add: add_node_def bt_contains_def)
qed

lemma add_port_wf:
  assumes "graph_wf g"
  shows "graph_wf (snd (add_port p g))"
proof (cases "fst (add_port p g)")
  case (Inl e)
  then have "snd (add_port p g) = g"
    by (auto simp: add_port_def split: option.splits if_splits)
  with assms show ?thesis by simp
next
  case (Inr u)
  then obtain n where n: "bt_get (g_nodes g) (port_node p) = Some n"
    and fresh: "bt_get (g_ports g) (port_ident p) = None"
    and eq: "snd (add_port p g) =
      g\<lparr>g_nodes := bt_modify (port_node p) (push_port (port_ident p)) (g_nodes g),
        g_ports := bt_insert (port_ident p) p (g_ports g)\<rparr>"
    by (auto simp: add_port_def bt_contains_def split: option.splits if_splits)
  have "\<exists>m. bt_get (bt_modify (port_node p) (push_port (port_ident p)) (g_nodes g)) (port_node q)
        = Some m \<and> i \<in> set (node_ports m)"
    if "bt_get (bt_insert (port_ident p) p (g_ports g)) i = Some q" for i q
  proof (cases "i = port_ident p")
    case True
    with that n show ?thesis by simp
  next
    case False
    with that have "bt_get (g_ports g) i = Some q" by simp
    from graph_wf_listed [OF assms this] obtain m
      where "bt_get (g_nodes g) (port_node q) = Some m" and "i \<in> set (node_ports m)"
      by blast
    then show ?thesis by auto
  qed
  with assms show ?thesis
    unfolding eq graph_wf_def by (auto split: if_splits)
qed

lemma remove_link_wf:
  assumes "graph_wf g"
  shows "graph_wf (snd (remove_link l g))"
  using assms unfolding graph_wf_def remove_link_def
  by (auto split: option.splits if_splits)

lemma add_link_error: "fst (add_link l p q g) = Inl e \<Longrightarrow> snd (add_link l p q g) = g"
  by (auto simp: add_link_def Let_def split: option.splits if_splits)

lemma add_link_ok:
  assumes "fst (add_link l p q g) = Inr lk"
  shows "lk = \<lparr>link_ident = l, output_port = p, input_port = q\<rparr>"
    and "snd (add_link l p q g) = g\<lparr>g_links := bt_insert l lk (g_links g)\<rparr>"
    and "bt_get (g_links g) l = None"
    and "\<not> connected_pair g p q"
    and "\<exists>out inp. bt_get (g_ports g) p = Some out \<and> bt_get (g_ports g) q = Some inp
          \<and> port_direction out = Source \<and> port_direction inp = Sink
          \<and> port_kind out = port_kind inp"
  using assms
  by (auto simp: add_link_def bt_contains_def Let_def split: option.splits if_splits)

lemma add_link_wf:
  assumes "graph_wf g"
  shows "graph_wf (snd (add_link l p q g))"
proof (cases "fst (add_link l p q g)")
  case (Inl e)
  with assms show ?thesis by (simp add: add_link_error)
next
  case (Inr lk)
  note ok = add_link_ok [OF Inr]
  show ?thesis
    unfolding ok(2) using assms ok(1,5)
    by (auto simp: graph_wf_def split: if_splits)
qed

lemma insert_existing_link_wf:
  assumes "graph_wf g"
  shows "graph_wf (snd (insert_existing_link lk g))"
  using assms unfolding insert_existing_link_def graph_wf_def bt_contains_def
  by (auto split: if_splits)

lemma add_link_typed:
  assumes "graph_wf g" and "links_typed g"
  shows "links_typed (snd (add_link l p q g))"
proof (cases "fst (add_link l p q g)")
  case (Inl e)
  with assms show ?thesis by (simp add: add_link_error)
next
  case (Inr lk)
  note ok = add_link_ok [OF Inr]
  have "\<not> (output_port m = p \<and> input_port m = q)" if "bt_get (g_links g) i = Some m" for i m
    using ok(4) that assms(1) connected_pair_iff graph_wfD(3) by blast
  then show ?thesis
    unfolding ok(2) links_typed_def using assms(2) ok(1,5)
    by (auto simp: links_typed_def split: if_splits)
qed

subsection \<open>Histories of mutations\<close>

datatype graph_op =
  AddNode node | AddPort port | AddLink link_id port_id port_id
| InsertExistingLink link | RemoveLink link_id

fun apply_op :: "graph_op \<Rightarrow> graph \<Rightarrow> graph" where
  "apply_op (AddNode n) g = snd (add_node n g)"
| "apply_op (AddPort p) g = snd (add_port p g)"
| "apply_op (AddLink l p q) g = snd (add_link l p q g)"
| "apply_op (InsertExistingLink l) g = snd (insert_existing_link l g)"
| "apply_op (RemoveLink l) g = snd (remove_link l g)"

text \<open>A node may arrive with its ports already listed, each once (merging two graphs does).\<close>

fun op_ok :: "graph_op \<Rightarrow> bool" where
  "op_ok (AddNode n) = distinct (node_ports n)"
| "op_ok _ = True"

fun is_local_op :: "graph_op \<Rightarrow> bool" where
  "is_local_op (InsertExistingLink l) = False"
| "is_local_op _ = True"

inductive graph_reachable :: "(graph_op \<Rightarrow> bool) \<Rightarrow> graph \<Rightarrow> bool" for allowed where
  reach_empty: "graph_reachable allowed empty_graph"
| reach_op: "graph_reachable allowed g \<Longrightarrow> op_ok a \<Longrightarrow> allowed a \<Longrightarrow>
    graph_reachable allowed (apply_op a g)"

lemma apply_op_wf: "graph_wf g \<Longrightarrow> op_ok a \<Longrightarrow> graph_wf (apply_op a g)"
  by (cases a)
     (simp_all add: add_node_wf add_port_wf add_link_wf insert_existing_link_wf remove_link_wf)

lemma add_port_links: "links_typed g \<Longrightarrow> links_typed (snd (add_port p g))"
  unfolding links_typed_def add_port_def bt_contains_def
  by (auto split: option.splits if_splits) (metis option.distinct(1))+

lemma apply_op_typed:
  assumes "graph_wf g" and "links_typed g" and "is_local_op a"
  shows "links_typed (apply_op a g)"
proof (cases a)
  case (AddNode n)
  with assms(2) show ?thesis by (simp add: links_typed_def add_node_def)
next
  case (AddPort p)
  with assms(2) show ?thesis by (simp add: add_port_links)
next
  case (AddLink l p q)
  with assms(1,2) show ?thesis by (simp add: add_link_typed)
next
  case (InsertExistingLink l)
  with assms(3) show ?thesis by simp
next
  case (RemoveLink l)
  with assms(2) show ?thesis
    by (auto simp: links_typed_def remove_link_def split: option.splits if_splits)
qed

text \<open>
  C6: every graph built from the empty one by the graph operations, in any order and failed
  calls included, with any arguments except that a node is added only with a port list
  without duplicates (\<^verbatim>\<open>op_ok\<close>), is structurally sound; and when no link was inserted
  unvalidated, every link joins a source to a sink of the same type and no two links join the
  same pair.
\<close>

theorem graph_reachable_invariants:
  assumes "graph_reachable allowed g"
  shows "graph_wf g \<and> ((\<forall>a. allowed a \<longrightarrow> is_local_op a) \<longrightarrow> links_typed g)"
  using assms
proof (induction rule: graph_reachable.induct)
  case reach_empty
  show ?case by simp
next
  case (reach_op g a)
  then show ?case by (simp add: apply_op_wf apply_op_typed)
qed

definition sample_graph :: graph where
  "sample_graph =
     fold apply_op
       [AddNode (new_node (NodeId 1) ''mic'' NT_PipeWire),
        AddNode (new_node (NodeId 2) ''speaker'' NT_PipeWire),
        AddPort (new_port (PortId 1) (NodeId 1) ''out'' Source PT_Audio),
        AddPort (new_port (PortId 2) (NodeId 2) ''in'' Sink PT_Audio),
        AddLink (LinkId 1) (PortId 1) (PortId 2)] empty_graph"

lemma sample_graph_reachable: "graph_reachable is_local_op sample_graph"
  unfolding sample_graph_def
  by (simp add: reach_op reach_empty new_node_def del: apply_op.simps)

lemma sample_graph_wf: "graph_wf sample_graph"
  unfolding sample_graph_def by (simp add: apply_op_wf new_node_def del: apply_op.simps)

theorem graph_reachable_invariants_witness:
  "graph_wf sample_graph \<and> links_typed sample_graph \<and> length (g_links sample_graph) = 1"
proof -
  have "length (g_links sample_graph) = 1"
    by code_simp
  then show ?thesis
    using graph_reachable_invariants [OF sample_graph_reachable] by simp
qed

end
