(* ===== verification/Resolution.thy ===== *)
theory Resolution
  imports Graph_Props
begin

text \<open>
  Selector resolution against its specification: the result is decided by the candidates of
  maximal score alone (\<open>resolve_endpoint_spec\<close>), a unique best candidate is returned, ties
  fail closed, and a key captured from a port never resolves to another port.
\<close>

subsection \<open>Candidates\<close>

definition is_candidate :: "graph \<Rightarrow> endpoint_selector \<Rightarrow> port \<Rightarrow> nat \<Rightarrow> bool" where
  "is_candidate g sel port s \<longleftrightarrow>
     name_candidate sel port \<and> port_direction port = sel_direction sel
     \<and> type_candidate sel port \<and> score_candidate g sel port = Some (s, port_ident port)"

lemma score_candidate_ident: "score_candidate g sel port = Some (s, i) \<Longrightarrow> i = port_ident port"
  by (auto simp: score_candidate_def split: option.splits if_splits)

lemma set_candidates:
  assumes "graph_wf g"
  shows "(s, i) \<in> set (candidates g sel) \<longleftrightarrow>
    (\<exists>port. graph_port g i = Some port \<and> is_candidate g sel port s)"
proof -
  have "(s, i) \<in> set (candidates g sel) \<longleftrightarrow>
      (\<exists>port \<in> set (bt_values (g_ports g)). is_candidate g sel port s \<and> i = port_ident port)"
    by (auto simp: candidates_def set_filter_map is_candidate_def dest: score_candidate_ident)
  also have "\<dots> \<longleftrightarrow> (\<exists>port. graph_port g i = Some port \<and> is_candidate g sel port s)"
    unfolding graph_port_def using graph_wfD(2,6) [OF assms] by (metis set_bt_values)
  finally show ?thesis .
qed

lemma candidate_score_unique:
  assumes "graph_wf g" and "(s, i) \<in> set (candidates g sel)" and "(t, i) \<in> set (candidates g sel)"
  shows "s = t"
  using assms by (auto simp: set_candidates is_candidate_def)

lemma distinct_filter_map:
  assumes "distinct (map k xs)"
    and "\<And>x y. f x = Some y \<Longrightarrow> h y = k x"
  shows "distinct (map h (filter_map f xs))"
  using assms
proof (induction xs)
  case Nil
  show ?case by simp
next
  case (Cons x xs)
  have "h y \<notin> h ` set (filter_map f xs)" if "f x = Some y" for y
    using that Cons.prems by (force simp: set_filter_map)
  with Cons show ?case by (auto split: option.split)
qed

lemma distinct_map_filterI: "distinct (map f xs) \<Longrightarrow> distinct (map f (filter P xs))"
  by (induction xs) auto

lemma port_idents_keys:
  assumes "graph_wf g"
  shows "map port_ident (bt_values (g_ports g)) = bt_keys (g_ports g)"
proof -
  have "port_ident (snd e) = fst e" if "e \<in> set (g_ports g)" for e
    using that graph_wfD(2,6) [OF assms] by (metis bt_get_SomeI prod.collapse)
  then show ?thesis by (simp add: bt_values_def bt_keys_def)
qed

lemma distinct_candidates:
  assumes "graph_wf g"
  shows "distinct (map snd (candidates g sel))"
proof -
  have "distinct (map port_ident (bt_values (g_ports g)))"
    using port_idents_keys [OF assms] distinct_bt_keys graph_wfD(2) [OF assms] by simp
  then show ?thesis
    unfolding candidates_def
    by (intro distinct_filter_map [where k = port_ident] distinct_map_filterI)
       (auto dest: score_candidate_ident)
qed

subsection \<open>The specification of resolution\<close>

definition best_score_of :: "(nat \<times> port_id) list \<Rightarrow> nat" where
  "best_score_of cs = Max (fst ` set cs)"

definition best_ids :: "(nat \<times> port_id) list \<Rightarrow> port_id list" where
  "best_ids cs = map snd (filter (\<lambda>c. fst c = best_score_of cs) cs)"

lemma best_score_attained: "cs \<noteq> [] \<Longrightarrow> \<exists>i. (best_score_of cs, i) \<in> set cs"
proof -
  assume "cs \<noteq> []"
  then have "best_score_of cs \<in> fst ` set cs"
    unfolding best_score_of_def by (intro Max_in) auto
  then show ?thesis by force
qed

lemma best_score_upper: "(s, i) \<in> set cs \<Longrightarrow> s \<le> best_score_of cs"
  unfolding best_score_of_def by (intro Max_ge) force+

lemma best_ids_nonempty: "cs \<noteq> [] \<Longrightarrow> best_ids cs \<noteq> []"
  using best_score_attained [of cs] by (force simp: best_ids_def filter_empty_conv)

lemma set_best_ids: "i \<in> set (best_ids cs) \<longleftrightarrow> (best_score_of cs, i) \<in> set cs"
  by (force simp: best_ids_def)

lemma sorted_head_score:
  assumes "cs \<noteq> []"
  shows "fst (hd (sort_key (\<lambda>c. - int (fst c)) cs)) = best_score_of cs"
proof -
  let ?f = "\<lambda>c :: nat \<times> port_id. - int (fst c)"
  obtain i where i: "(best_score_of cs, i) \<in> set cs"
    using best_score_attained [OF assms] by blast
  have "?f (hd (sort_key ?f cs)) \<le> ?f (best_score_of cs, i)"
    using hd_sort_key_min [OF assms i, of ?f] by simp
  moreover have "hd (sort_key ?f cs) \<in> set cs"
    by (rule hd_sort_key_in [OF assms])
  then have "fst (hd (sort_key ?f cs)) \<le> best_score_of cs"
    by (metis best_score_upper prod.collapse)
  ultimately show ?thesis by simp
qed

lemma sorted_best_prefix:
  assumes "cs \<noteq> []"
  shows "map snd (takeWhile (\<lambda>c. fst c = best_score_of cs) (sort_key (\<lambda>c. - int (fst c)) cs))
    = best_ids cs"
proof -
  let ?f = "\<lambda>c :: nat \<times> port_id. - int (fst c)"
  let ?xs = "sort_key ?f cs"
  have ne: "?xs \<noteq> []" using assms by (metis length_0_conv length_sort)
  have eq: "(\<lambda>c. fst c = best_score_of cs) = (\<lambda>c. ?f c = ?f (hd ?xs))"
    using sorted_head_score [OF assms] by auto
  have "takeWhile (\<lambda>c. fst c = best_score_of cs) ?xs = filter (\<lambda>c. ?f c = ?f (hd ?xs)) ?xs"
    unfolding eq by (rule takeWhile_sorted_key [OF _ ne]) simp
  also have "\<dots> = filter (\<lambda>c. ?f c = ?f (hd ?xs)) cs"
    by (rule sort_key_stable)
  also have "\<dots> = filter (\<lambda>c. fst c = best_score_of cs) cs"
    unfolding eq ..
  finally show ?thesis by (simp add: best_ids_def)
qed

lemma resolve_by_best:
  "resolve_endpoint g sel =
    (if candidates g sel = [] then Missing
     else if 1 < length (best_ids (candidates g sel)) then Ambiguous (best_ids (candidates g sel))
     else if 800 \<le> best_score_of (candidates g sel) then Exact (hd (best_ids (candidates g sel)))
     else UniqueFallback (hd (best_ids (candidates g sel))))"
proof (cases "candidates g sel = []")
  case True
  then show ?thesis by (simp add: resolve_endpoint_def)
next
  case False
  let ?xs = "sort_key (\<lambda>c. - int (fst c)) (candidates g sel)"
  have ne: "?xs \<noteq> []" using False by (metis length_0_conv length_sort)
  show ?thesis
    using False ne unfolding resolve_endpoint_def Let_def
    by (simp only: sorted_head_score [OF False] sorted_best_prefix [OF False] if_False simp_thms)
qed

text \<open>
  C11: the sort-and-take-prefix resolution equals its specification. With no candidate it is
  missing; otherwise the candidates of maximal score decide alone: more than one is
  ambiguous, and all of them are reported in the order in which the candidates were found; a
  single one is exact from score 800 on and a fallback below.
\<close>

theorem resolve_endpoint_spec:
  "resolve_endpoint g sel =
    (let cs = candidates g sel in
     if cs = [] then Missing
     else case best_ids cs of
       [i] \<Rightarrow> if 800 \<le> best_score_of cs then Exact i else UniqueFallback i
     | ids \<Rightarrow> Ambiguous ids)"
proof (cases "candidates g sel = []")
  case True
  then show ?thesis by (simp add: resolve_by_best)
next
  case False
  then show ?thesis
    using best_ids_nonempty [OF False]
    by (auto simp: resolve_by_best Let_def split: list.split)
qed

lemma resolved_best:
  assumes "graph_wf g" and "resolution_port_id (resolve_endpoint g sel) = Some i"
  shows "\<exists>s. (s, i) \<in> set (candidates g sel)
    \<and> (\<forall>t j. (t, j) \<in> set (candidates g sel) \<and> j \<noteq> i \<longrightarrow> t < s)
    \<and> (resolve_endpoint g sel = Exact i \<longleftrightarrow> 800 \<le> s)"
proof -
  let ?cs = "candidates g sel"
  from assms(2) have ne: "?cs \<noteq> []" and len: "\<not> 1 < length (best_ids ?cs)"
    and hd: "hd (best_ids ?cs) = i"
    and ex: "resolve_endpoint g sel = Exact i \<longleftrightarrow> 800 \<le> best_score_of ?cs"
    by (auto simp: resolve_by_best split: if_splits)
  from best_ids_nonempty [OF ne] len hd have ids: "best_ids ?cs = [i]"
    by (cases "best_ids ?cs") auto
  then have "(best_score_of ?cs, i) \<in> set ?cs"
    by (metis list.set_intros(1) set_best_ids)
  moreover have "t < best_score_of ?cs" if "(t, j) \<in> set ?cs" "j \<noteq> i" for t j
  proof -
    have "j \<notin> set (best_ids ?cs)" using ids that(2) by simp
    then have "t \<noteq> best_score_of ?cs" using that(1) set_best_ids by metis
    with best_score_upper [OF that(1)] show ?thesis by simp
  qed
  ultimately show ?thesis using ex by blast
qed

lemma ambiguous_distinct:
  assumes "graph_wf g" and "resolve_endpoint g sel = Ambiguous ids"
  shows "distinct ids \<and> 2 \<le> length ids"
proof -
  have "distinct (best_ids (candidates g sel))"
    unfolding best_ids_def by (intro distinct_map_filterI distinct_candidates assms(1))
  then show ?thesis
    using assms(2) by (auto simp: resolve_by_best split: if_splits)
qed

lemma resolve_missing_iff: "resolve_endpoint g sel = Missing \<longleftrightarrow> candidates g sel = []"
  by (simp add: resolve_by_best)

subsection \<open>What a resolved endpoint satisfies\<close>

lemma candidate_facts:
  assumes "is_candidate g sel port s"
  shows "port_direction port = sel_direction sel"
    and "type_candidate sel port"
    and "sel_channel sel \<noteq> None \<and> port_channel port \<noteq> None \<longrightarrow> sel_channel sel = port_channel port"
    and "\<exists>n. graph_node g (port_node port) = Some n \<and> endpoint_match_score n sel = Some s
          \<and> (sel_node_type sel \<noteq> NT_Unknown \<longrightarrow> node_kind n = sel_node_type sel)"
  using assms by (auto simp: is_candidate_def score_candidate_def split: option.splits if_splits)

text \<open>
  A resolved port exists, has the direction the selector asks for, a compatible port
  type, no contradicting channel and a node of the requested type; and every other candidate
  scored strictly lower. An exact resolution moreover rests on a durable identity: the node
  carries the very effect instance id, or else the very application id, of the selector.
\<close>

lemma resolve_endpoint_sound:
  assumes "graph_wf g" and "resolution_port_id (resolve_endpoint g sel) = Some i"
  shows "\<exists>port n s. graph_port g i = Some port \<and> graph_node g (port_node port) = Some n
    \<and> port_direction port = sel_direction sel \<and> type_candidate sel port
    \<and> (sel_channel sel \<noteq> None \<and> port_channel port \<noteq> None \<longrightarrow> sel_channel sel = port_channel port)
    \<and> (sel_node_type sel \<noteq> NT_Unknown \<longrightarrow> node_kind n = sel_node_type sel)
    \<and> endpoint_match_score n sel = Some s
    \<and> (\<forall>t j. (t, j) \<in> set (candidates g sel) \<and> j \<noteq> i \<longrightarrow> t < s)
    \<and> (resolve_endpoint g sel = Exact i \<longrightarrow>
         (case ident_effect_instance_id (sel_identity sel) of
            Some e \<Rightarrow> ident_effect_instance_id (matching_identity n) = Some e
          | None \<Rightarrow> application_id (sel_identity sel) \<noteq> None
              \<and> application_id (matching_identity n) = application_id (sel_identity sel)))"
proof -
  from resolved_best [OF assms] obtain s where
    s: "(s, i) \<in> set (candidates g sel)"
    and less: "\<forall>t j. (t, j) \<in> set (candidates g sel) \<and> j \<noteq> i \<longrightarrow> t < s"
    and exact: "resolve_endpoint g sel = Exact i \<longleftrightarrow> 800 \<le> s"
    by blast
  from s obtain port where port: "graph_port g i = Some port" and cand: "is_candidate g sel port s"
    using set_candidates [OF assms(1)] by blast
  from candidate_facts(4) [OF cand] obtain n where
    n: "graph_node g (port_node port) = Some n" and score: "endpoint_match_score n sel = Some s"
    and kind: "sel_node_type sel \<noteq> NT_Unknown \<longrightarrow> node_kind n = sel_node_type sel"
    by blast
  have "case ident_effect_instance_id (sel_identity sel) of
            Some e \<Rightarrow> ident_effect_instance_id (matching_identity n) = Some e
          | None \<Rightarrow> application_id (sel_identity sel) \<noteq> None
              \<and> application_id (matching_identity n) = application_id (sel_identity sel)"
    if "800 \<le> s"
    using match_score_tier [OF score that] match_score_durable [OF score]
    by (auto split: option.split)
  with port n candidate_facts(1-3) [OF cand] kind score less exact show ?thesis
    by blast
qed

subsection \<open>Captured keys\<close>

lemma port_key_selector:
  assumes "graph_port_key g p = Some k"
  shows "\<exists>port n. graph_port g p = Some port \<and> graph_node g (port_node port) = Some n
    \<and> selector k = \<lparr>sel_node_type = node_kind n, sel_identity = matching_identity n,
        sel_port_name = port_name port, sel_channel = port_channel port,
        sel_direction = port_direction port, sel_port_type = port_kind port,
        sel_match_mode = Instance\<rparr>"
  using assms by (auto simp: graph_port_key_def selector_def split: option.splits)

lemma port_key_own_candidate:
  assumes "graph_wf g" and "graph_port_key g p = Some k"
  shows "(score_cap (selector k), p) \<in> set (candidates g (selector k))"
proof -
  from port_key_selector [OF assms(2)] obtain port n where
    port: "graph_port g p = Some port" and n: "graph_node g (port_node port) = Some n"
    and sel: "selector k = \<lparr>sel_node_type = node_kind n, sel_identity = matching_identity n,
        sel_port_name = port_name port, sel_channel = port_channel port,
        sel_direction = port_direction port, sel_port_type = port_kind port,
        sel_match_mode = Instance\<rparr>"
    by blast
  have "endpoint_match_score n (selector k) = Some (score_cap (selector k))"
    by (rule own_identity_score) (simp_all add: sel)
  then have "is_candidate g (selector k) port (score_cap (selector k))"
    using n by (simp add: is_candidate_def name_candidate_def type_candidate_def
        score_candidate_def sel)
  with port show ?thesis using set_candidates [OF assms(1)] by blast
qed

lemma port_key_resolution:
  assumes "graph_wf g" and "graph_port_key g p = Some k"
  shows "resolve_port_key g k = None \<or> resolve_port_key g k = Some p"
proof (cases "resolve_port_key g k")
  case None
  then show ?thesis by simp
next
  case (Some i)
  then have r: "resolution_port_id (resolve_endpoint g (selector k)) = Some i"
    by (simp add: resolve_port_key_def)
  from resolved_best [OF assms(1) r] obtain s where
    s: "(s, i) \<in> set (candidates g (selector k))"
    and less: "\<forall>t j. (t, j) \<in> set (candidates g (selector k)) \<and> j \<noteq> i \<longrightarrow> t < s"
    by blast
  have "s \<le> score_cap (selector k)"
    using s set_candidates [OF assms(1)] candidate_facts(4) match_score_le_cap by blast
  with less port_key_own_candidate [OF assms] have "i = p"
    using linorder_not_less by blast
  with Some show ?thesis by simp
qed

text \<open>
  A key captured from a port of a graph is never missing in that graph and never
  resolves to another port: it comes back to its own port or, when the graph holds an
  indistinguishable port, is reported ambiguous with its own port among the candidates.
  So no two ports share a key that resolves.
\<close>

lemma port_key_resolves_to_itself:
  assumes "graph_wf g" and "graph_port_key g p = Some k"
  shows "resolve_port_key_result g k \<noteq> Missing
    \<and> (resolve_port_key g k = None \<or> resolve_port_key g k = Some p)
    \<and> (\<forall>ids. resolve_port_key_result g k = Ambiguous ids \<longrightarrow> p \<in> set ids)
    \<and> (\<forall>q. graph_port_key g q = Some k \<and> q \<noteq> p \<longrightarrow> resolve_port_key g k = None)"
proof (intro conjI allI impI)
  note own = port_key_own_candidate [OF assms]
  show "resolve_port_key_result g k \<noteq> Missing"
    using own by (auto simp: resolve_port_key_result_def resolve_missing_iff)
  show "resolve_port_key g k = None \<or> resolve_port_key g k = Some p"
    by (rule port_key_resolution [OF assms])
  show "p \<in> set ids" if "resolve_port_key_result g k = Ambiguous ids" for ids
  proof -
    have "ids = best_ids (candidates g (selector k))"
      using that by (auto simp: resolve_port_key_result_def resolve_by_best split: if_splits)
    moreover have "best_score_of (candidates g (selector k)) = score_cap (selector k)"
    proof (rule antisym)
      have "candidates g (selector k) \<noteq> []" using own by auto
      from best_score_attained [OF this] show
        "best_score_of (candidates g (selector k)) \<le> score_cap (selector k)"
        using set_candidates [OF assms(1)] candidate_facts(4) match_score_le_cap by blast
      show "score_cap (selector k) \<le> best_score_of (candidates g (selector k))"
        by (rule best_score_upper [OF own])
    qed
    ultimately show ?thesis using own set_best_ids by metis
  qed
  show "resolve_port_key g k = None" if "graph_port_key g q = Some k \<and> q \<noteq> p" for q
    using that port_key_resolution [OF assms] port_key_resolution [OF assms(1)] by fastforce
qed

subsection \<open>Links by key\<close>

lemma find_link_by_keys_Some:
  assumes "graph_wf g" and "find_link_by_keys g out inp = Some l"
  shows "resolve_port_key g out = Some (output_port l)"
    and "resolve_port_key g inp = Some (input_port l)"
    and "graph_link g (link_ident l) = Some l"
proof -
  from assms(2) obtain p q where p: "resolve_port_key g out = Some p"
    and q: "resolve_port_key g inp = Some q"
    and f: "List.find (\<lambda>l. output_port l = p \<and> input_port l = q) (bt_values (g_links g)) = Some l"
    by (auto simp: find_link_by_keys_def split: option.splits)
  from f have l: "output_port l = p" "input_port l = q" "l \<in> set (bt_values (g_links g))"
    by (auto simp: find_Some_iff)
  then show "resolve_port_key g out = Some (output_port l)"
    "resolve_port_key g inp = Some (input_port l)"
    using p q by simp_all
  show "graph_link g (link_ident l) = Some l"
    using l(3) graph_wfD(3,8) [OF assms(1)] set_bt_values
    unfolding graph_link_def by metis
qed

lemma find_link_by_keys_None:
  assumes "graph_wf g" and "resolve_port_key g out = Some p" and "resolve_port_key g inp = Some q"
  shows "find_link_by_keys g out inp = None \<longleftrightarrow> \<not> connected_pair g p q"
  using assms(2,3) by (auto simp: find_link_by_keys_def connected_pair_def find_None_iff list_ex_iff)

end
