(* ===== verification/Layout.thy ===== *)
theory Layout
  imports Graph_Model Complex_Main "HOL-Library.Product_Lexorder" "HOL-Library.List_Lexorder"
    "HOL-Library.Char_ord"
begin

text \<open>
  The suggested canvas layout (\<^verbatim>\<open>crates/pw-graph-core/src/layout.rs\<close>): adjacency of the
  nodes, breadth-first assignment of graph layers with a worklist, placement into columns,
  the static order inside a column, the barycentre sweeps, and the positions. Coordinates are
  the integers the code computes in \<^verbatim>\<open>f32\<close>: every term is a multiple of one, so the
  arithmetic is exact below two to the 24th (a column of more than a hundred thousand
  nodes). A barycentre is the rational number \<^verbatim>\<open>total / count\<close>, whose order the
  \<^verbatim>\<open>f64\<close> quotient keeps for counts below two to the 26th.
\<close>

subsection \<open>Adjacency\<close>

text \<open>The routes of the graph in link order: links between two different known nodes.\<close>

definition link_route :: "graph \<Rightarrow> link \<Rightarrow> (node_id \<times> node_id) option" where
  "link_route g l =
     (case (graph_port g (output_port l), graph_port g (input_port l)) of
        (Some out, Some inp) \<Rightarrow>
          if port_node out = port_node inp
              \<or> \<not> bt_contains (g_nodes g) (port_node out)
              \<or> \<not> bt_contains (g_nodes g) (port_node inp)
          then None else Some (port_node out, port_node inp)
      | _ \<Rightarrow> None)"

definition node_routes :: "graph \<Rightarrow> (node_id \<times> node_id) list" where
  "node_routes g = filter_map (link_route g) (bt_values (g_links g))"

type_synonym adjacency = "(node_id, node_id list) btree"

text \<open>\<^verbatim>\<open>sort_unstable\<close> followed by \<^verbatim>\<open>dedup\<close>.\<close>

definition sort_dedup :: "node_id list \<Rightarrow> node_id list" where
  "sort_dedup xs = remdups_adj (sort xs)"

definition outgoing_of :: "graph \<Rightarrow> adjacency" where
  "outgoing_of g =
     map (\<lambda>n. (n, sort_dedup (map snd (filter (\<lambda>r. fst r = n) (node_routes g)))))
       (bt_keys (g_nodes g))"

definition incoming_of :: "graph \<Rightarrow> adjacency" where
  "incoming_of g =
     map (\<lambda>n. (n, sort_dedup (map fst (filter (\<lambda>r. snd r = n) (node_routes g)))))
       (bt_keys (g_nodes g))"

definition incoming_count :: "graph \<Rightarrow> (node_id, nat) btree" where
  "incoming_count g =
     map (\<lambda>n. (n, length (filter (\<lambda>r. snd r = n) (node_routes g)))) (bt_keys (g_nodes g))"

definition adjacent :: "adjacency \<Rightarrow> node_id \<Rightarrow> node_id list" where
  "adjacent adj n = (case bt_get adj n of None \<Rightarrow> [] | Some ns \<Rightarrow> ns)"

definition node_is_connected :: "node_id \<Rightarrow> adjacency \<Rightarrow> adjacency \<Rightarrow> bool" where
  "node_is_connected n inc out =
     ((case bt_get inc n of None \<Rightarrow> False | Some ns \<Rightarrow> ns \<noteq> [])
      \<or> (case bt_get out n of None \<Rightarrow> False | Some ns \<Rightarrow> ns \<noteq> []))"

subsection \<open>Graph layers\<close>

type_synonym layering = "(node_id, nat) btree"

definition layer_of :: "layering \<Rightarrow> node_id \<Rightarrow> nat" where
  "layer_of L n = (case bt_get L n of None \<Rightarrow> 0 | Some l \<Rightarrow> l)"

text \<open>\<^verbatim>\<open>entry(..).or_default()\<close>.\<close>

definition or_default :: "node_id \<Rightarrow> layering \<Rightarrow> layering" where
  "or_default n L = (if bt_contains L n then L else bt_insert n 0 L)"

fun relax_targets ::
  "nat \<Rightarrow> nat \<Rightarrow> node_id list \<Rightarrow> layering \<Rightarrow> node_id list \<Rightarrow> layering \<times> node_id list" where
  "relax_targets limit current [] L queue = (L, queue)"
| "relax_targets limit current (t # ts) L queue =
     (let candidate = min (current + 1) limit; L' = or_default t L in
      if candidate > layer_of L' t
      then relax_targets limit current ts (bt_insert t candidate L') (queue @ [t])
      else relax_targets limit current ts L' queue)"

text \<open>
  What the worklist loop lowers: the distance of the possible targets from the limit, then
  the length of the queue.
\<close>

definition layer_slack :: "nat \<Rightarrow> adjacency \<Rightarrow> layering \<Rightarrow> nat" where
  "layer_slack limit out L =
     (\<Sum>t \<in> set (concat (map snd out)). limit - layer_of L t)"

lemma layer_of_or_default [simp]: "layer_of (or_default t L) n = layer_of L n"
  by (auto simp: layer_of_def or_default_def bt_contains_def split: option.splits)

lemma layer_of_insert [simp]:
  "layer_of (bt_insert t v L) n = (if n = t then v else layer_of L n)"
  by (simp add: layer_of_def)

lemma adjacent_known: "set (adjacent out n) \<subseteq> set (concat (map snd out))"
proof (cases "bt_get out n")
  case (Some ns)
  then have "(n, ns) \<in> set out" by (rule bt_get_Some_in)
  with Some show ?thesis by (force simp: adjacent_def)
qed (simp add: adjacent_def)

lemma relax_targets_measure:
  assumes "set ts \<subseteq> set (concat (map snd out))"
    and "relax_targets limit current ts L queue = (L', queue')"
  shows "layer_slack limit out L' < layer_slack limit out L
    \<or> layer_slack limit out L' = layer_slack limit out L \<and> queue' = queue"
  using assms
proof (induction limit current ts L queue rule: relax_targets.induct)
  case (1 limit current L queue)
  then show ?case by simp
next
  case (2 limit current t ts L queue)
  let ?c = "min (current + 1) limit" and ?D = "or_default t L"
  have same: "layer_slack limit out ?D = layer_slack limit out L"
    by (simp add: layer_slack_def)
  show ?case
  proof (cases "?c > layer_of ?D t")
    case True
    have "layer_slack limit out (bt_insert t ?c ?D) < layer_slack limit out L"
      unfolding layer_slack_def
    proof (rule sum_strict_mono_ex1)
      show "\<forall>x \<in> set (concat (map snd out)).
          limit - layer_of (bt_insert t ?c ?D) x \<le> limit - layer_of L x"
        using True by auto
      show "\<exists>x \<in> set (concat (map snd out)).
          limit - layer_of (bt_insert t ?c ?D) x < limit - layer_of L x"
        using True 2(3) by (intro bexI [of _ t]) auto
    qed simp
    moreover have "relax_targets limit current ts (bt_insert t ?c ?D) (queue @ [t]) = (L', queue')"
      using 2(4) True by (simp only: relax_targets.simps Let_def if_True)
    ultimately show ?thesis
      using "2.IH"(1) [OF refl refl True] 2(3) by fastforce
  next
    case False
    then have "relax_targets limit current ts ?D queue = (L', queue')"
      using 2(4) by (simp only: relax_targets.simps Let_def if_False)
    then show ?thesis
      using "2.IH"(2) [OF refl refl False] 2(3) same by simp
  qed
qed

function propagate :: "nat \<Rightarrow> adjacency \<Rightarrow> node_id list \<Rightarrow> layering \<Rightarrow> layering" where
  "propagate limit out [] L = L"
| "propagate limit out (n # queue) L =
     (case relax_targets limit (layer_of L n) (adjacent out n) L queue of
        (L', queue') \<Rightarrow> propagate limit out queue' L')"
  by pat_completeness auto
termination
proof (relation "measures [\<lambda>(limit, out, queue, L). layer_slack limit out L,
    \<lambda>(limit, out, queue, L). length queue]")
  fix limit out n queue L L' queue'
  assume "(L', queue') = relax_targets limit (layer_of L n) (adjacent out n) L queue"
  from relax_targets_measure [OF adjacent_known this [symmetric]]
  show "((limit, out, queue', L'), limit, out, n # queue, L)
      \<in> measures [\<lambda>(limit, out, queue, L). layer_slack limit out L,
        \<lambda>(limit, out, queue, L). length queue]"
    by auto
qed simp

definition node_limit :: "graph \<Rightarrow> nat" where
  "node_limit g = length (g_nodes g) - 1"

definition zero_layers :: "graph \<Rightarrow> layering" where
  "zero_layers g = map (\<lambda>n. (n, 0)) (bt_keys (g_nodes g))"

text \<open>The nodes nothing leads to, or the first node when there is none.\<close>

definition layout_roots :: "graph \<Rightarrow> node_id list" where
  "layout_roots g =
     (let roots = filter_map (\<lambda>(n, c). if c = 0 then Some n else None) (incoming_count g) in
      if roots = [] then take 1 (bt_keys (g_nodes g)) else roots)"

text \<open>The second pass: a node that has routes into it and is still in layer zero.\<close>

definition seed_cycle :: "graph \<Rightarrow> node_id \<Rightarrow> layering \<Rightarrow> layering" where
  "seed_cycle g n L =
     (if layer_of (incoming_count g) n > 0 \<and> layer_of L n = 0
      then propagate (node_limit g) (outgoing_of g) [n] L else L)"

definition graph_layers :: "graph \<Rightarrow> layering" where
  "graph_layers g =
     fold (seed_cycle g) (bt_keys (g_nodes g))
       (propagate (node_limit g) (outgoing_of g) (layout_roots g) (zero_layers g))"

subsection \<open>Classification of a node\<close>

definition port_kinds :: "graph \<Rightarrow> node \<Rightarrow> port_type list" where
  "port_kinds g n = filter_map (\<lambda>p. map_option port_kind (graph_port g p)) (node_ports n)"

definition port_directions :: "graph \<Rightarrow> node \<Rightarrow> direction list" where
  "port_directions g n =
     filter_map (\<lambda>p. map_option port_direction (graph_port g p)) (node_ports n)"

definition node_media_category :: "graph \<Rightarrow> node \<Rightarrow> nat" where
  "node_media_category g n =
     (let kinds = set (port_kinds g n) in
      if PT_Audio \<in> kinds then 0
      else if PT_Video \<in> kinds then 1
      else if PT_MidiJack \<in> kinds \<or> PT_MidiAlsa \<in> kinds then 2
      else 3)"

definition node_layout_role :: "graph \<Rightarrow> node \<Rightarrow> nat" where
  "node_layout_role g n =
     (case (Source \<in> set (port_directions g n), Sink \<in> set (port_directions g n)) of
        (True, False) \<Rightarrow> 0
      | (False, True) \<Rightarrow> 2
      | _ \<Rightarrow> 1)"

definition node_layout_lane :: "graph \<Rightarrow> node \<Rightarrow> nat" where
  "node_layout_lane g n =
     (if node_kind n = NT_Recorder then 4
      else if node_kind n = NT_Effect then 2
      else if node_kind n = NT_WindowsAudioSession \<or> has_application_identity (matching_identity n)
      then 1
      else if Sink \<in> set (port_directions g n) then 3
      else if Source \<in> set (port_directions g n) then 0
      else 2)"

definition node_layout_height :: "graph \<Rightarrow> node \<Rightarrow> int" where
  "node_layout_height g n =
     (let has_audio = list_ex (\<lambda>p. case graph_port g p of
            None \<Rightarrow> False | Some port \<Rightarrow> port_kind port = PT_Audio) (node_ports n);
          panel_height = (if node_kind n = NT_Recorder then 68 else if has_audio then 42 else 0) in
      max (42 + panel_height + 14 + int (length (node_ports n)) * 25) 62)"

subsection \<open>Columns\<close>

definition node_column :: "graph \<Rightarrow> layering \<Rightarrow> node \<Rightarrow> nat" where
  "node_column g L n =
     (let graph_layer = layer_of L (node_ident n);
          role_layer = (case node_layout_role g n of
              0 \<Rightarrow> 0 | Suc 0 \<Rightarrow> 1 | Suc (Suc 0) \<Rightarrow> 2 | _ \<Rightarrow> 0) in
      if graph_layer = 0 then role_layer else graph_layer)"

text \<open>\<^verbatim>\<open>resize_with\<close>, when the layer is past the end, and \<^verbatim>\<open>push\<close>.\<close>

definition push_to_layer :: "nat \<Rightarrow> node_id \<Rightarrow> node_id list list \<Rightarrow> node_id list list" where
  "push_to_layer layer n layers =
     (let layers = layers @ replicate (layer + 1 - length layers) [] in
      layers[layer := layers ! layer @ [n]])"

definition max_layer :: "layering \<Rightarrow> nat" where
  "max_layer L = max (fold max (bt_values L) 0) 2"

definition fill_columns :: "graph \<Rightarrow> layering \<Rightarrow> node_id list list \<times> layering" where
  "fill_columns g L =
     fold (\<lambda>n (layers, by_node).
         let layer = node_column g L n in
         (push_to_layer layer (node_ident n) layers, bt_insert (node_ident n) layer by_node))
       (bt_values (g_nodes g)) (replicate (max_layer L + 1) [], [])"

subsection \<open>Order inside a column\<close>

definition layout_node :: "graph \<Rightarrow> node_id \<Rightarrow> node" where
  "layout_node g i = the (graph_node g i)"

definition static_key ::
  "graph \<Rightarrow> node_id \<Rightarrow> nat \<times> nat \<times> nat \<times> string \<times> node_id" where
  "static_key g i =
     (let n = layout_node g i in
      (node_layout_lane g n, node_media_category g n, node_layout_role g n,
       map ascii_lower (node_name n), i))"

definition layout_order_indices :: "node_id list list \<Rightarrow> (node_id, nat) btree" where
  "layout_order_indices layers =
     fold (\<lambda>nodes order. fold (\<lambda>(i, n). bt_insert n i) (List.enumerate 0 nodes) order) layers []"

definition neighbor_center ::
  "node_id \<Rightarrow> nat \<Rightarrow> bool \<Rightarrow> adjacency \<Rightarrow> adjacency \<Rightarrow> (node_id, nat) btree \<Rightarrow> layering
    \<Rightarrow> rat option" where
  "neighbor_center n layer forward inc out order by_node =
     (case bt_get (if forward then inc else out) n of
        None \<Rightarrow> None
      | Some neighbours \<Rightarrow>
          (let place = (\<lambda>m. case bt_get by_node m of None \<Rightarrow> layer | Some l \<Rightarrow> l);
               indices = filter_map (bt_get order)
                 (filter (\<lambda>m. if forward then place m < layer else layer < place m) neighbours) in
           if indices = [] then None
           else Some (rat_of_nat (sum_list indices) / rat_of_nat (length indices))))"

text \<open>
  The comparison of a sweep as a sort key: connected nodes first; unconnected ones compare
  equal; a node with a centre comes ahead of one without, and two centres compare as numbers.
\<close>

definition sweep_key ::
  "nat \<Rightarrow> bool \<Rightarrow> adjacency \<Rightarrow> adjacency \<Rightarrow> (node_id, nat) btree \<Rightarrow> layering \<Rightarrow> node_id
    \<Rightarrow> bool \<times> bool \<times> rat" where
  "sweep_key layer forward inc out order by_node n =
     (if node_is_connected n inc out
      then (case neighbor_center n layer forward inc out order by_node of
              None \<Rightarrow> (False, True, 0)
            | Some c \<Rightarrow> (False, False, c))
      else (True, True, 0))"

definition sort_layer ::
  "adjacency \<Rightarrow> adjacency \<Rightarrow> layering \<Rightarrow> bool \<times> nat \<Rightarrow> node_id list list \<Rightarrow> node_id list list" where
  "sort_layer inc out by_node step layers =
     (case step of (forward, layer) \<Rightarrow>
        layers[layer := sort_key
          (sweep_key layer forward inc out (layout_order_indices layers) by_node)
          (layers ! layer)])"

definition sweep_schedule :: "nat \<Rightarrow> (bool \<times> nat) list" where
  "sweep_schedule count =
     concat (replicate 4 (map (Pair True) [0..<count] @ map (Pair False) (rev [0..<count])))"

definition order_layout_layers ::
  "adjacency \<Rightarrow> adjacency \<Rightarrow> layering \<Rightarrow> node_id list list \<Rightarrow> node_id list list" where
  "order_layout_layers inc out by_node layers =
     fold (sort_layer inc out by_node) (sweep_schedule (length layers)) layers"

subsection \<open>Positions\<close>

type_synonym point = "int \<times> int"

fun place_column ::
  "graph \<Rightarrow> adjacency \<Rightarrow> adjacency \<Rightarrow> nat \<Rightarrow> int \<Rightarrow> bool option \<Rightarrow> nat option \<Rightarrow> node_id list
    \<Rightarrow> (node_id, point) btree \<Rightarrow> (node_id, point) btree" where
  "place_column g inc out layer y prev_connected prev_lane [] positions = positions"
| "place_column g inc out layer y prev_connected prev_lane (i # rest) positions =
     (let n = layout_node g i;
          connected = node_is_connected i inc out;
          lane = node_layout_lane g n;
          y = (if prev_connected = Some True \<and> \<not> connected then y + 64
                 else if prev_connected = Some connected \<and> prev_lane \<noteq> None
                      \<and> prev_lane \<noteq> Some lane then y + 28
                 else y) in
      place_column g inc out layer (y + (node_layout_height g n + 70))
        (Some connected) (Some lane) rest
        (bt_insert i (40 + int layer * 360, y) positions))"

definition layout_columns :: "graph \<Rightarrow> node_id list list" where
  "layout_columns g =
     (case fill_columns g (graph_layers g) of
        (layers, by_node) \<Rightarrow>
          order_layout_layers (incoming_of g) (outgoing_of g) by_node
            (map (sort_key (static_key g)) layers))"

definition default_node_positions :: "graph \<Rightarrow> (node_id, point) btree" where
  "default_node_positions g =
     (if g_nodes g = [] then []
      else fold (\<lambda>(layer, nodes).
             place_column g (incoming_of g) (outgoing_of g) layer 40 None None nodes)
           (List.enumerate 0 (layout_columns g)) [])"

end
