(* ===== verification/Layout_Props.thy ===== *)
theory Layout_Props
  imports Layout Graph_Props "HOL-Library.Multiset"
begin

text \<open>
  What the canvas layout guarantees: layers bounded by the number of nodes and increasing
  along every route of a graph without cycles, columns that hold every node exactly once
  whatever the sorts do, and positions that never overlap inside a column.
\<close>

subsection \<open>One node of the worklist\<close>

lemma relax_targets_Cons:
  "relax_targets limit c (t # ts) L queue =
    (if layer_of L t < min (c + 1) limit
     then relax_targets limit c ts (bt_insert t (min (c + 1) limit) (or_default t L)) (queue @ [t])
     else relax_targets limit c ts (or_default t L) queue)"
  by (simp only: relax_targets.simps Let_def layer_of_or_default)

lemma relax_targets_layers:
  assumes "relax_targets limit c ts L queue = (L', queue')"
  shows "(\<forall>n. layer_of L n \<le> layer_of L' n)
    \<and> (\<forall>n. layer_of L' n \<noteq> layer_of L n \<longrightarrow>
         n \<in> set ts \<and> n \<in> set queue' \<and> layer_of L' n = min (c + 1) limit)
    \<and> (\<forall>n \<in> set ts. min (c + 1) limit \<le> layer_of L' n)
    \<and> set queue \<subseteq> set queue'"
  using assms
proof (induction ts arbitrary: L queue)
  case Nil
  then show ?case by simp
next
  case (Cons t ts)
  let ?c = "min (c + 1) limit" and ?D = "or_default t L"
  show ?case
  proof (cases "layer_of L t < ?c")
    case True
    then have "relax_targets limit c ts (bt_insert t ?c ?D) (queue @ [t]) = (L', queue')"
      using Cons.prems by (simp only: relax_targets_Cons if_True)
    note ih = Cons.IH [OF this, unfolded layer_of_insert layer_of_or_default]
    have up: "(if n = t then ?c else layer_of L n) \<le> layer_of L' n" for n
      using ih by blast
    have changed: "n \<in> set ts \<and> n \<in> set queue' \<and> layer_of L' n = ?c"
      if "layer_of L' n \<noteq> (if n = t then ?c else layer_of L n)" for n
      using ih that by blast
    have reached: "n \<in> set ts \<Longrightarrow> ?c \<le> layer_of L' n" for n
      using ih by blast
    have q: "set queue \<subseteq> set queue'" "t \<in> set queue'"
      using ih by simp_all
    have "layer_of L n \<le> layer_of L' n" for n
      using up [of n] True by (simp split: if_splits)
    moreover have "n \<in> set (t # ts) \<and> n \<in> set queue' \<and> layer_of L' n = ?c"
      if "layer_of L' n \<noteq> layer_of L n" for n
      using changed [of n] that q(2) by (cases "n = t") auto
    moreover have "?c \<le> layer_of L' n" if "n \<in> set (t # ts)" for n
      using up [of t] reached [of n] that by auto
    ultimately show ?thesis using q(1) by blast
  next
    case False
    then have "relax_targets limit c ts ?D queue = (L', queue')"
      using Cons.prems by (simp only: relax_targets_Cons if_False)
    note ih = Cons.IH [OF this, unfolded layer_of_or_default]
    have "layer_of L t \<le> layer_of L' t" using ih by blast
    with False have "?c \<le> layer_of L' t" by linarith
    with ih show ?thesis by auto
  qed
qed

subsection \<open>The worklist\<close>

text \<open>
  The invariant of the loop: a node that was put on the queue and left it has all its targets
  beyond itself, up to the limit. \<open>started\<close> are the nodes the loop was begun with.
\<close>

definition settled ::
  "nat \<Rightarrow> adjacency \<Rightarrow> node_id set \<Rightarrow> node_id list \<Rightarrow> layering \<Rightarrow> bool" where
  "settled limit out started queue L \<longleftrightarrow>
     (\<forall>n t. (n \<in> started \<or> 0 < layer_of L n) \<and> n \<notin> set queue \<and> t \<in> set (adjacent out n)
        \<longrightarrow> min (layer_of L n + 1) limit \<le> layer_of L t)"

lemma settled_step:
  assumes "settled limit out started (n # queue) L"
    and "relax_targets limit (layer_of L n) (adjacent out n) L queue = (L', queue')"
  shows "settled limit out started queue' L'"
proof -
  note up = relax_targets_layers [OF assms(2)]
  show ?thesis unfolding settled_def
  proof (intro allI impI, elim conjE)
    fix m t
    assume active: "m \<in> started \<or> 0 < layer_of L' m" and out_q: "m \<notin> set queue'"
      and t: "t \<in> set (adjacent out m)"
    have same: "layer_of L' m = layer_of L m" and "m \<notin> set queue"
      using up out_q by blast+
    show "min (layer_of L' m + 1) limit \<le> layer_of L' t"
    proof (cases "m = n")
      case True
      with up t same show ?thesis by auto
    next
      case False
      with \<open>m \<notin> set queue\<close> active same t assms(1)
      have "min (layer_of L m + 1) limit \<le> layer_of L t"
        unfolding settled_def by auto
      with up same show ?thesis by (metis le_trans)
    qed
  qed
qed

lemma propagate_settled:
  "settled limit out started queue L \<Longrightarrow> settled limit out started [] (propagate limit out queue L)"
proof (induction limit out queue L rule: propagate.induct)
  case (1 limit out L)
  then show ?case by simp
next
  case (2 limit out n queue L)
  obtain L' queue' where
    r: "relax_targets limit (layer_of L n) (adjacent out n) L queue = (L', queue')"
    by (metis surj_pair)
  with "2.IH" [OF r [symmetric] settled_step [OF "2.prems" r]] show ?case by simp
qed

lemma propagate_grows: "layer_of L n \<le> layer_of (propagate limit out queue L) n"
proof (induction limit out queue L rule: propagate.induct)
  case (1 limit out L)
  then show ?case by simp
next
  case (2 limit out m queue L)
  obtain L' queue' where
    r: "relax_targets limit (layer_of L m) (adjacent out m) L queue = (L', queue')"
    by (metis surj_pair)
  with 2 [OF r [symmetric]] relax_targets_layers [OF r] show ?case
    by (auto intro: le_trans)
qed

text \<open>Every layer is at most the limit, and is the length of some walk to the node.\<close>

inductive walk :: "adjacency \<Rightarrow> nat \<Rightarrow> node_id \<Rightarrow> bool" for out where
  walk_here: "walk out 0 n"
| walk_step: "walk out k m \<Longrightarrow> n \<in> set (adjacent out m) \<Longrightarrow> walk out (Suc k) n"

lemma walk_shorter: "walk out k n \<Longrightarrow> j \<le> k \<Longrightarrow> walk out j n"
proof (induction arbitrary: j rule: walk.induct)
  case (walk_here n)
  then show ?case by (simp add: walk.walk_here)
next
  case (walk_step k m n)
  then show ?case
    by (cases j) (auto intro: walk.intros)
qed

definition walked :: "nat \<Rightarrow> adjacency \<Rightarrow> layering \<Rightarrow> bool" where
  "walked limit out L \<longleftrightarrow> (\<forall>n. layer_of L n \<le> limit \<and> walk out (layer_of L n) n)"

lemma walked_step:
  assumes "walked limit out L"
    and "relax_targets limit (layer_of L n) (adjacent out n) L queue = (L', queue')"
  shows "walked limit out L'"
  unfolding walked_def
proof
  fix m
  show "layer_of L' m \<le> limit \<and> walk out (layer_of L' m) m"
  proof (cases "layer_of L' m = layer_of L m")
    case True
    with assms(1) show ?thesis by (simp add: walked_def)
  next
    case False
    with relax_targets_layers [OF assms(2)]
    have m: "m \<in> set (adjacent out n)" and l: "layer_of L' m = min (layer_of L n + 1) limit"
      by auto
    have "walk out (Suc (layer_of L n)) m"
      using assms(1) m by (auto simp: walked_def intro: walk_step)
    then show ?thesis using l by (auto intro: walk_shorter)
  qed
qed

lemma propagate_walked:
  "walked limit out L \<Longrightarrow> walked limit out (propagate limit out queue L)"
proof (induction limit out queue L rule: propagate.induct)
  case (1 limit out L)
  then show ?case by simp
next
  case (2 limit out n queue L)
  obtain L' queue' where
    r: "relax_targets limit (layer_of L n) (adjacent out n) L queue = (L', queue')"
    by (metis surj_pair)
  with "2.IH" [OF r [symmetric] walked_step [OF "2.prems" r]] show ?case by simp
qed

subsection \<open>Routes and adjacency\<close>

lemma bt_get_map_key:
  "bt_get (map (\<lambda>k. (k, f k)) ks) k = (if k \<in> set ks then Some (f k) else None)"
  by (induction ks) (auto simp: bt_get_Cons)

lemma set_sort_dedup [simp]: "set (sort_dedup xs) = set xs"
  by (simp add: sort_dedup_def)

lemma node_routes_known:
  assumes "(u, v) \<in> set (node_routes g)"
  shows "u \<noteq> v" "u \<in> set (bt_keys (g_nodes g))" "v \<in> set (bt_keys (g_nodes g))"
proof -
  obtain l where "link_route g l = Some (u, v)"
    using assms by (auto simp: node_routes_def set_filter_map)
  then show "u \<noteq> v" "u \<in> set (bt_keys (g_nodes g))" "v \<in> set (bt_keys (g_nodes g))"
    by (auto simp: link_route_def bt_contains_def set_bt_keys split: option.splits if_splits)
qed

lemma adjacent_outgoing:
  "v \<in> set (adjacent (outgoing_of g) u) \<longleftrightarrow> (u, v) \<in> set (node_routes g)"
  using node_routes_known(2) [of u v g]
  by (force simp: adjacent_def outgoing_of_def bt_get_map_key)

lemma incoming_counts:
  assumes "u \<in> set (bt_keys (g_nodes g))"
  shows "layer_of (incoming_count g) u = 0 \<longleftrightarrow> (\<forall>w. (w, u) \<notin> set (node_routes g))"
  using assms by (auto simp: layer_of_def incoming_count_def bt_get_map_key filter_empty_conv)

lemma walk_in_acyclic:
  assumes "walk (outgoing_of g) k n" and "acyclic (set (node_routes g))"
    and "n \<in> set (bt_keys (g_nodes g))"
  shows "\<exists>S. card S = Suc k \<and> S \<subseteq> set (bt_keys (g_nodes g))
    \<and> (\<forall>m \<in> S. m = n \<or> (m, n) \<in> (set (node_routes g))\<^sup>+)"
  using assms
proof (induction rule: walk.induct)
  case (walk_here n)
  then show ?case by (intro exI [of _ "{n}"]) simp
next
  case (walk_step k m n)
  let ?E = "set (node_routes g)"
  have edge: "(m, n) \<in> ?E" using walk_step.hyps(2) by (simp add: adjacent_outgoing)
  with walk_step.IH walk_step.prems(1) node_routes_known(2) obtain S where
    S: "card S = Suc k" "S \<subseteq> set (bt_keys (g_nodes g))" "\<forall>x \<in> S. x = m \<or> (x, m) \<in> ?E\<^sup>+"
    by blast
  have before_n: "(x, n) \<in> ?E\<^sup>+" if "x \<in> S" for x
    using S(3) that edge by (auto intro: trancl_into_trancl)
  then have "n \<notin> S"
    using walk_step.prems(1) by (auto simp: acyclic_def)
  moreover have "finite S" using S(1) by (simp add: card_ge_0_finite)
  ultimately show ?case
    using S before_n walk_step.prems(2) by (intro exI [of _ "insert n S"]) auto
qed

lemma walk_bounded:
  assumes "graph_wf g" and "acyclic (set (node_routes g))" and "walk (outgoing_of g) k n"
    and "n \<in> set (bt_keys (g_nodes g))"
  shows "k \<le> node_limit g"
proof -
  obtain S where "card S = Suc k" "S \<subseteq> set (bt_keys (g_nodes g))"
    using walk_in_acyclic [OF assms(3,2,4)] by blast
  then have "Suc k \<le> card (set (bt_keys (g_nodes g)))"
    by (metis List.finite_set card_mono)
  also have "\<dots> \<le> length (g_nodes g)"
    by (metis bt_keys_def card_length length_map)
  finally show ?thesis by (simp add: node_limit_def)
qed

subsection \<open>Graph layers\<close>

text \<open>What holds between two steps of the seeding loop, after the nodes \<open>visited\<close>.\<close>

definition layered :: "graph \<Rightarrow> node_id set \<Rightarrow> layering \<Rightarrow> bool" where
  "layered g visited L \<longleftrightarrow>
     walked (node_limit g) (outgoing_of g) L
     \<and> (\<exists>started. settled (node_limit g) (outgoing_of g) started [] L
          \<and> set (layout_roots g) \<subseteq> started
          \<and> (\<forall>n \<in> visited. n \<in> started \<or> 0 < layer_of L n))"

lemma layeredI:
  assumes "walked (node_limit g) (outgoing_of g) L"
    and "settled (node_limit g) (outgoing_of g) started [] L"
    and "set (layout_roots g) \<subseteq> started"
    and "\<forall>n \<in> visited. n \<in> started \<or> 0 < layer_of L n"
  shows "layered g visited L"
  using assms unfolding layered_def by blast

lemma layer_of_zero [simp]: "layer_of (zero_layers g) n = 0"
  by (simp add: layer_of_def zero_layers_def bt_get_map_key)

lemma layered_start:
  "layered g {} (propagate (node_limit g) (outgoing_of g) (layout_roots g) (zero_layers g))"
proof -
  have "settled (node_limit g) (outgoing_of g) (set (layout_roots g)) (layout_roots g) (zero_layers g)"
    by (auto simp: settled_def)
  moreover have "walked (node_limit g) (outgoing_of g) (zero_layers g)"
    by (simp add: walked_def walk_here)
  ultimately show ?thesis
    unfolding layered_def by (blast intro: propagate_settled propagate_walked)
qed

lemma root_started:
  assumes "n \<in> set (bt_keys (g_nodes g))" and "layer_of (incoming_count g) n = 0"
  shows "n \<in> set (layout_roots g)"
proof -
  have "(n, 0) \<in> set (incoming_count g)"
    using assms by (auto simp: layer_of_def incoming_count_def bt_get_map_key)
  then have "n \<in> set (filter_map (\<lambda>(n, c). if c = 0 then Some n else None) (incoming_count g))"
    by (force simp: set_filter_map)
  then show ?thesis by (auto simp: layout_roots_def Let_def)
qed

lemma layered_seed:
  assumes "layered g visited L" and "n \<in> set (bt_keys (g_nodes g))"
  shows "layered g (insert n visited) (seed_cycle g n L)"
proof -
  let ?out = "outgoing_of g" and ?lim = "node_limit g"
  obtain started where w: "walked ?lim ?out L" and s: "settled ?lim ?out started [] L"
    and roots: "set (layout_roots g) \<subseteq> started"
    and act: "\<forall>n \<in> visited. n \<in> started \<or> 0 < layer_of L n"
    using assms(1) unfolding layered_def by blast
  show ?thesis
  proof (cases "layer_of (incoming_count g) n > 0 \<and> layer_of L n = 0")
    case True
    then have eq: "seed_cycle g n L = propagate ?lim ?out [n] L"
      by (simp add: seed_cycle_def)
    have "settled ?lim ?out (insert n started) [n] L"
      using s by (auto simp: settled_def)
    then have "settled ?lim ?out (insert n started) [] (propagate ?lim ?out [n] L)"
      by (rule propagate_settled)
    moreover have "\<forall>m \<in> insert n visited. m \<in> insert n started
        \<or> 0 < layer_of (propagate ?lim ?out [n] L) m"
      using act propagate_grows [of L _ ?lim ?out "[n]"] by (metis insert_iff less_le_trans)
    moreover have "set (layout_roots g) \<subseteq> insert n started" using roots by blast
    ultimately show ?thesis
      unfolding eq by (intro layeredI [OF propagate_walked [OF w]])
  next
    case False
    then have eq: "seed_cycle g n L = L" by (simp only: seed_cycle_def False if_False)
    have "n \<in> started \<or> 0 < layer_of L n"
      using False root_started [OF assms(2)] roots by blast
    with act have "\<forall>m \<in> insert n visited. m \<in> started \<or> 0 < layer_of L m"
      by simp
    then show ?thesis
      unfolding eq by (rule layeredI [OF w s roots])
  qed
qed

lemma layered_fold:
  assumes "layered g visited L" and "set ns \<subseteq> set (bt_keys (g_nodes g))"
  shows "layered g (visited \<union> set ns) (fold (seed_cycle g) ns L)"
  using assms
proof (induction ns arbitrary: visited L)
  case Nil
  then show ?case by simp
next
  case (Cons n ns)
  with Cons.IH [OF layered_seed [of g visited L n]] show ?case by simp
qed

lemma layered_graph_layers: "layered g (set (bt_keys (g_nodes g))) (graph_layers g)"
  using layered_fold [OF layered_start subset_refl] by (simp add: graph_layers_def)

lemma route_layers:
  assumes "(u, v) \<in> set (node_routes g)"
  shows "min (layer_of (graph_layers g) u + 1) (node_limit g) \<le> layer_of (graph_layers g) v"
  using layered_graph_layers [of g] assms node_routes_known(2) [OF assms]
  unfolding layered_def settled_def adjacent_outgoing by fastforce

lemma layer_bound: "layer_of (graph_layers g) n \<le> node_limit g"
  and layer_walk: "walk (outgoing_of g) (layer_of (graph_layers g) n) n"
  using layered_graph_layers [of g] unfolding layered_def walked_def by blast+

lemma acyclic_route_layers:
  assumes "graph_wf g" and "acyclic (set (node_routes g))" and "(u, v) \<in> set (node_routes g)"
  shows "layer_of (graph_layers g) u < layer_of (graph_layers g) v"
proof -
  have "walk (outgoing_of g) (Suc (layer_of (graph_layers g) u)) v"
    using walk_step [OF layer_walk] adjacent_outgoing assms(3) by blast
  then have "Suc (layer_of (graph_layers g) u) \<le> node_limit g"
    using walk_bounded [OF assms(1,2)] node_routes_known(3) [OF assms(3)] by blast
  with route_layers [OF assms(3)] show ?thesis by simp
qed

lemma route_ascends:
  assumes "graph_wf g"
  shows "\<forall>(u, v) \<in> set (node_routes g).
    layer_of (graph_layers g) u < layer_of (graph_layers g) v
    \<or> layer_of (graph_layers g) v = node_limit g \<and> \<not> acyclic (set (node_routes g))"
proof (intro ballI, clarify)
  fix u v
  assume uv: "(u, v) \<in> set (node_routes g)"
    and last: "\<not> (layer_of (graph_layers g) v = node_limit g \<and> \<not> acyclic (set (node_routes g)))"
  show "layer_of (graph_layers g) u < layer_of (graph_layers g) v"
  proof (cases "acyclic (set (node_routes g))")
    case True
    with acyclic_route_layers [OF assms] uv show ?thesis by blast
  next
    case False
    with last route_layers [OF uv] layer_bound [of g u] layer_bound [of g v]
    show ?thesis by (simp add: min_def split: if_splits)
  qed
qed

text \<open>
  The worklist never assigns a layer above the number of nodes minus one, and in the end
  every route leads to a later layer or into the last one; without a cycle among the routes
  it always leads to a later layer.
\<close>

lemma graph_layers_bounded:
  assumes "graph_wf g"
  shows "(\<forall>n. layer_of (graph_layers g) n \<le> node_limit g)
    \<and> (\<forall>(u, v) \<in> set (node_routes g).
         layer_of (graph_layers g) u < layer_of (graph_layers g) v
         \<or> layer_of (graph_layers g) v = node_limit g \<and> \<not> acyclic (set (node_routes g)))"
  using layer_bound route_ascends [OF assms] by blast

subsection \<open>Columns\<close>

lemma fold_max_upper: "x \<in> set xs \<or> x \<le> a \<Longrightarrow> x \<le> fold max xs (a :: nat)"
proof (induction xs arbitrary: a)
  case Nil
  then show ?case by simp
next
  case (Cons y ys)
  from Cons.IH [of "max y a"] Cons.prems show ?case by (auto simp: le_max_iff_disj)
qed

lemma layer_le_max: "layer_of L n \<le> max_layer L"
proof (cases "bt_get L n")
  case (Some l)
  then have "l \<in> set (bt_values L)" by (rule in_bt_values)
  with Some show ?thesis
    using fold_max_upper [of l "bt_values L" 0] by (simp add: layer_of_def max_layer_def)
qed (simp add: layer_of_def)

lemma node_column_le: "node_column g L n \<le> max 2 (layer_of L (node_ident n))"
proof -
  have role: "(case r of 0 \<Rightarrow> 0 | Suc 0 \<Rightarrow> 1 | Suc (Suc 0) \<Rightarrow> 2 | _ \<Rightarrow> 0) \<le> max 2 l" for r l :: nat
    by (simp add: le_max_iff_disj split: nat.split)
  show ?thesis
    unfolding node_column_def Let_def using role [of "node_layout_role g n" 0] by simp
qed

lemma node_column_le_max: "node_column g L n \<le> max_layer L"
  using node_column_le [of g L n] layer_le_max [of L "node_ident n"]
  by (auto simp: max_layer_def le_max_iff_disj)

text \<open>The columns hold the nodes in map order, whatever the layering; no column is added.\<close>

lemma fill_columns_nth:
  "length (fst (fill_columns g L)) = max_layer L + 1
    \<and> (\<forall>c \<le> max_layer L. fst (fill_columns g L) ! c =
         map node_ident (filter (\<lambda>n. node_column g L n = c) (bt_values (g_nodes g))))"
proof -
  let ?step = "\<lambda>n (layers, by_node).
    let layer = node_column g L n in
    (push_to_layer layer (node_ident n) layers, bt_insert (node_ident n) layer by_node)"
  have "length (fst (fold ?step ns (replicate (max_layer L + 1) [], []))) = max_layer L + 1
    \<and> (\<forall>c \<le> max_layer L. fst (fold ?step ns (replicate (max_layer L + 1) [], [])) ! c =
         map node_ident (filter (\<lambda>n. node_column g L n = c) ns))" for ns
  proof (induction ns rule: rev_induct)
    case Nil
    show ?case by (simp del: replicate_Suc)
  next
    case (snoc n ns)
    obtain layers by_node where
      r: "fold ?step ns (replicate (max_layer L + 1) [], []) = (layers, by_node)"
      by (rule prod.exhaust)
    let ?c = "node_column g L n"
    have len: "length layers = max_layer L + 1"
      and cols: "\<And>c. c \<le> max_layer L \<Longrightarrow>
        layers ! c = map node_ident (filter (\<lambda>n. node_column g L n = c) ns)"
      using snoc.IH unfolding r by simp_all
    have c: "?c < length layers" using node_column_le_max [of g L n] len by simp
    have "fst (fold ?step (ns @ [n]) (replicate (max_layer L + 1) [], [])) =
        push_to_layer ?c (node_ident n) layers"
      using r by (simp add: Let_def)
    also have "\<dots> = layers[?c := layers ! ?c @ [node_ident n]]"
      using c by (simp add: push_to_layer_def)
    finally show ?case
      using len c cols by (auto simp: nth_list_update)
  qed
  then show ?thesis by (simp add: fill_columns_def)
qed

text \<open>No sort moves a node to another column.\<close>

lemma sort_layer_contents: "map mset (sort_layer inc out by_node step layers) = map mset layers"
proof -
  obtain forward layer where step: "step = (forward, layer)" by (metis surj_pair)
  show ?thesis
  proof (cases "layer < length layers")
    case True
    then have "mset (layers ! layer) = map mset layers ! layer" by simp
    then show ?thesis by (simp add: sort_layer_def step map_update)
  qed (simp add: sort_layer_def step list_update_beyond)
qed

lemma order_layers_contents:
  "map mset (order_layout_layers inc out by_node layers) = map mset layers"
proof -
  have "map mset (fold (sort_layer inc out by_node) steps layers) = map mset layers" for steps
    by (induction steps arbitrary: layers) (simp_all add: sort_layer_contents)
  then show ?thesis by (simp add: order_layout_layers_def)
qed

lemma layout_columns_contents:
  "map mset (layout_columns g) = map mset (fst (fill_columns g (graph_layers g)))"
  by (simp add: layout_columns_def order_layers_contents split: prod.splits)

lemma graph_wf_idents: "graph_wf g \<Longrightarrow> map node_ident (bt_values (g_nodes g)) = bt_keys (g_nodes g)"
  unfolding bt_values_def bt_keys_def using graph_wfD(1,4) [of g]
  by (auto simp: bt_get_iff)

lemma column_nodes:
  assumes "graph_wf g"
  shows "length (layout_columns g) = max_layer (graph_layers g) + 1"
    and "c < length (layout_columns g) \<Longrightarrow> distinct (layout_columns g ! c)"
    and "c < length (layout_columns g) \<Longrightarrow> i \<in> set (layout_columns g ! c) \<longleftrightarrow>
      (\<exists>n. graph_node g i = Some n \<and> node_column g (graph_layers g) n = c)"
proof -
  let ?L = "graph_layers g" and ?F = "fst (fill_columns g (graph_layers g))"
  note fill = fill_columns_nth [of g ?L]
  have len: "length (layout_columns g) = length ?F"
    using arg_cong [OF layout_columns_contents, of length] by simp
  then show "length (layout_columns g) = max_layer ?L + 1" using fill by simp
  assume c: "c < length (layout_columns g)"
  then have m: "mset (layout_columns g ! c) = mset (?F ! c)"
    using layout_columns_contents [of g] len by (metis nth_map)
  have F: "?F ! c = map node_ident (filter (\<lambda>n. node_column g ?L n = c) (bt_values (g_nodes g)))"
    using fill c len by simp
  have "distinct (map node_ident (bt_values (g_nodes g)))"
    using graph_wf_idents [OF assms] distinct_bt_keys graph_wfD(1) [OF assms] by metis
  then have "distinct (?F ! c)" unfolding F by (simp add: distinct_map_filter)
  then show "distinct (layout_columns g ! c)" using m by (metis mset_eq_imp_distinct_iff)
  have "i \<in> set (?F ! c) \<longleftrightarrow> (\<exists>n. graph_node g i = Some n \<and> node_column g ?L n = c)"
    unfolding F graph_node_def using graph_wfD(4) [OF assms]
    by (force simp: set_bt_values [OF graph_wfD(1) [OF assms]])
  then show "i \<in> set (layout_columns g ! c) \<longleftrightarrow>
      (\<exists>n. graph_node g i = Some n \<and> node_column g ?L n = c)"
    using m by (metis set_mset_mset)
qed

subsection \<open>Positions\<close>

text \<open>
  The nodes of a column are placed at its abscissa, at \<open>y\<close> or below, one under the other.
\<close>

definition stacked ::
  "graph \<Rightarrow> nat \<Rightarrow> int \<Rightarrow> node_id list \<Rightarrow> (node_id, point) btree \<Rightarrow> bool" where
  "stacked g c y nodes P \<longleftrightarrow>
     (\<forall>i \<in> set nodes. \<exists>t. bt_get P i = Some (40 + int c * 360, t) \<and> y \<le> t)
     \<and> (\<forall>i \<in> set nodes. \<forall>j \<in> set nodes. i \<noteq> j \<longrightarrow>
          snd (the (bt_get P i)) + node_layout_height g (layout_node g i) + 70 \<le> snd (the (bt_get P j))
          \<or> snd (the (bt_get P j)) + node_layout_height g (layout_node g j) + 70
             \<le> snd (the (bt_get P i)))"

lemma stacked_cong:
  "(\<And>i. i \<in> set nodes \<Longrightarrow> bt_get P i = bt_get Q i) \<Longrightarrow> stacked g c y nodes P = stacked g c y nodes Q"
  by (simp add: stacked_def)

lemma stacked_Cons:
  assumes "bt_get P i = Some (40 + int c * 360, t)" and "y \<le> t"
    and "stacked g c (t + node_layout_height g (layout_node g i) + 70) nodes P"
  shows "stacked g c y (i # nodes) P"
proof -
  have h: "0 \<le> node_layout_height g (layout_node g i)"
    by (simp add: node_layout_height_def Let_def)
  have below: "\<exists>u. bt_get P j = Some (40 + int c * 360, u)
      \<and> t + node_layout_height g (layout_node g i) + 70 \<le> u" if "j \<in> set nodes" for j
    using assms(3) that by (simp add: stacked_def)
  have "\<exists>u. bt_get P j = Some (40 + int c * 360, u) \<and> y \<le> u" if j: "j \<in> set (i # nodes)" for j
  proof (cases "j = i")
    case False
    with below [of j] j h assms(2) show ?thesis by fastforce
  qed (use assms in auto)
  moreover have "snd (the (bt_get P k)) + node_layout_height g (layout_node g k) + 70
        \<le> snd (the (bt_get P j))
      \<or> snd (the (bt_get P j)) + node_layout_height g (layout_node g j) + 70
        \<le> snd (the (bt_get P k))"
    if "k \<in> set (i # nodes)" "j \<in> set (i # nodes)" "k \<noteq> j" for j k
  proof (cases "k = i \<or> j = i")
    case True
    with that below [of j] below [of k] assms(1) show ?thesis by fastforce
  next
    case False
    with that assms(3) show ?thesis by (simp add: stacked_def)
  qed
  ultimately show ?thesis unfolding stacked_def by blast
qed

lemma place_column_effect:
  assumes "distinct nodes"
  shows "stacked g c y nodes (place_column g inc out c y pc pl nodes P)
    \<and> (\<forall>i. i \<notin> set nodes \<longrightarrow> bt_get (place_column g inc out c y pc pl nodes P) i = bt_get P i)
    \<and> (bt_wf P \<longrightarrow> bt_wf (place_column g inc out c y pc pl nodes P))"
  using assms
proof (induction nodes arbitrary: y pc pl P)
  case Nil
  then show ?case by (simp add: stacked_def)
next
  case (Cons i nodes)
  let ?n = "layout_node g i" and ?con = "node_is_connected i inc out"
  let ?lane = "node_layout_lane g (layout_node g i)"
  define t where "t = (if pc = Some True \<and> \<not> ?con then y + 64
    else if pc = Some ?con \<and> pl \<noteq> None \<and> pl \<noteq> Some ?lane then y + 28 else y)"
  have le: "y \<le> t" by (simp add: t_def)
  let ?P = "bt_insert i (40 + int c * 360, t) P"
  have step: "place_column g inc out c y pc pl (i # nodes) P =
      place_column g inc out c (t + (node_layout_height g ?n + 70)) (Some ?con) (Some ?lane) nodes ?P"
    by (simp add: Let_def t_def)
  note ih = Cons.IH [of "t + (node_layout_height g ?n + 70)" "Some ?con" "Some ?lane" ?P]
  have "bt_get (place_column g inc out c y pc pl (i # nodes) P) i = Some (40 + int c * 360, t)"
    using ih Cons.prems unfolding step by simp
  then have "stacked g c y (i # nodes) (place_column g inc out c y pc pl (i # nodes) P)"
    using ih Cons.prems unfolding step by (intro stacked_Cons [OF _ le]) (simp_all add: algebra_simps)
  then show ?case
    using ih Cons.prems unfolding step by simp
qed

definition place_columns ::
  "graph \<Rightarrow> adjacency \<Rightarrow> adjacency \<Rightarrow> nat \<Rightarrow> node_id list list \<Rightarrow> (node_id, point) btree
    \<Rightarrow> (node_id, point) btree" where
  "place_columns g inc out k columns P =
     fold (\<lambda>(layer, nodes). place_column g inc out layer 40 None None nodes)
       (List.enumerate k columns) P"

lemma place_columns_effect:
  assumes "distinct (concat columns)" and "bt_wf P"
  shows "(\<forall>c < length columns. stacked g (k + c) 40 (columns ! c) (place_columns g inc out k columns P))
    \<and> (\<forall>i. i \<notin> set (concat columns) \<longrightarrow> bt_get (place_columns g inc out k columns P) i = bt_get P i)
    \<and> bt_wf (place_columns g inc out k columns P)"
  using assms
proof (induction columns arbitrary: k P)
  case Nil
  then show ?case by (simp add: place_columns_def)
next
  case (Cons nodes columns)
  let ?P = "place_column g inc out k 40 None None nodes P"
  let ?F = "place_columns g inc out (Suc k) columns ?P"
  have step: "place_columns g inc out k (nodes # columns) P = ?F"
    by (simp add: place_columns_def enumerate_simps)
  have d: "distinct nodes" "distinct (concat columns)" "set nodes \<inter> set (concat columns) = {}"
    using Cons.prems(1) by auto
  note one = place_column_effect [OF d(1), of g k 40 inc out None None P]
  have ih: "(\<forall>c < length columns. stacked g (Suc k + c) 40 (columns ! c) ?F)
      \<and> (\<forall>i. i \<notin> set (concat columns) \<longrightarrow> bt_get ?F i = bt_get ?P i) \<and> bt_wf ?F"
    using Cons.IH [OF d(2), of ?P "Suc k"] one Cons.prems(2) by blast
  have "bt_get ?F i = bt_get ?P i" if "i \<in> set nodes" for i
    using ih d(3) that by blast
  then have "stacked g k 40 nodes ?F"
    using one stacked_cong [of nodes ?F ?P g k 40] by blast
  then have "stacked g (k + c) 40 ((nodes # columns) ! c) ?F" if "c < Suc (length columns)" for c
    using ih that by (cases c) auto
  moreover have "bt_get ?F i = bt_get P i" if "i \<notin> set (concat (nodes # columns))" for i
    using ih one that by simp
  ultimately show ?case unfolding step using ih by simp
qed

subsection \<open>The whole layout\<close>

lemma distinct_concat_nth:
  assumes "\<And>c. c < length xss \<Longrightarrow> distinct (xss ! c)"
    and "\<And>c d x. c < length xss \<Longrightarrow> d < length xss \<Longrightarrow> x \<in> set (xss ! c) \<Longrightarrow> x \<in> set (xss ! d) \<Longrightarrow> c = d"
  shows "distinct (concat xss)"
  using assms
proof (induction xss)
  case Nil
  then show ?case by simp
next
  case (Cons xs xss)
  have "distinct (concat xss)"
  proof (rule Cons.IH)
    show "distinct (xss ! c)" if "c < length xss" for c
      using Cons.prems(1) [of "Suc c"] that by simp
    show "c = d" if "c < length xss" "d < length xss" "x \<in> set (xss ! c)" "x \<in> set (xss ! d)" for c d x
      using Cons.prems(2) [of "Suc c" "Suc d" x] that by simp
  qed
  moreover have "x \<notin> set ys" if x: "x \<in> set xs" and ys: "ys \<in> set xss" for x ys
  proof
    assume "x \<in> set ys"
    from ys obtain d where "d < length xss" "xss ! d = ys" by (metis in_set_conv_nth)
    with Cons.prems(2) [of 0 "Suc d" x] x \<open>x \<in> set ys\<close> show False by simp
  qed
  ultimately show ?case using Cons.prems(1) [of 0] by auto
qed

lemma layout_columns_distinct: "graph_wf g \<Longrightarrow> distinct (concat (layout_columns g))"
  by (rule distinct_concat_nth) (auto simp: column_nodes)

lemma set_layout_columns:
  assumes "graph_wf g"
  shows "set (concat (layout_columns g)) = set (bt_keys (g_nodes g))"
proof (intro set_eqI iffI)
  fix i
  assume "i \<in> set (concat (layout_columns g))"
  then obtain nodes where "nodes \<in> set (layout_columns g)" "i \<in> set nodes" by auto
  then obtain c where "c < length (layout_columns g)" "i \<in> set (layout_columns g ! c)"
    by (metis in_set_conv_nth)
  with column_nodes(3) [OF assms] show "i \<in> set (bt_keys (g_nodes g))"
    by (auto simp: set_bt_keys graph_node_def)
next
  fix i
  assume "i \<in> set (bt_keys (g_nodes g))"
  then obtain n where n: "graph_node g i = Some n" by (auto simp: set_bt_keys graph_node_def)
  let ?c = "node_column g (graph_layers g) n"
  have c: "?c < length (layout_columns g)"
    using node_column_le_max [of g "graph_layers g" n] column_nodes(1) [OF assms] by simp
  then have "i \<in> set (layout_columns g ! ?c)" using column_nodes(3) [OF assms c] n by blast
  with c show "i \<in> set (concat (layout_columns g))" by (auto intro: bexI [OF _ nth_mem])
qed

lemma default_node_positions_columns:
  "g_nodes g \<noteq> [] \<Longrightarrow>
    default_node_positions g = place_columns g (incoming_of g) (outgoing_of g) 0 (layout_columns g) []"
  by (simp add: default_node_positions_def place_columns_def)

lemma positions_effect:
  assumes "graph_wf g" and "g_nodes g \<noteq> []"
  shows "c < length (layout_columns g) \<Longrightarrow>
      stacked g c 40 (layout_columns g ! c) (default_node_positions g)"
    and "bt_wf (default_node_positions g)"
    and "i \<notin> set (bt_keys (g_nodes g)) \<Longrightarrow> bt_get (default_node_positions g) i = None"
  using place_columns_effect [OF layout_columns_distinct [OF assms(1)] bt_wf_empty,
      where g = g and inc = "incoming_of g" and out = "outgoing_of g" and k = 0]
  unfolding default_node_positions_columns [OF assms(2)] set_layout_columns [OF assms(1)]
  by simp_all

lemma node_position:
  assumes "graph_wf g" and "graph_node g i = Some n"
  shows "\<exists>y. bt_get (default_node_positions g) i =
      Some (40 + int (node_column g (graph_layers g) n) * 360, y) \<and> 40 \<le> y"
    and "node_column g (graph_layers g) n < length (layout_columns g)"
    and "i \<in> set (layout_columns g ! node_column g (graph_layers g) n)"
proof -
  let ?c = "node_column g (graph_layers g) n"
  have ne: "g_nodes g \<noteq> []" using assms(2) by (auto simp: graph_node_def)
  show c: "?c < length (layout_columns g)"
    using node_column_le_max [of g "graph_layers g" n] column_nodes(1) [OF assms(1)] by simp
  show i: "i \<in> set (layout_columns g ! ?c)" using column_nodes(3) [OF assms(1) c] assms(2) by blast
  from positions_effect(1) [OF assms(1) ne c] i
  show "\<exists>y. bt_get (default_node_positions g) i = Some (40 + int ?c * 360, y) \<and> 40 \<le> y"
    by (auto simp: stacked_def)
qed

lemma positions_keys:
  assumes "graph_wf g"
  shows "bt_keys (default_node_positions g) = bt_keys (g_nodes g)"
proof (cases "g_nodes g = []")
  case True
  then show ?thesis by (simp add: default_node_positions_def bt_keys_def)
next
  case False
  have "bt_get (default_node_positions g) i \<noteq> None \<longleftrightarrow> bt_get (g_nodes g) i \<noteq> None" for i
    using positions_effect(3) [OF assms False, of i] node_position(1) [OF assms, of i]
    by (cases "bt_get (g_nodes g) i") (auto simp: set_bt_keys graph_node_def)
  then have "set (bt_keys (default_node_positions g)) = set (bt_keys (g_nodes g))"
    by (auto simp: set_bt_keys)
  then show ?thesis
    using positions_effect(2) [OF assms False] graph_wfD(1) [OF assms]
    by (intro sorted_distinct_set_unique) (auto simp: bt_wf_def bt_keys_def strict_sorted_iff)
qed

text \<open>
  The layout gives every node of the graph exactly one position and no other node any;
  its abscissa is that of its column, one of the first three columns or one of the first as
  many columns as there are nodes, and no node is above the top margin.
\<close>

lemma layout_places_every_node:
  assumes "graph_wf g"
  shows "bt_keys (default_node_positions g) = bt_keys (g_nodes g)
    \<and> (\<forall>i n. graph_node g i = Some n \<longrightarrow>
         (\<exists>c y. bt_get (default_node_positions g) i = Some (40 + int c * 360, y)
           \<and> c \<le> max 2 (node_limit g) \<and> 40 \<le> y))"
proof (intro conjI allI impI positions_keys [OF assms])
  fix i n
  assume n: "graph_node g i = Some n"
  have "node_column g (graph_layers g) n \<le> max 2 (node_limit g)"
    using node_column_le [of g "graph_layers g" n] layer_bound [of g "node_ident n"]
    by (auto simp: le_max_iff_disj)
  then show "\<exists>c y. bt_get (default_node_positions g) i = Some (40 + int c * 360, y)
      \<and> c \<le> max 2 (node_limit g) \<and> 40 \<le> y"
    using node_position(1) [OF assms n] by blast
qed

text \<open>
  C31: two nodes in the same column never overlap, whatever the sorts did: one ends, with the
  height of its panel, at least the row gap above the other.
\<close>

theorem layout_columns_disjoint:
  assumes "graph_wf g"
    and "bt_get (default_node_positions g) i = Some (x, y)"
    and "bt_get (default_node_positions g) j = Some (x, y')" and "i \<noteq> j"
  shows "y + node_layout_height g (layout_node g i) + 70 \<le> y'
    \<or> y' + node_layout_height g (layout_node g j) + 70 \<le> y"
proof -
  have known: "\<exists>n. graph_node g k = Some n" if "bt_get (default_node_positions g) k = Some p" for k p
    using positions_keys [OF assms(1)] that set_bt_keys [of "default_node_positions g"]
      set_bt_keys [of "g_nodes g"] by (auto simp: graph_node_def)
  obtain n m where n: "graph_node g i = Some n" and m: "graph_node g j = Some m"
    using known assms(2,3) by blast
  let ?c = "node_column g (graph_layers g) n"
  have "g_nodes g \<noteq> []" using n by (auto simp: graph_node_def)
  then have st: "stacked g ?c 40 (layout_columns g ! ?c) (default_node_positions g)"
    using positions_effect(1) [OF assms(1)] node_position(2) [OF assms(1) n] by blast
  have "node_column g (graph_layers g) m = ?c"
    using node_position(1) [OF assms(1) n] node_position(1) [OF assms(1) m] assms(2,3) by auto
  then have "i \<in> set (layout_columns g ! ?c)" "j \<in> set (layout_columns g ! ?c)"
    using node_position(3) [OF assms(1) n] node_position(3) [OF assms(1) m] by auto
  with st assms(2-4) show ?thesis unfolding stacked_def by fastforce
qed

definition two_microphones :: graph where
  "two_microphones =
     fold apply_op
       [AddNode (new_node (NodeId 1) ''mic'' NT_PipeWire),
        AddNode (new_node (NodeId 2) ''line'' NT_PipeWire),
        AddPort (new_port (PortId 1) (NodeId 1) ''out'' Source PT_Audio),
        AddPort (new_port (PortId 2) (NodeId 2) ''out'' Source PT_Audio)] empty_graph"

lemma two_microphones_wf: "graph_wf two_microphones"
  unfolding two_microphones_def by (simp add: apply_op_wf new_node_def del: apply_op.simps)

theorem layout_columns_disjoint_witness:
  "bt_get (default_node_positions two_microphones) (NodeId 1) = Some (40, 233)
    \<and> bt_get (default_node_positions two_microphones) (NodeId 2) = Some (40, 40)
    \<and> 40 + node_layout_height two_microphones (layout_node two_microphones (NodeId 2)) + 70
        \<le> (233 :: int)"
proof -
  have p1: "bt_get (default_node_positions two_microphones) (NodeId 1) = Some (40, 233)"
    by code_simp
  have p2: "bt_get (default_node_positions two_microphones) (NodeId 2) = Some (40, 40)"
    by code_simp
  have h: "\<not> 233 + node_layout_height two_microphones (layout_node two_microphones (NodeId 1)) + 70
      \<le> (40 :: int)"
    by code_simp
  from layout_columns_disjoint [OF two_microphones_wf p2 p1] h p1 p2 show ?thesis by simp
qed

text \<open>
  C30: sources appear to the left of their sinks. When the routes form no cycle, every route
  leads to a node at least one column step further right, provided its source is itself
  fed by a route or has output ports only.
\<close>

theorem layout_left_to_right:
  assumes "graph_wf g" and "acyclic (set (node_routes g))" and "(u, v) \<in> set (node_routes g)"
    and "(\<exists>w. (w, u) \<in> set (node_routes g)) \<or> node_layout_role g (layout_node g u) = 0"
  shows "\<exists>x y x' y'. bt_get (default_node_positions g) u = Some (x, y)
    \<and> bt_get (default_node_positions g) v = Some (x', y') \<and> x + 360 \<le> x'"
proof -
  let ?L = "graph_layers g"
  obtain n m where n: "graph_node g u = Some n" and m: "graph_node g v = Some m"
    using node_routes_known(2,3) [OF assms(3)] by (auto simp: set_bt_keys graph_node_def)
  have ids: "node_ident n = u" "node_ident m = v"
    using n m graph_wfD(4) [OF assms(1)] by (simp_all add: graph_node_def)
  have up: "layer_of ?L u < layer_of ?L v" by (rule acyclic_route_layers [OF assms(1-3)])
  then have cm: "node_column g ?L m = layer_of ?L v"
    using ids by (simp add: node_column_def Let_def)
  have "node_column g ?L n \<le> layer_of ?L u"
  proof (cases "layer_of ?L u = 0")
    case True
    then have "\<forall>w. (w, u) \<notin> set (node_routes g)"
      using acyclic_route_layers [OF assms(1,2)] by fastforce
    with assms(4) n have "node_layout_role g n = 0" by (simp add: layout_node_def)
    then show ?thesis by (simp add: node_column_def Let_def ids True)
  next
    case False
    then show ?thesis by (simp add: node_column_def Let_def ids)
  qed
  with up cm have "int (node_column g ?L n) * 360 + 360 \<le> int (node_column g ?L m) * 360"
    by linarith
  then show ?thesis
    using node_position(1) [OF assms(1) n] node_position(1) [OF assms(1) m] by fastforce
qed

theorem layout_left_to_right_witness:
  "\<exists>x y x' y'. bt_get (default_node_positions sample_graph) (NodeId 1) = Some (x, y)
    \<and> bt_get (default_node_positions sample_graph) (NodeId 2) = Some (x', y') \<and> x + 360 \<le> x'"
proof -
  have routes: "node_routes sample_graph = [(NodeId 1, NodeId 2)]" by code_simp
  have "(NodeId 2, NodeId 1) \<notin> {(NodeId 1, NodeId 2)}\<^sup>*"
    by (auto elim: converse_rtranclE)
  then have acyclic: "acyclic (set (node_routes sample_graph))"
    by (simp add: routes acyclic_insert acyclic_def [of "{}"])
  have role: "node_layout_role sample_graph (layout_node sample_graph (NodeId 1)) = 0" by code_simp
  show ?thesis
    using layout_left_to_right [OF sample_graph_wf acyclic, of "NodeId 1" "NodeId 2"] role routes
    by simp
qed

text \<open>A relay-like node with ports of both directions that feeds a speaker.\<close>

definition duplex_source :: graph where
  "duplex_source =
     fold apply_op
       [AddNode (new_node (NodeId 1) ''duplex'' NT_PipeWire),
        AddNode (new_node (NodeId 2) ''speaker'' NT_PipeWire),
        AddPort (new_port (PortId 1) (NodeId 1) ''out'' Source PT_Audio),
        AddPort (new_port (PortId 2) (NodeId 1) ''in'' Sink PT_Audio),
        AddPort (new_port (PortId 3) (NodeId 2) ''in'' Sink PT_Audio),
        AddLink (LinkId 1) (PortId 1) (PortId 3)] empty_graph"

lemma duplex_source_wf: "graph_wf duplex_source"
  unfolding duplex_source_def by (simp add: apply_op_wf new_node_def del: apply_op.simps)

text \<open>
  A node with ports in both directions that nothing feeds
  stands in the column of the node it feeds, not ahead of it.
\<close>

lemma duplex_source_shares_column:
  "node_routes duplex_source = [(NodeId 1, NodeId 2)]
    \<and> map_option fst (bt_get (default_node_positions duplex_source) (NodeId 1))
      = map_option fst (bt_get (default_node_positions duplex_source) (NodeId 2))"
proof -
  have routes: "node_routes duplex_source = [(NodeId 1, NodeId 2)]" by code_simp
  have column_one:
    "map_option fst (bt_get (default_node_positions duplex_source) i) = Some 400"
    if "graph_node duplex_source i = Some (layout_node duplex_source i)"
      and "node_column duplex_source (graph_layers duplex_source) (layout_node duplex_source i) = 1" for i
    using node_position(1) [OF duplex_source_wf that(1)] that(2) by auto
  have columns:
    "node_column duplex_source (graph_layers duplex_source) (layout_node duplex_source (NodeId 1)) = 1"
    "node_column duplex_source (graph_layers duplex_source) (layout_node duplex_source (NodeId 2)) = 1"
    by code_simp+
  have "graph_node duplex_source (NodeId 1) = Some (layout_node duplex_source (NodeId 1))"
    "graph_node duplex_source (NodeId 2) = Some (layout_node duplex_source (NodeId 2))"
    by code_simp+
  then have at_400: "map_option fst (bt_get (default_node_positions duplex_source) (NodeId 1)) = Some 400"
    "map_option fst (bt_get (default_node_positions duplex_source) (NodeId 2)) = Some 400"
    using column_one columns by blast+
  show ?thesis by (simp only: routes at_400 simp_thms)
qed

end
