(* ===== verification/Driver.thy ===== *)
theory Driver
  imports Resolution
begin

text \<open>
  The backend contract (\<^verbatim>\<open>crates/pw-graph-backend/src/api.rs\<close>). A \<^verbatim>\<open>dyn GraphDriver\<close> is a
  record of its required methods over a state \<open>'d\<close>, its method table; the provided methods
  of the trait are functions over any table. \<^verbatim>\<open>?\<close> is \<open>and_then\<close>.
\<close>

subsection \<open>Errors and capabilities\<close>

datatype backend_error =
  BE_Graph graph_error
| BE_Unsupported string
| BE_Native string

fun show_backend_error :: "backend_error \<Rightarrow> string" where
  "show_backend_error (BE_Graph e) = show_graph_error e"
| "show_backend_error (BE_Unsupported m) = ''backend operation is not available: '' @ m"
| "show_backend_error (BE_Native m) = ''native backend error: '' @ m"

record backend_capabilities =
  cap_topology :: bool
  cap_connect :: bool
  cap_disconnect :: bool
  cap_volume :: bool
  cap_mute :: bool
  cap_meters :: bool
  cap_effects :: bool
  cap_relay :: bool
  cap_recorders :: bool
  cap_video :: bool

definition capabilities_default :: backend_capabilities where
  "capabilities_default =
     \<lparr>cap_topology = False, cap_connect = False, cap_disconnect = False, cap_volume = False,
      cap_mute = False, cap_meters = False, cap_effects = False, cap_relay = False,
      cap_recorders = False, cap_video = False\<rparr>"

definition capabilities_union ::
  "backend_capabilities \<Rightarrow> backend_capabilities \<Rightarrow> backend_capabilities" where
  "capabilities_union a b =
     \<lparr>cap_topology = (cap_topology a \<or> cap_topology b),
      cap_connect = (cap_connect a \<or> cap_connect b),
      cap_disconnect = (cap_disconnect a \<or> cap_disconnect b),
      cap_volume = (cap_volume a \<or> cap_volume b),
      cap_mute = (cap_mute a \<or> cap_mute b),
      cap_meters = (cap_meters a \<or> cap_meters b),
      cap_effects = (cap_effects a \<or> cap_effects b),
      cap_relay = (cap_relay a \<or> cap_relay b),
      cap_recorders = (cap_recorders a \<or> cap_recorders b),
      cap_video = (cap_video a \<or> cap_video b)\<rparr>"

datatype connection_support = Unsupported | Route | CaptureOnly

subsection \<open>Method tables\<close>

record 'd driver =
  drv_capabilities :: "'d \<Rightarrow> backend_capabilities"
  drv_refresh :: "'d \<Rightarrow> (backend_error, node list) result \<times> 'd"
  drv_connect :: "port_id \<Rightarrow> port_id \<Rightarrow> 'd \<Rightarrow> (backend_error, link) result \<times> 'd"
  drv_disconnect :: "link_id \<Rightarrow> 'd \<Rightarrow> (backend_error, link) result \<times> 'd"
  drv_is_link_mutable :: "'d \<Rightarrow> link_id \<Rightarrow> bool"
  drv_node_supports_routing :: "'d \<Rightarrow> node_id \<Rightarrow> bool"
  drv_allow_connection :: "port_key \<Rightarrow> port_key \<Rightarrow> 'd \<Rightarrow> 'd"
  drv_suppress_connection :: "port_key \<Rightarrow> port_key \<Rightarrow> 'd \<Rightarrow> 'd"
  drv_set_node_position :: "node_id \<Rightarrow> position \<Rightarrow> 'd \<Rightarrow> (backend_error, unit) result \<times> 'd"
  drv_graph :: "'d \<Rightarrow> graph"

text \<open>The provided bodies of methods a driver may leave alone.\<close>

definition default_is_link_mutable :: "('d \<Rightarrow> graph) \<Rightarrow> 'd \<Rightarrow> link_id \<Rightarrow> bool" where
  "default_is_link_mutable gr d l = (graph_link (gr d) l \<noteq> None)"

definition default_node_supports_routing ::
  "('d \<Rightarrow> backend_capabilities) \<Rightarrow> 'd \<Rightarrow> node_id \<Rightarrow> bool" where
  "default_node_supports_routing caps d n = cap_connect (caps d)"

definition default_set_node_position ::
  "node_id \<Rightarrow> position \<Rightarrow> 'd \<Rightarrow> (backend_error, unit) result \<times> 'd" where
  "default_set_node_position n pos d =
     (Inl (BE_Unsupported ''node layout is not supported by this backend''), d)"

definition and_then ::
  "('e, 'a) result \<times> 's \<Rightarrow> ('a \<Rightarrow> 's \<Rightarrow> ('e, 'b) result \<times> 's) \<Rightarrow> ('e, 'b) result \<times> 's" where
  "and_then r f = (case r of (Inl e, s) \<Rightarrow> (Inl e, s) | (Inr x, s) \<Rightarrow> f x s)"

lemma and_then_simps [simp]:
  "and_then (Inl e, s) f = (Inl e, s)"
  "and_then (Inr x, s) f = f x s"
  by (simp_all add: and_then_def)

subsection \<open>Provided methods\<close>

definition connection_support :: "'d driver \<Rightarrow> 'd \<Rightarrow> port_id \<Rightarrow> port_id \<Rightarrow> connection_support" where
  "connection_support drv d p q =
    (let g = drv_graph drv d; caps = drv_capabilities drv d in
     case graph_port g p of None \<Rightarrow> Unsupported
     | Some op \<Rightarrow>
     (case graph_port g q of None \<Rightarrow> Unsupported
     | Some ip \<Rightarrow>
       if \<not> is_source (port_direction op) \<or> \<not> is_sink (port_direction ip) then Unsupported
       else if port_kind op \<noteq> port_kind ip \<and> port_kind op \<noteq> PT_Unknown
               \<and> port_kind ip \<noteq> PT_Unknown then Unsupported
       else
       (case graph_node g (port_node op) of None \<Rightarrow> Unsupported
       | Some on \<Rightarrow>
       (case graph_node g (port_node ip) of None \<Rightarrow> Unsupported
       | Some inn \<Rightarrow>
         if node_kind inn = NT_Recorder \<and> cap_recorders caps then
           (if port_kind ip \<noteq> PT_Audio then Unsupported
            else if drv_node_supports_routing drv d (node_ident on) then Route
            else Unsupported)
         else if cap_connect caps \<and> drv_node_supports_routing drv d (node_ident on)
                 \<and> drv_node_supports_routing drv d (node_ident inn) then Route
         else Unsupported))))"

definition port_unavailable :: "string \<Rightarrow> port_key \<Rightarrow> backend_error" where
  "port_unavailable side k =
     BE_Native (side @ '' port '' @ key_node_name k @ '':'' @ key_port_name k
       @ '' is no longer available'')"

definition connect_by_key_if_missing ::
  "'d driver \<Rightarrow> port_key \<Rightarrow> port_key \<Rightarrow> 'd \<Rightarrow> (backend_error, link option) result \<times> 'd" where
  "connect_by_key_if_missing drv out inp d =
     and_then (drv_refresh drv d) (\<lambda>_ d.
       if find_link_by_keys (drv_graph drv d) out inp \<noteq> None then (Inr None, d)
       else
         (let d = drv_allow_connection drv out inp d in
          case resolve_port_key (drv_graph drv d) out of
            None \<Rightarrow> (Inl (port_unavailable ''source'' out), d)
          | Some p \<Rightarrow>
            (case resolve_port_key (drv_graph drv d) inp of
               None \<Rightarrow> (Inl (port_unavailable ''destination'' inp), d)
             | Some q \<Rightarrow>
               (case drv_connect drv p q d of
                  (Inr l, d) \<Rightarrow> (Inr (Some l), d)
                | (Inl (BE_Graph (DuplicateConnection _ _)), d) \<Rightarrow>
                    and_then (drv_refresh drv d) (\<lambda>_ d.
                      if find_link_by_keys (drv_graph drv d) out inp \<noteq> None then (Inr None, d)
                      else (Inl (BE_Graph (DuplicateConnection p q)), d))
                | (Inl e, d) \<Rightarrow> (Inl e, d)))))"

definition disconnect_by_key_if_present ::
  "'d driver \<Rightarrow> port_key \<Rightarrow> port_key \<Rightarrow> 'd \<Rightarrow> (backend_error, link option) result \<times> 'd" where
  "disconnect_by_key_if_present drv out inp d =
     and_then (drv_refresh drv d) (\<lambda>_ d.
       case find_link_by_keys (drv_graph drv d) out inp of
         None \<Rightarrow> (Inr None, drv_suppress_connection drv out inp d)
       | Some l \<Rightarrow>
         (case drv_disconnect drv (link_ident l) d of
            (Inr l, d) \<Rightarrow> (Inr (Some l), d)
          | (Inl (BE_Graph (MissingLink _)), d) \<Rightarrow>
              (Inr None, drv_suppress_connection drv out inp d)
          | (Inl e, d) \<Rightarrow> (Inl e, d)))"

definition disconnect_by_key_if_present_without_suppression ::
  "'d driver \<Rightarrow> port_key \<Rightarrow> port_key \<Rightarrow> 'd \<Rightarrow> (backend_error, link option) result \<times> 'd" where
  "disconnect_by_key_if_present_without_suppression drv out inp d =
     and_then (drv_refresh drv d) (\<lambda>_ d.
       case find_link_by_keys (drv_graph drv d) out inp of
         None \<Rightarrow> (Inr None, d)
       | Some l \<Rightarrow>
         (case drv_disconnect drv (link_ident l) d of
            (Inr l, d) \<Rightarrow> (Inr (Some l), d)
          | (Inl (BE_Graph (MissingLink _)), d) \<Rightarrow> (Inr None, d)
          | (Inl e, d) \<Rightarrow> (Inl e, d)))"

subsection \<open>Effect endpoints\<close>

definition effect_resolve_and_validate_endpoints ::
  "'d driver \<Rightarrow> port_key \<Rightarrow> port_key \<Rightarrow> backend_error \<Rightarrow> backend_error \<Rightarrow> 'd
    \<Rightarrow> (backend_error, port_id \<times> port_id) result" where
  "effect_resolve_and_validate_endpoints drv source destination source_error destination_error d =
    (let g = drv_graph drv d in
     case resolve_port_key g source of None \<Rightarrow> Inl source_error
     | Some p \<Rightarrow>
     (case resolve_port_key g destination of None \<Rightarrow> Inl destination_error
     | Some q \<Rightarrow>
     (case graph_port g p of None \<Rightarrow> Inl (BE_Graph (MissingPort p))
     | Some op \<Rightarrow>
     (case graph_port g q of None \<Rightarrow> Inl (BE_Graph (MissingPort q))
     | Some ip \<Rightarrow>
       if \<not> is_source (port_direction op) then Inl (BE_Graph (NotSource p))
       else if \<not> is_sink (port_direction ip) then Inl (BE_Graph (NotSink q))
       else Inr (p, q)))))"

definition effect_link_endpoints ::
  "'d driver \<Rightarrow> port_key \<Rightarrow> port_key \<Rightarrow> 'd \<Rightarrow> (backend_error, port_id \<times> port_id \<times> link) result" where
  "effect_link_endpoints drv source destination d =
    (case effect_resolve_and_validate_endpoints drv source destination
            (BE_Native ''effect source port is unavailable'')
            (BE_Native ''effect destination port is unavailable'') d of
       Inl e \<Rightarrow> Inl e
     | Inr (p, q) \<Rightarrow>
       (case List.find (\<lambda>l. output_port l = p \<and> input_port l = q)
               (bt_values (g_links (drv_graph drv d))) of
          None \<Rightarrow> Inl (BE_Native ''effect source and destination are not linked'')
        | Some l \<Rightarrow> Inr (p, q, l)))"

definition effect_restore_endpoints ::
  "'d driver \<Rightarrow> port_key \<Rightarrow> port_key \<Rightarrow> 'd \<Rightarrow> (backend_error, port_id \<times> port_id) result" where
  "effect_restore_endpoints drv source destination d =
     effect_resolve_and_validate_endpoints drv source destination
       (BE_Native ''effect source disappeared while removing effect'')
       (BE_Native ''effect destination disappeared while removing effect'') d"

end
