(* ===== verification/Driver_Contract.thy ===== *)
theory Driver_Contract
  imports Driver
begin

text \<open>
  The contract between a backend and the commands and patchbay activation that drive it.
  What a client can rely on is stated over the set of connected port pairs
  (\<open>link_pairs\<close>), because a restored link may get a new id. The locale \<open>stable_driver\<close>
  lists the laws of a driver whose graph nobody else changes between two operations of the
  caller: a failed mutation leaves the pairs as they were, a successful one adds or removes
  exactly one. Its consequences for the provided methods are what the clients use.
\<close>

subsection \<open>The connected pairs of a graph\<close>

definition link_pairs :: "graph \<Rightarrow> (port_id \<times> port_id) set" where
  "link_pairs g = (\<lambda>l. (output_port l, input_port l)) ` set (bt_values (g_links g))"

text \<open>Two graphs with the same nodes, wherever these are placed, and the same ports.\<close>

definition unplaced :: "node \<Rightarrow> node" where
  "unplaced n = n\<lparr>node_position := (0, 0)\<rparr>"

definition unplaced_nodes :: "graph \<Rightarrow> (node_id, node) btree" where
  "unplaced_nodes g = map (map_prod id unplaced) (g_nodes g)"

definition same_topology :: "graph \<Rightarrow> graph \<Rightarrow> bool" where
  "same_topology g h \<longleftrightarrow> unplaced_nodes g = unplaced_nodes h \<and> g_ports g = g_ports h"

type_synonym key_pair = "port_key \<times> port_key"

definition pair_of :: "graph \<Rightarrow> key_pair \<Rightarrow> (port_id \<times> port_id) option" where
  "pair_of g k =
     (case resolve_port_key g (fst k) of None \<Rightarrow> None
      | Some p \<Rightarrow> (case resolve_port_key g (snd k) of None \<Rightarrow> None | Some q \<Rightarrow> Some (p, q)))"

definition keys_pairs :: "graph \<Rightarrow> key_pair list \<Rightarrow> (port_id \<times> port_id) set" where
  "keys_pairs g ks = {pq. \<exists>k \<in> set ks. pair_of g k = Some pq}"

lemma same_topology_refl [simp]: "same_topology g g"
  by (simp add: same_topology_def)

lemma same_topology_sym: "same_topology g h \<Longrightarrow> same_topology h g"
  by (simp add: same_topology_def)

lemma same_topology_trans: "same_topology g h \<Longrightarrow> same_topology h k \<Longrightarrow> same_topology g k"
  by (simp add: same_topology_def)

text \<open>Resolution looks at nodes and ports only, and not at where a node is placed.\<close>

lemma bt_get_unplaced: "bt_get (unplaced_nodes g) i = map_option unplaced (graph_node g i)"
proof -
  have "map_of (map (map_prod id f) m) k = map_option f (map_of m k)"
    for f :: "node \<Rightarrow> node" and m and k :: node_id
    by (induction m) auto
  then show ?thesis by (simp add: unplaced_nodes_def bt_get_def graph_node_def)
qed

lemma unplaced_eqD: "unplaced n = unplaced m \<Longrightarrow> \<exists>pos. n = m\<lparr>node_position := pos\<rparr>"
proof (rule exI)
  assume "unplaced n = unplaced m"
  then have "(unplaced n)\<lparr>node_position := node_position n\<rparr>
      = (unplaced m)\<lparr>node_position := node_position n\<rparr>"
    by simp
  then show "n = m\<lparr>node_position := node_position n\<rparr>"
    by (simp add: unplaced_def)
qed

lemma unplaced_move [simp]: "unplaced (n\<lparr>node_position := pos\<rparr>) = unplaced n"
  by (simp add: unplaced_def)

lemma node_move_simps:
  "node_ident (n\<lparr>node_position := pos\<rparr>) = node_ident n"
  "node_name (n\<lparr>node_position := pos\<rparr>) = node_name n"
  "node_kind (n\<lparr>node_position := pos\<rparr>) = node_kind n"
  "node_serial (n\<lparr>node_position := pos\<rparr>) = node_serial n"
  "effect_instance_id (n\<lparr>node_position := pos\<rparr>) = effect_instance_id n"
  "identity (n\<lparr>node_position := pos\<rparr>) = identity n"
  "node_ports (n\<lparr>node_position := pos\<rparr>) = node_ports n"
  by simp_all

lemma matching_identity_move [simp]:
  "matching_identity (n\<lparr>node_position := pos\<rparr>) = matching_identity n"
  unfolding matching_identity_def node_move_simps ..

lemma endpoint_match_score_move [simp]:
  "endpoint_match_score (n\<lparr>node_position := pos\<rparr>) sel = endpoint_match_score n sel"
  unfolding endpoint_match_score_def matching_identity_move node_move_simps ..

lemma same_topology_node:
  assumes "same_topology g h"
  shows "(graph_node g i = None \<and> graph_node h i = None)
    \<or> (\<exists>n pos. graph_node g i = Some (n\<lparr>node_position := pos\<rparr>) \<and> graph_node h i = Some n)"
proof -
  have "map_option unplaced (graph_node g i) = map_option unplaced (graph_node h i)"
    using assms by (simp add: same_topology_def bt_get_unplaced [symmetric])
  then show ?thesis
    by (cases "graph_node g i"; cases "graph_node h i") (auto dest!: unplaced_eqD simp del: split_paired_Ex)
qed

lemma score_candidate_same_topology:
  assumes "same_topology g h"
  shows "score_candidate g = score_candidate h"
proof (intro ext)
  fix sel port
  from same_topology_node [OF assms, of "port_node port"]
  show "score_candidate g sel port = score_candidate h sel port"
  proof (elim disjE exE conjE)
    fix n pos
    assume "graph_node g (port_node port) = Some (n\<lparr>node_position := pos\<rparr>)"
      and "graph_node h (port_node port) = Some n"
    then show ?thesis
      by (simp only: score_candidate_def option.simps node_move_simps matching_identity_move
          endpoint_match_score_move)
  qed (simp add: score_candidate_def)
qed

lemma resolve_same_topology:
  "same_topology g h \<Longrightarrow> resolve_port_key g k = resolve_port_key h k"
proof -
  assume st: "same_topology g h"
  then have "candidates g = candidates h"
    by (intro ext)
      (simp add: candidates_def score_candidate_same_topology [OF st] same_topology_def)
  then show ?thesis
    by (simp add: resolve_port_key_def resolve_endpoint_def)
qed

lemma pair_of_same_topology: "same_topology g h \<Longrightarrow> pair_of g k = pair_of h k"
  by (simp add: pair_of_def resolve_same_topology [of g h] cong: option.case_cong)

lemma keys_pairs_same_topology: "same_topology g h \<Longrightarrow> keys_pairs g ks = keys_pairs h ks"
  by (simp add: keys_pairs_def pair_of_same_topology)

lemma port_key_same_topology:
  assumes st: "same_topology g h"
  shows "graph_port_key g p = graph_port_key h p"
proof -
  have ports: "g_ports g = g_ports h" using st by (simp add: same_topology_def)
  show ?thesis
  proof (cases "bt_get (g_ports h) p")
    case None
    with ports show ?thesis by (simp add: graph_port_key_def graph_port_def)
  next
    case (Some q)
    from same_topology_node [OF st, of "port_node q"] show ?thesis
    proof (elim disjE exE conjE)
      fix n pos
      assume "graph_node g (port_node q) = Some (n\<lparr>node_position := pos\<rparr>)"
        and "graph_node h (port_node q) = Some n"
      with ports Some show ?thesis by (simp add: graph_port_key_def graph_port_def)
    qed (use ports Some in \<open>simp add: graph_port_key_def graph_port_def\<close>)
  qed
qed

text \<open>Placing a node keeps the topology.\<close>

definition place_node :: "node_id \<Rightarrow> position \<Rightarrow> graph \<Rightarrow> graph" where
  "place_node n pos g =
     g\<lparr>g_nodes := bt_modify n (\<lambda>nd. nd\<lparr>node_position := pos\<rparr>) (g_nodes g)\<rparr>"

lemma same_topology_place [simp]: "same_topology g (place_node n pos g)"
  by (auto simp: same_topology_def place_node_def unplaced_nodes_def bt_modify_def)

lemma link_pairs_place [simp]: "link_pairs (place_node n pos g) = link_pairs g"
  by (simp add: place_node_def link_pairs_def)

lemma graph_node_place:
  "bt_get (g_nodes (place_node n pos g)) i =
     (if i = n then map_option (\<lambda>nd. nd\<lparr>node_position := pos\<rparr>) (bt_get (g_nodes g) i)
      else bt_get (g_nodes g) i)"
  by (simp add: place_node_def)

lemma graph_wf_place:
  assumes "graph_wf g"
  shows "graph_wf (place_node n pos g)"
proof -
  let ?h = "place_node n pos g"
  have rest: "g_ports ?h = g_ports g" "g_links ?h = g_links g" "bt_wf (g_nodes ?h) = bt_wf (g_nodes g)"
    by (simp_all add: place_node_def)
  have old: "\<exists>m. bt_get (g_nodes g) i = Some m \<and> node_ident m = node_ident nd
      \<and> node_ports m = node_ports nd" if "bt_get (g_nodes ?h) i = Some nd" for i nd
    using that by (auto simp: graph_node_place split: if_splits)
  have "node_ident nd = i \<and> distinct (node_ports nd)" if get: "bt_get (g_nodes ?h) i = Some nd" for i nd
    using old [OF get] graph_wfD(4,5) [OF assms] by metis
  moreover have "\<exists>m. bt_get (g_nodes ?h) (port_node p) = Some m \<and> i \<in> set (node_ports m)"
    if "bt_get (g_ports g) i = Some p" for i p
    using graph_wf_listed [OF assms that] by (auto simp: graph_node_place)
  ultimately show ?thesis
    using assms unfolding graph_wf_def rest by blast
qed

lemma pairs_place_simps [simp]:
  "g_links (place_node n pos g) = g_links g"
  "g_ports (place_node n pos g) = g_ports g"
  by (simp_all add: place_node_def)

lemma keys_pairs_simps [simp]:
  "keys_pairs g [] = {}"
  "keys_pairs g (k # ks) = set_option (pair_of g k) \<union> keys_pairs g ks"
  "keys_pairs g (ks @ ks') = keys_pairs g ks \<union> keys_pairs g ks'"
  by (auto simp: keys_pairs_def)

lemma diff_diff_union: "A - B - C = A - (B \<union> C)"
  by blast

lemma keys_pairs_rev [simp]: "keys_pairs g (rev ks) = keys_pairs g ks"
  by (simp add: keys_pairs_def)

lemma find_link_pair_None:
  "find_link_by_keys g out inp = None \<longleftrightarrow> set_option (pair_of g (out, inp)) \<inter> link_pairs g = {}"
  by (force simp: find_link_by_keys_def pair_of_def link_pairs_def find_None_iff
      split: option.split)

lemma find_link_pair:
  "find_link_by_keys g out inp \<noteq> None \<longleftrightarrow> set_option (pair_of g (out, inp)) \<inter> link_pairs g \<noteq> {}"
  unfolding find_link_pair_None ..

lemma find_link_pair_Some:
  "find_link_by_keys g out inp = Some l \<Longrightarrow>
     pair_of g (out, inp) = Some (output_port l, input_port l)
     \<and> (output_port l, input_port l) \<in> link_pairs g
     \<and> l \<in> set (bt_values (g_links g))"
  by (auto simp: find_link_by_keys_def pair_of_def link_pairs_def find_Some_iff
      split: option.splits)

lemma connected_pair_link_pairs: "connected_pair g p q \<longleftrightarrow> (p, q) \<in> link_pairs g"
  by (auto simp: connected_pair_def link_pairs_def list_ex_iff)

subsection \<open>The contract\<close>

text \<open>The graph after an operation: same nodes and ports, and these connected pairs.\<close>

definition graph_after :: "graph \<Rightarrow> (port_id \<times> port_id) set \<Rightarrow> graph \<Rightarrow> bool" where
  "graph_after g ps h \<longleftrightarrow> same_topology g h \<and> link_pairs h = ps"

lemma graph_after_trans:
  "graph_after g ps h \<Longrightarrow> graph_after h qs k \<Longrightarrow> graph_after g qs k"
  by (auto simp: graph_after_def intro: same_topology_trans)

lemma graph_after_same: "g = h \<Longrightarrow> graph_after g (link_pairs g) h"
  by (simp add: graph_after_def)

locale stable_driver =
  fixes drv :: "'d driver"
    and ok :: "'d \<Rightarrow> bool"
  assumes refresh_law:
      "ok d \<Longrightarrow> drv_refresh drv d = (r, d') \<Longrightarrow> ok d' \<and> drv_graph drv d' = drv_graph drv d"
    and connect_ok_law:
      "ok d \<Longrightarrow> drv_connect drv p q d = (Inr l, d') \<Longrightarrow>
         ok d' \<and> (p, q) \<notin> link_pairs (drv_graph drv d)
         \<and> graph_after (drv_graph drv d) (insert (p, q) (link_pairs (drv_graph drv d)))
             (drv_graph drv d')"
    and connect_err_law:
      "ok d \<Longrightarrow> drv_connect drv p q d = (Inl e, d') \<Longrightarrow>
         ok d' \<and> drv_graph drv d' = drv_graph drv d"
    and disconnect_ok_law:
      "ok d \<Longrightarrow> l \<in> set (bt_values (g_links (drv_graph drv d))) \<Longrightarrow>
         drv_disconnect drv (link_ident l) d = (Inr l', d') \<Longrightarrow>
         ok d' \<and> graph_after (drv_graph drv d)
             (link_pairs (drv_graph drv d) - {(output_port l, input_port l)}) (drv_graph drv d')"
    and disconnect_err_law:
      "ok d \<Longrightarrow> drv_disconnect drv i d = (Inl e, d') \<Longrightarrow>
         ok d' \<and> drv_graph drv d' = drv_graph drv d"
    and no_missing_link_law:
      "ok d \<Longrightarrow> l \<in> set (bt_values (g_links (drv_graph drv d))) \<Longrightarrow>
         drv_disconnect drv (link_ident l) d \<noteq> (Inl (BE_Graph (MissingLink i)), d')"
    and allow_law:
      "ok d \<Longrightarrow> ok (drv_allow_connection drv out inp d)
         \<and> drv_graph drv (drv_allow_connection drv out inp d) = drv_graph drv d"
    and suppress_law:
      "ok d \<Longrightarrow> ok (drv_suppress_connection drv out inp d)
         \<and> drv_graph drv (drv_suppress_connection drv out inp d) = drv_graph drv d"
    and graph_law: "ok d \<Longrightarrow> graph_wf (drv_graph drv d)"
    and place_ok_law:
      "ok d \<Longrightarrow> drv_set_node_position drv n pos d = (Inr u, d') \<Longrightarrow>
         ok d' \<and> graph_node (drv_graph drv d) n \<noteq> None
         \<and> drv_graph drv d' = place_node n pos (drv_graph drv d)"
    and place_err_law:
      "ok d \<Longrightarrow> drv_set_node_position drv n pos d = (Inl e, d') \<Longrightarrow>
         ok d' \<and> drv_graph drv d' = drv_graph drv d"
begin

lemmas mutation_laws = connect_ok_law connect_err_law disconnect_ok_law disconnect_err_law

text \<open>Connecting by key: on success the pair is connected, on an error nothing changed.\<close>

lemma connect_key_ok:
  assumes "ok d" and "connect_by_key_if_missing drv out inp d = (Inr r, d')"
  shows "ok d'
    \<and> graph_after (drv_graph drv d)
        (link_pairs (drv_graph drv d) \<union> set_option (pair_of (drv_graph drv d) (out, inp)))
        (drv_graph drv d')
    \<and> pair_of (drv_graph drv d) (out, inp) \<noteq> None
    \<and> (r = None \<longleftrightarrow> set_option (pair_of (drv_graph drv d) (out, inp)) \<subseteq> link_pairs (drv_graph drv d))"
proof -
  let ?g = "drv_graph drv d"
  obtain rr d1 where ref: "drv_refresh drv d = (rr, d1)" by fastforce
  with assms(2) obtain ns where rr: "rr = Inr ns"
    by (cases rr) (auto simp: connect_by_key_if_missing_def)
  from refresh_law [OF assms(1) ref] have ok1: "ok d1" and g1: "drv_graph drv d1 = ?g" by auto
  show ?thesis
  proof (cases "find_link_by_keys ?g out inp = None")
    case False
    with assms(2) ref rr g1 have "r = None" "d' = d1"
      by (auto simp: connect_by_key_if_missing_def)
    moreover from False obtain pq where "pair_of ?g (out, inp) = Some pq" "pq \<in> link_pairs ?g"
      using find_link_pair [of ?g out inp] by (cases "pair_of ?g (out, inp)") auto
    ultimately show ?thesis
      using ok1 g1 by (auto simp: graph_after_def)
  next
    case True
    let ?d2 = "drv_allow_connection drv out inp d1"
    from allow_law [OF ok1] g1 have ok2: "ok ?d2" and g2: "drv_graph drv ?d2 = ?g" by auto
    from assms(2) ref rr g1 g2 True obtain p q where
      p: "resolve_port_key ?g out = Some p" and q: "resolve_port_key ?g inp = Some q"
      by (auto simp: connect_by_key_if_missing_def Let_def split: option.splits)
    then have pair: "pair_of ?g (out, inp) = Some (p, q)" by (simp add: pair_of_def)
    with True have fresh: "(p, q) \<notin> link_pairs ?g" by (simp add: find_link_pair_None)
    obtain cr d3 where con: "drv_connect drv p q ?d2 = (cr, d3)" by fastforce
    show ?thesis
    proof (cases cr)
      case (Inr l)
      with assms(2) ref rr g1 g2 True p q con have "r = Some l" "d' = d3"
        by (auto simp: connect_by_key_if_missing_def Let_def)
      with connect_ok_law [OF ok2, of p q l d3] con Inr g2 pair fresh show ?thesis by simp
    next
      case (Inl e)
      from connect_err_law [OF ok2] con Inl g2 have ok3: "ok d3" and g3: "drv_graph drv d3 = ?g"
        by auto
      obtain r4 d4 where ref4: "drv_refresh drv d3 = (r4, d4)" by fastforce
      from refresh_law [OF ok3 ref4] g3 have g4: "drv_graph drv d4 = ?g" by auto
      from assms(2) ref rr g1 g2 True p q con Inl ref4 g4 have False
        by (auto simp: connect_by_key_if_missing_def Let_def and_then_def
            split: backend_error.splits graph_error.splits sum.splits)
      then show ?thesis ..
    qed
  qed
qed

lemma connect_key_err:
  assumes "ok d" and "connect_by_key_if_missing drv out inp d = (Inl e, d')"
  shows "ok d' \<and> drv_graph drv d' = drv_graph drv d"
proof -
  let ?g = "drv_graph drv d"
  obtain rr d1 where ref: "drv_refresh drv d = (rr, d1)" by fastforce
  from refresh_law [OF assms(1) ref] have ok1: "ok d1" and g1: "drv_graph drv d1 = ?g" by auto
  let ?d2 = "drv_allow_connection drv out inp d1"
  from allow_law [OF ok1] g1 have ok2: "ok ?d2" and g2: "drv_graph drv ?d2 = ?g" by auto
  show ?thesis
  proof (cases rr)
    case (Inl e')
    with assms(2) ref ok1 g1 show ?thesis
      by (auto simp: connect_by_key_if_missing_def)
  next
    case (Inr ns)
    show ?thesis
    proof (cases "pair_of ?g (out, inp)")
      case None
      with assms(2) ref Inr ok2 g1 g2 show ?thesis
        by (auto simp: connect_by_key_if_missing_def Let_def pair_of_def split: option.splits if_splits)
    next
      case (Some pq)
      then obtain p q where p: "resolve_port_key ?g out = Some p"
        and q: "resolve_port_key ?g inp = Some q"
        by (auto simp: pair_of_def split: option.splits)
      obtain cr d3 where con: "drv_connect drv p q ?d2 = (cr, d3)" by fastforce
      with assms(2) ref Inr p q g1 g2 obtain e3 where cr: "cr = Inl e3"
        by (cases cr) (auto simp: connect_by_key_if_missing_def Let_def split: if_splits)
      from connect_err_law [OF ok2] con cr g2 have ok3: "ok d3" and g3: "drv_graph drv d3 = ?g"
        by auto
      obtain r4 d4 where ref4: "drv_refresh drv d3 = (r4, d4)" by fastforce
      from refresh_law [OF ok3 ref4] g3 have ok4: "ok d4" and g4: "drv_graph drv d4 = ?g" by auto
      from assms(2) ref Inr p q g1 g2 con cr ref4 have "d' = d3 \<or> d' = d4"
        by (auto simp: connect_by_key_if_missing_def Let_def and_then_def
            split: if_splits backend_error.splits graph_error.splits sum.splits)
      with ok3 g3 ok4 g4 show ?thesis by auto
    qed
  qed
qed

text \<open>Disconnecting by key: on success the pair is gone, on an error nothing changed.\<close>

lemma disconnect_quiet_ok:
  assumes "ok d"
    and "disconnect_by_key_if_present_without_suppression drv out inp d = (Inr r, d')"
  shows "ok d'
    \<and> graph_after (drv_graph drv d)
        (link_pairs (drv_graph drv d) - set_option (pair_of (drv_graph drv d) (out, inp)))
        (drv_graph drv d')
    \<and> (r = None \<longleftrightarrow>
        set_option (pair_of (drv_graph drv d) (out, inp)) \<inter> link_pairs (drv_graph drv d) = {})"
proof -
  let ?g = "drv_graph drv d"
  obtain rr d1 where ref: "drv_refresh drv d = (rr, d1)" by fastforce
  with assms(2) obtain ns where rr: "rr = Inr ns"
    by (cases rr) (auto simp: disconnect_by_key_if_present_without_suppression_def)
  from refresh_law [OF assms(1) ref] have ok1: "ok d1" and g1: "drv_graph drv d1 = ?g" by auto
  show ?thesis
  proof (cases "find_link_by_keys ?g out inp")
    case None
    with assms(2) ref rr g1 have "r = None" "d' = d1"
      by (auto simp: disconnect_by_key_if_present_without_suppression_def)
    moreover have "set_option (pair_of ?g (out, inp)) \<inter> link_pairs ?g = {}"
      using None by (simp add: find_link_pair_None)
    ultimately show ?thesis
      using ok1 g1 by (auto simp: graph_after_def)
  next
    case (Some l)
    from find_link_pair_Some [OF Some] have pair: "pair_of ?g (out, inp) = Some (output_port l, input_port l)"
      and inp: "(output_port l, input_port l) \<in> link_pairs ?g"
      and lin: "l \<in> set (bt_values (g_links (drv_graph drv d1)))" using g1 by auto
    obtain dr d2 where dis: "drv_disconnect drv (link_ident l) d1 = (dr, d2)" by fastforce
    from assms(2) ref rr g1 Some dis no_missing_link_law [OF ok1 lin]
    obtain l' where "dr = Inr l'" "r = Some l'" "d' = d2"
      by (auto simp: disconnect_by_key_if_present_without_suppression_def
          split: sum.splits backend_error.splits graph_error.splits)
    with disconnect_ok_law [OF ok1 lin, of l' d2] dis pair inp g1 show ?thesis by auto
  qed
qed

lemma disconnect_quiet_err:
  assumes "ok d"
    and "disconnect_by_key_if_present_without_suppression drv out inp d = (Inl e, d')"
  shows "ok d' \<and> drv_graph drv d' = drv_graph drv d"
proof -
  obtain rr d1 where ref: "drv_refresh drv d = (rr, d1)" by fastforce
  from refresh_law [OF assms(1) ref] have ok1: "ok d1"
    and g1: "drv_graph drv d1 = drv_graph drv d" by auto
  show ?thesis
  proof (cases "find_link_by_keys (drv_graph drv d) out inp")
    case None
    with assms(2) ref g1 ok1 show ?thesis
      by (cases rr) (auto simp: disconnect_by_key_if_present_without_suppression_def)
  next
    case (Some l)
    obtain dr d2 where dis: "drv_disconnect drv (link_ident l) d1 = (dr, d2)" by fastforce
    with disconnect_err_law [OF ok1] g1
    have "dr = Inl x \<Longrightarrow> ok d2 \<and> drv_graph drv d2 = drv_graph drv d" for x by auto
    with assms(2) ref g1 ok1 Some dis show ?thesis
      by (cases rr) (auto simp: disconnect_by_key_if_present_without_suppression_def
          split: sum.splits backend_error.splits graph_error.splits)
  qed
qed

lemma disconnect_key_ok:
  assumes "ok d" and "disconnect_by_key_if_present drv out inp d = (Inr r, d')"
  shows "ok d'
    \<and> graph_after (drv_graph drv d)
        (link_pairs (drv_graph drv d) - set_option (pair_of (drv_graph drv d) (out, inp)))
        (drv_graph drv d')
    \<and> (r = None \<longleftrightarrow>
        set_option (pair_of (drv_graph drv d) (out, inp)) \<inter> link_pairs (drv_graph drv d) = {})"
proof -
  let ?quiet = "disconnect_by_key_if_present_without_suppression drv out inp d"
  have "\<exists>d2. ?quiet = (Inr r, d2)
      \<and> (d' = d2 \<or> d' = drv_suppress_connection drv out inp d2)"
    using assms(2)
    unfolding disconnect_by_key_if_present_def disconnect_by_key_if_present_without_suppression_def
      and_then_def
    by (auto split: prod.splits sum.splits option.splits backend_error.splits graph_error.splits)
  then obtain d2 where quiet: "?quiet = (Inr r, d2)"
    and d': "d' = d2 \<or> d' = drv_suppress_connection drv out inp d2" by blast
  from disconnect_quiet_ok [OF assms(1) quiet] suppress_law [of d2 out inp] d' show ?thesis
    by auto
qed

lemma disconnect_key_err:
  assumes "ok d" and "disconnect_by_key_if_present drv out inp d = (Inl e, d')"
  shows "ok d' \<and> drv_graph drv d' = drv_graph drv d"
proof (rule disconnect_quiet_err [OF assms(1)])
  show "disconnect_by_key_if_present_without_suppression drv out inp d = (Inl e, d')"
    using assms(2)
    unfolding disconnect_by_key_if_present_def disconnect_by_key_if_present_without_suppression_def
      and_then_def
    by (auto split: prod.splits sum.splits option.splits backend_error.splits graph_error.splits)
qed

text \<open>
  The same relative to a graph \<open>g\<close> fixed when a command started: a state over the nodes
  and ports of \<open>g\<close> in which exactly the pairs \<open>A\<close> are connected. Key pairs resolve the
  same way in all of them.
\<close>

definition state_at :: "graph \<Rightarrow> (port_id \<times> port_id) set \<Rightarrow> 'd \<Rightarrow> bool" where
  "state_at g A d \<longleftrightarrow> ok d \<and> graph_after g A (drv_graph drv d)"

lemma state_at_here: "ok d \<Longrightarrow> state_at (drv_graph drv d) (link_pairs (drv_graph drv d)) d"
  by (simp add: state_at_def graph_after_def)

lemma state_atD:
  assumes "state_at g A d"
  shows "ok d" "same_topology g (drv_graph drv d)" "link_pairs (drv_graph drv d) = A"
    "pair_of (drv_graph drv d) = pair_of g"
proof -
  show "ok d" "same_topology g (drv_graph drv d)" "link_pairs (drv_graph drv d) = A"
    using assms by (simp_all add: state_at_def graph_after_def)
  then show "pair_of (drv_graph drv d) = pair_of g"
    by (intro ext) (simp add: pair_of_same_topology [of g])
qed

lemma state_at_after:
  "state_at g A d \<Longrightarrow> ok d' \<Longrightarrow> graph_after (drv_graph drv d) B (drv_graph drv d') \<Longrightarrow> state_at g B d'"
  unfolding state_at_def by (blast intro: graph_after_trans)

lemma state_at_same:
  "state_at g A d \<Longrightarrow> ok d' \<and> drv_graph drv d' = drv_graph drv d \<Longrightarrow> state_at g A d'"
  by (simp add: state_at_def)

lemma refresh_at: "state_at g A d \<Longrightarrow> drv_refresh drv d = (r, d') \<Longrightarrow> state_at g A d'"
  by (rule state_at_same) (auto dest: state_atD(1) refresh_law)

lemma allow_at: "state_at g A d \<Longrightarrow> state_at g A (drv_allow_connection drv out inp d)"
  by (rule state_at_same) (auto dest: state_atD(1) allow_law)

lemma suppress_at: "state_at g A d \<Longrightarrow> state_at g A (drv_suppress_connection drv out inp d)"
  by (rule state_at_same) (auto dest: state_atD(1) suppress_law)

lemma connect_at:
  assumes "state_at g A d" and "connect_by_key_if_missing drv (fst k) (snd k) d = (r, d')"
  shows "case r of
      Inl e \<Rightarrow> state_at g A d'
    | Inr x \<Rightarrow> state_at g (A \<union> set_option (pair_of g k)) d' \<and> pair_of g k \<noteq> None
        \<and> (x = None \<longleftrightarrow> set_option (pair_of g k) \<subseteq> A)"
proof (cases r)
  case (Inl e)
  with connect_key_err [OF state_atD(1) [OF assms(1)]] assms show ?thesis
    by (auto intro: state_at_same)
next
  case (Inr x)
  from connect_key_ok [OF state_atD(1) [OF assms(1)] assms(2) [unfolded Inr]] Inr
  show ?thesis
    by (auto simp: state_atD(3,4) [OF assms(1)] intro: state_at_after [OF assms(1)])
qed

lemma disconnect_at:
  assumes "state_at g A d" and "disconnect_by_key_if_present drv (fst k) (snd k) d = (r, d')"
  shows "case r of
      Inl e \<Rightarrow> state_at g A d'
    | Inr x \<Rightarrow> state_at g (A - set_option (pair_of g k)) d'
        \<and> (x = None \<longleftrightarrow> set_option (pair_of g k) \<inter> A = {})"
proof (cases r)
  case (Inl e)
  with disconnect_key_err [OF state_atD(1) [OF assms(1)]] assms show ?thesis
    by (auto intro: state_at_same)
next
  case (Inr x)
  from disconnect_key_ok [OF state_atD(1) [OF assms(1)] assms(2) [unfolded Inr]] Inr
  show ?thesis
    by (auto simp: state_atD(3,4) [OF assms(1)] intro: state_at_after [OF assms(1)])
qed

lemma disconnect_quiet_at:
  assumes "state_at g A d"
    and "disconnect_by_key_if_present_without_suppression drv (fst k) (snd k) d = (r, d')"
  shows "case r of
      Inl e \<Rightarrow> state_at g A d'
    | Inr x \<Rightarrow> state_at g (A - set_option (pair_of g k)) d'
        \<and> (x = None \<longleftrightarrow> set_option (pair_of g k) \<inter> A = {})"
proof (cases r)
  case (Inl e)
  with disconnect_quiet_err [OF state_atD(1) [OF assms(1)]] assms show ?thesis
    by (auto intro: state_at_same)
next
  case (Inr x)
  from disconnect_quiet_ok [OF state_atD(1) [OF assms(1)] assms(2) [unfolded Inr]] Inr
  show ?thesis
    by (auto simp: state_atD(3,4) [OF assms(1)] intro: state_at_after [OF assms(1)])
qed

lemma place_at:
  assumes "state_at g A d" and "drv_set_node_position drv n pos d = (r, d')"
  shows "state_at g A d'"
proof (cases r)
  case (Inl e)
  show ?thesis
    by (rule state_at_same [OF assms(1)])
      (rule place_err_law [OF state_atD(1) [OF assms(1)] assms(2) [unfolded Inl]])
next
  case (Inr u)
  from place_ok_law [OF state_atD(1) [OF assms(1)] assms(2) [unfolded Inr]] show ?thesis
    by (intro state_at_after [OF assms(1)])
      (simp_all add: graph_after_def state_atD(3) [OF assms(1)])
qed

end

end
