(* ===== verification/Demo_Driver.thy ===== *)
theory Demo_Driver
  imports Driver_Contract
begin

text \<open>
  The deterministic in-memory backend (\<^verbatim>\<open>crates/pw-graph-backend/src/demo.rs\<close>): its graph
  part, with link allocation, observed links, suppression state and the forced failures its
  tests arm, and its method table. The interpretation at the end discharges the driver
  contract for it. Recorder, effect, video and audio-control state are not part of the record.
\<close>

subsection \<open>State\<close>

record forced_failures =
  ff_connects :: "(port_id \<times> port_id) list"
  ff_disconnects :: "link_id list"
  ff_disconnect_pairs :: "(port_id \<times> port_id) list"
  ff_positions :: "(node_id \<times> position) list"

definition no_forced_failures :: forced_failures where
  "no_forced_failures =
     \<lparr>ff_connects = [], ff_disconnects = [], ff_disconnect_pairs = [], ff_positions = []\<rparr>"

record demo =
  demo_graph :: graph
  demo_next_link_id :: u64
  demo_observed :: "link_id list"
  demo_suppressed :: "key_pair list"
  demo_forced :: "forced_failures option"

definition max_link_id :: "graph \<Rightarrow> u64" where
  "max_link_id g = foldr (\<lambda>l m. max (link_raw l) m) (bt_keys (g_links g)) 0"

definition demo_new :: "graph \<Rightarrow> demo" where
  "demo_new g =
     \<lparr>demo_graph = g, demo_next_link_id = max_link_id g + 1, demo_observed = [],
      demo_suppressed = [], demo_forced = None\<rparr>"

definition replace_graph :: "graph \<Rightarrow> demo \<Rightarrow> demo" where
  "replace_graph g d =
     d\<lparr>demo_next_link_id := max_link_id g + 1, demo_graph := g, demo_observed := []\<rparr>"

definition demo_nodes :: "(u64 \<times> string \<times> position) list" where
  "demo_nodes =
     [(1, ''Audio Capture'', (0x42A00000, 0x42C80000)),
      (2, ''Audio Playback'', (0x44020000, 0x42C80000)),
      (3, ''MIDI Controller'', (0x42A00000, 0x43B40000)),
      (4, ''MIDI Monitor'', (0x44020000, 0x43B40000))]"

definition add_demo_port ::
  "u64 \<Rightarrow> u64 \<Rightarrow> string \<Rightarrow> direction \<Rightarrow> port_type \<Rightarrow> graph \<Rightarrow> graph" where
  "add_demo_port i n name dir t g = snd (add_port (new_port (PortId i) (NodeId n) name dir t) g)"

definition demo_demo :: demo where
  "demo_demo =
    (let g = fold (\<lambda>(i, name, pos) g.
                snd (add_node ((new_node (NodeId i) name NT_PipeWire)\<lparr>node_position := pos\<rparr>) g))
              demo_nodes empty_graph;
         g = add_demo_port 1 1 ''capture_FL'' Source PT_Audio g;
         g = add_demo_port 2 1 ''capture_FR'' Source PT_Audio g;
         g = add_demo_port 3 2 ''playback_FL'' Sink PT_Audio g;
         g = add_demo_port 4 2 ''playback_FR'' Sink PT_Audio g;
         g = add_demo_port 5 3 ''midi_out'' Source PT_MidiJack g;
         g = add_demo_port 6 4 ''midi_in'' Sink PT_MidiJack g
     in demo_new g)"

subsection \<open>Test hooks\<close>

definition mark_link_observed :: "link_id \<Rightarrow> demo \<Rightarrow> demo" where
  "mark_link_observed l d = d\<lparr>demo_observed := List.insert l (demo_observed d)\<rparr>"

definition forced_or_default :: "demo \<Rightarrow> forced_failures" where
  "forced_or_default d = (case demo_forced d of None \<Rightarrow> no_forced_failures | Some f \<Rightarrow> f)"

definition fail_connect_of :: "port_id \<Rightarrow> port_id \<Rightarrow> demo \<Rightarrow> demo" where
  "fail_connect_of p q d =
     (let f = forced_or_default d
      in d\<lparr>demo_forced := Some (f\<lparr>ff_connects := List.insert (p, q) (ff_connects f)\<rparr>)\<rparr>)"

definition fail_disconnect_of :: "link_id \<Rightarrow> demo \<Rightarrow> demo" where
  "fail_disconnect_of l d =
     (let f = forced_or_default d
      in d\<lparr>demo_forced := Some (f\<lparr>ff_disconnects := List.insert l (ff_disconnects f)\<rparr>)\<rparr>)"

definition fail_disconnect_of_pair :: "port_id \<Rightarrow> port_id \<Rightarrow> demo \<Rightarrow> demo" where
  "fail_disconnect_of_pair p q d =
     (let f = forced_or_default d
      in d\<lparr>demo_forced :=
             Some (f\<lparr>ff_disconnect_pairs := List.insert (p, q) (ff_disconnect_pairs f)\<rparr>)\<rparr>)"

definition allow_connect_of :: "port_id \<Rightarrow> port_id \<Rightarrow> demo \<Rightarrow> demo" where
  "allow_connect_of p q d =
     (case demo_forced d of
        None \<Rightarrow> d
      | Some f \<Rightarrow> d\<lparr>demo_forced := Some (f\<lparr>ff_connects := removeAll (p, q) (ff_connects f)\<rparr>)\<rparr>)"

definition is_connection_suppressed :: "demo \<Rightarrow> port_key \<Rightarrow> port_key \<Rightarrow> bool" where
  "is_connection_suppressed d out inp = ((out, inp) \<in> set (demo_suppressed d))"

definition fail_position_at :: "node_id \<Rightarrow> position \<Rightarrow> demo \<Rightarrow> demo" where
  "fail_position_at n pos d =
     (let f = forced_or_default d
      in d\<lparr>demo_forced :=
             Some (if (n, pos) \<in> set (ff_positions f) then f
                   else f\<lparr>ff_positions := ff_positions f @ [(n, pos)]\<rparr>)\<rparr>)"

subsection \<open>The driver methods\<close>

definition demo_capabilities :: "demo \<Rightarrow> backend_capabilities" where
  "demo_capabilities d =
     \<lparr>cap_topology = True, cap_connect = True, cap_disconnect = True, cap_volume = True,
      cap_mute = True, cap_meters = True, cap_effects = True, cap_relay = False,
      cap_recorders = True, cap_video = True\<rparr>"

definition demo_refresh :: "demo \<Rightarrow> (backend_error, node list) result \<times> demo" where
  "demo_refresh d = (Inr (bt_values (g_nodes (demo_graph d))), d)"

definition allocate_link_id :: "demo \<Rightarrow> link_id \<times> demo" where
  "allocate_link_id d =
     (LinkId (demo_next_link_id d), d\<lparr>demo_next_link_id := demo_next_link_id d + 1\<rparr>)"

definition connect_refused :: "demo \<Rightarrow> port_id \<Rightarrow> port_id \<Rightarrow> bool" where
  "connect_refused d p q =
     (case demo_forced d of None \<Rightarrow> False | Some f \<Rightarrow> (p, q) \<in> set (ff_connects f))"

definition demo_connect :: "port_id \<Rightarrow> port_id \<Rightarrow> demo \<Rightarrow> (backend_error, link) result \<times> demo" where
  "demo_connect p q d =
     (if connect_refused d p q then (Inl (BE_Native ''connect refused by the test driver''), d)
      else
        (let (l, d) = allocate_link_id d in
         case add_link l p q (demo_graph d) of
           (Inl e, g) \<Rightarrow> (Inl (BE_Graph e), d\<lparr>demo_graph := g\<rparr>)
         | (Inr lk, g) \<Rightarrow> (Inr lk, d\<lparr>demo_graph := g\<rparr>)))"

definition disconnect_refused :: "demo \<Rightarrow> link_id \<Rightarrow> bool" where
  "disconnect_refused d l =
     (case demo_forced d of
        None \<Rightarrow> False
      | Some f \<Rightarrow>
          l \<in> set (ff_disconnects f)
          \<or> (case graph_link (demo_graph d) l of
               None \<Rightarrow> False
             | Some lk \<Rightarrow> (output_port lk, input_port lk) \<in> set (ff_disconnect_pairs f)))"

definition demo_disconnect :: "link_id \<Rightarrow> demo \<Rightarrow> (backend_error, link) result \<times> demo" where
  "demo_disconnect l d =
     (if disconnect_refused d l
      then (Inl (BE_Native ''disconnect refused by the test driver''), d)
      else case remove_link l (demo_graph d) of
        (Inl e, g) \<Rightarrow> (Inl (BE_Graph e), d\<lparr>demo_graph := g\<rparr>)
      | (Inr lk, g) \<Rightarrow> (Inr lk, d\<lparr>demo_graph := g\<rparr>))"

definition demo_is_link_mutable :: "demo \<Rightarrow> link_id \<Rightarrow> bool" where
  "demo_is_link_mutable d l =
     (graph_link (demo_graph d) l \<noteq> None \<and> l \<notin> set (demo_observed d))"

definition position_refused :: "demo \<Rightarrow> node_id \<Rightarrow> position \<Rightarrow> bool" where
  "position_refused d n pos =
     (case demo_forced d of None \<Rightarrow> False | Some f \<Rightarrow> (n, pos) \<in> set (ff_positions f))"

definition demo_set_node_position ::
  "node_id \<Rightarrow> position \<Rightarrow> demo \<Rightarrow> (backend_error, unit) result \<times> demo" where
  "demo_set_node_position n pos d =
     (if position_refused d n pos
      then (Inl (BE_Native ''node position refused by the test driver''), d)
      else case graph_node (demo_graph d) n of
        None \<Rightarrow> (Inl (BE_Graph (MissingNode n)), d)
      | Some nd \<Rightarrow> (Inr (), d\<lparr>demo_graph := place_node n pos (demo_graph d)\<rparr>))"

definition demo_allow_connection :: "port_key \<Rightarrow> port_key \<Rightarrow> demo \<Rightarrow> demo" where
  "demo_allow_connection out inp d =
     d\<lparr>demo_suppressed := filter (\<lambda>k. k \<noteq> (out, inp)) (demo_suppressed d)\<rparr>"

text \<open>\<^verbatim>\<open>suppress_connection\<close>, and the test hook \<^verbatim>\<open>mark_connection_suppressed\<close> with the same body.\<close>

definition demo_suppress_connection :: "port_key \<Rightarrow> port_key \<Rightarrow> demo \<Rightarrow> demo" where
  "demo_suppress_connection out inp d =
     (if (out, inp) \<in> set (demo_suppressed d) then d
      else d\<lparr>demo_suppressed := demo_suppressed d @ [(out, inp)]\<rparr>)"

definition demo_driver :: "demo driver" where
  "demo_driver =
     \<lparr>drv_capabilities = demo_capabilities,
      drv_refresh = demo_refresh,
      drv_connect = demo_connect,
      drv_disconnect = demo_disconnect,
      drv_is_link_mutable = demo_is_link_mutable,
      drv_node_supports_routing = default_node_supports_routing demo_capabilities,
      drv_allow_connection = demo_allow_connection,
      drv_suppress_connection = demo_suppress_connection,
      drv_set_node_position = demo_set_node_position,
      drv_graph = demo_graph\<rparr>"

lemma demo_driver_simps [simp]:
  "drv_capabilities demo_driver = demo_capabilities"
  "drv_refresh demo_driver = demo_refresh"
  "drv_connect demo_driver = demo_connect"
  "drv_disconnect demo_driver = demo_disconnect"
  "drv_is_link_mutable demo_driver = demo_is_link_mutable"
  "drv_node_supports_routing demo_driver = default_node_supports_routing demo_capabilities"
  "drv_allow_connection demo_driver = demo_allow_connection"
  "drv_suppress_connection demo_driver = demo_suppress_connection"
  "drv_set_node_position demo_driver = demo_set_node_position"
  "drv_graph demo_driver = demo_graph"
  by (simp_all add: demo_driver_def)

subsection \<open>The contract holds\<close>

text \<open>The graph is sound and no two links join the same pair.\<close>

definition pairs_unique :: "graph \<Rightarrow> bool" where
  "pairs_unique g \<longleftrightarrow>
     (\<forall>l \<in> set (bt_values (g_links g)). \<forall>m \<in> set (bt_values (g_links g)).
        output_port l = output_port m \<and> input_port l = input_port m \<longrightarrow> l = m)"

definition demo_ok :: "demo \<Rightarrow> bool" where
  "demo_ok d \<longleftrightarrow> graph_wf (demo_graph d) \<and> pairs_unique (demo_graph d)"

lemma add_link_effect:
  assumes "graph_wf g" and "pairs_unique g" and "add_link l p q g = (Inr lk, h)"
  shows "graph_wf h \<and> pairs_unique h \<and> (p, q) \<notin> link_pairs g
    \<and> graph_after g (insert (p, q) (link_pairs g)) h"
proof -
  have fst: "fst (add_link l p q g) = Inr lk" using assms(3) by simp
  note ok = add_link_ok [OF fst]
  have h: "h = g\<lparr>g_links := bt_insert l lk (g_links g)\<rparr>" using ok(2) assms(3) by simp
  have vals: "set (bt_values (g_links h)) = insert lk (set (bt_values (g_links g)))"
    using bt.vals_ins_fresh [OF graph_wfD(3) [OF assms(1)] ok(3)] h by simp
  have fresh: "(p, q) \<notin> link_pairs g" using ok(4) connected_pair_link_pairs by blast
  then have "\<forall>m \<in> set (bt_values (g_links g)). \<not> (output_port m = p \<and> input_port m = q)"
    by (auto simp: link_pairs_def)
  with assms(2) ok(1) have "pairs_unique h"
    unfolding pairs_unique_def vals by auto
  moreover have "graph_wf h" using add_link_wf [OF assms(1), of l p q] assms(3) by simp
  moreover have "graph_after g (insert (p, q) (link_pairs g)) h"
    using h ok(1) vals
    by (simp add: graph_after_def same_topology_def unplaced_nodes_def link_pairs_def)
  ultimately show ?thesis using fresh by blast
qed

lemma remove_link_effect:
  assumes "graph_wf g" and "pairs_unique g" and "l \<in> set (bt_values (g_links g))"
  shows "\<exists>h. remove_link (link_ident l) g = (Inr l, h) \<and> graph_wf h \<and> pairs_unique h
    \<and> graph_after g (link_pairs g - {(output_port l, input_port l)}) h"
proof -
  note wf = graph_wfD(3) [OF assms(1)]
  have keyed: "link_ident m = k" if "bt_get (g_links g) k = Some m" for k m
    using graph_wfD(8) [OF assms(1) that] .
  have get: "bt_get (g_links g) (link_ident l) = Some l"
    using assms(3) wf keyed set_bt_values by metis
  let ?h = "g\<lparr>g_links := bt_remove (link_ident l) (g_links g)\<rparr>"
  have del: "set (bt_values (g_links ?h))
      = {w. \<exists>x. x \<noteq> link_ident l \<and> bt_get (g_links g) x = Some w}"
    using bt.vals_del [OF wf, of "link_ident l"] by simp
  have vals: "set (bt_values (g_links ?h)) = set (bt_values (g_links g)) - {l}"
  proof (rule set_eqI)
    fix w
    show "w \<in> set (bt_values (g_links ?h)) \<longleftrightarrow> w \<in> set (bt_values (g_links g)) - {l}"
      unfolding del mem_Collect_eq Diff_iff singleton_iff set_bt_values [OF wf]
      by (metis get keyed option.inject)
  qed
  have "remove_link (link_ident l) g = (Inr l, ?h)"
    using get by (simp add: remove_link_def)
  moreover have "graph_wf ?h"
    using remove_link_wf [OF assms(1), of "link_ident l"] get by (simp add: remove_link_def)
  moreover have "pairs_unique ?h"
    using assms(2) unfolding pairs_unique_def vals by blast
  moreover have "link_pairs ?h = link_pairs g - {(output_port l, input_port l)}"
    using assms(2,3) unfolding link_pairs_def vals pairs_unique_def by fastforce
  then have "graph_after g (link_pairs g - {(output_port l, input_port l)}) ?h"
    by (simp add: graph_after_def same_topology_def unplaced_nodes_def)
  ultimately show ?thesis by blast
qed

lemma demo_connect_ok:
  assumes "demo_ok d" and "demo_connect p q d = (Inr l, d')"
  shows "demo_ok d' \<and> (p, q) \<notin> link_pairs (demo_graph d)
    \<and> graph_after (demo_graph d) (insert (p, q) (link_pairs (demo_graph d))) (demo_graph d')"
proof -
  from assms(2) obtain h where "add_link (LinkId (demo_next_link_id d)) p q (demo_graph d) = (Inr l, h)"
    and "demo_graph d' = h"
    by (auto simp: demo_connect_def allocate_link_id_def split: if_splits prod.splits sum.splits)
  with add_link_effect assms(1) show ?thesis unfolding demo_ok_def by blast
qed

lemma demo_connect_err:
  assumes "demo_connect p q d = (Inl e, d')"
  shows "demo_graph d' = demo_graph d"
proof (cases "connect_refused d p q")
  case True
  with assms show ?thesis by (simp add: demo_connect_def)
next
  case False
  obtain r h where add: "add_link (LinkId (demo_next_link_id d)) p q (demo_graph d) = (r, h)"
    by fastforce
  with False assms obtain e' where "r = Inl e'" and "demo_graph d' = h"
    by (auto simp: demo_connect_def allocate_link_id_def split: sum.splits)
  with add add_link_error [of "LinkId (demo_next_link_id d)" p q "demo_graph d" e'] show ?thesis
    by simp
qed

lemma demo_disconnect_ok:
  assumes "demo_ok d" and "l \<in> set (bt_values (g_links (demo_graph d)))"
    and "demo_disconnect (link_ident l) d = (Inr l', d')"
  shows "demo_ok d'
    \<and> graph_after (demo_graph d) (link_pairs (demo_graph d) - {(output_port l, input_port l)})
        (demo_graph d')"
proof -
  from remove_link_effect assms(1,2) obtain h where
    h: "remove_link (link_ident l) (demo_graph d) = (Inr l, h)" "graph_wf h" "pairs_unique h"
      "graph_after (demo_graph d) (link_pairs (demo_graph d) - {(output_port l, input_port l)}) h"
    unfolding demo_ok_def by blast
  with assms(3) show ?thesis
    by (auto simp: demo_disconnect_def demo_ok_def split: if_splits)
qed

lemma demo_disconnect_err:
  "demo_disconnect i d = (Inl e, d') \<Longrightarrow> demo_graph d' = demo_graph d"
  by (auto simp: demo_disconnect_def remove_link_def split: if_splits option.splits)

interpretation demo: stable_driver demo_driver demo_ok
proof (unfold_locales, unfold demo_driver_simps, goal_cases)
  case (1 d r d')
  then show ?case by (auto simp: demo_refresh_def)
next
  case (2 d p q l d')
  then show ?case by (rule demo_connect_ok)
next
  case (3 d p q e d')
  then show ?case using demo_connect_err by (simp add: demo_ok_def)
next
  case (4 d l l' d')
  then show ?case by (rule demo_disconnect_ok)
next
  case (5 d i e d')
  then show ?case using demo_disconnect_err by (simp add: demo_ok_def)
next
  case (6 d l i d')
  then obtain h where "remove_link (link_ident l) (demo_graph d) = (Inr l, h)"
    using remove_link_effect unfolding demo_ok_def by blast
  then show ?case by (auto simp: demo_disconnect_def)
next
  case (7 d out inp)
  then show ?case by (simp add: demo_allow_connection_def demo_ok_def)
next
  case (8 d out inp)
  then show ?case by (simp add: demo_suppress_connection_def demo_ok_def)
next
  case (9 d)
  then show ?case by (simp add: demo_ok_def)
next
  case (10 d n pos u d')
  then show ?case
    by (auto simp: demo_set_node_position_def demo_ok_def graph_wf_place pairs_unique_def
        split: if_splits option.splits)
next
  case (11 d n pos e d')
  then show ?case
    by (auto simp: demo_set_node_position_def split: if_splits option.splits)
qed

text \<open>Concrete states that satisfy the contract.\<close>

lemma demo_demo_ok: "demo_ok demo_demo"
proof -
  have "graph_wf (demo_graph demo_demo)"
    by (simp add: demo_demo_def demo_new_def Let_def add_demo_port_def demo_nodes_def add_node_wf
        add_port_wf new_node_def)
  moreover have "g_links (demo_graph demo_demo) = []"
    by code_simp
  ultimately show ?thesis by (simp add: demo_ok_def pairs_unique_def bt_values_def)
qed

lemma connect_keeps_ok: "demo_ok d \<Longrightarrow> demo_ok (snd (demo_connect p q d))"
proof (cases "fst (demo_connect p q d)")
  case (Inl e)
  then show "demo_ok d \<Longrightarrow> ?thesis"
    using demo_connect_err [of p q d e "snd (demo_connect p q d)"]
    by (simp add: demo_ok_def prod_eq_iff)
next
  case (Inr l)
  then show "demo_ok d \<Longrightarrow> ?thesis"
    using demo_connect_ok [of d p q l "snd (demo_connect p q d)"] by (simp add: prod_eq_iff)
qed

end
