(* ===== verification/Transaction.thy ===== *)
theory Transaction
  imports Demo_Driver
begin

text \<open>
  The atomicity helpers every command shares
  (\<^verbatim>\<open>crates/pw-graph-command/src/command/transaction.rs\<close> and \<^verbatim>\<open>error.rs\<close>): group
  disconnection with rollback, the two rollbacks, restoring removed pairs, and transactional
  node positions. Loops run over the key list with the collected vectors as accumulators.
  The lemmas say what each leaves of the connected pairs, in any stable driver.
\<close>

datatype command_error =
  CE_Backend backend_error
| CE_MissingUndoLink
| CE_PartiallyApplied string string nat

fun show_command_error :: "command_error \<Rightarrow> string" where
  "show_command_error (CE_Backend e) = show_backend_error e"
| "show_command_error CE_MissingUndoLink = ''command has no link to undo''"
| "show_command_error (CE_PartiallyApplied operation cause stranded) =
     operation @ '' failed and could not be rolled back: '' @ cause @ ''; ''
       @ show_nat stranded @ '' item(s) were left changed''"

text \<open>The error that says some of the change could not be undone.\<close>

fun is_partial :: "command_error \<Rightarrow> bool" where
  "is_partial (CE_PartiallyApplied _ _ _) = True"
| "is_partial _ = False"

definition stable_pair :: "graph \<Rightarrow> port_id \<Rightarrow> port_id \<Rightarrow> key_pair option" where
  "stable_pair g p q =
     (case graph_port_key g p of None \<Rightarrow> None
      | Some a \<Rightarrow> (case graph_port_key g q of None \<Rightarrow> None | Some b \<Rightarrow> Some (a, b)))"

fun dedup_onto :: "key_pair list \<Rightarrow> key_pair list \<Rightarrow> key_pair list" where
  "dedup_onto unique [] = unique"
| "dedup_onto unique (k # ks) = dedup_onto (if k \<in> set unique then unique else unique @ [k]) ks"

definition dedup_pairs :: "key_pair list \<Rightarrow> key_pair list" where
  "dedup_pairs ks = dedup_onto [] ks"

definition port_description :: "port_key \<Rightarrow> string" where
  "port_description k = key_node_name k @ '' / '' @ key_port_name k"

text \<open>The arrow between the two ends is U+2192, three bytes in UTF-8.\<close>

definition pair_description :: "string \<Rightarrow> key_pair option \<Rightarrow> string" where
  "pair_description name keys =
     (case keys of
        None \<Rightarrow> name
      | Some (out, inp) \<Rightarrow>
          name @ '': '' @ port_description out
            @ [CHR '' '', CHR 0xE2, CHR 0x86, CHR 0x92, CHR '' ''] @ port_description inp)"

subsection \<open>Rollbacks\<close>

fun rollback_disconnects_loop :: "'d driver \<Rightarrow> key_pair list \<Rightarrow> nat \<Rightarrow> 'd \<Rightarrow> nat \<times> 'd" where
  "rollback_disconnects_loop drv [] stranded d = (stranded, d)"
| "rollback_disconnects_loop drv (k # ks) stranded d =
     (case connect_by_key_if_missing drv (fst k) (snd k) d of
        (Inl _, d) \<Rightarrow> rollback_disconnects_loop drv ks (Suc stranded) d
      | (Inr _, d) \<Rightarrow> rollback_disconnects_loop drv ks stranded d)"

definition rollback_disconnects :: "'d driver \<Rightarrow> key_pair list \<Rightarrow> 'd \<Rightarrow> nat \<times> 'd" where
  "rollback_disconnects drv removed d = rollback_disconnects_loop drv (rev removed) 0 d"

fun rollback_connects_loop :: "'d driver \<Rightarrow> key_pair list \<Rightarrow> nat \<Rightarrow> 'd \<Rightarrow> nat \<times> 'd" where
  "rollback_connects_loop drv [] stranded d = (stranded, d)"
| "rollback_connects_loop drv (k # ks) stranded d =
     (case disconnect_by_key_if_present_without_suppression drv (fst k) (snd k) d of
        (Inr (Some _), d) \<Rightarrow>
          rollback_connects_loop drv ks stranded (drv_allow_connection drv (fst k) (snd k) d)
      | (Inr None, d) \<Rightarrow> rollback_connects_loop drv ks stranded d
      | (Inl _, d) \<Rightarrow> rollback_connects_loop drv ks (Suc stranded) d)"

definition rollback_connects :: "'d driver \<Rightarrow> key_pair list \<Rightarrow> 'd \<Rightarrow> nat \<times> 'd" where
  "rollback_connects drv created d = rollback_connects_loop drv (rev created) 0 d"

text \<open>The error a failed group operation reports after its rollback.\<close>

definition rolled_back :: "string \<Rightarrow> backend_error \<Rightarrow> nat \<Rightarrow> command_error" where
  "rolled_back operation e stranded =
     (if stranded = 0 then CE_Backend e
      else CE_PartiallyApplied operation (show_backend_error e) stranded)"

subsection \<open>Group disconnect and restore\<close>

definition link_protected :: "'d driver \<Rightarrow> 'd \<Rightarrow> key_pair \<Rightarrow> bool" where
  "link_protected drv d k =
     (case find_link_by_keys (drv_graph drv d) (fst k) (snd k) of
        None \<Rightarrow> False
      | Some l \<Rightarrow> \<not> drv_is_link_mutable drv d (link_ident l))"

fun disconnect_keys_loop ::
  "'d driver \<Rightarrow> string \<Rightarrow> key_pair list \<Rightarrow> link list \<Rightarrow> key_pair list \<Rightarrow> 'd
    \<Rightarrow> (command_error, link list) result \<times> key_pair list \<times> 'd" where
  "disconnect_keys_loop drv operation [] disconnected removed d = (Inr disconnected, removed, d)"
| "disconnect_keys_loop drv operation (k # ks) disconnected removed d =
     (if link_protected drv d k then disconnect_keys_loop drv operation ks disconnected removed d
      else case disconnect_by_key_if_present drv (fst k) (snd k) d of
        (Inr (Some l), d) \<Rightarrow>
          disconnect_keys_loop drv operation ks (disconnected @ [l]) (removed @ [k]) d
      | (Inr None, d) \<Rightarrow> disconnect_keys_loop drv operation ks disconnected removed d
      | (Inl e, d) \<Rightarrow>
          (let (stranded, d) = rollback_disconnects drv removed d
           in (Inl (rolled_back operation e stranded), [], d)))"

definition disconnect_keys ::
  "'d driver \<Rightarrow> string \<Rightarrow> key_pair list \<Rightarrow> 'd
    \<Rightarrow> (command_error, link list) result \<times> key_pair list \<times> 'd" where
  "disconnect_keys drv operation keys d = disconnect_keys_loop drv operation keys [] [] d"

fun restore_keys_loop ::
  "'d driver \<Rightarrow> key_pair list \<Rightarrow> link list \<Rightarrow> string list \<Rightarrow> 'd
    \<Rightarrow> link list \<times> string list \<times> 'd" where
  "restore_keys_loop drv [] restored failures d = (restored, failures, d)"
| "restore_keys_loop drv (k # ks) restored failures d =
     (case connect_by_key_if_missing drv (fst k) (snd k) d of
        (Inr (Some l), d) \<Rightarrow> restore_keys_loop drv ks (restored @ [l]) failures d
      | (Inr None, d) \<Rightarrow> restore_keys_loop drv ks restored failures d
      | (Inl e, d) \<Rightarrow> restore_keys_loop drv ks restored (failures @ [show_backend_error e]) d)"

definition restore_keys ::
  "'d driver \<Rightarrow> string \<Rightarrow> key_pair list \<Rightarrow> 'd \<Rightarrow> (command_error, link list) result \<times> 'd" where
  "restore_keys drv operation removed d =
     (let (restored, failures, d) = restore_keys_loop drv removed [] [] d in
      if failures \<noteq> []
      then (Inl (CE_PartiallyApplied operation (join ''; '' failures) (length failures)), d)
      else (Inr restored, d))"

subsection \<open>Node positions\<close>

type_synonym placement = "node_id \<times> position"

fun restore_positions ::
  "'d driver \<Rightarrow> placement list \<Rightarrow> node_id list \<Rightarrow> string list \<Rightarrow> 'd \<Rightarrow> string list \<times> 'd" where
  "restore_positions drv rollback [] errors d = (errors, d)"
| "restore_positions drv rollback (n # ns) errors d =
     (case List.find (\<lambda>r. fst r = n) rollback of
        None \<Rightarrow> restore_positions drv rollback ns errors d
      | Some (_, pos) \<Rightarrow>
        (case drv_set_node_position drv n pos d of
           (Inr _, d) \<Rightarrow> restore_positions drv rollback ns errors d
         | (Inl e, d) \<Rightarrow>
             restore_positions drv rollback ns
               (errors @ [''node '' @ show_node_id n @ '' restore failed: '' @ show_backend_error e])
               d))"

fun apply_positions_loop ::
  "'d driver \<Rightarrow> placement list \<Rightarrow> placement list \<Rightarrow> node_id list \<Rightarrow> 'd
    \<Rightarrow> (command_error, unit) result \<times> 'd" where
  "apply_positions_loop drv rollback [] applied d = (Inr (), d)"
| "apply_positions_loop drv rollback ((n, pos) # targets) applied d =
     (case drv_set_node_position drv n pos d of
        (Inr _, d) \<Rightarrow> apply_positions_loop drv rollback targets (applied @ [n]) d
      | (Inl e, d) \<Rightarrow>
          (let (errors, d) = restore_positions drv rollback (rev applied) [] d in
           if errors \<noteq> []
           then (Inl (CE_PartiallyApplied ''Move nodes''
                        (show_backend_error e @ ''; '' @ join ''; '' errors) (length errors)), d)
           else (Inl (CE_Backend e), d)))"

definition apply_positions ::
  "'d driver \<Rightarrow> placement list \<Rightarrow> placement list \<Rightarrow> 'd \<Rightarrow> (command_error, unit) result \<times> 'd" where
  "apply_positions drv targets rollback d = apply_positions_loop drv rollback targets [] d"

subsection \<open>Lemmas on the pure helpers\<close>

lemma dedup_onto_props:
  "set (dedup_onto u ks) = set u \<union> set ks \<and> (distinct u \<longrightarrow> distinct (dedup_onto u ks))"
  by (induction u ks rule: dedup_onto.induct) auto

lemma dedup_pairs_props [simp]: "set (dedup_pairs ks) = set ks" "distinct (dedup_pairs ks)"
  using dedup_onto_props [of "[]" ks] by (simp_all add: dedup_pairs_def)

lemma rolled_back_plain [simp]: "rolled_back operation e n = CE_Backend e' \<longleftrightarrow> n = 0 \<and> e = e'"
  by (simp add: rolled_back_def)

lemma stable_pair_same_topology: "same_topology g h \<Longrightarrow> stable_pair g p q = stable_pair h p q"
  by (simp add: stable_pair_def port_key_same_topology [of g h] cong: option.case_cong)

text \<open>A captured pair resolves, if at all, to the pair it was captured from.\<close>

lemma stable_pair_resolution:
  assumes "graph_wf g" and "stable_pair g p q = Some k"
  shows "pair_of g k = None \<or> pair_of g k = Some (p, q)"
proof -
  from assms(2) obtain a b where a: "graph_port_key g p = Some a" and b: "graph_port_key g q = Some b"
    and k: "k = (a, b)"
    by (auto simp: stable_pair_def split: option.splits)
  from port_key_resolution [OF assms(1) a] port_key_resolution [OF assms(1) b] k show ?thesis
    by (auto simp: pair_of_def split: option.split)
qed

subsection \<open>The helpers in a stable driver\<close>

context stable_driver
begin

text \<open>
  A rollback that strands none of its keys brings all their pairs back, respectively takes
  them all down.
\<close>

lemma rollback_disconnects_loop_at:
  assumes "state_at g A d" and "rollback_disconnects_loop drv ks n d = (m, d')"
  shows "\<exists>B. state_at g B d' \<and> n \<le> m \<and> (m = n \<longrightarrow> B = A \<union> keys_pairs g ks)"
  using assms
proof (induction ks arbitrary: n A d)
  case Nil
  then show ?case by auto
next
  case (Cons k ks)
  obtain r d1 where step: "connect_by_key_if_missing drv (fst k) (snd k) d = (r, d1)"
    by fastforce
  note at = connect_at [OF Cons.prems(1) step]
  show ?case
  proof (cases r)
    case (Inl e)
    with Cons.prems step have "rollback_disconnects_loop drv ks (Suc n) d1 = (m, d')" by simp
    from Cons.IH [OF _ this] at Inl show ?thesis by fastforce
  next
    case (Inr x)
    with Cons.prems step have "rollback_disconnects_loop drv ks n d1 = (m, d')" by simp
    from Cons.IH [OF _ this] at Inr show ?thesis by (fastforce simp: Un_assoc)
  qed
qed

lemma rollback_connects_loop_at:
  assumes "state_at g A d" and "rollback_connects_loop drv ks n d = (m, d')"
  shows "\<exists>B. state_at g B d' \<and> n \<le> m \<and> (m = n \<longrightarrow> B = A - keys_pairs g ks)"
  using assms
proof (induction ks arbitrary: n A d)
  case Nil
  then show ?case by auto
next
  case (Cons k ks)
  obtain r d1 where
    step: "disconnect_by_key_if_present_without_suppression drv (fst k) (snd k) d = (r, d1)"
    by fastforce
  note at = disconnect_quiet_at [OF Cons.prems(1) step]
  show ?case
  proof (cases r)
    case (Inl e)
    with Cons.prems step have "rollback_connects_loop drv ks (Suc n) d1 = (m, d')" by simp
    from Cons.IH [OF _ this] at Inl show ?thesis by fastforce
  next
    case (Inr x)
    with Cons.prems step at obtain d2 where "rollback_connects_loop drv ks n d2 = (m, d')"
      and "state_at g (A - set_option (pair_of g k)) d2"
      by (cases x) (auto intro: allow_at)
    from Cons.IH [OF this(2,1)] show ?thesis by (simp add: diff_diff_union)
  qed
qed

lemma rollback_disconnects_at:
  assumes "state_at g A d" and "rollback_disconnects drv ks d = (n, d')"
  shows "\<exists>B. state_at g B d' \<and> (n = 0 \<longrightarrow> B = A \<union> keys_pairs g ks)"
  using rollback_disconnects_loop_at [OF assms(1), of "rev ks" 0 n d'] assms(2)
  by (auto simp: rollback_disconnects_def)

lemma rollback_connects_at:
  assumes "state_at g A d" and "rollback_connects drv ks d = (n, d')"
  shows "\<exists>B. state_at g B d' \<and> (n = 0 \<longrightarrow> B = A - keys_pairs g ks)"
  using rollback_connects_loop_at [OF assms(1), of "rev ks" 0 n d'] assms(2)
  by (auto simp: rollback_connects_def)

text \<open>
  A group operation that fails with a plain backend error has left the pairs as they were.
\<close>

definition failed_at :: "graph \<Rightarrow> (port_id \<times> port_id) set \<Rightarrow> command_error \<Rightarrow> 'd \<Rightarrow> bool" where
  "failed_at g A e d \<longleftrightarrow> (\<exists>B. state_at g B d \<and> (\<not> is_partial e \<longrightarrow> B = A))"

lemma failed_at_plain: "state_at g A d \<Longrightarrow> failed_at g A e d"
  by (auto simp: failed_at_def)

text \<open>
  Group disconnect: throughout the loop the pairs are the initial ones without the removed
  keys, whose pairs were all connected initially.
\<close>

lemma disconnect_keys_loop_at:
  assumes "state_at g (A - keys_pairs g removed) d" and "keys_pairs g removed \<subseteq> A"
    and "disconnect_keys_loop drv operation ks disc removed d = (r, removed', d')"
  shows "case r of
      Inr ls \<Rightarrow> state_at g (A - keys_pairs g removed') d' \<and> keys_pairs g removed' \<subseteq> A
        \<and> set removed' \<subseteq> set removed \<union> set ks
        \<and> length ls + length removed = length disc + length removed'
    | Inl e \<Rightarrow> failed_at g A e d' \<and> removed' = []"
  using assms
proof (induction ks arbitrary: disc removed d)
  case Nil
  then show ?case by auto
next
  case (Cons k ks)
  show ?case
  proof (cases "link_protected drv d k")
    case True
    with Cons.prems(3) have "disconnect_keys_loop drv operation ks disc removed d = (r, removed', d')"
      by simp
    from Cons.IH [OF Cons.prems(1,2) this] show ?thesis by (auto split: sum.splits)
  next
    case False
    obtain dr d1 where step: "disconnect_by_key_if_present drv (fst k) (snd k) d = (dr, d1)"
      by fastforce
    note at = disconnect_at [OF Cons.prems(1) step]
    consider (err) e where "dr = Inl e" | (none) "dr = Inr None" | (some) l where "dr = Inr (Some l)"
      by (cases dr; cases "projr dr") auto
    then show ?thesis
    proof cases
      case err
      obtain n d2 where roll: "rollback_disconnects drv removed d1 = (n, d2)" by fastforce
      from at err have "state_at g (A - keys_pairs g removed) d1" by simp
      from rollback_disconnects_at [OF this roll] Cons.prems(2,3) False step err roll
      show ?thesis by (auto simp: failed_at_def rolled_back_def Un_absorb2)
    next
      case none
      with at have at1: "state_at g (A - keys_pairs g removed) d1"
        by (auto simp: Diff_triv Int_commute)
      from Cons.prems(3) False step none
      have "disconnect_keys_loop drv operation ks disc removed d1 = (r, removed', d')" by simp
      from Cons.IH [OF at1 Cons.prems(2) this] show ?thesis by (auto split: sum.splits)
    next
      case some
      with at Cons.prems(2) have sub: "keys_pairs g (removed @ [k]) \<subseteq> A"
        by (cases "pair_of g k") auto
      from some at have at1: "state_at g (A - keys_pairs g (removed @ [k])) d1"
        by (simp add: diff_diff_union)
      from Cons.prems(3) False step some
      have "disconnect_keys_loop drv operation ks (disc @ [l]) (removed @ [k]) d1 = (r, removed', d')"
        by simp
      from Cons.IH [OF at1 sub this] show ?thesis by (auto split: sum.splits)
    qed
  qed
qed

lemma disconnect_keys_at:
  assumes "state_at g A d" and "disconnect_keys drv operation ks d = (r, removed, d')"
  shows "case r of
      Inr ls \<Rightarrow> state_at g (A - keys_pairs g removed) d' \<and> keys_pairs g removed \<subseteq> A
        \<and> set removed \<subseteq> set ks \<and> length ls = length removed
    | Inl e \<Rightarrow> failed_at g A e d' \<and> removed = []"
  using disconnect_keys_loop_at [of g A "[]" d operation ks "[]" r removed d'] assms
  by (simp add: disconnect_keys_def split: sum.splits)

text \<open>Restoring: without a failure every pair is back, and it never ends in a plain error.\<close>

lemma restore_keys_loop_at:
  assumes "state_at g A d" and "restore_keys_loop drv ks ls fs d = (ls', fs', d')"
  shows "\<exists>B. state_at g B d' \<and> length fs \<le> length fs'
    \<and> (length fs' = length fs \<longrightarrow> B = A \<union> keys_pairs g ks)"
  using assms
proof (induction ks arbitrary: ls fs A d)
  case Nil
  then show ?case by auto
next
  case (Cons k ks)
  obtain r d1 where step: "connect_by_key_if_missing drv (fst k) (snd k) d = (r, d1)"
    by fastforce
  note at = connect_at [OF Cons.prems(1) step]
  show ?case
  proof (cases r)
    case (Inl e)
    with Cons.IH [of A d1 ls "fs @ [show_backend_error e]"] Cons.prems(2) step at show ?thesis
      by fastforce
  next
    case (Inr x)
    then obtain ls1 where "restore_keys_loop drv ks ls1 fs d1 = (ls', fs', d')"
      using Cons.prems(2) step by (cases x) auto
    from Cons.IH [OF _ this] at Inr show ?thesis by (fastforce simp: Un_assoc)
  qed
qed

lemma restore_keys_at:
  assumes "state_at g A d" and "restore_keys drv operation ks d = (r, d')"
  shows "case r of
      Inr ls \<Rightarrow> state_at g (A \<union> keys_pairs g ks) d'
    | Inl e \<Rightarrow> failed_at g A e d' \<and> is_partial e"
proof -
  obtain ls fs d1 where loop: "restore_keys_loop drv ks [] [] d = (ls, fs, d1)"
    by (metis prod_cases3)
  from restore_keys_loop_at [OF assms(1) loop] loop assms(2) show ?thesis
    by (auto simp: restore_keys_def failed_at_def split: if_splits)
qed

text \<open>Positions never touch the connections.\<close>

lemma restore_positions_at:
  "state_at g A d \<Longrightarrow> restore_positions drv rollback ns errs d = (errs', d') \<Longrightarrow> state_at g A d'"
proof (induction ns arbitrary: errs d)
  case (Cons n ns)
  show ?case
  proof (cases "List.find (\<lambda>r. fst r = n) rollback")
    case None
    with Cons show ?thesis by simp
  next
    case (Some r)
    obtain pos where r: "snd r = pos" by simp
    obtain pr d1 where step: "drv_set_node_position drv n pos d = (pr, d1)" by fastforce
    from place_at [OF Cons.prems(1) step] Cons.IH [of d1] Cons.prems(2) Some r step show ?thesis
      by (cases r; cases pr) auto
  qed
qed simp

lemma apply_positions_at:
  "state_at g A d \<Longrightarrow> apply_positions_loop drv rollback targets applied d = (r, d') \<Longrightarrow>
    state_at g A d'"
proof (induction targets arbitrary: applied d)
  case (Cons t ts)
  obtain n pos where t: "t = (n, pos)" by (cases t)
  obtain pr d1 where step: "drv_set_node_position drv n pos d = (pr, d1)" by fastforce
  note at = place_at [OF Cons.prems(1) step]
  obtain errs d2 where roll: "restore_positions drv rollback (rev applied) [] d1 = (errs, d2)"
    by fastforce
  from at restore_positions_at [OF at roll] Cons.IH [OF at] Cons.prems(2) t step roll
  show ?case by (cases pr) (auto split: if_splits)
qed simp

end

end
