(* ===== verification/Commands.thy ===== *)
theory Commands
  imports Transaction
begin

text \<open>
  The undoable commands (\<^verbatim>\<open>crates/pw-graph-command/src/command\<close>: \<^verbatim>\<open>connect.rs\<close>,
  \<^verbatim>\<open>disconnect.rs\<close>, \<^verbatim>\<open>reroute.rs\<close>, \<^verbatim>\<open>layout.rs\<close>) and the undo/redo stack
  (\<^verbatim>\<open>stack.rs\<close>). \<^verbatim>\<open>execute\<close> and \<^verbatim>\<open>undo\<close> mutate the command and the driver: each returns
  its result with the command and the driver state it leaves. A \<^verbatim>\<open>Box<dyn Command>\<close> is the
  sum of the implementors.
\<close>

type_synonym ('c, 'd) command_run = "(command_error, unit) result \<times> 'c \<times> 'd"

subsection \<open>Connect\<close>

record connect_command =
  cc_src :: port_id
  cc_dst :: port_id
  cc_link :: "link option"
  cc_keys :: "key_pair option"

definition connect_new :: "port_id \<Rightarrow> port_id \<Rightarrow> connect_command" where
  "connect_new p q = \<lparr>cc_src = p, cc_dst = q, cc_link = None, cc_keys = None\<rparr>"

definition connect_from_keys :: "port_key \<Rightarrow> port_key \<Rightarrow> connect_command" where
  "connect_from_keys out inp =
     \<lparr>cc_src = port_id_default, cc_dst = port_id_default, cc_link = None,
      cc_keys = Some (out, inp)\<rparr>"

definition connect_execute ::
  "'d driver \<Rightarrow> connect_command \<Rightarrow> 'd \<Rightarrow> (connect_command, 'd) command_run" where
  "connect_execute drv c d =
    (case drv_refresh drv d of
       (Inl e, d) \<Rightarrow> (Inl (CE_Backend e), c, d)
     | (Inr _, d) \<Rightarrow>
       (case (case cc_keys c of
                Some k \<Rightarrow> Some k
              | None \<Rightarrow> stable_pair (drv_graph drv d) (cc_src c) (cc_dst c)) of
          None \<Rightarrow> (Inr (), c, d)
        | Some (out, inp) \<Rightarrow>
          (let c = c\<lparr>cc_keys := Some (out, inp)\<rparr> in
           case connect_by_key_if_missing drv out inp d of
             (Inl e, d) \<Rightarrow> (Inl (CE_Backend e), c, d)
           | (Inr l, d) \<Rightarrow> (Inr (), c\<lparr>cc_link := l\<rparr>, d))))"

definition connect_undo ::
  "'d driver \<Rightarrow> connect_command \<Rightarrow> 'd \<Rightarrow> (connect_command, 'd) command_run" where
  "connect_undo drv c d =
    (if cc_link c = None then (Inr (), c, d)
     else case cc_keys c of
       None \<Rightarrow> (Inl CE_MissingUndoLink, c, d)
     | Some (out, inp) \<Rightarrow>
       (case disconnect_by_key_if_present drv out inp d of
          (Inl e, d) \<Rightarrow> (Inl (CE_Backend e), c, d)
        | (Inr _, d) \<Rightarrow>
            (Inr (), c\<lparr>cc_link := None\<rparr>, drv_allow_connection drv out inp d)))"

subsection \<open>Connect many\<close>

record connect_many_command =
  cm_pairs :: "(port_id \<times> port_id) list"
  cm_keys :: "key_pair list"
  cm_links :: "link list"
  cm_created :: "key_pair list"

definition connect_many_new :: "(port_id \<times> port_id) list \<Rightarrow> connect_many_command" where
  "connect_many_new ps = \<lparr>cm_pairs = ps, cm_keys = [], cm_links = [], cm_created = []\<rparr>"

definition connect_many_with_keys ::
  "(port_id \<times> port_id) list \<Rightarrow> key_pair list \<Rightarrow> connect_many_command" where
  "connect_many_with_keys ps ks =
     \<lparr>cm_pairs = ps, cm_keys = dedup_pairs ks, cm_links = [], cm_created = []\<rparr>"

fun connect_many_loop ::
  "'d driver \<Rightarrow> key_pair list \<Rightarrow> link list \<Rightarrow> key_pair list \<Rightarrow> 'd
    \<Rightarrow> (command_error, unit) result \<times> link list \<times> key_pair list \<times> 'd" where
  "connect_many_loop drv [] links created d = (Inr (), links, created, d)"
| "connect_many_loop drv (k # ks) links created d =
    (case connect_by_key_if_missing drv (fst k) (snd k) d of
       (Inr (Some l), d) \<Rightarrow> connect_many_loop drv ks (links @ [l]) (created @ [k]) d
     | (Inr None, d) \<Rightarrow> connect_many_loop drv ks links created d
     | (Inl e, d) \<Rightarrow>
         (let (stranded, d) = rollback_connects drv created d
          in (Inl (rolled_back ''Connect group'' e stranded), [], [], d)))"

definition connect_many_execute ::
  "'d driver \<Rightarrow> connect_many_command \<Rightarrow> 'd \<Rightarrow> (connect_many_command, 'd) command_run" where
  "connect_many_execute drv c d =
    (case drv_refresh drv d of
       (Inl e, d) \<Rightarrow> (Inl (CE_Backend e), c, d)
     | (Inr _, d) \<Rightarrow>
       (let keys = (if cm_keys c = []
                    then dedup_pairs (filter_map
                           (\<lambda>(p, q). stable_pair (drv_graph drv d) p q) (cm_pairs c))
                    else cm_keys c);
            (r, links, created, d) = connect_many_loop drv keys [] [] d
        in (r, c\<lparr>cm_keys := keys, cm_links := links, cm_created := created\<rparr>, d)))"

text \<open>Reconnecting what a failed undo had already removed, newest first.\<close>

fun reconnect_undone ::
  "'d driver \<Rightarrow> key_pair list \<Rightarrow> string list \<Rightarrow> 'd \<Rightarrow> string list \<times> 'd" where
  "reconnect_undone drv [] errors d = (errors, d)"
| "reconnect_undone drv (k # ks) errors d =
    (case connect_by_key_if_missing drv (fst k) (snd k) d of
       (Inl e, d) \<Rightarrow> reconnect_undone drv ks (errors @ [show_backend_error e]) d
     | (Inr _, d) \<Rightarrow> reconnect_undone drv ks errors d)"

fun connect_many_undo_loop ::
  "'d driver \<Rightarrow> key_pair list \<Rightarrow> key_pair list \<Rightarrow> 'd \<Rightarrow> (command_error, unit) result \<times> 'd" where
  "connect_many_undo_loop drv [] disconnected d = (Inr (), d)"
| "connect_many_undo_loop drv (k # ks) disconnected d =
    (case disconnect_by_key_if_present_without_suppression drv (fst k) (snd k) d of
       (Inr (Some _), d) \<Rightarrow>
         connect_many_undo_loop drv ks (disconnected @ [k])
           (drv_allow_connection drv (fst k) (snd k) d)
     | (Inr None, d) \<Rightarrow> connect_many_undo_loop drv ks disconnected d
     | (Inl e, d) \<Rightarrow>
         (let (errors, d) = reconnect_undone drv (rev disconnected) [] d in
          if errors = [] then (Inl (CE_Backend e), d)
          else (Inl (CE_PartiallyApplied ''Connect group undo''
                       (show_backend_error e @ ''; reconnecting undone links failed: ''
                          @ join ''; '' errors)
                       (length errors)), d)))"

definition connect_many_undo ::
  "'d driver \<Rightarrow> connect_many_command \<Rightarrow> 'd \<Rightarrow> (connect_many_command, 'd) command_run" where
  "connect_many_undo drv c d =
    (case connect_many_undo_loop drv (rev (cm_created c)) [] d of
       (Inl e, d) \<Rightarrow> (Inl e, c, d)
     | (Inr _, d) \<Rightarrow> (Inr (), c\<lparr>cm_links := [], cm_created := []\<rparr>, d))"

subsection \<open>Disconnect\<close>

record disconnect_command =
  dc_link :: "link option"
  dc_link_id :: link_id
  dc_keys :: "key_pair option"
  dc_removed :: bool

definition disconnect_new :: "link_id \<Rightarrow> disconnect_command" where
  "disconnect_new l = \<lparr>dc_link = None, dc_link_id = l, dc_keys = None, dc_removed = False\<rparr>"

definition disconnect_from_link :: "graph \<Rightarrow> link \<Rightarrow> disconnect_command" where
  "disconnect_from_link g l =
     \<lparr>dc_link = Some l, dc_link_id = link_ident l,
      dc_keys = stable_pair g (output_port l) (input_port l), dc_removed = False\<rparr>"

definition link_pair_keys :: "graph \<Rightarrow> link_id \<Rightarrow> key_pair option" where
  "link_pair_keys g l =
     (case graph_link g l of
        None \<Rightarrow> None | Some lk \<Rightarrow> stable_pair g (output_port lk) (input_port lk))"

definition disconnect_capture :: "graph \<Rightarrow> disconnect_command \<Rightarrow> disconnect_command" where
  "disconnect_capture g c =
     (if dc_keys c = None then c\<lparr>dc_keys := link_pair_keys g (dc_link_id c)\<rparr> else c)"

definition disconnect_execute ::
  "'d driver \<Rightarrow> disconnect_command \<Rightarrow> 'd \<Rightarrow> (disconnect_command, 'd) command_run" where
  "disconnect_execute drv c d =
    (let c = c\<lparr>dc_removed := False\<rparr> in
     case drv_refresh drv d of
       (Inl e, d) \<Rightarrow> (Inl (CE_Backend e), c, d)
     | (Inr _, d) \<Rightarrow>
       (let c = disconnect_capture (drv_graph drv d) c in
        case dc_keys c of
          None \<Rightarrow> (Inr (), c, d)
        | Some k \<Rightarrow>
          if link_protected drv d k then (Inr (), c, d)
          else case disconnect_by_key_if_present drv (fst k) (snd k) d of
            (Inl e, d) \<Rightarrow> (Inl (CE_Backend e), c, d)
          | (Inr None, d) \<Rightarrow> (Inr (), c, d)
          | (Inr (Some l), d) \<Rightarrow>
              (Inr (), c\<lparr>dc_link_id := link_ident l, dc_link := Some l, dc_removed := True\<rparr>, d)))"

definition disconnect_undo ::
  "'d driver \<Rightarrow> disconnect_command \<Rightarrow> 'd \<Rightarrow> (disconnect_command, 'd) command_run" where
  "disconnect_undo drv c d =
    (if \<not> dc_removed c then (Inr (), c, d)
     else case dc_keys c of
       None \<Rightarrow> (Inl CE_MissingUndoLink, c, d)
     | Some (out, inp) \<Rightarrow>
       (case connect_by_key_if_missing drv out inp d of
          (Inl e, d) \<Rightarrow> (Inl (CE_Backend e), c, d)
        | (Inr r, d) \<Rightarrow>
          (let c = (case (case r of Some l \<Rightarrow> Some l
                          | None \<Rightarrow> find_link_by_keys (drv_graph drv d) out inp) of
                      None \<Rightarrow> c
                    | Some l \<Rightarrow> c\<lparr>dc_link_id := link_ident l, dc_link := Some l\<rparr>)
           in (Inr (), c\<lparr>dc_removed := False\<rparr>, d))))"

subsection \<open>Disconnect many, disconnect all\<close>

record disconnect_many_command =
  dm_link_ids :: "link_id list"
  dm_keys :: "key_pair list"
  dm_removed :: "key_pair list"
  dm_links :: "link list"

definition disconnect_many_new :: "link_id list \<Rightarrow> disconnect_many_command" where
  "disconnect_many_new ls = \<lparr>dm_link_ids = ls, dm_keys = [], dm_removed = [], dm_links = []\<rparr>"

definition disconnect_many_from_links :: "graph \<Rightarrow> link list \<Rightarrow> disconnect_many_command" where
  "disconnect_many_from_links g ls =
     \<lparr>dm_link_ids = map link_ident ls,
      dm_keys = filter_map (\<lambda>l. stable_pair g (output_port l) (input_port l)) ls,
      dm_removed = [], dm_links = ls\<rparr>"

definition disconnect_many_execute ::
  "'d driver \<Rightarrow> disconnect_many_command \<Rightarrow> 'd \<Rightarrow> (disconnect_many_command, 'd) command_run" where
  "disconnect_many_execute drv c d =
    (case drv_refresh drv d of
       (Inl e, d) \<Rightarrow> (Inl (CE_Backend e), c, d)
     | (Inr _, d) \<Rightarrow>
       (let keys = (if dm_keys c = []
                    then filter_map (link_pair_keys (drv_graph drv d)) (dm_link_ids c)
                    else dm_keys c) in
        case disconnect_keys drv ''Disconnect group'' keys d of
          (Inl e, removed, d) \<Rightarrow> (Inl e, c\<lparr>dm_keys := keys, dm_removed := removed\<rparr>, d)
        | (Inr links, removed, d) \<Rightarrow>
            (Inr (), c\<lparr>dm_keys := keys, dm_removed := removed, dm_links := links\<rparr>, d)))"

definition disconnect_many_undo ::
  "'d driver \<Rightarrow> disconnect_many_command \<Rightarrow> 'd \<Rightarrow> (disconnect_many_command, 'd) command_run" where
  "disconnect_many_undo drv c d =
    (case restore_keys drv ''Disconnect group'' (dm_removed c) d of
       (Inl e, d) \<Rightarrow> (Inl e, c, d)
     | (Inr links, d) \<Rightarrow> (Inr (), c\<lparr>dm_links := links\<rparr>, d))"

record disconnect_all_command =
  da_links :: "link list"
  da_keys :: "key_pair list"
  da_removed :: "key_pair list"

definition disconnect_all_new :: disconnect_all_command where
  "disconnect_all_new = \<lparr>da_links = [], da_keys = [], da_removed = []\<rparr>"

definition mutable_link_keys :: "'d driver \<Rightarrow> 'd \<Rightarrow> key_pair list" where
  "mutable_link_keys drv d =
     filter_map (\<lambda>l. stable_pair (drv_graph drv d) (output_port l) (input_port l))
       (filter (\<lambda>l. drv_is_link_mutable drv d (link_ident l))
         (bt_values (g_links (drv_graph drv d))))"

definition disconnect_all_execute ::
  "'d driver \<Rightarrow> disconnect_all_command \<Rightarrow> 'd \<Rightarrow> (disconnect_all_command, 'd) command_run" where
  "disconnect_all_execute drv c d =
    (case drv_refresh drv d of
       (Inl e, d) \<Rightarrow> (Inl (CE_Backend e), c, d)
     | (Inr _, d) \<Rightarrow>
       (let keys = mutable_link_keys drv d in
        case disconnect_keys drv ''Disconnect all'' keys d of
          (Inl e, removed, d) \<Rightarrow> (Inl e, c\<lparr>da_keys := keys, da_removed := removed\<rparr>, d)
        | (Inr links, removed, d) \<Rightarrow>
            (Inr (), c\<lparr>da_keys := keys, da_removed := removed, da_links := links\<rparr>, d)))"

definition disconnect_all_undo ::
  "'d driver \<Rightarrow> disconnect_all_command \<Rightarrow> 'd \<Rightarrow> (disconnect_all_command, 'd) command_run" where
  "disconnect_all_undo drv c d =
    (case restore_keys drv ''Disconnect all'' (da_removed c) d of
       (Inl e, d) \<Rightarrow> (Inl e, c, d)
     | (Inr links, d) \<Rightarrow> (Inr (), c\<lparr>da_links := links\<rparr>, d))"

subsection \<open>Reroute\<close>

record reroute_command =
  rr_link_id :: link_id
  rr_new_port :: port_id
  rr_old_keys :: "key_pair option"
  rr_new_keys :: "key_pair option"
  rr_applied :: bool
  rr_created_new :: bool

definition reroute_new :: "link_id \<Rightarrow> port_id \<Rightarrow> reroute_command" where
  "reroute_new l p =
     \<lparr>rr_link_id = l, rr_new_port = p, rr_old_keys = None, rr_new_keys = None,
      rr_applied = False, rr_created_new = False\<rparr>"

definition reroute_resolve ::
  "reroute_command \<Rightarrow> graph \<Rightarrow> (command_error, key_pair \<times> key_pair) result" where
  "reroute_resolve c g =
    (case graph_link g (rr_link_id c) of None \<Rightarrow> Inl CE_MissingUndoLink
     | Some l \<Rightarrow>
     (case graph_port g (rr_new_port c) of None \<Rightarrow> Inl CE_MissingUndoLink
     | Some target \<Rightarrow>
     (case stable_pair g (output_port l) (input_port l) of None \<Rightarrow> Inl CE_MissingUndoLink
     | Some old \<Rightarrow>
       (let (out, inp) = (if is_source (port_direction target)
                          then (rr_new_port c, input_port l)
                          else (output_port l, rr_new_port c)) in
        if out = output_port l \<and> inp = input_port l then Inl CE_MissingUndoLink
        else case stable_pair g out inp of
          None \<Rightarrow> Inl CE_MissingUndoLink
        | Some new \<Rightarrow> Inr (old, new)))))"

text \<open>Taking the old route down and putting the new one up, once the endpoints are known.\<close>

definition reroute_swap ::
  "'d driver \<Rightarrow> reroute_command \<Rightarrow> key_pair \<Rightarrow> key_pair \<Rightarrow> 'd \<Rightarrow> (reroute_command, 'd) command_run"
where
  "reroute_swap drv c old new d =
    (case disconnect_by_key_if_present_without_suppression drv (fst old) (snd old) d of
       (Inl e, d) \<Rightarrow> (Inl (CE_Backend e), c, d)
     | (Inr removed, d) \<Rightarrow>
       (let d = (if removed \<noteq> None then drv_suppress_connection drv (fst old) (snd old) d else d) in
        case connect_by_key_if_missing drv (fst new) (snd new) d of
          (Inr created, d) \<Rightarrow>
            (Inr (), c\<lparr>rr_created_new := (created \<noteq> None), rr_old_keys := Some old,
                       rr_new_keys := Some new, rr_applied := True\<rparr>, d)
        | (Inl e, d) \<Rightarrow>
          (if removed \<noteq> None then
             (case connect_by_key_if_missing drv (fst old) (snd old) d of
                (Inl restore, d) \<Rightarrow>
                  (Inl (CE_PartiallyApplied ''Reroute''
                    (show_backend_error e @ ''; restoring the previous route failed: ''
                       @ show_backend_error restore) 1), c, d)
              | (Inr _, d) \<Rightarrow> (Inl (CE_Backend e), c, d))
           else (Inl (CE_Backend e), c, d))))"

text \<open>A redo replays the endpoints captured the first time round.\<close>

definition reroute_ends ::
  "reroute_command \<Rightarrow> graph \<Rightarrow> (command_error, key_pair \<times> key_pair) result" where
  "reroute_ends c g =
     (case (rr_old_keys c, rr_new_keys c) of
        (Some old, Some new) \<Rightarrow> Inr (old, new)
      | _ \<Rightarrow> reroute_resolve c g)"

definition reroute_execute ::
  "'d driver \<Rightarrow> reroute_command \<Rightarrow> 'd \<Rightarrow> (reroute_command, 'd) command_run" where
  "reroute_execute drv c d =
    (case drv_refresh drv d of
       (Inl e, d) \<Rightarrow> (Inl (CE_Backend e), c, d)
     | (Inr _, d) \<Rightarrow>
       (case reroute_ends c (drv_graph drv d) of
          Inl e \<Rightarrow> (Inl e, c, d)
        | Inr (old, new) \<Rightarrow>
          (case find_link_by_keys (drv_graph drv d) (fst old) (snd old) of
             None \<Rightarrow> (Inl CE_MissingUndoLink, c, d)
           | Some old_link \<Rightarrow>
             if \<not> drv_is_link_mutable drv d (link_ident old_link)
             then (Inl (CE_Backend (BE_Unsupported
                     ''this link is observed and cannot be rerouted'')), c, d)
             else reroute_swap drv c old new d)))"

text \<open>Taking the rerouted link down again, if this command made it.\<close>

definition reroute_remove_new ::
  "'d driver \<Rightarrow> reroute_command \<Rightarrow> key_pair \<Rightarrow> 'd \<Rightarrow> (backend_error, bool) result \<times> 'd" where
  "reroute_remove_new drv c new d =
    (if rr_created_new c then
       (case disconnect_by_key_if_present_without_suppression drv (fst new) (snd new) d of
          (Inl e, d) \<Rightarrow> (Inl e, d)
        | (Inr None, d) \<Rightarrow> (Inr False, d)
        | (Inr (Some _), d) \<Rightarrow> (Inr True, drv_allow_connection drv (fst new) (snd new) d))
     else (Inr False, d))"

definition reroute_undo ::
  "'d driver \<Rightarrow> reroute_command \<Rightarrow> 'd \<Rightarrow> (reroute_command, 'd) command_run" where
  "reroute_undo drv c d =
    (if \<not> rr_applied c then (Inr (), c, d)
     else case rr_new_keys c of None \<Rightarrow> (Inl CE_MissingUndoLink, c, d)
     | Some new \<Rightarrow>
     (case rr_old_keys c of None \<Rightarrow> (Inl CE_MissingUndoLink, c, d)
     | Some old \<Rightarrow>
       (case reroute_remove_new drv c new d of
          (Inl e, d) \<Rightarrow> (Inl (CE_Backend e), c, d)
        | (Inr removed_new, d) \<Rightarrow>
          (case connect_by_key_if_missing drv (fst old) (snd old) d of
             (Inr _, d) \<Rightarrow> (Inr (), c\<lparr>rr_applied := False, rr_created_new := False\<rparr>, d)
           | (Inl e, d) \<Rightarrow>
             (if removed_new then
                (case connect_by_key_if_missing drv (fst new) (snd new) d of
                   (Inr _, d) \<Rightarrow> (Inl (CE_Backend e), c, d)
                 | (Inl rollback, d) \<Rightarrow>
                     (Inl (CE_PartiallyApplied ''Reroute''
                       (''restoring the original route failed: '' @ show_backend_error e
                          @ ''; and the rerouted connection could not be put back either: ''
                          @ show_backend_error rollback) 2), c, d))
              else
                (Inl (CE_PartiallyApplied ''Reroute'' (show_backend_error e) 1), c, d))))))"

subsection \<open>Move nodes\<close>

record move_nodes_command =
  mv_before :: "placement list"
  mv_after :: "placement list"

definition move_nodes_new :: "placement list \<Rightarrow> placement list \<Rightarrow> move_nodes_command" where
  "move_nodes_new old new = \<lparr>mv_before = old, mv_after = new\<rparr>"

definition move_nodes_execute ::
  "'d driver \<Rightarrow> move_nodes_command \<Rightarrow> 'd \<Rightarrow> (move_nodes_command, 'd) command_run" where
  "move_nodes_execute drv c d =
     (let (r, d) = apply_positions drv (mv_after c) (mv_before c) d in (r, c, d))"

definition move_nodes_undo ::
  "'d driver \<Rightarrow> move_nodes_command \<Rightarrow> 'd \<Rightarrow> (move_nodes_command, 'd) command_run" where
  "move_nodes_undo drv c d =
     (let (r, d) = apply_positions drv (mv_before c) (mv_after c) d in (r, c, d))"

end
