(* ===== verification/Command_Stack.thy ===== *)
theory Command_Stack
  imports Commands
begin

text \<open>
  The trait object \<^verbatim>\<open>dyn Command\<close> and the undo/redo stack
  (\<^verbatim>\<open>crates/pw-graph-command/src/command/stack.rs\<close>). A vector used as a stack has its top
  at the end. A command whose \<^verbatim>\<open>undo\<close> or re-\<^verbatim>\<open>execute\<close> fails is pushed back as that
  call left it.
\<close>

datatype command =
  C_Connect connect_command
| C_ConnectMany connect_many_command
| C_Disconnect disconnect_command
| C_DisconnectMany disconnect_many_command
| C_DisconnectAll disconnect_all_command
| C_Reroute reroute_command
| C_MoveNodes move_nodes_command

fun command_name :: "command \<Rightarrow> string" where
  "command_name (C_Connect c) = ''Connect''"
| "command_name (C_ConnectMany c) = ''Connect group''"
| "command_name (C_Disconnect c) = ''Disconnect''"
| "command_name (C_DisconnectMany c) = ''Disconnect group''"
| "command_name (C_DisconnectAll c) = ''Disconnect all''"
| "command_name (C_Reroute c) = ''Reroute''"
| "command_name (C_MoveNodes c) = ''Move nodes''"

definition count_description :: "string \<Rightarrow> nat \<Rightarrow> string \<Rightarrow> string" where
  "count_description name n items = name @ '' ('' @ show_nat n @ items @ '')''"

definition connect_description :: "connect_command \<Rightarrow> string" where
  "connect_description c = pair_description ''Connect'' (cc_keys c)"

definition connect_many_description :: "connect_many_command \<Rightarrow> string" where
  "connect_many_description c =
     count_description ''Connect group'' (max (length (cm_keys c)) (length (cm_pairs c))) '' pairs''"

definition disconnect_description :: "disconnect_command \<Rightarrow> string" where
  "disconnect_description c = pair_description ''Disconnect'' (dc_keys c)"

definition disconnect_many_description :: "disconnect_many_command \<Rightarrow> string" where
  "disconnect_many_description c =
     count_description ''Disconnect group'' (length (dm_keys c)) '' links''"

definition disconnect_all_description :: "disconnect_all_command \<Rightarrow> string" where
  "disconnect_all_description c =
     count_description ''Disconnect all'' (length (da_keys c)) '' links''"

definition reroute_description :: "reroute_command \<Rightarrow> string" where
  "reroute_description c = pair_description ''Reroute'' (rr_new_keys c)"

definition move_nodes_description :: "move_nodes_command \<Rightarrow> string" where
  "move_nodes_description c = count_description ''Move nodes'' (length (mv_after c)) ''''"

fun command_description :: "command \<Rightarrow> string" where
  "command_description (C_Connect c) = connect_description c"
| "command_description (C_ConnectMany c) = connect_many_description c"
| "command_description (C_Disconnect c) = disconnect_description c"
| "command_description (C_DisconnectMany c) = disconnect_many_description c"
| "command_description (C_DisconnectAll c) = disconnect_all_description c"
| "command_description (C_Reroute c) = reroute_description c"
| "command_description (C_MoveNodes c) = move_nodes_description c"

definition as_command ::
  "('c \<Rightarrow> command) \<Rightarrow> ('c, 'd) command_run \<Rightarrow> (command, 'd) command_run" where
  "as_command K run = (case run of (r, c, d) \<Rightarrow> (r, K c, d))"

fun command_execute :: "'d driver \<Rightarrow> command \<Rightarrow> 'd \<Rightarrow> (command, 'd) command_run" where
  "command_execute drv (C_Connect c) d = as_command C_Connect (connect_execute drv c d)"
| "command_execute drv (C_ConnectMany c) d =
     as_command C_ConnectMany (connect_many_execute drv c d)"
| "command_execute drv (C_Disconnect c) d = as_command C_Disconnect (disconnect_execute drv c d)"
| "command_execute drv (C_DisconnectMany c) d =
     as_command C_DisconnectMany (disconnect_many_execute drv c d)"
| "command_execute drv (C_DisconnectAll c) d =
     as_command C_DisconnectAll (disconnect_all_execute drv c d)"
| "command_execute drv (C_Reroute c) d = as_command C_Reroute (reroute_execute drv c d)"
| "command_execute drv (C_MoveNodes c) d = as_command C_MoveNodes (move_nodes_execute drv c d)"

fun command_undo :: "'d driver \<Rightarrow> command \<Rightarrow> 'd \<Rightarrow> (command, 'd) command_run" where
  "command_undo drv (C_Connect c) d = as_command C_Connect (connect_undo drv c d)"
| "command_undo drv (C_ConnectMany c) d = as_command C_ConnectMany (connect_many_undo drv c d)"
| "command_undo drv (C_Disconnect c) d = as_command C_Disconnect (disconnect_undo drv c d)"
| "command_undo drv (C_DisconnectMany c) d =
     as_command C_DisconnectMany (disconnect_many_undo drv c d)"
| "command_undo drv (C_DisconnectAll c) d =
     as_command C_DisconnectAll (disconnect_all_undo drv c d)"
| "command_undo drv (C_Reroute c) d = as_command C_Reroute (reroute_undo drv c d)"
| "command_undo drv (C_MoveNodes c) d = as_command C_MoveNodes (move_nodes_undo drv c d)"

subsection \<open>The stack\<close>

record command_stack =
  undo_stack :: "command list"
  redo_stack :: "command list"

definition stack_new :: command_stack where
  "stack_new = \<lparr>undo_stack = [], redo_stack = []\<rparr>"

definition stack_execute ::
  "'d driver \<Rightarrow> command \<Rightarrow> command_stack \<Rightarrow> 'd
    \<Rightarrow> (command_error, unit) result \<times> command_stack \<times> 'd" where
  "stack_execute drv c s d =
     (case command_execute drv c d of
        (Inl e, c, d) \<Rightarrow> (Inl e, s, d)
      | (Inr _, c, d) \<Rightarrow>
          (Inr (), s\<lparr>undo_stack := undo_stack s @ [c], redo_stack := []\<rparr>, d))"

definition stack_undo ::
  "'d driver \<Rightarrow> command_stack \<Rightarrow> 'd \<Rightarrow> (command_error, bool) result \<times> command_stack \<times> 'd" where
  "stack_undo drv s d =
     (if undo_stack s = [] then (Inr False, s, d)
      else
        (let c = last (undo_stack s); rest = butlast (undo_stack s) in
         case command_undo drv c d of
           (Inl e, c, d) \<Rightarrow> (Inl e, s\<lparr>undo_stack := rest @ [c]\<rparr>, d)
         | (Inr _, c, d) \<Rightarrow>
             (Inr True, s\<lparr>undo_stack := rest, redo_stack := redo_stack s @ [c]\<rparr>, d)))"

definition stack_redo ::
  "'d driver \<Rightarrow> command_stack \<Rightarrow> 'd \<Rightarrow> (command_error, bool) result \<times> command_stack \<times> 'd" where
  "stack_redo drv s d =
     (if redo_stack s = [] then (Inr False, s, d)
      else
        (let c = last (redo_stack s); rest = butlast (redo_stack s) in
         case command_execute drv c d of
           (Inl e, c, d) \<Rightarrow> (Inl e, s\<lparr>redo_stack := rest @ [c]\<rparr>, d)
         | (Inr _, c, d) \<Rightarrow>
             (Inr True, s\<lparr>undo_stack := undo_stack s @ [c], redo_stack := rest\<rparr>, d)))"

definition can_undo :: "command_stack \<Rightarrow> bool" where
  "can_undo s = (undo_stack s \<noteq> [])"

definition can_redo :: "command_stack \<Rightarrow> bool" where
  "can_redo s = (redo_stack s \<noteq> [])"

definition last_name :: "command list \<Rightarrow> string option" where
  "last_name cs = (if cs = [] then None else Some (command_name (last cs)))"

definition undo_label :: "command_stack \<Rightarrow> string option" where
  "undo_label s = last_name (undo_stack s)"

definition redo_label :: "command_stack \<Rightarrow> string option" where
  "redo_label s = last_name (redo_stack s)"

definition undo_history :: "command_stack \<Rightarrow> string list" where
  "undo_history s = map command_description (rev (undo_stack s))"

definition redo_history :: "command_stack \<Rightarrow> string list" where
  "redo_history s = map command_description (rev (redo_stack s))"

end
