(* ===== verification/Command_Props.thy ===== *)
theory Command_Props
  imports Command_Stack
begin

text \<open>
  What executing and undoing each command does to the connected pairs, in any stable driver.
  \<open>undoes g c A B\<close> reads off the bookkeeping of a command that undoing it leads from the
  pairs \<open>B\<close> back to \<open>A\<close>; \<open>idle\<close> says it has nothing to undo. Every \<^verbatim>\<open>execute\<close> that returns
  \<^verbatim>\<open>Ok\<close> establishes the first, every \<^verbatim>\<open>undo\<close> that returns \<^verbatim>\<open>Ok\<close> delivers it, and a plain
  error of either means the pairs did not change.
\<close>

type_synonym pairs = "(port_id \<times> port_id) set"

abbreviation key_set :: "graph \<Rightarrow> key_pair \<Rightarrow> pairs" where
  "key_set g k \<equiv> set_option (pair_of g k)"

fun idle :: "command \<Rightarrow> bool" where
  "idle (C_Connect c) = (cc_link c = None)"
| "idle _ = True"

definition reroute_undoes :: "graph \<Rightarrow> reroute_command \<Rightarrow> pairs \<Rightarrow> pairs \<Rightarrow> bool" where
  "reroute_undoes g c A B \<longleftrightarrow>
     (case (rr_old_keys c, rr_new_keys c) of
        (Some old, Some new) \<Rightarrow>
          rr_applied c \<and> pair_of g old \<noteq> None \<and> pair_of g new \<noteq> None \<and> key_set g old \<subseteq> A
          \<and> B = A - key_set g old \<union> key_set g new
          \<and> (if rr_created_new c then key_set g new \<inter> (A - key_set g old) = {}
             else key_set g new \<subseteq> A - key_set g old)
      | _ \<Rightarrow> False)"

fun undoes :: "graph \<Rightarrow> command \<Rightarrow> pairs \<Rightarrow> pairs \<Rightarrow> bool" where
  "undoes g (C_Connect c) A B \<longleftrightarrow>
     (if cc_link c = None then A = B
      else (case cc_keys c of
              None \<Rightarrow> False
            | Some k \<Rightarrow> B = A \<union> key_set g k \<and> key_set g k \<inter> A = {}))"
| "undoes g (C_ConnectMany c) A B \<longleftrightarrow>
     B = A \<union> keys_pairs g (cm_created c) \<and> keys_pairs g (cm_created c) \<inter> A = {}"
| "undoes g (C_Disconnect c) A B \<longleftrightarrow>
     (if \<not> dc_removed c then A = B
      else (case dc_keys c of
              None \<Rightarrow> False
            | Some k \<Rightarrow> B = A - key_set g k \<and> key_set g k \<subseteq> A))"
| "undoes g (C_DisconnectMany c) A B \<longleftrightarrow>
     B = A - keys_pairs g (dm_removed c) \<and> keys_pairs g (dm_removed c) \<subseteq> A"
| "undoes g (C_DisconnectAll c) A B \<longleftrightarrow>
     B = A - keys_pairs g (da_removed c) \<and> keys_pairs g (da_removed c) \<subseteq> A"
| "undoes g (C_Reroute c) A B \<longleftrightarrow> reroute_undoes g c A B"
| "undoes g (C_MoveNodes c) A B \<longleftrightarrow> A = B"

text \<open>A reroute either refuses before it changes anything or swaps the routes of a link it found.\<close>

lemma reroute_execute_cases:
  assumes ref: "drv_refresh drv d = (r, d1)"
  shows "(\<exists>e. reroute_execute drv c d = (Inl e, c, d1))
    \<or> (\<exists>old new l. reroute_execute drv c d = reroute_swap drv c old new d1
        \<and> find_link_by_keys (drv_graph drv d1) (fst old) (snd old) = Some l)"
proof (cases "is_ok r \<and> is_ok (reroute_ends c (drv_graph drv d1))")
  case False
  with ref show ?thesis
    by (auto simp: reroute_execute_def split: sum.splits)
next
  case True
  then obtain ns old new where "r = Inr ns" "reroute_ends c (drv_graph drv d1) = Inr (old, new)"
    by (auto simp: is_ok_iff)
  with ref have run: "reroute_execute drv c d =
      (case find_link_by_keys (drv_graph drv d1) (fst old) (snd old) of
         None \<Rightarrow> (Inl CE_MissingUndoLink, c, d1)
       | Some l \<Rightarrow>
           if \<not> drv_is_link_mutable drv d1 (link_ident l)
           then (Inl (CE_Backend (BE_Unsupported
                   ''this link is observed and cannot be rerouted'')), c, d1)
           else reroute_swap drv c old new d1)"
    by (simp add: reroute_execute_def)
  show ?thesis
  proof (cases "find_link_by_keys (drv_graph drv d1) (fst old) (snd old)")
    case None
    with run show ?thesis by simp
  next
    case (Some l)
    show ?thesis
    proof (cases "drv_is_link_mutable drv d1 (link_ident l)")
      case True
      with run Some have "reroute_execute drv c d = reroute_swap drv c old new d1" by simp
      with Some show ?thesis by blast
    qed (use run Some in simp)
  qed
qed

context stable_driver
begin

definition executed :: "graph \<Rightarrow> pairs \<Rightarrow> (command, 'd) command_run \<Rightarrow> bool" where
  "executed g A run \<longleftrightarrow>
     (case run of
        (Inr _, c, d) \<Rightarrow> (\<exists>B. state_at g B d \<and> undoes g c A B)
      | (Inl e, c, d) \<Rightarrow> failed_at g A e d \<and> idle c)"

definition undone :: "graph \<Rightarrow> pairs \<Rightarrow> pairs \<Rightarrow> command \<Rightarrow> (command, 'd) command_run \<Rightarrow> bool" where
  "undone g A B c run \<longleftrightarrow>
     (case run of
        (Inr _, c', d) \<Rightarrow> state_at g A d \<and> idle c'
      | (Inl e, c', d) \<Rightarrow> failed_at g B e d \<and> c' = c)"

subsection \<open>Connect\<close>

lemma connect_executed:
  assumes "state_at g A d" and "cc_link c = None"
  shows "executed g A (as_command C_Connect (connect_execute drv c d))"
proof -
  obtain r d1 where ref: "drv_refresh drv d = (r, d1)" by fastforce
  note at1 = refresh_at [OF assms(1) ref]
  show ?thesis
  proof (cases "r")
    case (Inl e)
    with ref assms(2) failed_at_plain [OF at1] show ?thesis
      by (simp add: executed_def as_command_def connect_execute_def)
  next
    case (Inr ns)
    show ?thesis
    proof (cases "case cc_keys c of Some k \<Rightarrow> Some k
        | None \<Rightarrow> stable_pair (drv_graph drv d1) (cc_src c) (cc_dst c)")
      case None
      with ref Inr assms(2) at1 show ?thesis
        by (auto simp: executed_def as_command_def connect_execute_def split: option.splits)
    next
      case (Some k)
      obtain cr d2 where con: "connect_by_key_if_missing drv (fst k) (snd k) d1 = (cr, d2)"
        by fastforce
      have run: "connect_execute drv c d =
          (case cr of Inl e \<Rightarrow> (Inl (CE_Backend e), c\<lparr>cc_keys := Some k\<rparr>, d2)
           | Inr l \<Rightarrow> (Inr (), c\<lparr>cc_keys := Some k, cc_link := l\<rparr>, d2))"
        using ref Inr Some con
        by (auto simp: connect_execute_def Let_def split: sum.split prod.split)
      from connect_at [OF at1 con] show ?thesis
        using assms(2) failed_at_plain [of g A d2]
        by (cases "pair_of g k")
          (auto simp: executed_def as_command_def run split: sum.splits
            intro!: exI [of _ A] exI [of _ "A \<union> key_set g k"])
    qed
  qed
qed

lemma connect_undone:
  assumes "state_at g B d" and "undoes g (C_Connect c) A B"
  shows "undone g A B (C_Connect c) (as_command C_Connect (connect_undo drv c d))"
proof (cases "cc_link c")
  case None
  with assms show ?thesis by (simp add: undone_def as_command_def connect_undo_def)
next
  case (Some l)
  with assms(2) obtain k where k: "cc_keys c = Some k" and B: "B = A \<union> key_set g k"
    and new: "key_set g k \<inter> A = {}" by (auto split: option.splits)
  obtain dr d1 where dis: "disconnect_by_key_if_present drv (fst k) (snd k) d = (dr, d1)"
    by fastforce
  have "A \<union> key_set g k - key_set g k = A" using new by blast
  with disconnect_at [OF assms(1) dis] show ?thesis
    using Some k dis B failed_at_plain [of g B d1]
    by (auto simp: undone_def as_command_def connect_undo_def split: sum.splits prod.splits
        intro: allow_at)
qed

subsection \<open>Connect many\<close>

text \<open>On success all the pairs are connected, and exactly the new ones count as created.\<close>

lemma connect_many_loop_at:
  assumes "state_at g (A \<union> keys_pairs g created) d" and "keys_pairs g created \<inter> A = {}"
    and "connect_many_loop drv ks links created d = (r, links', created', d')"
  shows "case r of
      Inr _ \<Rightarrow> state_at g (A \<union> keys_pairs g created') d' \<and> keys_pairs g created' \<inter> A = {}
        \<and> keys_pairs g created' \<union> A = keys_pairs g created \<union> keys_pairs g ks \<union> A
        \<and> (\<forall>k \<in> set ks. pair_of g k \<noteq> None)
    | Inl e \<Rightarrow> failed_at g A e d' \<and> created' = []"
  using assms
proof (induction ks arbitrary: links created d)
  case Nil
  then show ?case by auto
next
  case (Cons k ks)
  obtain cr d1 where step: "connect_by_key_if_missing drv (fst k) (snd k) d = (cr, d1)"
    by fastforce
  note at = connect_at [OF Cons.prems(1) step]
  consider (err) e where "cr = Inl e" | (none) "cr = Inr None" | (some) l where "cr = Inr (Some l)"
    by (cases cr; cases "projr cr") auto
  then show ?case
  proof cases
    case err
    obtain n d2 where roll: "rollback_connects drv created d1 = (n, d2)" by fastforce
    have "A \<union> keys_pairs g created - keys_pairs g created = A" using Cons.prems(2) by blast
    with rollback_connects_at [OF _ roll] at err Cons.prems(3) step roll show ?thesis
      by (fastforce simp: failed_at_def rolled_back_def)
  next
    case none
    with at have at1: "state_at g (A \<union> keys_pairs g created) d1"
      and sub: "key_set g k \<subseteq> A \<union> keys_pairs g created" and res: "pair_of g k \<noteq> None"
      by (auto simp: Un_absorb2 insert_absorb)
    from Cons.prems(3) step none
    have "connect_many_loop drv ks links created d1 = (r, links', created', d')" by simp
    from Cons.IH [OF at1 Cons.prems(2) this] sub res show ?thesis
      by (auto split: sum.splits)
  next
    case some
    with at have at1: "state_at g (A \<union> keys_pairs g (created @ [k])) d1"
      and new: "\<not> key_set g k \<subseteq> A \<union> keys_pairs g created" and res: "pair_of g k \<noteq> None"
      by (simp_all add: Un_assoc)
    from new have dis: "keys_pairs g (created @ [k]) \<inter> A = {}"
      using Cons.prems(2) by (cases "pair_of g k") auto
    from Cons.prems(3) step some
    have "connect_many_loop drv ks (links @ [l]) (created @ [k]) d1 = (r, links', created', d')"
      by simp
    from Cons.IH [OF at1 dis this] res show ?thesis
      by (auto split: sum.splits)
  qed
qed

lemma connect_many_execute_at:
  assumes "state_at g A d" and "connect_many_execute drv c d = (r, c', d')"
  shows "case r of
      Inr _ \<Rightarrow> state_at g (A \<union> keys_pairs g (cm_keys c')) d'
        \<and> keys_pairs g (cm_created c') \<inter> A = {}
        \<and> keys_pairs g (cm_created c') \<union> A = keys_pairs g (cm_keys c') \<union> A
        \<and> (cm_keys c \<noteq> [] \<longrightarrow> cm_keys c' = cm_keys c)
    | Inl e \<Rightarrow> failed_at g A e d'"
proof -
  obtain rr d1 where ref: "drv_refresh drv d = (rr, d1)" by fastforce
  note at1 = refresh_at [OF assms(1) ref]
  define keys where "keys = (if cm_keys c = []
      then dedup_pairs (filter_map (\<lambda>(p, q). stable_pair (drv_graph drv d1) p q) (cm_pairs c))
      else cm_keys c)"
  obtain r2 links created d2 where
    loop: "connect_many_loop drv keys [] [] d1 = (r2, links, created, d2)"
    by (metis prod_cases4)
  show ?thesis
  proof (cases rr)
    case (Inl e)
    with assms(2) ref at1 failed_at_plain [of g A d1] show ?thesis
      by (auto simp: connect_many_execute_def)
  next
    case (Inr ns)
    with assms(2) ref loop have r: "r = r2" "d' = d2"
      and c': "cm_keys c' = keys" "cm_created c' = created"
      by (auto simp: connect_many_execute_def keys_def Let_def)
    from connect_many_loop_at [of g A "[]" d1 keys "[]" r2 links created d2] at1 loop
    show ?thesis
      by (auto simp: r c' Un_commute split: sum.splits) (simp_all add: keys_def)
  qed
qed

lemma connect_many_executed:
  assumes "state_at g A d"
  shows "executed g A (as_command C_ConnectMany (connect_many_execute drv c d))"
proof -
  obtain r c' d' where run: "connect_many_execute drv c d = (r, c', d')" by (metis prod_cases3)
  note at = connect_many_execute_at [OF assms run]
  show ?thesis
  proof (cases r)
    case (Inl e)
    with at run show ?thesis by (simp add: executed_def as_command_def)
  next
    case (Inr u)
    with at have "state_at g (A \<union> keys_pairs g (cm_created c')) d'"
      by (simp add: Un_commute)
    with at Inr run show ?thesis by (auto simp: executed_def as_command_def)
  qed
qed

lemma reconnect_undone_at:
  assumes "state_at g A d" and "reconnect_undone drv ks errs d = (errs', d')"
  shows "\<exists>B. state_at g B d' \<and> length errs \<le> length errs'
    \<and> (length errs' = length errs \<longrightarrow> B = A \<union> keys_pairs g ks)"
  using assms
proof (induction ks arbitrary: errs A d)
  case Nil
  then show ?case by auto
next
  case (Cons k ks)
  obtain r d1 where step: "connect_by_key_if_missing drv (fst k) (snd k) d = (r, d1)"
    by fastforce
  note at = connect_at [OF Cons.prems(1) step]
  show ?case
  proof (cases r)
    case (Inl e)
    with Cons.IH [of A d1 "errs @ [show_backend_error e]"] Cons.prems(2) step at show ?thesis
      by fastforce
  next
    case (Inr x)
    with Cons.prems(2) step have "reconnect_undone drv ks errs d1 = (errs', d')" by simp
    from Cons.IH [OF _ this] at Inr show ?thesis by (fastforce simp: Un_assoc)
  qed
qed

lemma connect_many_undo_loop_at:
  assumes "state_at g (B - keys_pairs g done) d" and "keys_pairs g done \<subseteq> B"
    and "connect_many_undo_loop drv ks done d = (r, d')"
  shows "case r of
      Inr _ \<Rightarrow> state_at g (B - keys_pairs g done - keys_pairs g ks) d'
    | Inl e \<Rightarrow> failed_at g B e d'"
  using assms
proof (induction ks arbitrary: "done" d)
  case Nil
  then show ?case by auto
next
  case (Cons k ks)
  obtain dr d1 where
    step: "disconnect_by_key_if_present_without_suppression drv (fst k) (snd k) d = (dr, d1)"
    by fastforce
  note at = disconnect_quiet_at [OF Cons.prems(1) step]
  consider (err) e where "dr = Inl e" | (none) "dr = Inr None" | (some) l where "dr = Inr (Some l)"
    by (cases dr; cases "projr dr") auto
  then show ?case
  proof cases
    case err
    obtain errs d2 where re: "reconnect_undone drv (rev done) [] d1 = (errs, d2)" by fastforce
    have "B - keys_pairs g done \<union> keys_pairs g done = B" using Cons.prems(2) by blast
    with reconnect_undone_at [OF _ re] at err Cons.prems(3) step re show ?thesis
      by (fastforce simp: failed_at_def split: if_splits)
  next
    case none
    with at have "key_set g k \<inter> (B - keys_pairs g done) = {}" by simp
    then have same: "B - keys_pairs g done - key_set g k = B - keys_pairs g done" by blast
    with none at have at1: "state_at g (B - keys_pairs g done) d1" by simp
    from Cons.prems(3) step none have "connect_many_undo_loop drv ks done d1 = (r, d')" by simp
    from Cons.IH [OF at1 Cons.prems(2) this] show ?thesis
      by (simp add: diff_diff_union [symmetric] same split: sum.splits)
  next
    case some
    with at Cons.prems(2) have sub: "keys_pairs g (done @ [k]) \<subseteq> B"
      by (cases "pair_of g k") auto
    from some at have "state_at g (B - keys_pairs g (done @ [k])) d1"
      by (simp add: diff_diff_union)
    then have at2: "state_at g (B - keys_pairs g (done @ [k]))
        (drv_allow_connection drv (fst k) (snd k) d1)"
      by (rule allow_at)
    from Cons.prems(3) step some
    have "connect_many_undo_loop drv ks (done @ [k])
        (drv_allow_connection drv (fst k) (snd k) d1) = (r, d')" by simp
    from Cons.IH [OF at2 sub this] show ?thesis
      by (simp add: diff_diff_union Un_assoc split: sum.splits)
  qed
qed

lemma connect_many_undone:
  assumes "state_at g B d" and "undoes g (C_ConnectMany c) A B"
  shows "undone g A B (C_ConnectMany c) (as_command C_ConnectMany (connect_many_undo drv c d))"
proof -
  obtain r d' where run: "connect_many_undo_loop drv (rev (cm_created c)) [] d = (r, d')"
    by fastforce
  have "B - keys_pairs g (cm_created c) = A" using assms(2) by auto
  with connect_many_undo_loop_at [of g B "[]" d "rev (cm_created c)" r d'] assms(1) run
  show ?thesis
    by (auto simp: undone_def as_command_def connect_many_undo_def split: sum.splits)
qed

subsection \<open>Disconnect, one, many, all\<close>

lemma disconnect_executed:
  assumes "state_at g A d"
  shows "executed g A (as_command C_Disconnect (disconnect_execute drv c d))"
proof -
  obtain r d1 where ref: "drv_refresh drv d = (r, d1)" by fastforce
  note at1 = refresh_at [OF assms ref]
  define c2 where "c2 = disconnect_capture (drv_graph drv d1) (c\<lparr>dc_removed := False\<rparr>)"
  then have c2: "\<not> dc_removed c2" by (simp add: disconnect_capture_def)
  show ?thesis
  proof (cases r)
    case (Inl e)
    with ref failed_at_plain [OF at1] show ?thesis
      by (simp add: executed_def as_command_def disconnect_execute_def)
  next
    case (Inr ns)
    show ?thesis
    proof (cases "dc_keys c2 = None \<or> link_protected drv d1 (the (dc_keys c2))")
      case True
      then have "disconnect_execute drv c d = (Inr (), c2, d1)"
        using ref Inr
        by (auto simp: disconnect_execute_def c2_def [symmetric] Let_def split: option.split)
      with at1 c2 show ?thesis by (auto simp: executed_def as_command_def)
    next
      case False
      then obtain k where k: "dc_keys c2 = Some k" and free: "\<not> link_protected drv d1 k" by auto
      obtain dr d2 where dis: "disconnect_by_key_if_present drv (fst k) (snd k) d1 = (dr, d2)"
        by fastforce
      have run: "disconnect_execute drv c d =
          (case dr of Inl e \<Rightarrow> (Inl (CE_Backend e), c2, d2)
           | Inr None \<Rightarrow> (Inr (), c2, d2)
           | Inr (Some l) \<Rightarrow>
               (Inr (), c2\<lparr>dc_link_id := link_ident l, dc_link := Some l, dc_removed := True\<rparr>, d2))"
        using ref Inr k free dis
        by (simp add: disconnect_execute_def c2_def [symmetric] Let_def
            split: sum.split option.split)
      note at2 = disconnect_at [OF at1 dis]
      have "key_set g k \<inter> A \<noteq> {} \<Longrightarrow> key_set g k \<subseteq> A" by (cases "pair_of g k") auto
      with at2 c2 k show ?thesis
        using failed_at_plain [of g A d2]
        by (auto simp: executed_def as_command_def run Diff_triv Int_commute
            split: sum.splits option.splits)
    qed
  qed
qed

lemma disconnect_undone:
  assumes "state_at g B d" and "undoes g (C_Disconnect c) A B"
  shows "undone g A B (C_Disconnect c) (as_command C_Disconnect (disconnect_undo drv c d))"
proof (cases "dc_removed c")
  case False
  with assms show ?thesis by (simp add: undone_def as_command_def disconnect_undo_def)
next
  case True
  with assms(2) obtain k where k: "dc_keys c = Some k" and B: "B = A - key_set g k"
    and sub: "key_set g k \<subseteq> A" by (auto split: option.splits)
  obtain cr d1 where con: "connect_by_key_if_missing drv (fst k) (snd k) d = (cr, d1)"
    by fastforce
  from B sub have "B \<union> key_set g k = A" by blast
  with connect_at [OF assms(1) con] show ?thesis
    using True k con failed_at_plain [of g B d1]
    by (auto simp: undone_def as_command_def disconnect_undo_def Let_def
        split: sum.splits prod.splits)
qed

lemma disconnect_many_executed:
  assumes "state_at g A d"
  shows "executed g A (as_command C_DisconnectMany (disconnect_many_execute drv c d))"
proof -
  obtain r d1 where ref: "drv_refresh drv d = (r, d1)" by fastforce
  note at1 = refresh_at [OF assms ref]
  obtain r2 removed d2 where
    dis: "disconnect_keys drv ''Disconnect group''
      (if dm_keys c = [] then filter_map (link_pair_keys (drv_graph drv d1)) (dm_link_ids c)
       else dm_keys c) d1 = (r2, removed, d2)"
    by (metis prod_cases3)
  from disconnect_keys_at [OF at1 dis] ref dis failed_at_plain [OF at1] show ?thesis
    by (cases r; cases r2)
       (auto simp: executed_def as_command_def disconnect_many_execute_def Let_def)
qed

lemma disconnect_many_undone:
  assumes "state_at g B d" and "undoes g (C_DisconnectMany c) A B"
  shows "undone g A B (C_DisconnectMany c)
    (as_command C_DisconnectMany (disconnect_many_undo drv c d))"
proof -
  obtain r d1 where res: "restore_keys drv ''Disconnect group'' (dm_removed c) d = (r, d1)"
    by fastforce
  from assms(2) have "B \<union> keys_pairs g (dm_removed c) = A" by auto
  with restore_keys_at [OF assms(1) res] res show ?thesis
    by (cases r) (auto simp: undone_def as_command_def disconnect_many_undo_def)
qed

lemma disconnect_all_executed:
  assumes "state_at g A d"
  shows "executed g A (as_command C_DisconnectAll (disconnect_all_execute drv c d))"
proof -
  obtain r d1 where ref: "drv_refresh drv d = (r, d1)" by fastforce
  note at1 = refresh_at [OF assms ref]
  obtain r2 removed d2 where
    dis: "disconnect_keys drv ''Disconnect all'' (mutable_link_keys drv d1) d1 = (r2, removed, d2)"
    by (metis prod_cases3)
  from disconnect_keys_at [OF at1 dis] ref dis failed_at_plain [OF at1] show ?thesis
    by (cases r; cases r2)
       (auto simp: executed_def as_command_def disconnect_all_execute_def Let_def)
qed

lemma disconnect_all_undone:
  assumes "state_at g B d" and "undoes g (C_DisconnectAll c) A B"
  shows "undone g A B (C_DisconnectAll c)
    (as_command C_DisconnectAll (disconnect_all_undo drv c d))"
proof -
  obtain r d1 where res: "restore_keys drv ''Disconnect all'' (da_removed c) d = (r, d1)"
    by fastforce
  from assms(2) have "B \<union> keys_pairs g (da_removed c) = A" by auto
  with restore_keys_at [OF assms(1) res] res show ?thesis
    by (cases r) (auto simp: undone_def as_command_def disconnect_all_undo_def)
qed

subsection \<open>Reroute\<close>

lemma reroute_swap_executed:
  assumes "state_at g A d" and "key_set g old \<inter> A \<noteq> {}"
  shows "executed g A (as_command C_Reroute (reroute_swap drv c old new d))"
proof -
  have old: "pair_of g old \<noteq> None" "key_set g old \<subseteq> A"
    using assms(2) by (cases "pair_of g old"; auto)+
  obtain dr d1 where
    dis: "disconnect_by_key_if_present_without_suppression drv (fst old) (snd old) d = (dr, d1)"
    by fastforce
  note at1 = disconnect_quiet_at [OF assms(1) dis]
  show ?thesis
  proof (cases dr)
    case (Inl e)
    with at1 dis failed_at_plain [of g A d1] show ?thesis
      by (simp add: executed_def as_command_def reroute_swap_def)
  next
    case (Inr removed)
    with at1 assms(2) obtain l where removed: "removed = Some l" by auto
    define d2 where "d2 = drv_suppress_connection drv (fst old) (snd old) d1"
    have at2: "state_at g (A - key_set g old) d2"
      using at1 Inr unfolding d2_def by (auto intro: suppress_at)
    obtain cr d3 where con: "connect_by_key_if_missing drv (fst new) (snd new) d2 = (cr, d3)"
      by fastforce
    note at3 = connect_at [OF at2 con]
    show ?thesis
    proof (cases cr)
      case (Inr created)
      have "reroute_swap drv c old new d =
          (Inr (), c\<lparr>rr_created_new := (created \<noteq> None), rr_old_keys := Some old,
             rr_new_keys := Some new, rr_applied := True\<rparr>, d3)"
        using dis \<open>dr = Inr removed\<close> removed con Inr d2_def by (simp add: reroute_swap_def)
      moreover have "key_set g new \<inter> (A - key_set g old) = {}" if "created \<noteq> None"
        using that at3 Inr by (cases "pair_of g new") auto
      ultimately show ?thesis
        using at3 Inr old by (auto simp: executed_def as_command_def reroute_undoes_def)
    next
      case (Inl e)
      obtain rr d4 where rest: "connect_by_key_if_missing drv (fst old) (snd old) d3 = (rr, d4)"
        by fastforce
      have "state_at g (A - key_set g old) d3" using at3 Inl by simp
      from connect_at [OF this rest] old have "case rr of Inl _ \<Rightarrow> state_at g (A - key_set g old) d4
          | Inr _ \<Rightarrow> state_at g A d4"
        by (auto simp: Un_absorb2 insert_absorb split: sum.splits)
      moreover have "reroute_swap drv c old new d =
          (case rr of
             Inl restore \<Rightarrow> (Inl (CE_PartiallyApplied ''Reroute''
                (show_backend_error e @ ''; restoring the previous route failed: ''
                   @ show_backend_error restore) 1), c, d4)
           | Inr _ \<Rightarrow> (Inl (CE_Backend e), c, d4))"
        using dis \<open>dr = Inr removed\<close> removed con Inl rest d2_def by (simp add: reroute_swap_def)
      ultimately show ?thesis
        by (auto simp: executed_def as_command_def failed_at_def split: sum.splits)
    qed
  qed
qed

lemma reroute_executed:
  assumes "state_at g A d"
  shows "executed g A (as_command C_Reroute (reroute_execute drv c d))"
proof -
  obtain r d1 where ref: "drv_refresh drv d = (r, d1)" by fastforce
  note at1 = refresh_at [OF assms ref]
  from reroute_execute_cases [OF ref, of c] show ?thesis
  proof (elim disjE exE conjE)
    fix e
    assume "reroute_execute drv c d = (Inl e, c, d1)"
    with failed_at_plain [OF at1] show ?thesis by (simp add: executed_def as_command_def)
  next
    fix old new l
    assume run: "reroute_execute drv c d = reroute_swap drv c old new d1"
      and link: "find_link_by_keys (drv_graph drv d1) (fst old) (snd old) = Some l"
    from find_link_pair_Some [OF link] state_atD [OF at1] have "key_set g old \<inter> A \<noteq> {}"
      by (cases old) auto
    from reroute_swap_executed [OF at1 this] run show ?thesis by simp
  qed
qed

lemma reroute_remove_new_at:
  assumes "state_at g B d" and "reroute_remove_new drv c new d = (r, d')"
  shows "case r of
      Inl e \<Rightarrow> state_at g B d'
    | Inr x \<Rightarrow> state_at g (if rr_created_new c then B - key_set g new else B) d'
        \<and> (x \<longleftrightarrow> rr_created_new c \<and> key_set g new \<inter> B \<noteq> {})"
proof (cases "rr_created_new c")
  case False
  with assms show ?thesis by (auto simp: reroute_remove_new_def)
next
  case True
  obtain dr d1 where
    dis: "disconnect_by_key_if_present_without_suppression drv (fst new) (snd new) d = (dr, d1)"
    by fastforce
  from disconnect_quiet_at [OF assms(1) dis] True dis assms(2) show ?thesis
    by (auto simp: reroute_remove_new_def intro: allow_at split: sum.splits option.splits)
qed

lemma reroute_undone:
  assumes "state_at g B d" and "undoes g (C_Reroute c) A B"
  shows "undone g A B (C_Reroute c) (as_command C_Reroute (reroute_undo drv c d))"
proof -
  from assms(2) obtain old new where keys: "rr_old_keys c = Some old" "rr_new_keys c = Some new"
    and app: "rr_applied c" and sub: "key_set g old \<subseteq> A"
    and B: "B = A - key_set g old \<union> key_set g new"
    and new: "if rr_created_new c then key_set g new \<inter> (A - key_set g old) = {}
      else key_set g new \<subseteq> A - key_set g old"
    by (auto simp: reroute_undoes_def split: option.splits)
  define B1 where "B1 = (if rr_created_new c then B - key_set g new else B)"
  have restored: "B1 \<union> key_set g old = A" using sub B new by (auto simp: B1_def split: if_splits)
  obtain r d1 where away: "reroute_remove_new drv c new d = (r, d1)" by fastforce
  note at1 = reroute_remove_new_at [OF assms(1) away, folded B1_def]
  obtain cr d2 where con: "connect_by_key_if_missing drv (fst old) (snd old) d1 = (cr, d2)"
    by fastforce
  obtain nr d3 where again: "connect_by_key_if_missing drv (fst new) (snd new) d2 = (nr, d3)"
    by fastforce
  consider (e1) e where "r = Inl e" | (ok) x y where "r = Inr x" "cr = Inr y"
    | (e2) x e where "r = Inr x" "cr = Inl e"
    by (cases r; cases cr) auto
  then show ?thesis
  proof cases
    case e1
    with keys app away at1 failed_at_plain [of g B d1] show ?thesis
      by (simp add: undone_def as_command_def reroute_undo_def)
  next
    case ok
    with at1 have "state_at g B1 d1" by simp
    from connect_at [OF this con] ok restored keys app away con show ?thesis
      by (auto simp: undone_def as_command_def reroute_undo_def)
  next
    case e2
    with at1 have "state_at g B1 d1" by simp
    from connect_at [OF this con] e2 have at2: "state_at g B1 d2" by simp
    from connect_at [OF at2 again] have "case nr of Inl _ \<Rightarrow> state_at g B1 d3
        | Inr _ \<Rightarrow> state_at g (B1 \<union> key_set g new) d3" by (auto split: sum.splits)
    moreover have "x \<Longrightarrow> B1 \<union> key_set g new = B" using B by (auto simp: B1_def)
    ultimately show ?thesis
      using e2 keys app away con again at2
      by (cases x) (auto simp: undone_def as_command_def reroute_undo_def failed_at_def
          split: sum.splits)
  qed
qed

subsection \<open>Every command\<close>

lemma move_nodes_at:
  assumes "state_at g A d"
  shows "executed g A (as_command C_MoveNodes (move_nodes_execute drv c d))"
    "undone g A A (C_MoveNodes c) (as_command C_MoveNodes (move_nodes_undo drv c d))"
proof -
  obtain r d1 r2 d2 where ap: "apply_positions drv (mv_after c) (mv_before c) d = (r, d1)"
      "apply_positions drv (mv_before c) (mv_after c) d = (r2, d2)" by fastforce
  have "state_at g A d1" "state_at g A d2"
    using ap apply_positions_at [OF assms] unfolding apply_positions_def by blast+
  with ap show "executed g A (as_command C_MoveNodes (move_nodes_execute drv c d))"
    "undone g A A (C_MoveNodes c) (as_command C_MoveNodes (move_nodes_undo drv c d))"
    by (auto simp: executed_def undone_def as_command_def move_nodes_execute_def
        move_nodes_undo_def failed_at_plain split: sum.split)
qed

theorem command_executed:
  "state_at g A d \<Longrightarrow> idle c \<Longrightarrow> executed g A (command_execute drv c d)"
  by (cases c)
     (simp_all add: connect_executed connect_many_executed disconnect_executed
       disconnect_many_executed disconnect_all_executed reroute_executed move_nodes_at)

theorem command_undone:
  "state_at g B d \<Longrightarrow> undoes g c A B \<Longrightarrow> undone g A B c (command_undo drv c d)"
  by (cases c)
     (simp_all only: command_undo.simps connect_undone connect_many_undone disconnect_undone
       disconnect_many_undone disconnect_all_undone reroute_undone move_nodes_at undoes.simps(7))

end

end
