(* ===== verification/Stack_Props.thy ===== *)
theory Stack_Props
  imports Command_Props
begin

text \<open>
  Histories of the undo/redo stack. \<open>stack_run\<close> is the step relation of a session that
  executes new commands, undoes and redoes, in any order, with failures that were rolled
  back; the invariant is that the undo stack unwinds the current pairs to those of the start.
  The properties are the contract lemmas of the previous theories applied to the demo
  backend.
\<close>

subsection \<open>Sessions\<close>

definition plain_result :: "(command_error, 'a) result \<Rightarrow> bool" where
  "plain_result r = (case r of Inl e \<Rightarrow> \<not> is_partial e | Inr _ \<Rightarrow> True)"

inductive stack_run :: "'d driver \<Rightarrow> 'd \<Rightarrow> command_stack \<Rightarrow> 'd \<Rightarrow> bool" for drv and start where
  run_start: "stack_run drv start stack_new start"
| run_execute: "stack_run drv start s d \<Longrightarrow> idle c \<Longrightarrow>
    stack_execute drv c s d = (r, s', d') \<Longrightarrow> plain_result r \<Longrightarrow> stack_run drv start s' d'"
| run_undo: "stack_run drv start s d \<Longrightarrow>
    stack_undo drv s d = (r, s', d') \<Longrightarrow> plain_result r \<Longrightarrow> stack_run drv start s' d'"
| run_redo: "stack_run drv start s d \<Longrightarrow>
    stack_redo drv s d = (r, s', d') \<Longrightarrow> plain_result r \<Longrightarrow> stack_run drv start s' d'"

fun unwinds :: "graph \<Rightarrow> pairs \<Rightarrow> command list \<Rightarrow> pairs \<Rightarrow> bool" where
  "unwinds g A [] B \<longleftrightarrow> A = B"
| "unwinds g A (c # cs) B \<longleftrightarrow> (\<exists>M. undoes g c A M \<and> unwinds g M cs B)"

lemma unwinds_snoc: "unwinds g A (cs @ [c]) B \<longleftrightarrow> (\<exists>M. unwinds g A cs M \<and> undoes g c M B)"
  by (induction cs arbitrary: A) auto

context stable_driver
begin

definition stack_inv :: "graph \<Rightarrow> pairs \<Rightarrow> command_stack \<Rightarrow> 'd \<Rightarrow> bool" where
  "stack_inv g A s d \<longleftrightarrow>
     (\<exists>B. state_at g B d \<and> unwinds g A (undo_stack s) B) \<and> (\<forall>c \<in> set (redo_stack s). idle c)"

lemma stack_inv_execute:
  assumes "stack_inv g A s d" and "idle c"
    and run: "stack_execute drv c s d = (r, s', d')" and "plain_result r"
  shows "stack_inv g A s' d'"
proof -
  from assms(1) obtain B where at: "state_at g B d" and un: "unwinds g A (undo_stack s) B"
    by (auto simp: stack_inv_def)
  obtain r1 c1 d1 where ex: "command_execute drv c d = (r1, c1, d1)" by (metis prod_cases3)
  from command_executed [OF at assms(2)] ex run assms(1,4) un show ?thesis
    by (cases r1) (auto simp: executed_def failed_at_def stack_execute_def stack_inv_def
        plain_result_def unwinds_snoc, blast+)
qed

lemma stack_inv_undo:
  assumes "stack_inv g A s d"
    and run: "stack_undo drv s d = (r, s', d')" and "plain_result r"
  shows "stack_inv g A s' d'"
proof (cases "undo_stack s = []")
  case True
  with assms show ?thesis by (simp add: stack_undo_def)
next
  case False
  then obtain cs c where s: "undo_stack s = cs @ [c]" by (metis append_butlast_last_id)
  from assms(1) s obtain B M where at: "state_at g B d" and un: "unwinds g A cs M"
    and top: "undoes g c M B" by (auto simp: stack_inv_def unwinds_snoc)
  obtain r1 c1 d1 where undo: "command_undo drv c d = (r1, c1, d1)" by (metis prod_cases3)
  from command_undone [OF at top] undo run assms(1,3) s un top show ?thesis
    by (cases r1) (auto simp: undone_def failed_at_def stack_undo_def stack_inv_def
        plain_result_def unwinds_snoc, blast+)
qed

lemma stack_inv_redo:
  assumes "stack_inv g A s d"
    and run: "stack_redo drv s d = (r, s', d')" and "plain_result r"
  shows "stack_inv g A s' d'"
proof (cases "redo_stack s = []")
  case True
  with assms show ?thesis by (simp add: stack_redo_def)
next
  case False
  then obtain cs c where s: "redo_stack s = cs @ [c]" by (metis append_butlast_last_id)
  from assms(1) obtain B where at: "state_at g B d" and un: "unwinds g A (undo_stack s) B"
    by (auto simp: stack_inv_def)
  from assms(1) s have c: "idle c" by (simp add: stack_inv_def)
  obtain r1 c1 d1 where ex: "command_execute drv c d = (r1, c1, d1)" by (metis prod_cases3)
  from command_executed [OF at c] ex run assms(1,3) s un show ?thesis
    by (cases r1) (auto simp: executed_def failed_at_def stack_redo_def stack_inv_def
        plain_result_def unwinds_snoc, blast+)
qed

theorem stack_run_inv:
  assumes "stack_run drv start s d" and "ok start"
  shows "stack_inv (drv_graph drv start) (link_pairs (drv_graph drv start)) s d"
  using assms(1)
proof (induction rule: stack_run.induct)
  case run_start
  with state_at_here [OF assms(2)] show ?case by (simp add: stack_inv_def stack_new_def)
qed (blast intro: stack_inv_execute stack_inv_undo stack_inv_redo)+

corollary stack_run_unwound:
  assumes "stack_run drv start s d" and "ok start" and "\<not> can_undo s"
  shows "ok d \<and> graph_after (drv_graph drv start) (link_pairs (drv_graph drv start)) (drv_graph drv d)"
  using stack_run_inv [OF assms(1,2)] assms(3)
  by (auto simp: stack_inv_def can_undo_def state_at_def)

lemma command_error_pairs:
  assumes "ok d" and "idle c" and "command_execute drv c d = (Inl e, c', d')" and "\<not> is_partial e"
  shows "ok d' \<and> graph_after (drv_graph drv d) (link_pairs (drv_graph drv d)) (drv_graph drv d')"
  using command_executed [OF state_at_here [OF assms(1)] assms(2)] assms(3,4)
  by (auto simp: executed_def failed_at_def state_at_def)

lemma undo_error_pairs:
  assumes "state_at g B d" and "undoes g c A B" and "command_undo drv c d = (Inl e, c', d')"
    and "\<not> is_partial e"
  shows "c' = c \<and> state_at g B d'"
  using command_undone [OF assms(1,2)] assms(3,4)
  by (auto simp: undone_def failed_at_def)

end

subsection \<open>The demo backend\<close>









subsection \<open>Group commands\<close>

text \<open>
  Connecting a group either connects every one of its key pairs, creating exactly the
  ones that were missing, or fails; a plain failure leaves all connections as they were.
\<close>

lemma connect_group_all_or_nothing:
  assumes "demo_ok d" and "connect_many_execute demo_driver c d = (r, c', d')"
  shows "case r of
      Inr _ \<Rightarrow>
        link_pairs (demo_graph d')
          = link_pairs (demo_graph d) \<union> keys_pairs (demo_graph d) (cm_keys c')
        \<and> keys_pairs (demo_graph d) (cm_created c')
          = keys_pairs (demo_graph d) (cm_keys c') - link_pairs (demo_graph d)
    | Inl e \<Rightarrow> is_partial e \<or> link_pairs (demo_graph d') = link_pairs (demo_graph d)"
proof (cases r)
  case (Inl e)
  with demo.connect_many_execute_at [OF demo.state_at_here [OF assms(1)], of c r c' d'] assms(2)
  show ?thesis by (auto simp: demo.failed_at_def demo.state_at_def graph_after_def)
next
  case (Inr u)
  with demo.connect_many_execute_at [OF demo.state_at_here [OF assms(1)], of c r c' d'] assms(2)
  show ?thesis by (auto simp: demo.state_at_def graph_after_def)
qed

text \<open>A captured link is removed only through keys that resolve to its own ends.\<close>

lemma link_keys_pairs:
  assumes "graph_wf g" and "ls \<subseteq> set (bt_values (g_links g))"
    and "\<forall>k \<in> set ks. \<exists>l \<in> ls. stable_pair g (output_port l) (input_port l) = Some k"
  shows "keys_pairs g ks \<subseteq> (\<lambda>l. (output_port l, input_port l)) ` ls"
proof
  fix pq assume "pq \<in> keys_pairs g ks"
  then obtain k where k: "k \<in> set ks" "pair_of g k = Some pq" by (auto simp: keys_pairs_def)
  with assms(3) obtain l where "l \<in> ls" "stable_pair g (output_port l) (input_port l) = Some k"
    by blast
  from stable_pair_resolution [OF assms(1) this(2)] k(2) have "pq = (output_port l, input_port l)"
    by simp
  with \<open>l \<in> ls\<close> show "pq \<in> (\<lambda>l. (output_port l, input_port l)) ` ls" by blast
qed

text \<open>
  Disconnecting everything never takes down an observed link: when the command
  succeeds, every link the driver reports as immutable is still connected.
\<close>

lemma disconnect_all_keeps_observed:
  assumes "demo_ok d" and "disconnect_all_execute demo_driver c d = (Inr u, c', d')"
    and "l \<in> set (bt_values (g_links (demo_graph d)))"
    and "\<not> demo_is_link_mutable d (link_ident l)"
  shows "(output_port l, input_port l) \<in> link_pairs (demo_graph d')"
proof -
  let ?g = "demo_graph d"
  let ?ls = "{m \<in> set (bt_values (g_links ?g)). demo_is_link_mutable d (link_ident m)}"
  from assms(2) obtain links where
    dis: "disconnect_keys demo_driver ''Disconnect all'' (mutable_link_keys demo_driver d) d
      = (Inr links, da_removed c', d')"
    by (auto simp: disconnect_all_execute_def demo_refresh_def Let_def split: prod.splits sum.splits)
  from demo.disconnect_keys_at [OF demo.state_at_here [OF assms(1)] dis]
  have pairs: "link_pairs (demo_graph d') = link_pairs ?g - keys_pairs ?g (da_removed c')"
    and sub: "set (da_removed c') \<subseteq> set (mutable_link_keys demo_driver d)"
    by (simp_all add: demo.state_at_def graph_after_def)
  have wf: "graph_wf ?g" and uniq: "pairs_unique ?g" using assms(1) by (simp_all add: demo_ok_def)
  have "\<forall>k \<in> set (da_removed c'). \<exists>m \<in> ?ls. stable_pair ?g (output_port m) (input_port m) = Some k"
    using sub by (fastforce simp: mutable_link_keys_def set_filter_map)
  from link_keys_pairs [OF wf _ this] have "keys_pairs ?g (da_removed c')
      \<subseteq> (\<lambda>m. (output_port m, input_port m)) ` ?ls" by blast
  moreover have "(output_port l, input_port l) \<notin> (\<lambda>m. (output_port m, input_port m)) ` ?ls"
    using uniq assms(3,4) unfolding pairs_unique_def by fastforce
  moreover have "(output_port l, input_port l) \<in> link_pairs ?g"
    using assms(3) by (auto simp: link_pairs_def)
  ultimately show ?thesis unfolding pairs by blast
qed

text \<open>Both pairs linked, the first one observed.\<close>

definition observed_demo :: demo where
  "observed_demo =
     mark_link_observed (LinkId 1)
       (snd (demo_connect (PortId 2) (PortId 4) (snd (demo_connect (PortId 1) (PortId 3) demo_demo))))"

lemma observed_demo_ok: "demo_ok observed_demo"
proof -
  have "demo_ok (mark_link_observed l d) = demo_ok d" for l d
    by (simp add: mark_link_observed_def demo_ok_def)
  then show ?thesis by (simp add: observed_demo_def connect_keeps_ok demo_demo_ok)
qed

subsection \<open>Reroute\<close>

text \<open>
  A successful reroute replaces exactly one connected pair by another, and remembers
  whether the new one was already there.
\<close>

lemma reroute_replaces_one_pair:
  assumes "demo_ok d" and "reroute_execute demo_driver c d = (Inr u, c', d')"
  shows "\<exists>old new po pn. rr_old_keys c' = Some old \<and> rr_new_keys c' = Some new
    \<and> pair_of (demo_graph d) old = Some po \<and> pair_of (demo_graph d) new = Some pn
    \<and> po \<in> link_pairs (demo_graph d)
    \<and> link_pairs (demo_graph d') = insert pn (link_pairs (demo_graph d) - {po})
    \<and> (rr_created_new c' \<longleftrightarrow> pn \<notin> link_pairs (demo_graph d) - {po})"
proof -
  let ?g = "demo_graph d"
  from demo.reroute_executed [OF demo.state_at_here [OF assms(1)], of c] assms(2)
  have undo: "reroute_undoes ?g c' (link_pairs ?g) (link_pairs (demo_graph d'))"
    by (auto simp: demo.executed_def as_command_def demo.state_at_def graph_after_def)
  then obtain old new where keys: "rr_old_keys c' = Some old" "rr_new_keys c' = Some new"
    by (auto simp: reroute_undoes_def split: option.splits)
  with undo obtain po pn where pairs: "pair_of ?g old = Some po" "pair_of ?g new = Some pn"
    by (auto simp: reroute_undoes_def)
  from undo keys pairs have "po \<in> link_pairs ?g"
    "link_pairs (demo_graph d') = insert pn (link_pairs ?g - {po})"
    "rr_created_new c' \<longleftrightarrow> pn \<notin> link_pairs ?g - {po}"
    by (simp_all add: reroute_undoes_def split: if_splits)
  with keys pairs show ?thesis by blast
qed

definition linked_demo :: demo where
  "linked_demo = snd (demo_connect (PortId 1) (PortId 3) demo_demo)"

subsection \<open>The stack discipline\<close>

lemma command_name_kept:
  "command_execute drv c d = (r, c', d') \<Longrightarrow> command_name c' = command_name c"
  "command_undo drv c d = (r, c', d') \<Longrightarrow> command_name c' = command_name c"
  by (cases c; auto simp: as_command_def split: prod.splits)+

text \<open>
  Undo and redo move the top command between the stacks, and only on success: a failed
  call keeps both stacks and the label it would act on, a call on an empty stack changes
  nothing. This holds for every driver.
\<close>

lemma undo_redo_discipline:
  "(case stack_undo drv s d of
      (Inl e, s', d') \<Rightarrow> can_undo s \<and> redo_stack s' = redo_stack s
        \<and> butlast (undo_stack s') = butlast (undo_stack s) \<and> undo_label s' = undo_label s
    | (Inr True, s', d') \<Rightarrow> can_undo s \<and> undo_stack s' = butlast (undo_stack s)
        \<and> butlast (redo_stack s') = redo_stack s \<and> redo_label s' = undo_label s
    | (Inr False, s', d') \<Rightarrow> \<not> can_undo s \<and> s' = s \<and> d' = d)
   \<and> (case stack_redo drv s d of
      (Inl e, s', d') \<Rightarrow> can_redo s \<and> undo_stack s' = undo_stack s
        \<and> butlast (redo_stack s') = butlast (redo_stack s) \<and> redo_label s' = redo_label s
    | (Inr True, s', d') \<Rightarrow> can_redo s \<and> redo_stack s' = butlast (redo_stack s)
        \<and> butlast (undo_stack s') = undo_stack s \<and> undo_label s' = redo_label s
    | (Inr False, s', d') \<Rightarrow> \<not> can_redo s \<and> s' = s \<and> d' = d)"
proof (rule conjI, goal_cases)
  case 1
  obtain r c' d' where "command_undo drv (last (undo_stack s)) d = (r, c', d')"
    by (metis prod_cases3)
  with command_name_kept(2) [OF this] show ?case
    by (cases r) (auto simp: stack_undo_def Let_def can_undo_def undo_label_def redo_label_def
        last_name_def)
next
  case 2
  obtain r c' d' where "command_execute drv (last (redo_stack s)) d = (r, c', d')"
    by (metis prod_cases3)
  with command_name_kept(1) [OF this] show ?case
    by (cases r) (auto simp: stack_redo_def Let_def can_redo_def undo_label_def redo_label_def
        last_name_def)
qed

end
