(* ===== verification/Move_Props.thy ===== *)
theory Move_Props
  imports Command_Props
begin

text \<open>
  Moving nodes is a transaction over the positions of the graph: a move that fails and could
  be rolled back leaves the graph exactly as it was, and undoing a move restores it exactly.
\<close>

subsection \<open>Sequences of placements\<close>

definition place_all :: "placement list \<Rightarrow> graph \<Rightarrow> graph" where
  "place_all ps g = fold (\<lambda>(n, pos). place_node n pos) ps g"

text \<open>The list records where its nodes are.\<close>

definition current_positions :: "graph \<Rightarrow> placement list \<Rightarrow> bool" where
  "current_positions g ps \<longleftrightarrow>
     (\<forall>(n, pos) \<in> set ps. \<exists>nd. graph_node g n = Some nd \<and> node_position nd = pos)"

lemma place_all_simps [simp]:
  "place_all [] g = g"
  "place_all (p # ps) g = place_all ps (place_node (fst p) (snd p) g)"
  "place_all (ps @ qs) g = place_all qs (place_all ps g)"
  by (simp_all add: place_all_def case_prod_beta)

definition last_place :: "placement list \<Rightarrow> node_id \<Rightarrow> position \<Rightarrow> position" where
  "last_place ps n pos = (case map_of (rev ps) n of None \<Rightarrow> pos | Some p \<Rightarrow> p)"

lemma place_all_rest [simp]:
  "g_ports (place_all ps g) = g_ports g"
  "g_links (place_all ps g) = g_links g"
  "bt_wf (g_nodes (place_all ps g)) = bt_wf (g_nodes g)"
  by (induction ps arbitrary: g) (simp_all add: place_node_def)

lemma place_all_node:
  "bt_get (g_nodes (place_all ps g)) i =
     map_option (\<lambda>nd. nd\<lparr>node_position := last_place ps i (node_position nd)\<rparr>)
       (bt_get (g_nodes g) i)"
proof (induction ps rule: rev_induct)
  case Nil
  then show ?case by (simp add: last_place_def option.map_ident)
next
  case (snoc p ps)
  then show ?case
    by (cases p; cases "bt_get (g_nodes g) i") (auto simp: graph_node_place last_place_def)
qed

lemma last_place_current:
  assumes "current_positions g ps" and "graph_node g i = Some nd"
  shows "last_place ps i (node_position nd) = node_position nd"
proof (cases "map_of (rev ps) i")
  case None
  then show ?thesis by (simp add: last_place_def)
next
  case (Some p)
  then have "(i, p) \<in> set ps" by (metis map_of_SomeD set_rev)
  with assms Some show ?thesis by (auto simp: current_positions_def last_place_def)
qed

text \<open>Placing nodes and then placing them all back where they were changes nothing.\<close>

lemma place_back:
  assumes "bt_wf (g_nodes g)" and cur: "current_positions g before"
    and cover: "fst ` set after \<subseteq> fst ` set before"
  shows "place_all before (place_all after g) = g"
proof -
  have "bt_get (g_nodes (place_all before (place_all after g))) i = bt_get (g_nodes g) i" for i
  proof (cases "bt_get (g_nodes g) i")
    case None
    then show ?thesis by (simp add: place_all_node)
  next
    case (Some nd)
    have "last_place before i (last_place after i (node_position nd)) = node_position nd"
    proof (cases "i \<in> fst ` set before")
      case True
      then have "last_place before i x = last_place before i (node_position nd)" for x
        by (auto simp: last_place_def map_of_eq_None_iff split: option.split)
      with last_place_current [OF cur] Some show ?thesis by (simp add: graph_node_def)
    next
      case False
      with cover have "map_of (rev before) i = None" "map_of (rev after) i = None"
        by (auto simp: map_of_eq_None_iff)
      then show ?thesis by (simp add: last_place_def)
    qed
    with Some show ?thesis by (simp add: place_all_node)
  qed
  then have "g_nodes (place_all before (place_all after g)) = g_nodes g"
    using assms(1) by (intro bt_eqI) simp_all
  then show ?thesis by (intro graph.equality) simp_all
qed

text \<open>What the rollback of a failed move places.\<close>

definition rollback_places :: "placement list \<Rightarrow> node_id list \<Rightarrow> placement list" where
  "rollback_places rollback ns =
     filter_map (\<lambda>n. map_option (\<lambda>r. (n, snd r)) (List.find (\<lambda>r. fst r = n) rollback)) ns"

lemma find_Some_in: "List.find P xs = Some x \<Longrightarrow> x \<in> set xs \<and> P x"
  by (induction xs) (auto split: if_splits)

lemma current_positions_mono:
  "current_positions g ps \<Longrightarrow> set qs \<subseteq> set ps \<Longrightarrow> current_positions g qs"
  unfolding current_positions_def by (rule ballI) (drule bspec, erule (1) subsetD)

lemma rollback_places_sub:
  "set (rollback_places rollback ns) \<subseteq> set rollback"
proof
  fix x assume "x \<in> set (rollback_places rollback ns)"
  then obtain r where r: "List.find (\<lambda>r. fst r = fst x) rollback = Some r" and x: "x = (fst x, snd r)"
    by (auto simp: rollback_places_def set_filter_map)
  from find_Some_in [OF r] have "r \<in> set rollback" and "fst r = fst x" by simp_all
  moreover from this(2) x have "x = r" by (metis prod.collapse)
  ultimately show "x \<in> set rollback" by simp
qed

lemma rollback_places_cover:
  assumes "set ns \<subseteq> fst ` set rollback"
  shows "set ns \<subseteq> fst ` set (rollback_places rollback ns)"
proof
  fix n assume n: "n \<in> set ns"
  with assms have "List.find (\<lambda>r. fst r = n) rollback \<noteq> None"
    unfolding find_None_iff by force
  then obtain r where r: "List.find (\<lambda>r. fst r = n) rollback = Some r" by auto
  then have "(n, snd r) \<in> set (rollback_places rollback ns)"
    unfolding rollback_places_def set_filter_map mem_Collect_eq using n
    by (intro bexI [of _ n]) simp_all
  then show "n \<in> fst ` set (rollback_places rollback ns)" by force
qed

subsection \<open>The transaction\<close>

context stable_driver
begin

lemma restore_positions_places:
  assumes "ok d" and "restore_positions drv rollback ns errs d = (errs', d')"
  shows "ok d' \<and> length errs \<le> length errs'
    \<and> (length errs' = length errs \<longrightarrow>
         drv_graph drv d' = place_all (rollback_places rollback ns) (drv_graph drv d))"
  using assms
proof (induction ns arbitrary: errs d)
  case Nil
  then show ?case by (simp add: rollback_places_def)
next
  case (Cons n ns)
  show ?case
  proof (cases "List.find (\<lambda>r. fst r = n) rollback")
    case None
    with Cons show ?thesis by (simp add: rollback_places_def)
  next
    case (Some r)
    obtain pr d1 where step: "drv_set_node_position drv n (snd r) d = (pr, d1)" by fastforce
    show ?thesis
    proof (cases pr)
      case (Inl e)
      with step place_err_law [OF Cons.prems(1), of n "snd r" e d1] have "ok d1" by simp
      moreover obtain m where
        "restore_positions drv rollback ns (errs @ [m]) d1 = (errs', d')"
        using Cons.prems(2) Some step Inl by (cases r) auto
      ultimately show ?thesis using Cons.IH [of d1 "errs @ [m]"] by simp
    next
      case (Inr u)
      with step place_ok_law [OF Cons.prems(1), of n "snd r" u d1]
      have "ok d1" "drv_graph drv d1 = place_node n (snd r) (drv_graph drv d)" by simp_all
      moreover have "restore_positions drv rollback ns errs d1 = (errs', d')"
        using Cons.prems(2) Some step Inr by (cases r) auto
      ultimately show ?thesis using Cons.IH [of d1 errs] Some by (simp add: rollback_places_def)
    qed
  qed
qed

lemma apply_positions_loop_places:
  assumes "ok d" and "drv_graph drv d = place_all done g"
    and "apply_positions_loop drv rollback targets (map fst done) d = (r, d')"
  shows "ok d' \<and> (case r of
      Inr _ \<Rightarrow> drv_graph drv d' = place_all (done @ targets) g
    | Inl e \<Rightarrow> \<not> is_partial e \<longrightarrow>
        (\<exists>ps. set ps \<subseteq> set done \<union> set targets
          \<and> drv_graph drv d' = place_all (rollback_places rollback (rev (map fst ps))) (place_all ps g)))"
  using assms
proof (induction targets arbitrary: "done" d)
  case Nil
  then show ?case by auto
next
  case (Cons t ts)
  obtain n pos where t: "t = (n, pos)" by (cases t)
  obtain pr d1 where step: "drv_set_node_position drv n pos d = (pr, d1)" by fastforce
  show ?case
  proof (cases pr)
    case (Inl e)
    with step place_err_law [OF Cons.prems(1), of n pos e d1]
    have ok1: "ok d1" and g1: "drv_graph drv d1 = place_all done g" using Cons.prems(2) by simp_all
    obtain errs d2 where roll: "restore_positions drv rollback (rev (map fst done)) [] d1 = (errs, d2)"
      by fastforce
    from restore_positions_places [OF ok1 roll] Cons.prems(3) t step Inl roll g1 show ?thesis
      by (auto simp: Let_def split: if_splits intro!: exI [of _ "done"])
  next
    case (Inr u)
    with step place_ok_law [OF Cons.prems(1), of n pos u d1]
    have "ok d1" "drv_graph drv d1 = place_all (done @ [t]) g" using Cons.prems(2) t by simp_all
    moreover have "apply_positions_loop drv rollback ts (map fst (done @ [t])) d1 = (r, d')"
      using Cons.prems(3) t step Inr by simp
    ultimately show ?thesis
      using Cons.IH [of d1 "done @ [t]"] by (auto split: sum.splits)
  qed
qed

lemma apply_positions_ok:
  "ok d \<Longrightarrow> apply_positions drv targets rollback d = (Inr u, d') \<Longrightarrow>
    ok d' \<and> drv_graph drv d' = place_all targets (drv_graph drv d)"
  using apply_positions_loop_places [of d "[]" "drv_graph drv d" rollback targets "Inr u" d']
  by (simp add: apply_positions_def)

lemma apply_positions_err:
  assumes "ok d" and "apply_positions drv targets rollback d = (Inl e, d')" and "\<not> is_partial e"
    and "current_positions (drv_graph drv d) rollback"
    and "fst ` set targets \<subseteq> fst ` set rollback"
  shows "ok d' \<and> drv_graph drv d' = drv_graph drv d"
proof -
  from apply_positions_loop_places [of d "[]" "drv_graph drv d" rollback targets "Inl e" d'] assms(1-3)
  obtain ps where okd: "ok d'" and ps: "set ps \<subseteq> set targets"
    and g: "drv_graph drv d' =
      place_all (rollback_places rollback (rev (map fst ps))) (place_all ps (drv_graph drv d))"
    by (auto simp: apply_positions_def)
  let ?rev_moves = "rollback_places rollback (rev (map fst ps))"
  have "current_positions (drv_graph drv d) ?rev_moves"
    by (rule current_positions_mono [OF assms(4) rollback_places_sub])
  moreover have "set (rev (map fst ps)) \<subseteq> fst ` set rollback"
    using image_mono [OF ps, of fst] assms(5) by (simp add: subset_trans)
  then have "fst ` set ps \<subseteq> fst ` set ?rev_moves"
    using rollback_places_cover [of "rev (map fst ps)" rollback] by simp
  ultimately show ?thesis
    using place_back [OF graph_wfD(1) [OF graph_law [OF assms(1)]]] okd g by simp
qed

text \<open>Executing a move and undoing it.\<close>

lemma move_nodes_round_trip:
  assumes "ok d" and "current_positions (drv_graph drv d) (mv_before c)"
    and "fst ` set (mv_after c) \<subseteq> fst ` set (mv_before c)"
    and "move_nodes_execute drv c d = (Inr u, c', d')"
    and "move_nodes_undo drv c' d' = (Inr v, c'', d'')"
  shows "ok d'' \<and> drv_graph drv d'' = drv_graph drv d"
proof -
  from assms(4) have ex: "apply_positions drv (mv_after c) (mv_before c) d = (Inr u, d')"
    and c': "c' = c" by (auto simp: move_nodes_execute_def split: prod.splits)
  from assms(5) c' have un: "apply_positions drv (mv_before c) (mv_after c) d' = (Inr v, d'')"
    by (auto simp: move_nodes_undo_def split: prod.splits)
  from apply_positions_ok [OF assms(1) ex] have "ok d'"
    and g': "drv_graph drv d' = place_all (mv_after c) (drv_graph drv d)" by auto
  from apply_positions_ok [OF this(1) un] g' place_back [OF graph_wfD(1) [OF graph_law] assms(2,3)]
    assms(1) show ?thesis by simp
qed

end

subsection \<open>The demo backend\<close>

text \<open>
  A move of nodes whose recorded positions are the current ones is atomic: if it fails
  and every rollback succeeded, the whole graph is as before.
\<close>

lemma failed_move_keeps_graph:
  assumes "demo_ok d" and "apply_positions demo_driver targets rollback d = (Inl e, d')"
    and "\<not> is_partial e" and "current_positions (demo_graph d) rollback"
    and "fst ` set targets \<subseteq> fst ` set rollback"
  shows "demo_graph d' = demo_graph d"
  using demo.apply_positions_err [OF assms(1,2,3)] assms(4,5) by simp

definition start_places :: "placement list" where
  "start_places = [(NodeId 1, (0x42A00000, 0x42C80000)), (NodeId 2, (0x44020000, 0x42C80000))]"

definition moved_places :: "placement list" where
  "moved_places = [(NodeId 1, (0, 0)), (NodeId 2, (0, 0))]"

definition stuck_demo :: demo where
  "stuck_demo = fail_position_at (NodeId 2) (0, 0)
     (demo_new (snd (add_node ((new_node (NodeId 2) ''b'' NT_PipeWire)
          \<lparr>node_position := (0x44020000, 0x42C80000)\<rparr>)
        (snd (add_node ((new_node (NodeId 1) ''a'' NT_PipeWire)
          \<lparr>node_position := (0x42A00000, 0x42C80000)\<rparr>) empty_graph)))))"

lemma stuck_demo_ok: "demo_ok stuck_demo"
proof -
  have "demo_graph (fail_position_at n pos d) = demo_graph d" for n pos d
    by (simp add: fail_position_at_def Let_def)
  then have "graph_wf (demo_graph stuck_demo)"
    by (simp add: stuck_demo_def demo_new_def add_node_wf new_node_def)
  moreover have "g_links (demo_graph stuck_demo) = []" by code_simp
  ultimately show ?thesis by (simp add: demo_ok_def pairs_unique_def bt_values_def)
qed

lemma stuck_demo_current: "current_positions (demo_graph stuck_demo) start_places"
proof -
  have "map_option node_position (graph_node (demo_graph stuck_demo) (NodeId 1))
      = Some (0x42A00000, 0x42C80000)"
    "map_option node_position (graph_node (demo_graph stuck_demo) (NodeId 2))
      = Some (0x44020000, 0x42C80000)"
    by code_simp+
  then show ?thesis by (auto simp: current_positions_def start_places_def)
qed

text \<open>
  Executing a move and undoing it, both successfully, restores the graph exactly when
  the move recorded the current positions.
\<close>

lemma move_then_undo_restores_graph:
  assumes "demo_ok d" and "current_positions (demo_graph d) (mv_before c)"
    and "fst ` set (mv_after c) \<subseteq> fst ` set (mv_before c)"
    and "move_nodes_execute demo_driver c d = (Inr u, c', d')"
    and "move_nodes_undo demo_driver c' d' = (Inr v, c'', d'')"
  shows "demo_graph d'' = demo_graph d"
  using demo.move_nodes_round_trip [OF assms(1) _ assms(3,4,5)] assms(2) by simp

definition calm_demo :: demo where
  "calm_demo = stuck_demo\<lparr>demo_forced := None\<rparr>"

end
