(* ===== verification/Patchbay.thy ===== *)
theory Patchbay
  imports Driver
begin

text \<open>
  Saved connection sets (\<^verbatim>\<open>crates/pw-graph-patchbay/src\<close>: \<^verbatim>\<open>model.rs\<close>,
  \<^verbatim>\<open>connections.rs\<close>, \<^verbatim>\<open>selectors.rs\<close>): the rules of a patchbay, adding, removing and
  snapshotting them, and resolving a rule against a graph.
\<close>

subsection \<open>Data\<close>

record patch_connection =
  pc_output_port :: port_id
  pc_input_port :: port_id
  pc_pinned :: bool
  pc_node_type :: node_type
  pc_output_node_type :: "node_type option"
  pc_input_node_type :: "node_type option"
  pc_port_type :: port_type
  pc_output_node :: string
  pc_output_name :: string
  pc_input_node :: string
  pc_input_name :: string
  pc_output_selector :: "endpoint_selector option"
  pc_input_selector :: "endpoint_selector option"

definition patch_connection_default :: patch_connection where
  "patch_connection_default =
     \<lparr>pc_output_port = port_id_default, pc_input_port = port_id_default, pc_pinned = False,
      pc_node_type = NT_PipeWire, pc_output_node_type = None, pc_input_node_type = None,
      pc_port_type = PT_Audio, pc_output_node = '''', pc_output_name = '''',
      pc_input_node = '''', pc_input_name = '''', pc_output_selector = None,
      pc_input_selector = None\<rparr>"

record patchbay =
  pb_version :: u32
  pb_name :: string
  pb_connections :: "patch_connection list"

definition patchbay_new :: "string \<Rightarrow> patchbay" where
  "patchbay_new name = \<lparr>pb_version = 2, pb_name = name, pb_connections = []\<rparr>"

datatype patchbay_resolution =
  Resolved port_id port_id
| WaitingForEndpoint string
| AmbiguousEndpoint string

definition effective_output_node_type :: "patch_connection \<Rightarrow> node_type" where
  "effective_output_node_type c =
     (case pc_output_node_type c of None \<Rightarrow> pc_node_type c | Some t \<Rightarrow> t)"

definition effective_input_node_type :: "patch_connection \<Rightarrow> node_type" where
  "effective_input_node_type c =
     (case pc_input_node_type c of None \<Rightarrow> pc_node_type c | Some t \<Rightarrow> t)"

subsection \<open>Selectors\<close>

definition legacy_selector ::
  "string \<Rightarrow> string \<Rightarrow> direction \<Rightarrow> port_type \<Rightarrow> node_type \<Rightarrow> endpoint_selector" where
  "legacy_selector node port dir pt nt =
     \<lparr>sel_node_type = nt, sel_identity = identity_with_node_name node, sel_port_name = port,
      sel_channel = None, sel_direction = dir, sel_port_type = pt, sel_match_mode = Instance\<rparr>"

definition legacy_output :: "patch_connection \<Rightarrow> endpoint_selector" where
  "legacy_output c =
     legacy_selector (pc_output_node c) (pc_output_name c) Source (pc_port_type c)
       (effective_output_node_type c)"

definition legacy_input :: "patch_connection \<Rightarrow> endpoint_selector" where
  "legacy_input c =
     legacy_selector (pc_input_node c) (pc_input_name c) Sink (pc_port_type c)
       (effective_input_node_type c)"

definition connection_selectors :: "patch_connection \<Rightarrow> endpoint_selector \<times> endpoint_selector" where
  "connection_selectors c =
     (case pc_output_selector c of None \<Rightarrow> legacy_output c | Some s \<Rightarrow> s,
      case pc_input_selector c of None \<Rightarrow> legacy_input c | Some s \<Rightarrow> s)"

text \<open>The legacy selector is built lazily in the code; it is a value here.\<close>

definition resolve_selector ::
  "graph \<Rightarrow> endpoint_selector option \<Rightarrow> endpoint_selector \<Rightarrow> endpoint_resolution" where
  "resolve_selector g saved legacy =
    (let sel = (case saved of None \<Rightarrow> legacy | Some s \<Rightarrow> s);
         result = resolve_endpoint g sel in
     if result \<noteq> Missing then result
     else if sel_node_type sel \<noteq> NT_Unknown \<and> ident_effect_instance_id (sel_identity sel) = None
       then resolve_endpoint g (sel\<lparr>sel_node_type := NT_Unknown\<rparr>)
     else result)"

definition identities_equivalent :: "node_identity \<Rightarrow> node_identity \<Rightarrow> bool" where
  "identities_equivalent a b =
    (if ident_effect_instance_id a \<noteq> None \<or> ident_effect_instance_id b \<noteq> None
     then ident_effect_instance_id a = ident_effect_instance_id b
     else if application_id a \<noteq> None \<or> application_id b \<noteq> None
     then application_id a \<noteq> None \<and> application_id a = application_id b
     else
       (((process_binary a \<noteq> None \<or> process_binary b \<noteq> None)
          \<and> process_binary a = process_binary b
          \<and> (application_name a = None \<or> application_name b = None
             \<or> application_name a = application_name b))
        \<or> (application_id a = None \<and> application_id b = None
           \<and> process_binary a = None \<and> process_binary b = None
           \<and> ident_node_name a = ident_node_name b)))"

definition selectors_equivalent :: "endpoint_selector \<Rightarrow> endpoint_selector \<Rightarrow> bool" where
  "selectors_equivalent saved current =
    (let app_channel_matches =
           (sel_match_mode saved \<noteq> NamePattern \<and> sel_match_mode current \<noteq> NamePattern
            \<and> sel_channel saved \<noteq> None \<and> sel_channel saved = sel_channel current
            \<and> (application_id (sel_identity saved) \<noteq> None
               \<or> process_binary (sel_identity saved) \<noteq> None
               \<or> application_name (sel_identity saved) \<noteq> None));
         port_name_matches =
           (sel_port_name saved = sel_port_name current \<or> app_channel_matches) in
     if sel_node_type saved \<noteq> sel_node_type current
        \<or> \<not> port_name_matches
        \<or> sel_channel saved \<noteq> sel_channel current
        \<or> sel_direction saved \<noteq> sel_direction current
        \<or> sel_port_type saved \<noteq> sel_port_type current then False
     else identities_equivalent (sel_identity saved) (sel_identity current))"

text \<open>The \<^verbatim>\<open>zip\<close> of two optional selectors, compared with two current ones.\<close>

definition saved_selectors_match ::
  "patch_connection \<Rightarrow> endpoint_selector \<Rightarrow> endpoint_selector \<Rightarrow> bool" where
  "saved_selectors_match c out inp =
     (case (pc_output_selector c, pc_input_selector c) of
        (Some a, Some b) \<Rightarrow> selectors_equivalent a out \<and> selectors_equivalent b inp
      | _ \<Rightarrow> False)"

definition matches_stable_pair :: "patch_connection \<Rightarrow> port_key \<Rightarrow> port_key \<Rightarrow> bool" where
  "matches_stable_pair c out inp =
    (let legacy_match =
           (pc_output_node c = key_node_name out \<and> pc_output_name c = key_port_name out
            \<and> pc_input_node c = key_node_name inp \<and> pc_input_name c = key_port_name inp);
         selector_match = saved_selectors_match c (selector out) (selector inp) in
     if pc_output_selector c \<noteq> None \<and> pc_input_selector c \<noteq> None then selector_match
     else legacy_match)"

subsection \<open>Editing the rules\<close>

definition add_connection :: "port_id \<Rightarrow> port_id \<Rightarrow> bool \<Rightarrow> patchbay \<Rightarrow> patchbay" where
  "add_connection p q pinned pb =
    (let same = (\<lambda>c. pc_output_port c = p \<and> pc_input_port c = q) in
     if list_ex same (pb_connections pb)
     then pb\<lparr>pb_connections :=
            update_first same (\<lambda>c. c\<lparr>pc_pinned := (pc_pinned c \<or> pinned)\<rparr>) (pb_connections pb)\<rparr>
     else pb\<lparr>pb_connections := pb_connections pb @
            [patch_connection_default\<lparr>pc_output_port := p, pc_input_port := q,
               pc_pinned := pinned\<rparr>]\<rparr>)"

definition rule_matches ::
  "port_id \<Rightarrow> port_id \<Rightarrow> endpoint_selector option \<Rightarrow> endpoint_selector option
    \<Rightarrow> string \<Rightarrow> string \<Rightarrow> string \<Rightarrow> string \<Rightarrow> patch_connection \<Rightarrow> bool" where
  "rule_matches p q out_sel in_sel on opn inn ipn c =
     ((pc_output_port c = p \<and> pc_input_port c = q)
      \<or> (case (out_sel, in_sel) of
           (Some a, Some b) \<Rightarrow> saved_selectors_match c a b
         | _ \<Rightarrow> False)
      \<or> (pc_output_selector c = None \<and> pc_input_selector c = None
         \<and> pc_output_node c = on \<and> pc_output_name c = opn
         \<and> pc_input_node c = inn \<and> pc_input_name c = ipn))"

text \<open>Everything but \<^verbatim>\<open>pinned\<close> is written from the live endpoints.\<close>

definition fill_rule ::
  "port_id \<Rightarrow> port_id \<Rightarrow> node \<Rightarrow> port \<Rightarrow> node \<Rightarrow> port \<Rightarrow> endpoint_selector option
    \<Rightarrow> endpoint_selector option \<Rightarrow> patch_connection \<Rightarrow> patch_connection" where
  "fill_rule p q on out inn inp out_sel in_sel c =
     c\<lparr>pc_output_port := p, pc_input_port := q, pc_node_type := node_kind on,
       pc_output_node_type := Some (node_kind on), pc_input_node_type := Some (node_kind inn),
       pc_port_type := port_kind out, pc_output_node := node_name on,
       pc_output_name := port_name out, pc_input_node := node_name inn,
       pc_input_name := port_name inp, pc_output_selector := out_sel,
       pc_input_selector := in_sel\<rparr>"

definition add_graph_connection ::
  "graph \<Rightarrow> port_id \<Rightarrow> port_id \<Rightarrow> bool \<Rightarrow> patchbay \<Rightarrow> patchbay" where
  "add_graph_connection g p q pinned pb =
    (case graph_port g p of None \<Rightarrow> add_connection p q pinned pb
     | Some out \<Rightarrow>
    (case graph_port g q of None \<Rightarrow> add_connection p q pinned pb
     | Some inp \<Rightarrow>
    (case graph_node g (port_node out) of None \<Rightarrow> add_connection p q pinned pb
     | Some on \<Rightarrow>
    (case graph_node g (port_node inp) of None \<Rightarrow> add_connection p q pinned pb
     | Some inn \<Rightarrow>
      (let out_sel = map_option selector (graph_port_key g p);
           in_sel = map_option selector (graph_port_key g q);
           matches = rule_matches p q out_sel in_sel (node_name on) (port_name out)
                       (node_name inn) (port_name inp);
           fill = fill_rule p q on out inn inp out_sel in_sel in
       if list_ex matches (pb_connections pb)
       then pb\<lparr>pb_connections :=
              update_first matches (\<lambda>c. fill (c\<lparr>pc_pinned := (pc_pinned c \<or> pinned)\<rparr>))
                (pb_connections pb)\<rparr>
       else pb\<lparr>pb_connections := pb_connections pb @
              [fill (patch_connection_default\<lparr>pc_pinned := pinned\<rparr>)]\<rparr>)))))"

text \<open>\<^verbatim>\<open>Vec::retain\<close>, reporting whether anything went.\<close>

definition retain_connections :: "(patch_connection \<Rightarrow> bool) \<Rightarrow> patchbay \<Rightarrow> bool \<times> patchbay" where
  "retain_connections keep pb =
     (let kept = filter keep (pb_connections pb)
      in (length (pb_connections pb) \<noteq> length kept, pb\<lparr>pb_connections := kept\<rparr>))"

definition remove_connection :: "port_id \<Rightarrow> port_id \<Rightarrow> patchbay \<Rightarrow> bool \<times> patchbay" where
  "remove_connection p q pb =
     retain_connections (\<lambda>c. pc_output_port c \<noteq> p \<or> pc_input_port c \<noteq> q) pb"

definition remove_stable_connection :: "port_key \<Rightarrow> port_key \<Rightarrow> patchbay \<Rightarrow> bool \<times> patchbay" where
  "remove_stable_connection out inp pb =
     retain_connections (\<lambda>c. \<not> matches_stable_pair c out inp) pb"

definition remove_connections_for_node :: "string \<Rightarrow> patchbay \<Rightarrow> bool \<times> patchbay" where
  "remove_connections_for_node node pb =
     retain_connections (\<lambda>c. pc_output_node c \<noteq> node \<and> pc_input_node c \<noteq> node) pb"

definition snapshot_links :: "graph \<Rightarrow> link list \<Rightarrow> bool \<Rightarrow> patchbay \<Rightarrow> patchbay" where
  "snapshot_links g ls pinned pb =
     fold (\<lambda>l. add_graph_connection g (output_port l) (input_port l) pinned) ls
       (pb\<lparr>pb_connections := []\<rparr>)"

definition snapshot_graph :: "graph \<Rightarrow> bool \<Rightarrow> patchbay \<Rightarrow> patchbay" where
  "snapshot_graph g pinned pb = snapshot_links g (bt_values (g_links g)) pinned pb"

definition snapshot_driver :: "'d driver \<Rightarrow> 'd \<Rightarrow> bool \<Rightarrow> patchbay \<Rightarrow> patchbay" where
  "snapshot_driver drv d pinned pb =
     snapshot_links (drv_graph drv d)
       (filter (\<lambda>l. drv_is_link_mutable drv d (link_ident l)) (bt_values (g_links (drv_graph drv d))))
       pinned pb"

definition effect_connections :: "patchbay \<Rightarrow> patchbay" where
  "effect_connections pb =
     pb\<lparr>pb_connections :=
       filter (\<lambda>c. effective_output_node_type c = NT_Effect \<or> effective_input_node_type c = NT_Effect)
         (pb_connections pb)\<rparr>"

subsection \<open>Resolving a rule\<close>

definition has_names :: "patch_connection \<Rightarrow> bool" where
  "has_names c =
     (pc_output_node c \<noteq> '''' \<and> pc_output_name c \<noteq> ''''
      \<and> pc_input_node c \<noteq> '''' \<and> pc_input_name c \<noteq> '''')"

definition resolve_numeric :: "graph \<Rightarrow> patch_connection \<Rightarrow> patchbay_resolution" where
  "resolve_numeric g c =
    (case graph_port g (pc_output_port c) of
       None \<Rightarrow> WaitingForEndpoint ''legacy output port is missing''
     | Some out \<Rightarrow>
     (case graph_port g (pc_input_port c) of
        None \<Rightarrow> WaitingForEndpoint ''legacy input port is missing''
      | Some inp \<Rightarrow>
        if port_direction out = Source \<and> port_direction inp = Sink
        then Resolved (port_ident out) (port_ident inp)
        else WaitingForEndpoint ''legacy numeric endpoints have incompatible directions''))"

definition candidate_count :: "string \<Rightarrow> port_id list \<Rightarrow> string" where
  "candidate_count side ids =
     side @ '' endpoint is ambiguous: '' @ show_nat (length ids) @ '' candidates''"

fun combine_ends :: "endpoint_resolution \<Rightarrow> endpoint_resolution \<Rightarrow> patchbay_resolution" where
  "combine_ends (Ambiguous ids) _ = AmbiguousEndpoint (candidate_count ''output'' ids)"
| "combine_ends _ (Ambiguous ids) = AmbiguousEndpoint (candidate_count ''input'' ids)"
| "combine_ends Missing _ = WaitingForEndpoint ''output endpoint is missing''"
| "combine_ends _ Missing = WaitingForEndpoint ''input endpoint is missing''"
| "combine_ends (Exact p) (Exact q) = Resolved p q"
| "combine_ends (Exact p) (UniqueFallback q) = Resolved p q"
| "combine_ends (UniqueFallback p) (Exact q) = Resolved p q"
| "combine_ends (UniqueFallback p) (UniqueFallback q) = Resolved p q"

definition resolve_connection :: "graph \<Rightarrow> patch_connection \<Rightarrow> patchbay_resolution" where
  "resolve_connection g c =
    (if \<not> has_names c \<and> pc_output_selector c = None \<and> pc_input_selector c = None
     then resolve_numeric g c
     else
       combine_ends (resolve_selector g (pc_output_selector c) (legacy_output c))
         (resolve_selector g (pc_input_selector c) (legacy_input c)))"

definition resolve_rule :: "patchbay \<Rightarrow> graph \<Rightarrow> nat \<Rightarrow> patchbay_resolution" where
  "resolve_rule pb g i =
    (if i < length (pb_connections pb) then resolve_connection g (pb_connections pb ! i)
     else WaitingForEndpoint (''rule '' @ show_nat i @ '' is no longer present''))"

end
