(* ===== verification/Patchbay_Props.thy ===== *)
theory Patchbay_Props
  imports Patchbay Demo_Driver
begin

text \<open>
  Properties of the saved rules themselves: a snapshot resolves back to the links it was
  taken of, saving a link twice is saving it once, and removing a link by its stable identity
  removes its rule.
\<close>

subsection \<open>Captured selectors\<close>

text \<open>A selector captured from a port finds that port, or several.\<close>

lemma captured_endpoint:
  assumes "graph_wf g" and "graph_port_key g p = Some k"
  shows "resolve_endpoint g (selector k) = Exact p \<or> resolve_endpoint g (selector k) = UniqueFallback p
    \<or> (\<exists>ids. resolve_endpoint g (selector k) = Ambiguous ids)"
proof -
  have "resolve_endpoint g (selector k) \<noteq> Missing"
    using port_key_own_candidate [OF assms] by (auto simp: resolve_missing_iff)
  with port_key_resolution [OF assms] show ?thesis
    by (cases "resolve_endpoint g (selector k)") (auto simp: resolve_port_key_def)
qed

definition captures :: "graph \<Rightarrow> patch_connection \<Rightarrow> bool" where
  "captures g c \<longleftrightarrow>
     (\<exists>a b. graph_port_key g (pc_output_port c) = Some a \<and> graph_port_key g (pc_input_port c) = Some b
       \<and> pc_output_selector c = Some (selector a) \<and> pc_input_selector c = Some (selector b))"

lemma captures_resolves:
  assumes "graph_wf g" and "captures g c"
  shows "resolve_connection g c = Resolved (pc_output_port c) (pc_input_port c)
    \<or> (\<exists>detail. resolve_connection g c = AmbiguousEndpoint detail)"
proof -
  from assms(2) obtain a b where
    keys: "graph_port_key g (pc_output_port c) = Some a" "graph_port_key g (pc_input_port c) = Some b"
    and sels: "pc_output_selector c = Some (selector a)" "pc_input_selector c = Some (selector b)"
    by (auto simp: captures_def)
  from captured_endpoint [OF assms(1) keys(1)] captured_endpoint [OF assms(1) keys(2)]
  show ?thesis by (elim disjE exE) (simp_all add: resolve_connection_def resolve_selector_def sels)
qed

subsection \<open>Adding\<close>

text \<open>What \<^verbatim>\<open>add_graph_connection\<close> writes into the rule it updates or pushes.\<close>

definition captured_rule :: "graph \<Rightarrow> port_id \<Rightarrow> port_id \<Rightarrow> patch_connection \<Rightarrow> bool" where
  "captured_rule g p q c \<longleftrightarrow> pc_output_port c = p \<and> pc_input_port c = q \<and> captures g c"

lemma graph_wf_port_key:
  "graph_wf g \<Longrightarrow> graph_port g p = Some port \<Longrightarrow> \<exists>k n. graph_port_key g p = Some k
    \<and> graph_node g (port_node port) = Some n"
  using graph_wfD(7) [of g p port] by (auto simp: graph_port_key_def graph_port_def graph_node_def)

lemma add_graph_connection_rules:
  assumes "graph_wf g" and "graph_port g p \<noteq> None" and "graph_port g q \<noteq> None"
    and "c \<in> set (pb_connections (add_graph_connection g p q pinned pb))"
  shows "c \<in> set (pb_connections pb) \<or> captured_rule g p q c"
proof -
  from assms(2,3) obtain out inp where
    ports: "graph_port g p = Some out" "graph_port g q = Some inp" by blast
  from graph_wf_port_key [OF assms(1)] ports obtain a b on inn where
    keys: "graph_port_key g p = Some a" "graph_port_key g q = Some b"
    and nodes: "graph_node g (port_node out) = Some on" "graph_node g (port_node inp) = Some inn"
    by metis
  show ?thesis
    using assms(4) set_update_first
    by (auto simp: add_graph_connection_def ports keys nodes Let_def captured_rule_def captures_def
        fill_rule_def split: if_splits dest!: subsetD [OF set_update_first])
qed

lemma snapshot_links_rules:
  assumes "graph_wf g" and "\<forall>l \<in> set ls. graph_port g (output_port l) \<noteq> None
      \<and> graph_port g (input_port l) \<noteq> None"
    and "c \<in> set (pb_connections (snapshot_links g ls pinned pb))"
  shows "\<exists>l \<in> set ls. captured_rule g (output_port l) (input_port l) c"
proof -
  have "c \<in> set (pb_connections (fold (\<lambda>l. add_graph_connection g (output_port l) (input_port l) pinned)
      ls pb')) \<Longrightarrow> c \<in> set (pb_connections pb')
    \<or> (\<exists>l \<in> set ls. captured_rule g (output_port l) (input_port l) c)" for pb'
    using assms(2)
  proof (induction ls arbitrary: pb')
    case (Cons l ls)
    then show ?case using add_graph_connection_rules [OF assms(1)] by fastforce
  qed simp
  from this [of "pb\<lparr>pb_connections := []\<rparr>"] assms(3) show ?thesis
    by (simp add: snapshot_links_def)
qed

text \<open>
  Every rule of a snapshot of a graph names a link of that graph, and in that graph it
  resolves to exactly that link, unless one of its ends cannot be told apart from another
  port, and then it is reported ambiguous: never to a wrong port, never as missing.
\<close>

lemma snapshot_rules_resolve:
  assumes "graph_wf g" and "c \<in> set (pb_connections (snapshot_graph g pinned pb))"
  shows "(pc_output_port c, pc_input_port c) \<in> link_pairs g
    \<and> (resolve_connection g c = Resolved (pc_output_port c) (pc_input_port c)
       \<or> (\<exists>detail. resolve_connection g c = AmbiguousEndpoint detail))"
proof -
  have "\<forall>l \<in> set (bt_values (g_links g)). graph_port g (output_port l) \<noteq> None
      \<and> graph_port g (input_port l) \<noteq> None"
    using graph_wfD(9,10) [OF assms(1)]
    by (fastforce simp: set_bt_values [OF graph_wfD(3) [OF assms(1)]] graph_port_def)
  from snapshot_links_rules [OF assms(1) this assms(2) [unfolded snapshot_graph_def]] obtain l where
    "l \<in> set (bt_values (g_links g))" "captured_rule g (output_port l) (input_port l) c"
    by blast
  then have l: "(pc_output_port c, pc_input_port c) \<in> link_pairs g" and "captures g c"
    by (auto simp: captured_rule_def link_pairs_def)
  from captures_resolves [OF assms(1) this(2)] l show ?thesis by blast
qed

subsection \<open>Removing\<close>

lemma selectors_equivalent_refl: "selectors_equivalent s s"
  by (auto simp: selectors_equivalent_def identities_equivalent_def)

lemma captured_rule_matches:
  assumes "captured_rule g p q c" and "graph_port_key g p = Some a" and "graph_port_key g q = Some b"
  shows "matches_stable_pair c a b"
  using assms
  by (auto simp: captured_rule_def captures_def matches_stable_pair_def saved_selectors_match_def
      selectors_equivalent_refl)

lemma update_first_hit: "list_ex P xs \<Longrightarrow> \<exists>x \<in> set xs. f x \<in> set (update_first P f xs)"
  by (induction xs) auto

lemma add_graph_connection_adds:
  assumes "graph_port_key g p = Some a" and "graph_port_key g q = Some b"
  shows "\<exists>c \<in> set (pb_connections (add_graph_connection g p q pinned pb)). captured_rule g p q c"
proof -
  from assms obtain out inp on inn where
    ports: "graph_port g p = Some out" "graph_port g q = Some inp"
    and nodes: "graph_node g (port_node out) = Some on" "graph_node g (port_node inp) = Some inn"
    by (auto simp: graph_port_key_def split: option.splits)
  define matches where "matches = rule_matches p q (Some (selector a)) (Some (selector b))
      (node_name on) (port_name out) (node_name inn) (port_name inp)"
  show ?thesis
  proof (cases "list_ex matches (pb_connections pb)")
    case True
    from update_first_hit [OF True] show ?thesis
      unfolding add_graph_connection_def
      by (force simp: ports nodes assms Let_def True [unfolded matches_def] matches_def
          captured_rule_def captures_def fill_rule_def)
  next
    case False
    then show ?thesis
      by (simp add: add_graph_connection_def ports nodes assms Let_def matches_def
          captured_rule_def captures_def fill_rule_def)
  qed
qed

text \<open>
  Removing a link by its stable identity right after saving it reports that rules went,
  and leaves no rule that stands for the link: neither its new rule nor an older one with
  other port ids.
\<close>

lemma remove_after_add:
  assumes "graph_port_key g p = Some a" and "graph_port_key g q = Some b"
    and "remove_stable_connection a b (add_graph_connection g p q pinned pb) = (gone, pb')"
  shows "gone \<and> (\<forall>c \<in> set (pb_connections pb'). \<not> matches_stable_pair c a b)
    \<and> set (pb_connections pb') \<subseteq> set (pb_connections (add_graph_connection g p q pinned pb))"
proof -
  let ?cs = "pb_connections (add_graph_connection g p q pinned pb)"
  from add_graph_connection_adds [OF assms(1,2)] obtain c where
    c: "c \<in> set ?cs" "captured_rule g p q c" by blast
  from captured_rule_matches [OF c(2) assms(1,2)] c(1)
  have "length (filter (\<lambda>c. \<not> matches_stable_pair c a b) ?cs) < length ?cs"
    by (intro length_filter_less [of c]) simp_all
  with assms(3) show ?thesis
    by (auto simp: remove_stable_connection_def retain_connections_def Let_def)
qed

subsection \<open>Saving twice\<close>

lemma update_first_twice:
  assumes "\<And>x. P x \<Longrightarrow> P (f x)" and "\<And>x. f (f x) = f x"
  shows "update_first P f (update_first P f xs) = update_first P f xs"
  by (induction xs) (auto simp: assms)

lemma update_first_append:
  "\<not> list_ex P xs \<Longrightarrow> update_first P f (xs @ ys) = xs @ update_first P f ys"
  by (induction xs) auto

lemma list_ex_update_first:
  assumes "\<And>x. P x \<Longrightarrow> P (f x)" and "list_ex P xs"
  shows "list_ex P (update_first P f xs)"
  using assms(2) by (induction xs) (auto simp: assms(1))

lemma add_connection_twice:
  "add_connection p q pinned (add_connection p q pinned pb) = add_connection p q pinned pb"
proof -
  let ?P = "\<lambda>c. pc_output_port c = p \<and> pc_input_port c = q"
  show ?thesis
  proof (cases "list_ex ?P (pb_connections pb)")
    case True
    then show ?thesis
      by (simp add: add_connection_def list_ex_update_first update_first_twice)
  next
    case False
    then show ?thesis
      by (simp add: add_connection_def update_first_append)
  qed
qed

text \<open>
  Saving a link of a graph twice in a row is the same as saving it once: no duplicate
  rule appears, and the rule found the second time is the one written the first time.
\<close>

lemma save_twice:
  "add_graph_connection g p q pinned (add_graph_connection g p q pinned pb)
    = add_graph_connection g p q pinned pb"
proof (cases "graph_port_key g p \<noteq> None \<and> graph_port_key g q \<noteq> None")
  case False
  then have "add_graph_connection g p q pinned pb' = add_connection p q pinned pb'" for pb'
    by (auto simp: add_graph_connection_def graph_port_key_def split: option.splits)
  then show ?thesis by (simp add: add_connection_twice)
next
  case True
  then obtain a b out inp on inn where keys: "graph_port_key g p = Some a" "graph_port_key g q = Some b"
    and ports: "graph_port g p = Some out" "graph_port g q = Some inp"
    and nodes: "graph_node g (port_node out) = Some on" "graph_node g (port_node inp) = Some inn"
    by (auto simp: graph_port_key_def split: option.splits)
  define matches where "matches = rule_matches p q (Some (selector a)) (Some (selector b))
      (node_name on) (port_name out) (node_name inn) (port_name inp)"
  define fill where "fill = fill_rule p q on out inn inp (Some (selector a)) (Some (selector b))"
  define update where "update = (\<lambda>c. fill (c\<lparr>pc_pinned := (pc_pinned c \<or> pinned)\<rparr>))"
  define fresh where "fresh = fill (patch_connection_default\<lparr>pc_pinned := pinned\<rparr>)"
  have add: "add_graph_connection g p q pinned pb' =
      (if list_ex matches (pb_connections pb')
       then pb'\<lparr>pb_connections := update_first matches update (pb_connections pb')\<rparr>
       else pb'\<lparr>pb_connections := pb_connections pb' @ [fresh]\<rparr>)" for pb'
    by (simp add: add_graph_connection_def ports nodes keys Let_def matches_def update_def
        fresh_def fill_def)
  have idem: "update (update c) = update c" "update fresh = fresh" for c
    by (simp_all add: update_def fresh_def fill_def fill_rule_def)
  have hits: "matches (update c)" "matches fresh" for c
    by (simp_all add: update_def fresh_def matches_def rule_matches_def fill_def fill_rule_def)
  show ?thesis
  proof (cases "list_ex matches (pb_connections pb)")
    case True
    then show ?thesis
      by (simp add: add list_ex_update_first update_first_twice hits idem)
  next
    case False
    then show ?thesis
      by (simp add: add update_first_append hits idem)
  qed
qed

end
