(* ===== verification/Activation.thy ===== *)
theory Activation
  imports Patchbay Transaction
begin

text \<open>
  Activating a patchbay (\<^verbatim>\<open>crates/pw-graph-patchbay/src/activation.rs\<close>, \<^verbatim>\<open>error.rs\<close>):
  resolving the rules, exclusive cleanup, auto-disconnect, connecting, and the rollback of
  the whole activation. The mutable vectors \<^verbatim>\<open>created_by_activation\<close> and
  \<^verbatim>\<open>removed_by_activation\<close> and the report are the fields of \<open>activation\<close>.
\<close>

subsection \<open>Data\<close>

datatype patchbay_error =
  PE_Read string
| PE_Write string
| PE_Json string
| PE_Xml string
| PE_XmlWrite string
| PE_XmlAttributes
| PE_Backend backend_error
| PE_ActivationNotRolledBack string nat nat

fun show_patchbay_error :: "patchbay_error \<Rightarrow> string" where
  "show_patchbay_error (PE_Read e) = ''could not read patchbay file: '' @ e"
| "show_patchbay_error (PE_Write e) = ''could not write patchbay file: '' @ e"
| "show_patchbay_error (PE_Json e) = ''invalid patchbay JSON: '' @ e"
| "show_patchbay_error (PE_Xml e) = ''invalid patchbay XML: '' @ e"
| "show_patchbay_error (PE_XmlWrite e) = ''could not serialize patchbay XML: '' @ e"
| "show_patchbay_error PE_XmlAttributes = ''patchbay XML contains invalid attributes''"
| "show_patchbay_error (PE_Backend e) = show_backend_error e"
| "show_patchbay_error (PE_ActivationNotRolledBack cause created removed) =
     ''activation failed ('' @ cause @ ''); '' @ show_nat created
       @ '' created link(s) remain and '' @ show_nat removed
       @ '' removed link(s) could not be restored''"

record activation_report =
  ar_connected :: nat
  ar_already_present :: nat
  ar_disconnected :: nat
  ar_failed :: "string list"
  ar_waiting :: "string list"
  ar_ambiguous :: "string list"

definition activation_report_default :: activation_report where
  "activation_report_default =
     \<lparr>ar_connected = 0, ar_already_present = 0, ar_disconnected = 0, ar_failed = [],
      ar_waiting = [], ar_ambiguous = []\<rparr>"

record activation =
  act_report :: activation_report
  act_removed :: "key_pair list"
  act_created :: "key_pair list"

subsection \<open>Transactions\<close>

text \<open>
  The two loops of \<^verbatim>\<open>rollback_activation\<close> have the bodies of \<^verbatim>\<open>rollback_connects\<close> and
  \<^verbatim>\<open>rollback_disconnects\<close> of the commands.
\<close>

definition rollback_activation ::
  "'d driver \<Rightarrow> key_pair list \<Rightarrow> key_pair list \<Rightarrow> backend_error \<Rightarrow> 'd \<Rightarrow> patchbay_error \<times> 'd" where
  "rollback_activation drv created removed cause d =
     (let (created_left, d) = rollback_connects drv created d;
          (not_restored, d) = rollback_disconnects drv removed d in
      if created_left = 0 \<and> not_restored = 0 then (PE_Backend cause, d)
      else (PE_ActivationNotRolledBack (show_backend_error cause) created_left not_restored, d))"

definition record_activation_removal :: "key_pair \<Rightarrow> activation \<Rightarrow> activation" where
  "record_activation_removal k a =
     (if k \<in> set (act_created a) then a\<lparr>act_created := remove1 k (act_created a)\<rparr>
      else a\<lparr>act_removed := act_removed a @ [k]\<rparr>)"

text \<open>The loop over routes to take down, the same for exclusive cleanup and auto-disconnect.\<close>

fun remove_routes ::
  "'d driver \<Rightarrow> key_pair list \<Rightarrow> activation \<Rightarrow> 'd \<Rightarrow> (patchbay_error, activation) result \<times> 'd" where
  "remove_routes drv [] a d = (Inr a, d)"
| "remove_routes drv (k # ks) a d =
     (case disconnect_by_key_if_present_without_suppression drv (fst k) (snd k) d of
        (Inr (Some _), d) \<Rightarrow>
          remove_routes drv ks
            (record_activation_removal k
              (a\<lparr>act_report := (act_report a)
                   \<lparr>ar_disconnected := ar_disconnected (act_report a) + 1\<rparr>\<rparr>)) d
      | (Inr None, d) \<Rightarrow> remove_routes drv ks a d
      | (Inl e, d) \<Rightarrow>
          (let (err, d) = rollback_activation drv (act_created a) (act_removed a) e d
           in (Inl err, d)))"

subsection \<open>Activate\<close>

definition rule_message :: "nat \<Rightarrow> string \<Rightarrow> string" where
  "rule_message i detail = ''rule '' @ show_nat i @ '': '' @ detail"

fun resolve_rules ::
  "patchbay \<Rightarrow> graph \<Rightarrow> nat list \<Rightarrow> activation_report \<Rightarrow> key_pair list
    \<Rightarrow> activation_report \<times> key_pair list" where
  "resolve_rules pb g [] report resolved = (report, resolved)"
| "resolve_rules pb g (i # is) report resolved =
     (case resolve_rule pb g i of
        Resolved p q \<Rightarrow>
          (case stable_pair g p q of
             None \<Rightarrow> resolve_rules pb g is report resolved
           | Some k \<Rightarrow> resolve_rules pb g is report (resolved @ [k]))
      | WaitingForEndpoint detail \<Rightarrow>
          resolve_rules pb g is
            (report\<lparr>ar_waiting := ar_waiting report @ [rule_message i detail]\<rparr>) resolved
      | AmbiguousEndpoint detail \<Rightarrow>
          resolve_rules pb g is
            (report\<lparr>ar_ambiguous := ar_ambiguous report @ [rule_message i detail]\<rparr>) resolved)"

text \<open>Mutable links that end at the given input port.\<close>

definition stale_keys :: "'d driver \<Rightarrow> 'd \<Rightarrow> port_id \<Rightarrow> key_pair list" where
  "stale_keys drv d q =
     filter_map (\<lambda>l. stable_pair (drv_graph drv d) (output_port l) (input_port l))
       (filter (\<lambda>l. drv_is_link_mutable drv d (link_ident l))
         (filter (\<lambda>l. input_port l = q) (links_for_port (drv_graph drv d) q)))"

text \<open>Mutable links as keys: \<^verbatim>\<open>live\<close>.\<close>

definition live_keys :: "'d driver \<Rightarrow> 'd \<Rightarrow> key_pair list" where
  "live_keys drv d =
     filter_map (\<lambda>l. stable_pair (drv_graph drv d) (output_port l) (input_port l))
       (filter (\<lambda>l. drv_is_link_mutable drv d (link_ident l))
         (bt_values (g_links (drv_graph drv d))))"

definition count_present :: "activation \<Rightarrow> activation" where
  "count_present a =
     a\<lparr>act_report := (act_report a)
         \<lparr>ar_already_present := ar_already_present (act_report a) + 1\<rparr>\<rparr>"

definition connect_route ::
  "'d driver \<Rightarrow> key_pair \<Rightarrow> activation \<Rightarrow> 'd \<Rightarrow> (patchbay_error, activation) result \<times> 'd" where
  "connect_route drv k a d =
     (case connect_by_key_if_missing drv (fst k) (snd k) d of
        (Inr (Some _), d) \<Rightarrow>
          (Inr (a\<lparr>act_report := (act_report a)
                    \<lparr>ar_connected := ar_connected (act_report a) + 1\<rparr>,
                  act_created := act_created a @ [k]\<rparr>), d)
      | (Inr None, d) \<Rightarrow> (Inr (count_present a), d)
      | (Inl e, d) \<Rightarrow>
          (let (err, d) = rollback_activation drv (act_created a) (act_removed a) e d
           in (Inl err, d)))"

fun connect_routes ::
  "'d driver \<Rightarrow> bool \<Rightarrow> key_pair list \<Rightarrow> activation \<Rightarrow> 'd
    \<Rightarrow> (patchbay_error, activation) result \<times> 'd" where
  "connect_routes drv auto_disconnect [] a d = (Inr a, d)"
| "connect_routes drv auto_disconnect (k # ks) a d =
     (if find_link_by_keys (drv_graph drv d) (fst k) (snd k) \<noteq> None
      then connect_routes drv auto_disconnect ks (count_present a) d
      else if auto_disconnect then
        (case resolve_port_key (drv_graph drv d) (snd k) of
           None \<Rightarrow> connect_routes drv auto_disconnect ks a d
         | Some q \<Rightarrow>
             and_then (remove_routes drv (stale_keys drv d q) a d) (\<lambda>a d.
               and_then (connect_route drv k a d) (connect_routes drv auto_disconnect ks)))
      else and_then (connect_route drv k a d) (connect_routes drv auto_disconnect ks))"

text \<open>After the capability checks: the mutations.\<close>

definition exclusive_keys ::
  "'d driver \<Rightarrow> bool \<Rightarrow> activation_report \<Rightarrow> key_pair list \<Rightarrow> 'd \<Rightarrow> key_pair list" where
  "exclusive_keys drv exclusive report resolved d =
     (if exclusive \<and> ar_waiting report = [] \<and> ar_ambiguous report = []
      then filter (\<lambda>k. k \<notin> set resolved) (live_keys drv d) else [])"

definition activate_rules ::
  "'d driver \<Rightarrow> patchbay \<Rightarrow> bool \<Rightarrow> bool \<Rightarrow> 'd \<Rightarrow> (patchbay_error, activation_report) result \<times> 'd"
where
  "activate_rules drv pb exclusive auto_disconnect d =
    (let (report, resolved) =
           resolve_rules pb (drv_graph drv d) [0..<length (pb_connections pb)]
             activation_report_default [];
         start = \<lparr>act_report = report, act_removed = [], act_created = []\<rparr> in
     and_then (remove_routes drv (exclusive_keys drv exclusive report resolved d) start d) (\<lambda>a d.
       and_then (connect_routes drv auto_disconnect resolved a d) (\<lambda>a d. (Inr (act_report a), d))))"

definition activate ::
  "'d driver \<Rightarrow> patchbay \<Rightarrow> bool \<Rightarrow> bool \<Rightarrow> 'd \<Rightarrow> (patchbay_error, activation_report) result \<times> 'd"
where
  "activate drv pb exclusive auto_disconnect d =
    (case drv_refresh drv d of
       (Inl e, d) \<Rightarrow> (Inl (PE_Backend e), d)
     | (Inr _, d) \<Rightarrow>
       (let caps = drv_capabilities drv d in
        if pb_connections pb \<noteq> [] \<and> \<not> cap_connect caps then
          (Inr (activation_report_default\<lparr>ar_failed :=
             [''connection activation is not supported by this backend'']\<rparr>), d)
        else if (exclusive \<or> auto_disconnect) \<and> \<not> cap_disconnect caps then
          (Inr (activation_report_default\<lparr>ar_failed :=
             [''connection removal is not supported by this backend'']\<rparr>), d)
        else activate_rules drv pb exclusive auto_disconnect d))"

end
