(* ===== verification/Activation_Props.thy ===== *)
theory Activation_Props
  imports Activation
begin

text \<open>
  Activation is a transaction: in a stable driver its bookkeeping always suffices to rebuild
  the initial connections, so a failure that was rolled back changes nothing, and a success
  has exactly the effect of its removals and connections.
\<close>

text \<open>Keys captured from ports of \<open>g\<close>: they resolve to those ports or to nothing.\<close>

definition captured :: "graph \<Rightarrow> key_pair \<Rightarrow> bool" where
  "captured g k \<longleftrightarrow> (\<exists>p q. stable_pair g p q = Some k)"

lemma captured_pair:
  assumes "graph_wf g" "captured g k" "pair_of g k = Some pq"
  shows "stable_pair g (fst pq) (snd pq) = Some k"
proof -
  from assms(2) obtain p q where pq: "stable_pair g p q = Some k" by (auto simp: captured_def)
  from stable_pair_resolution [OF assms(1) this] assms(3) pq show ?thesis by simp
qed

lemma captured_pair_unique:
  assumes "graph_wf g" "captured g k" "captured g k'" "pair_of g k = Some pq" "pair_of g k' = Some pq"
  shows "k = k'"
  using captured_pair [OF assms(1,2,4)] captured_pair [OF assms(1,3,5)] by simp

lemma keys_pairs_remove1:
  assumes "graph_wf g" and "\<forall>k \<in> set ks. captured g k" and "distinct ks" and "k \<in> set ks"
    and "pair_of g k = Some pq"
  shows "keys_pairs g (remove1 k ks) = keys_pairs g ks - {pq}"
proof -
  have "set (remove1 k ks) = set ks - {k}" using assms(3) by simp
  then have "keys_pairs g (remove1 k ks) = {x. \<exists>k' \<in> set ks - {k}. pair_of g k' = Some x}"
    by (simp add: keys_pairs_def)
  also have "\<dots> = keys_pairs g ks - {pq}"
  proof (intro set_eqI iffI)
    fix x assume "x \<in> {x. \<exists>k' \<in> set ks - {k}. pair_of g k' = Some x}"
    then obtain k' where k': "k' \<in> set ks" "k' \<noteq> k" "pair_of g k' = Some x" by blast
    have "x \<noteq> pq"
      using captured_pair_unique [OF assms(1), of k' k pq] assms(2,4,5) k' by fastforce
    with k' show "x \<in> keys_pairs g ks - {pq}" by (auto simp: keys_pairs_def)
  next
    fix x assume "x \<in> keys_pairs g ks - {pq}"
    with assms(5) show "x \<in> {x. \<exists>k' \<in> set ks - {k}. pair_of g k' = Some x}"
      by (auto simp: keys_pairs_def)
  qed
  finally show ?thesis .
qed

text \<open>
  From the pairs \<open>B\<close> the bookkeeping leads back to \<open>A\<close>: take the created ones down, put the
  removed ones back.
\<close>

definition books :: "graph \<Rightarrow> (port_id \<times> port_id) set \<Rightarrow> (port_id \<times> port_id) set \<Rightarrow> activation \<Rightarrow> bool"
where
  "books g A B a \<longleftrightarrow>
     (\<forall>k \<in> set (act_created a). captured g k) \<and> distinct (act_created a)
     \<and> (\<forall>k \<in> set (act_created a). pair_of g k \<noteq> None)
     \<and> keys_pairs g (act_created a) \<subseteq> B
     \<and> B - keys_pairs g (act_created a) \<union> keys_pairs g (act_removed a) = A"

lemma books_report [simp]: "books g A B (a\<lparr>act_report := r\<rparr>) = books g A B a"
  by (simp add: books_def)

lemma books_removed:
  assumes "graph_wf g" and "books g A B a" and "captured g k" and "pair_of g k = Some pq" and "pq \<in> B"
  shows "books g A (B - {pq}) (record_activation_removal k a)"
proof (cases "k \<in> set (act_created a)")
  case True
  from assms(2) have "\<forall>k \<in> set (act_created a). captured g k" "distinct (act_created a)"
    by (simp_all add: books_def)
  note rest = keys_pairs_remove1 [OF assms(1) this True assms(4)]
  have "pq \<in> keys_pairs g (act_created a)" using True assms(4) by (auto simp: keys_pairs_def)
  then have "B - {pq} - (keys_pairs g (act_created a) - {pq}) = B - keys_pairs g (act_created a)"
    by blast
  with assms(2) True rest set_remove1_subset [of k "act_created a"] show ?thesis
    by (auto simp: books_def record_activation_removal_def)
next
  case False
  have new: "pq \<notin> keys_pairs g (act_created a)"
  proof
    assume "pq \<in> keys_pairs g (act_created a)"
    then obtain k' where k': "k' \<in> set (act_created a)" "pair_of g k' = Some pq"
      by (auto simp: keys_pairs_def)
    with assms(2) have "captured g k'" by (simp add: books_def)
    from captured_pair_unique [OF assms(1) this assms(3) k'(2) assms(4)] k'(1) False
    show False by simp
  qed
  with assms(2,5) have "pq \<in> A" "keys_pairs g (act_created a) \<subseteq> B - {pq}"
    by (auto simp: books_def)
  with assms(2,4) False show ?thesis
    by (auto simp: books_def record_activation_removal_def)
qed

lemma books_created:
  assumes "books g A B a" and "captured g k" and "pair_of g k = Some pq" and "pq \<notin> B"
  shows "books g A (insert pq B) (a\<lparr>act_created := act_created a @ [k]\<rparr>)"
proof -
  have "k \<notin> set (act_created a)" using assms by (auto simp: books_def keys_pairs_def)
  with assms show ?thesis by (auto simp: books_def)
qed

lemma captured_same_topology: "same_topology g h \<Longrightarrow> captured g k = captured h k"
  by (simp add: captured_def stable_pair_same_topology [of g h])

lemma keys_of_links_captured:
  "\<forall>k \<in> set (stale_keys drv d q). captured (drv_graph drv d) k"
  "\<forall>k \<in> set (live_keys drv d). captured (drv_graph drv d) k"
  by (auto simp: stale_keys_def live_keys_def set_filter_map captured_def)

lemma resolve_rules_captured:
  assumes "resolve_rules pb g is report ks = (report', ks')"
  shows "set ks' \<subseteq> set ks \<union> {k. captured g k}"
  using assms
proof (induction pb g "is" report ks rule: resolve_rules.induct)
  case (2 pb g i "is" report ks)
  then show ?case
    by (cases "resolve_rule pb g i") (fastforce simp: captured_def split: option.splits)+
qed simp

context stable_driver
begin

lemma rollback_activation_at:
  assumes "state_at g B d" and "books g A B a"
    and "rollback_activation drv (act_created a) (act_removed a) e d = (err, d')"
  shows "(\<exists>C. state_at g C d') \<and> (\<forall>b. err = PE_Backend b \<longrightarrow> state_at g A d')"
proof -
  obtain n1 d1 where r1: "rollback_connects drv (act_created a) d = (n1, d1)" by fastforce
  obtain n2 d2 where r2: "rollback_disconnects drv (act_removed a) d1 = (n2, d2)" by fastforce
  from rollback_connects_at [OF assms(1) r1] obtain C1 where c1: "state_at g C1 d1"
    "n1 = 0 \<longrightarrow> C1 = B - keys_pairs g (act_created a)" by blast
  from rollback_disconnects_at [OF c1(1) r2] obtain C2 where "state_at g C2 d2"
    "n2 = 0 \<longrightarrow> C2 = C1 \<union> keys_pairs g (act_removed a)" by blast
  with c1 assms(2,3) r1 r2 show ?thesis
    by (auto simp: rollback_activation_def books_def split: if_splits)
qed

definition activation_failed ::
  "graph \<Rightarrow> (port_id \<times> port_id) set \<Rightarrow> patchbay_error \<Rightarrow> 'd \<Rightarrow> bool" where
  "activation_failed g A err d \<longleftrightarrow>
     (\<exists>C. state_at g C d) \<and> (\<forall>b. err = PE_Backend b \<longrightarrow> state_at g A d)"

lemma remove_routes_at:
  assumes "graph_wf g" and "state_at g B d" and "books g A B a" and "\<forall>k \<in> set ks. captured g k"
    and "remove_routes drv ks a d = (r, d')"
  shows "case r of
      Inl err \<Rightarrow> activation_failed g A err d'
    | Inr a' \<Rightarrow> state_at g (B - keys_pairs g ks) d' \<and> books g A (B - keys_pairs g ks) a'
        \<and> (ks = [] \<longrightarrow> a' = a)"
  using assms(2-)
proof (induction ks arbitrary: a B d)
  case Nil
  then show ?case by auto
next
  case (Cons k ks)
  obtain dr d1 where
    step: "disconnect_by_key_if_present_without_suppression drv (fst k) (snd k) d = (dr, d1)"
    by fastforce
  note at = disconnect_quiet_at [OF Cons.prems(1) step]
  have tail: "\<forall>k \<in> set ks. captured g k" using Cons.prems(3) by simp
  consider (err) e where "dr = Inl e" | (none) "dr = Inr None" | (some) l where "dr = Inr (Some l)"
    by (cases dr; cases "projr dr") auto
  then show ?case
  proof cases
    case err
    obtain er d2 where roll: "rollback_activation drv (act_created a) (act_removed a) e d1 = (er, d2)"
      by fastforce
    from at err have "state_at g B d1" by simp
    from rollback_activation_at [OF this Cons.prems(2) roll] Cons.prems(4) step err roll
    show ?thesis by (auto simp: activation_failed_def)
  next
    case none
    with at have at1: "state_at g B d1" and dis: "set_option (pair_of g k) \<inter> B = {}"
      by (auto simp: Diff_triv Int_commute)
    from Cons.prems(4) step none have "remove_routes drv ks a d1 = (r, d')" by simp
    moreover have "B - keys_pairs g (k # ks) = B - keys_pairs g ks" using dis by auto
    ultimately show ?thesis
      using Cons.IH [OF at1 Cons.prems(2) tail] by (auto split: sum.splits)
  next
    case some
    with at obtain pq where pq: "pair_of g k = Some pq" "pq \<in> B" and at1: "state_at g (B - {pq}) d1"
      by (cases "pair_of g k") auto
    define a1 where "a1 = a\<lparr>act_report := (act_report a)
        \<lparr>ar_disconnected := ar_disconnected (act_report a) + 1\<rparr>\<rparr>"
    have "books g A B a1" using Cons.prems(2) by (simp add: a1_def)
    from books_removed [OF assms(1) this _ pq] Cons.prems(3)
    have books: "books g A (B - {pq}) (record_activation_removal k a1)" by simp
    from Cons.prems(4) step some
    have "remove_routes drv ks (record_activation_removal k a1) d1 = (r, d')"
      by (simp add: a1_def)
    moreover have "B - keys_pairs g (k # ks) = B - {pq} - keys_pairs g ks" using pq by auto
    ultimately show ?thesis
      using Cons.IH [OF at1 books tail] by (auto split: sum.splits)
  qed
qed

lemma connect_route_at:
  assumes "state_at g B d" and "books g A B a" and "captured g k"
    and "connect_route drv k a d = (r, d')"
  shows "case r of
      Inl err \<Rightarrow> activation_failed g A err d'
    | Inr a' \<Rightarrow> state_at g (B \<union> set_option (pair_of g k)) d'
        \<and> books g A (B \<union> set_option (pair_of g k)) a' \<and> pair_of g k \<noteq> None"
proof -
  obtain cr d1 where con: "connect_by_key_if_missing drv (fst k) (snd k) d = (cr, d1)" by fastforce
  note at = connect_at [OF assms(1) con]
  consider (err) e where "cr = Inl e" | (none) "cr = Inr None" | (some) l where "cr = Inr (Some l)"
    by (cases cr; cases "projr cr") auto
  then show ?thesis
  proof cases
    case err
    obtain er d2 where roll: "rollback_activation drv (act_created a) (act_removed a) e d1 = (er, d2)"
      by fastforce
    from at err have "state_at g B d1" by simp
    from rollback_activation_at [OF this assms(2) roll] assms(4) con err roll
    show ?thesis by (auto simp: activation_failed_def connect_route_def)
  next
    case none
    with at obtain pq where "pair_of g k = Some pq" "pq \<in> B" by auto
    with at none assms(2,4) con show ?thesis
      by (auto simp: connect_route_def count_present_def insert_absorb)
  next
    case some
    with at obtain pq where pq: "pair_of g k = Some pq" "pq \<notin> B" by auto
    define a1 where "a1 = a\<lparr>act_report := (act_report a)
        \<lparr>ar_connected := ar_connected (act_report a) + 1\<rparr>\<rparr>"
    have "books g A B a1" using assms(2) by (simp add: a1_def)
    from books_created [OF this assms(3) pq] at some assms(4) con pq show ?thesis
      by (auto simp: connect_route_def a1_def)
  qed
qed

text \<open>Making way for a rule and connecting it.\<close>

lemma connect_routes_at:
  assumes "graph_wf g" and "state_at g B d" and "books g A B a" and "\<forall>k \<in> set ks. captured g k"
    and "connect_routes drv auto ks a d = (r, d')"
  shows "case r of
      Inl err \<Rightarrow> activation_failed g A err d'
    | Inr a' \<Rightarrow> (\<exists>C. state_at g C d' \<and> books g A C a'
        \<and> (\<not> auto \<longrightarrow> C = B \<union> keys_pairs g ks \<and> (\<forall>k \<in> set ks. pair_of g k \<noteq> None)))"
  using assms(2-)
proof (induction ks arbitrary: a B d)
  case Nil
  then show ?case by auto
next
  case (Cons k ks)
  have k: "captured g k" and tail: "\<forall>k \<in> set ks. captured g k" using Cons.prems(3) by simp_all
  have connect: ?case
    if at: "state_at g B1 d1" and books: "books g A B1 a1" and same: "\<not> auto \<longrightarrow> B1 = B"
      and run: "and_then (connect_route drv k a1 d1) (connect_routes drv auto ks) = (r, d')"
    for B1 a1 d1
  proof -
    obtain cr d2 where con: "connect_route drv k a1 d1 = (cr, d2)" by fastforce
    note at2 = connect_route_at [OF at books k con]
    show ?thesis
    proof (cases cr)
      case (Inl e)
      with at2 run con show ?thesis by auto
    next
      case (Inr a2)
      with at2 have at3: "state_at g (B1 \<union> set_option (pair_of g k)) d2"
        and books3: "books g A (B1 \<union> set_option (pair_of g k)) a2" by auto
      from run con Inr have "connect_routes drv auto ks a2 d2 = (r, d')" by simp
      from at2 Inr have "pair_of g k \<noteq> None" by simp
      with Cons.IH [OF at3 books3 tail \<open>connect_routes drv auto ks a2 d2 = (r, d')\<close>] same
      show ?thesis by (auto split: sum.splits)
    qed
  qed
  consider (present) "find_link_by_keys (drv_graph drv d) (fst k) (snd k) \<noteq> None"
    | (gone) "find_link_by_keys (drv_graph drv d) (fst k) (snd k) = None" "auto"
        "resolve_port_key (drv_graph drv d) (snd k) = None"
    | (clear) q where "find_link_by_keys (drv_graph drv d) (fst k) (snd k) = None" "auto"
        "resolve_port_key (drv_graph drv d) (snd k) = Some q"
    | (direct) "find_link_by_keys (drv_graph drv d) (fst k) (snd k) = None" "\<not> auto"
    by blast
  then show ?case
  proof cases
    case present
    with state_atD [OF Cons.prems(1)] have sub: "set_option (pair_of g k) \<subseteq> B"
      and res: "pair_of g k \<noteq> None"
      using find_link_pair [of "drv_graph drv d" "fst k" "snd k"] by (cases "pair_of g k"; auto)+
    then have eq: "B \<union> keys_pairs g (k # ks) = B \<union> keys_pairs g ks" by auto
    have books: "books g A B (count_present a)" using Cons.prems(2) by (simp add: count_present_def)
    from Cons.prems(4) present have "connect_routes drv auto ks (count_present a) d = (r, d')"
      by simp
    from Cons.IH [OF Cons.prems(1) books tail this] res show ?thesis
      unfolding eq by (auto split: sum.splits)
  next
    case gone
    with Cons.prems(4) have "connect_routes drv auto ks a d = (r, d')" by simp
    from Cons.IH [OF Cons.prems(1,2) tail this] gone show ?thesis by (auto split: sum.splits)
  next
    case clear
    obtain rr d1 where rem: "remove_routes drv (stale_keys drv d q) a d = (rr, d1)" by fastforce
    have "\<forall>k \<in> set (stale_keys drv d q). captured g k"
      unfolding captured_same_topology [OF state_atD(2) [OF Cons.prems(1)]]
      by (rule keys_of_links_captured(1))
    note at1 = remove_routes_at [OF assms(1) Cons.prems(1,2) this rem]
    show ?thesis
    proof (cases rr)
      case (Inl e)
      with at1 clear rem Cons.prems(4) show ?thesis by auto
    next
      case (Inr a1)
      with clear rem Cons.prems(4)
      have run: "and_then (connect_route drv k a1 d1) (connect_routes drv auto ks) = (r, d')"
        by simp
      from at1 Inr have at2: "state_at g (B - keys_pairs g (stale_keys drv d q)) d1"
        and books2: "books g A (B - keys_pairs g (stale_keys drv d q)) a1" by simp_all
      from clear(2) show ?thesis by (intro connect [OF at2 books2 _ run]) simp
    qed
  next
    case direct
    with Cons.prems show ?thesis by (intro connect [of B d a]) auto
  qed
qed

lemma activate_rules_at:
  assumes "state_at g A d" and "graph_wf g"
    and "activate_rules drv pb exclusive auto d = (r, d')"
    and "resolve_rules pb (drv_graph drv d) [0..<length (pb_connections pb)]
      activation_report_default [] = (report, resolved)"
  shows "case r of
      Inl err \<Rightarrow> activation_failed g A err d'
    | Inr rep \<Rightarrow> (\<exists>C. state_at g C d' \<and> (\<not> auto \<longrightarrow>
        C = A - keys_pairs g (exclusive_keys drv exclusive report resolved d) \<union> keys_pairs g resolved
        \<and> (\<forall>k \<in> set resolved. pair_of g k \<noteq> None)))"
proof -
  let ?start = "\<lparr>act_report = report, act_removed = [], act_created = []\<rparr>"
  note topo = captured_same_topology [OF state_atD(2) [OF assms(1)]]
  have books: "books g A A ?start" by (simp add: books_def)
  have live: "\<forall>k \<in> set (exclusive_keys drv exclusive report resolved d). captured g k"
    using keys_of_links_captured(2) [of drv d] topo by (auto simp: exclusive_keys_def)
  have res: "\<forall>k \<in> set resolved. captured g k"
    using resolve_rules_captured [OF assms(4)] topo by auto
  obtain rr d1 where
    rem: "remove_routes drv (exclusive_keys drv exclusive report resolved d) ?start d = (rr, d1)"
    by fastforce
  note at1 = remove_routes_at [OF assms(2,1) books live rem]
  show ?thesis
  proof (cases rr)
    case (Inl e)
    with at1 rem assms(3,4) show ?thesis by (auto simp: activate_rules_def)
  next
    case (Inr a1)
    obtain cr d2 where con: "connect_routes drv auto resolved a1 d1 = (cr, d2)" by fastforce
    from rem Inr con assms(3,4) have r: "d' = d2" "r = (case cr of Inl e \<Rightarrow> Inl e
        | Inr a \<Rightarrow> Inr (act_report a))"
      by (cases cr; simp add: activate_rules_def)+
    from at1 Inr have at2: "state_at g (A - keys_pairs g
        (exclusive_keys drv exclusive report resolved d)) d1"
      and books2: "books g A (A - keys_pairs g
        (exclusive_keys drv exclusive report resolved d)) a1"
      by simp_all
    from connect_routes_at [OF assms(2) at2 books2 res con] show ?thesis
      unfolding r by (cases cr) auto
  qed
qed

lemma activate_error:
  assumes "ok d" and "activate drv pb exclusive auto d = (Inl err, d')"
  shows "activation_failed (drv_graph drv d) (link_pairs (drv_graph drv d)) err d'"
proof -
  let ?g = "drv_graph drv d"
  obtain rr d1 where ref: "drv_refresh drv d = (rr, d1)" by fastforce
  note at1 = refresh_at [OF state_at_here [OF assms(1)] ref]
  obtain report resolved where rules: "resolve_rules pb (drv_graph drv d1)
      [0..<length (pb_connections pb)] activation_report_default [] = (report, resolved)"
    by fastforce
  show ?thesis
  proof (cases "activate_rules drv pb exclusive auto d1 = (Inl err, d')")
    case True
    from activate_rules_at [OF at1 graph_law [OF assms(1)] True rules] show ?thesis by simp
  next
    case False
    with assms(2) ref at1 show ?thesis
      by (auto simp: activate_def activation_failed_def Let_def split: sum.splits if_splits)
  qed
qed

end

subsection \<open>What the loops leave alone\<close>

definition same_findings :: "activation \<Rightarrow> activation \<Rightarrow> bool" where
  "same_findings a b \<longleftrightarrow>
     ar_waiting (act_report a) = ar_waiting (act_report b)
     \<and> ar_ambiguous (act_report a) = ar_ambiguous (act_report b)"

lemma remove_routes_findings:
  "remove_routes drv ks a d = (Inr a', d') \<Longrightarrow> same_findings a' a"
proof (induction ks arbitrary: a d)
  case (Cons k ks)
  then show ?case
    by (auto simp: Let_def same_findings_def record_activation_removal_def
        split: prod.splits sum.splits option.splits if_splits)
qed (simp add: same_findings_def)

lemma connect_route_findings:
  "connect_route drv k a d = (Inr a', d') \<Longrightarrow> same_findings a' a"
  by (auto simp: connect_route_def same_findings_def count_present_def
      split: prod.splits sum.splits option.splits)

lemma connect_routes_findings:
  "connect_routes drv auto ks a d = (Inr a', d') \<Longrightarrow> same_findings a' a"
proof (induction ks arbitrary: "auto" a d)
  case (Cons k ks)
  from Cons.prems show ?case
    by (auto simp: and_then_def same_findings_def count_present_def
        split: if_splits option.splits prod.splits sum.splits
        dest!: Cons.IH remove_routes_findings connect_route_findings)
qed (simp add: same_findings_def)

text \<open>A rule resolves the same way wherever the nodes are placed and whatever is linked.\<close>

lemma resolve_rule_same_topology:
  assumes "same_topology g h"
  shows "resolve_rule pb g i = resolve_rule pb h i"
proof -
  have ends: "resolve_endpoint g = resolve_endpoint h"
    using assms score_candidate_same_topology [OF assms]
    by (intro ext) (simp add: resolve_endpoint_def candidates_def same_topology_def)
  have ports: "graph_port g = graph_port h"
    using assms by (intro ext) (simp add: graph_port_def same_topology_def)
  show ?thesis
    unfolding resolve_rule_def resolve_connection_def resolve_numeric_def resolve_selector_def
      ends ports ..
qed

lemma resolve_rules_same_topology:
  "same_topology g h \<Longrightarrow> resolve_rules pb g is report ks = resolve_rules pb h is report ks"
proof (induction pb g "is" report ks rule: resolve_rules.induct)
  case (2 pb g i "is" report ks)
  then show ?case
    by (auto simp: resolve_rule_same_topology [of g h] stable_pair_same_topology [of g h]
        split: patchbay_resolution.split option.split)
qed simp

lemma resolve_rules_counts:
  "resolve_rules pb g is report ks = (report', ks') \<Longrightarrow>
    ar_connected report' = ar_connected report \<and> ar_disconnected report' = ar_disconnected report"
  by (induction pb g "is" report ks rule: resolve_rules.induct)
     (auto split: patchbay_resolution.splits option.splits)

text \<open>Routes that are all present are only counted.\<close>

lemma connect_routes_present:
  "\<forall>k \<in> set ks. find_link_by_keys (drv_graph drv d) (fst k) (snd k) \<noteq> None \<Longrightarrow>
    \<exists>a'. connect_routes drv auto ks a d = (Inr a', d)
      \<and> ar_connected (act_report a') = ar_connected (act_report a)
      \<and> ar_disconnected (act_report a') = ar_disconnected (act_report a)"
proof (induction ks arbitrary: a)
  case (Cons k ks)
  then show ?case using Cons.IH [of "count_present a"] by (simp add: count_present_def)
qed simp

subsection \<open>The demo backend\<close>

text \<open>
  C4: on the in-memory demo driver, a patchbay activation that fails with the backend's own
  error, in any mode and at any point, has been rolled back: the nodes, the ports and the
  connected pairs are as before. (The composite backend is not meant.)
\<close>

theorem failed_activation_restores:
  assumes "demo_ok d" and "activate demo_driver pb exclusive auto d = (Inl (PE_Backend e), d')"
  shows "demo_ok d' \<and> same_topology (demo_graph d) (demo_graph d')
    \<and> link_pairs (demo_graph d') = link_pairs (demo_graph d)"
  using demo.activate_error [OF assms]
  by (auto simp: demo.activation_failed_def demo.state_at_def graph_after_def)

text \<open>One link live, another saved as a rule, a third one refused.\<close>

definition stereo_patchbay :: patchbay where
  "stereo_patchbay =
     snapshot_graph
       (demo_graph (snd (demo_connect (PortId 1) (PortId 3)
          (snd (demo_connect (PortId 2) (PortId 4) demo_demo)))))
       False (patchbay_new ''stereo'')"

definition midi_demo :: demo where
  "midi_demo = snd (demo_connect (PortId 5) (PortId 6) demo_demo)"

theorem failed_activation_restores_witness:
  "\<exists>d'. activate demo_driver stereo_patchbay True False
      (fail_connect_of (PortId 2) (PortId 4) midi_demo)
      = (Inl (PE_Backend (BE_Native ''connect refused by the test driver'')), d')
    \<and> link_pairs (demo_graph d') = link_pairs (demo_graph midi_demo)"
proof -
  let ?d = "fail_connect_of (PortId 2) (PortId 4) midi_demo"
  obtain r d' where run: "activate demo_driver stereo_patchbay True False ?d = (r, d')" by fastforce
  have "fst (activate demo_driver stereo_patchbay True False ?d)
      = Inl (PE_Backend (BE_Native ''connect refused by the test driver''))"
    by code_simp
  with run have r: "r = Inl (PE_Backend (BE_Native ''connect refused by the test driver''))" by simp
  have g: "demo_graph ?d = demo_graph midi_demo" by (simp add: fail_connect_of_def Let_def)
  then have "demo_ok ?d" using connect_keeps_ok [OF demo_demo_ok] by (simp add: midi_demo_def demo_ok_def)
  from failed_activation_restores [OF this run [unfolded r]] run r g show ?thesis by simp
qed

text \<open>
  The routes an exclusive activation takes down: the mutable links whose key resolves and is
  not that of a rule, and none while a rule is unresolved.
\<close>

definition unsaved_pairs ::
  "bool \<Rightarrow> activation_report \<Rightarrow> key_pair list \<Rightarrow> demo \<Rightarrow> (port_id \<times> port_id) set" where
  "unsaved_pairs exclusive report resolved d =
     {(output_port l, input_port l) | l.
        exclusive \<and> ar_waiting report = [] \<and> ar_ambiguous report = []
        \<and> l \<in> set (bt_values (g_links (demo_graph d))) \<and> demo_is_link_mutable d (link_ident l)
        \<and> (\<exists>k. stable_pair (demo_graph d) (output_port l) (input_port l) = Some k
             \<and> pair_of (demo_graph d) k \<noteq> None \<and> k \<notin> set resolved)}"

lemma exclusive_pairs:
  assumes "graph_wf (demo_graph d)"
  shows "keys_pairs (demo_graph d) (exclusive_keys demo_driver exclusive report resolved d)
    = unsaved_pairs exclusive report resolved d"
proof (cases "exclusive \<and> ar_waiting report = [] \<and> ar_ambiguous report = []")
  case True
  let ?g = "demo_graph d"
  have "(\<exists>k \<in> set (exclusive_keys demo_driver exclusive report resolved d). pair_of ?g k = Some pq)
    \<longleftrightarrow> (\<exists>l k. l \<in> set (bt_values (g_links ?g)) \<and> demo_is_link_mutable d (link_ident l)
          \<and> stable_pair ?g (output_port l) (input_port l) = Some k \<and> k \<notin> set resolved
          \<and> pair_of ?g k = Some pq)" for pq
    using True by (auto simp: exclusive_keys_def live_keys_def set_filter_map)
  moreover have "pair_of ?g k = Some pq \<longleftrightarrow> pair_of ?g k \<noteq> None \<and> pq = (output_port l, input_port l)"
    if "stable_pair ?g (output_port l) (input_port l) = Some k" for pq k l
    using stable_pair_resolution [OF assms that] by auto
  ultimately show ?thesis
    using True unfolding keys_pairs_def unsaved_pairs_def by blast
next
  case False
  then show ?thesis by (auto simp: keys_pairs_def exclusive_keys_def unsaved_pairs_def)
qed

text \<open>
  C5: what a successful activation without auto-disconnect does on the in-memory demo driver:
  the connected pairs afterwards are the ones before, and with every resolved rule; and when
  the activation is exclusive and every rule resolved, without the mutable links whose pair
  of port keys resolves and is named by no rule (a link whose keys do not resolve stays).
\<close>

theorem activation_effect:
  assumes "demo_ok d" and "activate demo_driver pb exclusive False d = (Inr rep, d')"
    and "resolve_rules pb (demo_graph d) [0..<length (pb_connections pb)]
      activation_report_default [] = (report, resolved)"
  shows "link_pairs (demo_graph d') =
    link_pairs (demo_graph d) - unsaved_pairs exclusive report resolved d
    \<union> keys_pairs (demo_graph d) resolved"
proof -
  from assms(2) have run: "activate_rules demo_driver pb exclusive False d = (Inr rep, d')"
    by (simp add: activate_def demo_refresh_def demo_capabilities_def)
  have "graph_wf (demo_graph d)" using assms(1) by (simp add: demo_ok_def)
  note pairs = exclusive_pairs [OF this, of exclusive report resolved]
  from demo.activate_rules_at [OF demo.state_at_here [OF assms(1)] _ run] assms(1,3)
  show ?thesis unfolding pairs [symmetric] by (auto simp: demo_ok_def demo.state_at_def graph_after_def)
qed

theorem activation_effect_witness:
  "\<exists>rep d' report resolved. activate demo_driver stereo_patchbay True False midi_demo = (Inr rep, d')
    \<and> length (exclusive_keys demo_driver True report resolved midi_demo) = 1 \<and> length resolved = 2
    \<and> link_pairs (demo_graph d') = link_pairs (demo_graph midi_demo)
        - unsaved_pairs True report resolved midi_demo
      \<union> keys_pairs (demo_graph midi_demo) resolved"
proof -
  obtain r d' where run: "activate demo_driver stereo_patchbay True False midi_demo = (r, d')"
    by fastforce
  obtain report resolved where rules: "resolve_rules stereo_patchbay (demo_graph midi_demo)
      [0..<length (pb_connections stereo_patchbay)] activation_report_default [] = (report, resolved)"
    by fastforce
  have "is_ok (fst (activate demo_driver stereo_patchbay True False midi_demo))" by code_simp
  with run obtain rep where r: "r = Inr rep" by (cases r) auto
  have "(\<lambda>(report, resolved). length (exclusive_keys demo_driver True report resolved midi_demo) = 1
      \<and> length resolved = 2)
    (resolve_rules stereo_patchbay (demo_graph midi_demo)
      [0..<length (pb_connections stereo_patchbay)] activation_report_default [])"
    by code_simp
  with rules have "length (exclusive_keys demo_driver True report resolved midi_demo) = 1"
    "length resolved = 2" by simp_all
  moreover have "demo_ok midi_demo" by (simp add: midi_demo_def connect_keeps_ok demo_demo_ok)
  ultimately show ?thesis
    using activation_effect [OF _ run [unfolded r] rules] run r by blast
qed

text \<open>The run behind a successful activation of the demo backend.\<close>

lemma demo_activate_run:
  assumes "activate demo_driver pb exclusive auto d = (Inr rep, d')"
    and "resolve_rules pb (demo_graph d) [0..<length (pb_connections pb)]
      activation_report_default [] = (report, resolved)"
  shows "\<exists>a1 d1 a2. remove_routes demo_driver (exclusive_keys demo_driver exclusive report resolved d)
        \<lparr>act_report = report, act_removed = [], act_created = []\<rparr> d = (Inr a1, d1)
    \<and> connect_routes demo_driver auto resolved a1 d1 = (Inr a2, d') \<and> rep = act_report a2"
proof -
  from assms have "and_then (remove_routes demo_driver (exclusive_keys demo_driver exclusive report resolved d)
        \<lparr>act_report = report, act_removed = [], act_created = []\<rparr> d)
      (\<lambda>a d. and_then (connect_routes demo_driver auto resolved a d) (\<lambda>a d. (Inr (act_report a), d)))
      = (Inr rep, d')"
    by (simp add: activate_def demo_refresh_def demo_capabilities_def activate_rules_def)
  then show ?thesis
    unfolding and_then_def by (auto split: prod.splits sum.splits)
qed

text \<open>
  While any rule is waiting for an endpoint or ambiguous, even an exclusive activation
  removes nothing: every connected pair is still connected.
\<close>

lemma unresolved_rule_keeps_links:
  assumes "demo_ok d" and "activate demo_driver pb exclusive False d = (Inr rep, d')"
    and "ar_waiting rep \<noteq> [] \<or> ar_ambiguous rep \<noteq> []"
  shows "link_pairs (demo_graph d) \<subseteq> link_pairs (demo_graph d')"
proof -
  obtain report resolved where rules: "resolve_rules pb (demo_graph d)
      [0..<length (pb_connections pb)] activation_report_default [] = (report, resolved)"
    by fastforce
  from demo_activate_run [OF assms(2) rules] obtain a1 d1 a2 where
    "remove_routes demo_driver (exclusive_keys demo_driver exclusive report resolved d)
        \<lparr>act_report = report, act_removed = [], act_created = []\<rparr> d = (Inr a1, d1)"
    "connect_routes demo_driver False resolved a1 d1 = (Inr a2, d')" "rep = act_report a2"
    by blast
  then have "ar_waiting rep = ar_waiting report \<and> ar_ambiguous rep = ar_ambiguous report"
    by (auto dest!: remove_routes_findings connect_routes_findings simp: same_findings_def)
  with assms(3) have none: "exclusive_keys demo_driver exclusive report resolved d = []"
    by (auto simp: exclusive_keys_def)
  from assms(2) have run: "activate_rules demo_driver pb exclusive False d = (Inr rep, d')"
    by (simp add: activate_def demo_refresh_def demo_capabilities_def)
  from demo.activate_rules_at [OF demo.state_at_here [OF assms(1)] _ run] assms(1) rules none
  show ?thesis by (auto simp: demo_ok_def demo.state_at_def graph_after_def)
qed

definition waiting_patchbay :: patchbay where
  "waiting_patchbay =
     stereo_patchbay\<lparr>pb_connections := pb_connections stereo_patchbay
       @ [patch_connection_default\<lparr>pc_output_port := PortId 77\<rparr>]\<rparr>"

text \<open>
  Activation is idempotent: activating the same patchbay again, without removals, finds
  every route present, succeeds, connects nothing and leaves the driver untouched.
\<close>

lemma activation_idempotent:
  assumes "demo_ok d" and "activate demo_driver pb False False d = (Inr rep, d')"
  shows "\<exists>rep'. activate demo_driver pb False False d' = (Inr rep', d')
    \<and> ar_connected rep' = 0 \<and> ar_disconnected rep' = 0"
proof -
  let ?is = "[0..<length (pb_connections pb)]"
  obtain report resolved where rules: "resolve_rules pb (demo_graph d) ?is
      activation_report_default [] = (report, resolved)"
    by fastforce
  from assms(2) have run: "activate_rules demo_driver pb False False d = (Inr rep, d')"
    by (simp add: activate_def demo_refresh_def demo_capabilities_def)
  from demo.activate_rules_at [OF demo.state_at_here [OF assms(1)] _ run] assms(1) rules
  have after: "demo.state_at (demo_graph d) (link_pairs (demo_graph d')) d'"
    and all: "keys_pairs (demo_graph d) resolved \<subseteq> link_pairs (demo_graph d')"
    and ends: "\<forall>k \<in> set resolved. pair_of (demo_graph d) k \<noteq> None"
    by (auto simp: demo_ok_def exclusive_keys_def demo.state_at_def graph_after_def)
  have topo: "same_topology (demo_graph d) (demo_graph d')"
    and pairs: "pair_of (demo_graph d') = pair_of (demo_graph d)"
    using demo.state_atD(2,4) [OF after] by simp_all
  have "find_link_by_keys (demo_graph d') (fst k) (snd k) \<noteq> None" if k: "k \<in> set resolved" for k
    using all ends k unfolding find_link_pair pairs by (fastforce simp: keys_pairs_def)
  then obtain a' where "connect_routes demo_driver False resolved
      \<lparr>act_report = report, act_removed = [], act_created = []\<rparr> d' = (Inr a', d')"
    "ar_connected (act_report a') = ar_connected report"
    "ar_disconnected (act_report a') = ar_disconnected report"
    using connect_routes_present [of resolved demo_driver d' False
        "\<lparr>act_report = report, act_removed = [], act_created = []\<rparr>"] by auto
  moreover have "ar_connected report = 0" "ar_disconnected report = 0"
    using resolve_rules_counts [OF rules] by (simp_all add: activation_report_default_def)
  ultimately show ?thesis
    using rules resolve_rules_same_topology [OF topo]
    by (auto simp: activate_def demo_refresh_def demo_capabilities_def activate_rules_def
        exclusive_keys_def)
qed

end
