(* ===== verification/Reconciler.thy ===== *)
theory Reconciler
  imports Activation
begin

text \<open>
  The debounced reconciler of an activated patchbay
  (\<^verbatim>\<open>crates/pw-graph-patchbay/src/reconciler.rs\<close>): scheduling, bounded retries, exclusive
  cleanup and the pass over the rules. An \<^verbatim>\<open>Instant\<close> is a number of nanoseconds of a
  monotonic clock; the \<^verbatim>\<open>usize\<close> keys of the retry state are integers.
\<close>

subsection \<open>Data\<close>

datatype reconcile_status = Satisfied | WaitingStatus | AmbiguousStatus | Retrying | Failed

fun status_label :: "reconcile_status \<Rightarrow> string" where
  "status_label Satisfied = ''Satisfied''"
| "status_label WaitingStatus = ''Waiting for endpoint''"
| "status_label AmbiguousStatus = ''Ambiguous''"
| "status_label Retrying = ''Retrying''"
| "status_label Failed = ''Failed''"

record rule_status =
  rs_rule_index :: int
  rs_status :: reconcile_status
  rs_detail :: string

record reconcile_report =
  rp_connected :: nat
  rp_already_present :: nat
  rp_disconnected :: nat
  rp_rules :: "rule_status list"
  rp_warnings :: "string list"

definition reconcile_report_default :: reconcile_report where
  "reconcile_report_default =
     \<lparr>rp_connected = 0, rp_already_present = 0, rp_disconnected = 0, rp_rules = [],
      rp_warnings = []\<rparr>"

type_synonym instant = int

definition millis :: "int \<Rightarrow> int" where
  "millis n = n * 1000000"

record retry_state =
  rt_attempts :: u8
  rt_next_retry :: instant

record reconciler =
  rc_pending :: bool
  rc_next_run :: "instant option"
  rc_last_graph_generation :: u64
  rc_retry_state :: "(int, retry_state) btree"
  rc_last_report :: reconcile_report
  rc_debounce :: int

subsection \<open>Scheduling\<close>

definition reconciler_new :: reconciler where
  "reconciler_new =
     \<lparr>rc_pending = False, rc_next_run = None, rc_last_graph_generation = 0, rc_retry_state = [],
      rc_last_report = reconcile_report_default, rc_debounce = millis 100\<rparr>"

definition mark_dirty :: "instant \<Rightarrow> reconciler \<Rightarrow> reconciler" where
  "mark_dirty now rc =
     rc\<lparr>rc_pending := True, rc_retry_state := [], rc_next_run := Some (now + rc_debounce rc)\<rparr>"

definition schedule_now :: "instant \<Rightarrow> reconciler \<Rightarrow> reconciler" where
  "schedule_now now rc = rc\<lparr>rc_pending := True, rc_retry_state := [], rc_next_run := Some now\<rparr>"

definition deactivate :: "reconciler \<Rightarrow> reconciler" where
  "deactivate rc = rc\<lparr>rc_pending := False, rc_next_run := None, rc_retry_state := []\<rparr>"

text \<open>The key of the retry state that belongs to no rule: \<^verbatim>\<open>usize::MAX\<close>.\<close>

definition control_plane :: int where
  "control_plane = 2 ^ 64 - 1"

definition next_attempts :: "u8 \<Rightarrow> u8" where
  "next_attempts a = min (if a = 255 then 255 else a + 1) 6"

definition retry_delay :: "u8 \<Rightarrow> int" where
  "retry_delay a = millis (uint (push_bit (unat (min a 5)) (100 :: u64)))"

definition attempts_so_far :: "reconciler \<Rightarrow> int \<Rightarrow> u8" where
  "attempts_so_far rc i =
     (case bt_get (rc_retry_state rc) i of None \<Rightarrow> 0 | Some s \<Rightarrow> rt_attempts s)"

definition retry_status ::
  "int \<Rightarrow> instant \<Rightarrow> string \<Rightarrow> reconciler \<Rightarrow> rule_status \<times> reconciler" where
  "retry_status i now error rc =
    (let attempts = next_attempts (attempts_so_far rc i);
         next_retry = now + retry_delay attempts;
         rc = rc\<lparr>rc_retry_state := bt_insert i
               \<lparr>rt_attempts = attempts, rt_next_retry = next_retry\<rparr> (rc_retry_state rc)\<rparr>;
         rc = (if attempts < 6
               then rc\<lparr>rc_pending := True,
                      rc_next_run := Some (case rc_next_run rc of
                          None \<Rightarrow> next_retry | Some current \<Rightarrow> min current next_retry)\<rparr>
               else rc)
     in (\<lparr>rs_rule_index = i, rs_status = (if 6 \<le> attempts then Failed else Retrying),
          rs_detail = error\<rparr>, rc))"

subsection \<open>One pass\<close>

definition add_rule :: "rule_status \<Rightarrow> reconcile_report \<Rightarrow> reconcile_report" where
  "add_rule s rp = rp\<lparr>rp_rules := rp_rules rp @ [s]\<rparr>"

definition retry_rule ::
  "int \<Rightarrow> instant \<Rightarrow> string \<Rightarrow> reconcile_report \<Rightarrow> reconciler \<Rightarrow> reconcile_report \<times> reconciler" where
  "retry_rule i now error rp rc =
     (let (s, rc) = retry_status i now error rc in (add_rule s rp, rc))"

fun reconcile_resolve ::
  "patchbay \<Rightarrow> graph \<Rightarrow> nat list \<Rightarrow> reconcile_report \<Rightarrow> (nat \<times> port_id \<times> port_id) list \<Rightarrow> bool
    \<Rightarrow> reconcile_report \<times> (nat \<times> port_id \<times> port_id) list \<times> bool" where
  "reconcile_resolve pb g [] rp resolved all_resolved = (rp, resolved, all_resolved)"
| "reconcile_resolve pb g (i # is) rp resolved all_resolved =
     (case resolve_rule pb g i of
        Resolved p q \<Rightarrow> reconcile_resolve pb g is rp (resolved @ [(i, p, q)]) all_resolved
      | WaitingForEndpoint detail \<Rightarrow>
          reconcile_resolve pb g is
            (add_rule \<lparr>rs_rule_index = int i, rs_status = WaitingStatus, rs_detail = detail\<rparr> rp)
            resolved False
      | AmbiguousEndpoint detail \<Rightarrow>
          reconcile_resolve pb g is
            (add_rule \<lparr>rs_rule_index = int i, rs_status = AmbiguousStatus, rs_detail = detail\<rparr> rp)
            resolved False)"

definition warn_retry :: "string \<Rightarrow> rule_status \<Rightarrow> string" where
  "warn_retry what s = what @ '': '' @ rs_detail s @ '' ('' @ status_label (rs_status s) @ '')''"

text \<open>Exclusive cleanup: the loop over the live routes that are not desired, ended by an error.\<close>

fun cleanup_loop ::
  "'d driver \<Rightarrow> instant \<Rightarrow> key_pair list \<Rightarrow> reconcile_report \<Rightarrow> reconciler \<Rightarrow> 'd
    \<Rightarrow> bool \<times> reconcile_report \<times> reconciler \<times> 'd" where
  "cleanup_loop drv now [] rp rc d = (False, rp, rc, d)"
| "cleanup_loop drv now (k # ks) rp rc d =
     (case disconnect_by_key_if_present_without_suppression drv (fst k) (snd k) d of
        (Inr (Some _), d) \<Rightarrow>
          cleanup_loop drv now ks (rp\<lparr>rp_disconnected := rp_disconnected rp + 1\<rparr>) rc d
      | (Inr None, d) \<Rightarrow> cleanup_loop drv now ks rp rc d
      | (Inl e, d) \<Rightarrow>
          (let (retry, rc) = retry_status control_plane now (show_backend_error e) rc
           in (True, rp\<lparr>rp_warnings := rp_warnings rp @ [warn_retry ''exclusive cleanup'' retry]\<rparr>,
               rc, d)))"

definition exclusive_cleanup ::
  "'d driver \<Rightarrow> instant \<Rightarrow> (nat \<times> port_id \<times> port_id) list \<Rightarrow> reconcile_report \<Rightarrow> reconciler \<Rightarrow> 'd
    \<Rightarrow> reconcile_report \<times> reconciler \<times> 'd" where
  "exclusive_cleanup drv now resolved rp rc d =
    (let desired = filter_map (\<lambda>(_, p, q). stable_pair (drv_graph drv d) p q) resolved in
     if length desired = length resolved then
       (let (failed, rp, rc, d) =
              cleanup_loop drv now (filter (\<lambda>k. k \<notin> set desired) (live_keys drv d)) rp rc d in
        if failed then (rp, rc, d)
        else (rp, rc\<lparr>rc_retry_state := bt_remove control_plane (rc_retry_state rc)\<rparr>, d))
     else (rp, rc, d))"

text \<open>Auto-disconnect: an error ends the rule (\<open>True\<close>).\<close>

fun reconcile_stale ::
  "'d driver \<Rightarrow> int \<Rightarrow> instant \<Rightarrow> key_pair list \<Rightarrow> reconcile_report \<Rightarrow> reconciler \<Rightarrow> 'd
    \<Rightarrow> bool \<times> reconcile_report \<times> reconciler \<times> 'd" where
  "reconcile_stale drv i now [] rp rc d = (False, rp, rc, d)"
| "reconcile_stale drv i now (k # ks) rp rc d =
     (case disconnect_by_key_if_present_without_suppression drv (fst k) (snd k) d of
        (Inl e, d) \<Rightarrow>
          (let (rp, rc) = retry_rule i now (show_backend_error e) rp rc in (True, rp, rc, d))
      | (Inr _, d) \<Rightarrow>
          reconcile_stale drv i now ks (rp\<lparr>rp_disconnected := rp_disconnected rp + 1\<rparr>) rc d)"

definition satisfied :: "int \<Rightarrow> string \<Rightarrow> reconcile_report \<Rightarrow> reconciler \<Rightarrow> reconcile_report \<times> reconciler"
where
  "satisfied i detail rp rc =
     (add_rule \<lparr>rs_rule_index = i, rs_status = Satisfied, rs_detail = detail\<rparr> rp,
      rc\<lparr>rc_retry_state := bt_remove i (rc_retry_state rc)\<rparr>)"

definition reconcile_connect ::
  "'d driver \<Rightarrow> int \<Rightarrow> instant \<Rightarrow> key_pair \<Rightarrow> reconcile_report \<Rightarrow> reconciler \<Rightarrow> 'd
    \<Rightarrow> reconcile_report \<times> reconciler \<times> 'd" where
  "reconcile_connect drv i now k rp rc d =
    (case connect_by_key_if_missing drv (fst k) (snd k) d of
       (Inr (Some _), d) \<Rightarrow>
         (let (rp, rc) = satisfied i ''route connected''
                (rp\<lparr>rp_connected := rp_connected rp + 1\<rparr>) rc in (rp, rc, d))
     | (Inr None, d) \<Rightarrow>
         (let (rp, rc) = satisfied i ''route appeared during reconciliation''
                (rp\<lparr>rp_already_present := rp_already_present rp + 1\<rparr>) rc in (rp, rc, d))
     | (Inl e, d) \<Rightarrow>
         (let (rp, rc) = retry_rule i now (show_backend_error e) rp rc in (rp, rc, d)))"

definition reconcile_route ::
  "'d driver \<Rightarrow> bool \<Rightarrow> int \<Rightarrow> instant \<Rightarrow> key_pair \<Rightarrow> reconcile_report \<Rightarrow> reconciler \<Rightarrow> 'd
    \<Rightarrow> reconcile_report \<times> reconciler \<times> 'd" where
  "reconcile_route drv auto_disconnect i now k rp rc d =
    (if find_link_by_keys (drv_graph drv d) (fst k) (snd k) \<noteq> None then
       (let (rp, rc) = satisfied i ''route already present''
              (rp\<lparr>rp_already_present := rp_already_present rp + 1\<rparr>) rc in (rp, rc, d))
     else if auto_disconnect then
       (case resolve_port_key (drv_graph drv d) (snd k) of
          None \<Rightarrow>
            (let (rp, rc) = retry_rule i now
                   ''destination port disappeared before auto-disconnect'' rp rc in (rp, rc, d))
        | Some q \<Rightarrow>
          (let (failed, rp, rc, d) = reconcile_stale drv i now (stale_keys drv d q) rp rc d in
           if failed then (rp, rc, d) else reconcile_connect drv i now k rp rc d))
     else reconcile_connect drv i now k rp rc d)"

definition reconcile_rule ::
  "'d driver \<Rightarrow> bool \<Rightarrow> instant \<Rightarrow> nat \<times> port_id \<times> port_id
    \<Rightarrow> reconcile_report \<times> reconciler \<times> 'd \<Rightarrow> reconcile_report \<times> reconciler \<times> 'd" where
  "reconcile_rule drv auto_disconnect now rule st =
    (case rule of (n, p, q) \<Rightarrow> case st of (rp, rc, d) \<Rightarrow> let i = int n in
     if (case bt_get (rc_retry_state rc) i of None \<Rightarrow> False | Some s \<Rightarrow> now < rt_next_retry s)
     then (add_rule \<lparr>rs_rule_index = i, rs_status = Retrying,
                     rs_detail = ''waiting for the next bounded retry''\<rparr> rp, rc, d)
     else
     (case graph_port_key (drv_graph drv d) p of
        None \<Rightarrow>
          (let (rp, rc) = retry_rule i now ''source port disappeared during reconciliation'' rp rc
           in (rp, rc, d))
      | Some out \<Rightarrow>
      (case graph_port_key (drv_graph drv d) q of
         None \<Rightarrow>
           (let (rp, rc) = retry_rule i now
                  ''destination port disappeared during reconciliation'' rp rc in (rp, rc, d))
       | Some inp \<Rightarrow> reconcile_route drv auto_disconnect i now (out, inp) rp rc d)))"

definition reconcile_pass ::
  "'d driver \<Rightarrow> patchbay \<Rightarrow> bool \<Rightarrow> bool \<Rightarrow> instant \<Rightarrow> reconciler \<Rightarrow> 'd
    \<Rightarrow> reconcile_report \<times> reconciler \<times> 'd" where
  "reconcile_pass drv pb exclusive auto_disconnect now rc d =
    (let (rp, resolved, all_resolved) =
           reconcile_resolve pb (drv_graph drv d) [0..<length (pb_connections pb)]
             reconcile_report_default [] True in
     fold (reconcile_rule drv auto_disconnect now) resolved
       (if exclusive \<and> all_resolved then exclusive_cleanup drv now resolved rp rc d
        else (rp, rc, d)))"

definition reconcile_if_due ::
  "'d driver \<Rightarrow> patchbay \<Rightarrow> bool \<Rightarrow> bool \<Rightarrow> instant \<Rightarrow> u64 \<Rightarrow> reconciler \<Rightarrow> 'd
    \<Rightarrow> (patchbay_error, reconcile_report option) result \<times> reconciler \<times> 'd" where
  "reconcile_if_due drv pb exclusive auto_disconnect now generation rc d =
    (if \<not> rc_pending rc \<or> (case rc_next_run rc of None \<Rightarrow> False | Some next_run \<Rightarrow> now < next_run)
     then (Inr None, rc, d)
     else
     (let rc = rc\<lparr>rc_pending := False, rc_next_run := None,
                  rc_last_graph_generation := generation\<rparr> in
      case drv_refresh drv d of
        (Inl e, d) \<Rightarrow>
          (let (retry, rc) = retry_status control_plane now (show_backend_error e) rc;
               rp = reconcile_report_default
                      \<lparr>rp_warnings := [warn_retry ''graph refresh'' retry]\<rparr>
           in (Inr (Some rp), rc\<lparr>rc_last_report := rp\<rparr>, d))
      | (Inr _, d) \<Rightarrow>
          (let (rp, rc, d) = reconcile_pass drv pb exclusive auto_disconnect now rc d
           in (Inr (Some rp), rc\<lparr>rc_last_report := rp\<rparr>, d))))"

end
