(* ===== verification/Reconciler_Props.thy ===== *)
theory Reconciler_Props
  imports Reconciler Activation_Props
begin

text \<open>
  The reconciler never spins and never gives up silently: what it schedules lies between
  200 ms and 3.2 s ahead, a rule is retried at most five times before it counts as failed;
  a rule it reports satisfied is connected, and while a rule is unresolved it removes
  nothing on its own account.
\<close>

subsection \<open>Bounded retries\<close>

lemma next_attempts_min: "next_attempts a = of_nat (min 6 (unat a + 1))"
proof -
  have "unat (next_attempts a) = min 6 (unat a + 1)"
  proof (cases "a = 255")
    case True
    then show ?thesis by (simp add: next_attempts_def)
  next
    case False
    have "a + 1 \<noteq> 0"
    proof
      assume "a + 1 = 0"
      then have "a = - 1" by (simp add: eq_neg_iff_add_eq_0)
      with False show False by simp
    qed
    then have "unat (a + 1) = unat a + 1"
      using unatSuc [of a] by (simp add: add.commute)
    with False show ?thesis by (simp add: next_attempts_def min_def word_le_nat_alt)
  qed
  then have "of_nat (unat (next_attempts a)) = (of_nat (min 6 (unat a + 1)) :: u8)" by simp
  then show ?thesis by simp
qed

lemma next_attempts_cases: "next_attempts a \<in> {1, 2, 3, 4, 5, 6}"
proof -
  have "min 6 (unat a + 1) \<in> {1, 2, 3, 4, 5, 6 :: nat}" by (auto simp: min_def)
  then show ?thesis by (auto simp: next_attempts_min)
qed

lemma retry_delay_bounds:
  "millis 200 \<le> retry_delay (next_attempts a) \<and> retry_delay (next_attempts a) \<le> millis 3200"
  using next_attempts_cases [of a]
  by (auto simp: retry_delay_def millis_def min_def push_bit_eq_mult)

lemma next_attempts_le: "next_attempts a \<le> 6"
  by (simp add: next_attempts_def)

text \<open>What a pass may leave in the schedule, and how many attempts it may have counted.\<close>

definition sched_ok :: "instant \<Rightarrow> reconciler \<Rightarrow> bool" where
  "sched_ok now rc \<longleftrightarrow>
     (case rc_next_run rc of
        None \<Rightarrow> \<not> rc_pending rc
      | Some t \<Rightarrow> now + millis 200 \<le> t \<and> t \<le> now + millis 3200)
     \<and> (\<forall>i s. bt_get (rc_retry_state rc) i = Some s \<longrightarrow> rt_attempts s \<le> 6)"

lemma retry_status_sched [simp]:
  "sched_ok now rc \<Longrightarrow> sched_ok now (snd (retry_status i now e rc))"
  using retry_delay_bounds [of "attempts_so_far rc i"] next_attempts_le [of "attempts_so_far rc i"]
  by (auto simp: retry_status_def sched_ok_def Let_def min_def split: option.splits if_splits)

lemma remove_retry_sched [simp]:
  "sched_ok now rc \<Longrightarrow> sched_ok now (rc\<lparr>rc_retry_state := bt_remove i (rc_retry_state rc)\<rparr>)"
  by (auto simp: sched_ok_def split: option.splits if_splits)

lemma report_sched [simp]: "sched_ok now (rc\<lparr>rc_last_report := rp\<rparr>) = sched_ok now rc"
  by (simp add: sched_ok_def cong: option.case_cong)

lemma retry_rule_sched [simp]:
  "sched_ok now rc \<Longrightarrow> sched_ok now (snd (retry_rule i now e rp rc))"
  by (simp add: retry_rule_def case_prod_beta)

lemma satisfied_sched [simp]:
  "sched_ok now rc \<Longrightarrow> sched_ok now (snd (satisfied i e rp rc))"
  by (simp add: satisfied_def)

lemma cleanup_loop_sched [simp]:
  "sched_ok now rc \<Longrightarrow> sched_ok now (fst (snd (snd (cleanup_loop drv now ks rp rc d))))"
  by (induction ks arbitrary: rp d) (simp_all add: case_prod_beta split: sum.split option.split)

lemma exclusive_cleanup_sched [simp]:
  "sched_ok now rc \<Longrightarrow> sched_ok now (fst (snd (exclusive_cleanup drv now resolved rp rc d)))"
  by (simp add: exclusive_cleanup_def Let_def case_prod_beta)

lemma reconcile_stale_sched [simp]:
  "sched_ok now rc \<Longrightarrow> sched_ok now (fst (snd (snd (reconcile_stale drv i now ks rp rc d))))"
  by (induction ks arbitrary: rp d) (simp_all add: case_prod_beta split: sum.split)

lemma reconcile_connect_sched [simp]:
  "sched_ok now rc \<Longrightarrow> sched_ok now (fst (snd (reconcile_connect drv i now k rp rc d)))"
  by (simp add: reconcile_connect_def case_prod_beta split: sum.split option.split)

lemma reconcile_route_sched [simp]:
  "sched_ok now rc \<Longrightarrow> sched_ok now (fst (snd (reconcile_route drv auto i now k rp rc d)))"
  by (simp add: reconcile_route_def Let_def case_prod_beta split: option.split)

lemma reconcile_rule_sched:
  "sched_ok now (fst (snd st)) \<Longrightarrow> sched_ok now (fst (snd (reconcile_rule drv auto now rule st)))"
  by (simp add: reconcile_rule_def Let_def case_prod_beta split: option.split)

lemma reconcile_rules_sched [simp]:
  "sched_ok now (fst (snd st)) \<Longrightarrow>
    sched_ok now (fst (snd (fold (reconcile_rule drv auto now) rules st)))"
  by (induction rules arbitrary: st) (simp_all add: reconcile_rule_sched)

lemma reconcile_pass_sched [simp]:
  "sched_ok now rc \<Longrightarrow>
    sched_ok now (fst (snd (reconcile_pass drv pb exclusive auto now rc d)))"
  by (simp add: reconcile_pass_def Let_def case_prod_beta)

text \<open>
  Retries are bounded. A pass that runs at time \<open>now\<close> (in any mode, against any
  driver) never returns an error, and either leaves nothing scheduled or schedules the next
  pass between 200 ms and 3.2 s later; no rule counts more than six attempts. A pass that is
  not due changes nothing.
\<close>

lemma reconcile_schedule_bounded:
  assumes "\<forall>i s. bt_get (rc_retry_state rc) i = Some s \<longrightarrow> rt_attempts s \<le> 6"
  shows "case reconcile_if_due drv pb exclusive auto now generation rc d of
      (Inl e, rc', d') \<Rightarrow> False
    | (Inr None, rc', d') \<Rightarrow> rc' = rc \<and> d' = d
    | (Inr (Some rp), rc', d') \<Rightarrow> sched_ok now rc' \<and> rc_last_report rc' = rp"
proof -
  define rc1 where "rc1 = rc\<lparr>rc_pending := False, rc_next_run := None,
      rc_last_graph_generation := generation\<rparr>"
  have start: "sched_ok now rc1" using assms by (simp add: rc1_def sched_ok_def)
  then show ?thesis
    by (simp add: reconcile_if_due_def Let_def rc1_def [symmetric] case_prod_beta split: sum.split)
qed

definition refused_demo :: demo where
  "refused_demo = fail_connect_of (PortId 2) (PortId 4) demo_demo"

subsection \<open>What a pass does to the connections\<close>

definition reports_connected ::
  "patchbay \<Rightarrow> graph \<Rightarrow> (port_id \<times> port_id) set \<Rightarrow> rule_status \<Rightarrow> bool" where
  "reports_connected pb g B s \<longleftrightarrow>
     (rs_status s = Satisfied \<longrightarrow>
       (\<exists>p q. resolve_rule pb g (nat (rs_rule_index s)) = Resolved p q \<and> (p, q) \<in> B))"

lemma retry_rule_report:
  "retry_rule i now e rp rc = (rp', rc') \<Longrightarrow>
    \<exists>s. rp_rules rp' = rp_rules rp @ [s] \<and> rs_status s \<noteq> Satisfied"
  by (auto simp: retry_rule_def retry_status_def add_rule_def Let_def)

lemma reconcile_resolve_rules:
  assumes "reconcile_resolve pb g is rp resolved all = (rp', resolved', all')"
  shows "(\<forall>i p q. (i, p, q) \<in> set resolved' \<longrightarrow>
      (i, p, q) \<in> set resolved \<or> resolve_rule pb g i = Resolved p q)
    \<and> (\<forall>s \<in> set (rp_rules rp'). s \<in> set (rp_rules rp) \<or> rs_status s \<noteq> Satisfied)
    \<and> (all' \<longrightarrow> all \<and> (\<forall>i \<in> set is. \<exists>p q. resolve_rule pb g i = Resolved p q))"
  using assms
proof (induction pb g "is" rp resolved all rule: reconcile_resolve.induct)
  case (2 pb g i "is" rp resolved all)
  show ?case
  proof (cases "resolve_rule pb g i")
    case (Resolved p q)
    with 2 show ?thesis by fastforce
  next
    case (WaitingForEndpoint detail)
    with 2 show ?thesis by (fastforce simp: add_rule_def)
  next
    case (AmbiguousEndpoint detail)
    with 2 show ?thesis by (fastforce simp: add_rule_def)
  qed
qed simp

context stable_driver
begin

lemma reconcile_connect_at:
  assumes "state_at g B d" and "captured g k"
    and "reconcile_connect drv i now k rp rc d = (rp', rc', d')"
  shows "\<exists>C s. state_at g C d' \<and> B \<subseteq> C \<and> rp_rules rp' = rp_rules rp @ [s]
    \<and> (rs_status s = Satisfied \<longrightarrow> rs_rule_index s = i \<and> set_option (pair_of g k) \<subseteq> C \<and> pair_of g k \<noteq> None)"
proof -
  obtain cr d1 where con: "connect_by_key_if_missing drv (fst k) (snd k) d = (cr, d1)" by fastforce
  note at = connect_at [OF assms(1) con]
  show ?thesis
  proof (cases cr)
    case (Inl e)
    obtain rp1 rc1 where ret: "retry_rule i now (show_backend_error e) rp rc = (rp1, rc1)" by fastforce
    from retry_rule_report [OF this] at Inl assms(3) con ret show ?thesis
      by (auto simp: reconcile_connect_def)
  next
    case (Inr x)
    with at have "state_at g (B \<union> set_option (pair_of g k)) d1" "pair_of g k \<noteq> None" by simp_all
    moreover from assms(3) con Inr have "d' = d1" "\<exists>s. rp_rules rp' = rp_rules rp @ [s]
        \<and> rs_rule_index s = i"
      by (auto simp: reconcile_connect_def satisfied_def add_rule_def split: option.splits)
    ultimately show ?thesis by blast
  qed
qed

lemma reconcile_rule_at:
  assumes "graph_wf g" and "state_at g B d"
    and "reconcile_rule drv False now (n, p, q) (rp, rc, d) = (rp', rc', d')"
  shows "\<exists>C s. state_at g C d' \<and> B \<subseteq> C \<and> rp_rules rp' = rp_rules rp @ [s]
    \<and> (rs_status s = Satisfied \<longrightarrow> rs_rule_index s = int n \<and> (p, q) \<in> C)"
proof -
  note keys = port_key_same_topology [OF state_atD(2) [OF assms(2)]]
  have retry: ?thesis if "retry_rule (int n) now e rp rc = (rp', rc')" "d' = d" for e
    using retry_rule_report [OF that(1)] assms(2) that(2) by blast
  consider (waiting) "\<exists>t. bt_get (rc_retry_state rc) (int n) = Some t \<and> now < rt_next_retry t"
    | (gone) e where "retry_rule (int n) now e rp rc = (rp', rc')" "d' = d"
    | (route) k where "stable_pair g p q = Some k"
        "reconcile_route drv False (int n) now k rp rc d = (rp', rc', d')"
    using assms(3)
    by (auto simp: reconcile_rule_def stable_pair_def keys Let_def
        split: option.splits if_splits prod.splits)
  then show ?thesis
  proof cases
    case waiting
    with assms(3) have "d' = d" "\<exists>s. rp_rules rp' = rp_rules rp @ [s] \<and> rs_status s \<noteq> Satisfied"
      by (auto simp: reconcile_rule_def add_rule_def)
    with assms(2) show ?thesis by blast
  next
    case gone
    then show ?thesis by (rule retry)
  next
    case route
    have k: "captured g k" using route(1) by (auto simp: captured_def)
    have pq: "pair_of g k = None \<or> pair_of g k = Some (p, q)"
      by (rule stable_pair_resolution [OF assms(1) route(1)])
    show ?thesis
    proof (cases "find_link_by_keys (drv_graph drv d) (fst k) (snd k) = None")
      case True
      with route(2) have "reconcile_connect drv (int n) now k rp rc d = (rp', rc', d')"
        by (simp add: reconcile_route_def)
      from reconcile_connect_at [OF assms(2) k this] pq show ?thesis by auto
    next
      case False
      with find_link_pair [of "drv_graph drv d" "fst k" "snd k"] state_atD [OF assms(2)] pq
      have "(p, q) \<in> B" by auto
      with False route(2) assms(2) show ?thesis
        by (auto simp: reconcile_route_def satisfied_def add_rule_def)
    qed
  qed
qed

lemma reconcile_rules_at:
  assumes "graph_wf g" and "state_at g B d"
    and "\<forall>n p q. (n, p, q) \<in> set rules \<longrightarrow> resolve_rule pb g n = Resolved p q"
    and "\<forall>s \<in> set (rp_rules rp). reports_connected pb g B s"
    and "fold (reconcile_rule drv False now) rules (rp, rc, d) = (rp', rc', d')"
  shows "\<exists>C. state_at g C d' \<and> B \<subseteq> C \<and> (\<forall>s \<in> set (rp_rules rp'). reports_connected pb g C s)"
  using assms(2-)
proof (induction rules arbitrary: rp rc d B)
  case Nil
  then show ?case by auto
next
  case (Cons rule rules)
  obtain n p q where rule: "rule = (n, p, q)" by (metis prod_cases3)
  obtain rp1 rc1 d1 where
    step: "reconcile_rule drv False now (n, p, q) (rp, rc, d) = (rp1, rc1, d1)"
    by (metis prod_cases3)
  from reconcile_rule_at [OF assms(1) Cons.prems(1) step] obtain C s where
    at: "state_at g C d1" and mono: "B \<subseteq> C" and rules: "rp_rules rp1 = rp_rules rp @ [s]"
    and s: "rs_status s = Satisfied \<longrightarrow> rs_rule_index s = int n \<and> (p, q) \<in> C"
    by blast
  have "reports_connected pb g C s"
    using s Cons.prems(2) rule by (auto simp: reports_connected_def)
  moreover have "\<forall>s \<in> set (rp_rules rp). reports_connected pb g C s"
    using Cons.prems(3) mono unfolding reports_connected_def by blast
  ultimately have sat: "\<forall>s \<in> set (rp_rules rp1). reports_connected pb g C s"
    using rules by auto
  have run: "fold (reconcile_rule drv False now) rules (rp1, rc1, d1) = (rp', rc', d')"
    using Cons.prems(4) rule step by simp
  have "\<forall>n p q. (n, p, q) \<in> set rules \<longrightarrow> resolve_rule pb g n = Resolved p q"
    using Cons.prems(2) by simp
  from Cons.IH [OF at this sat run] mono show ?case by blast
qed

lemma cleanup_loop_at:
  assumes "state_at g B d" and "cleanup_loop drv now ks rp rc d = (b, rp', rc', d')"
  shows "(\<exists>C. state_at g C d') \<and> rp_rules rp' = rp_rules rp"
  using assms
proof (induction ks arbitrary: rp B d)
  case (Cons k ks)
  obtain dr d1 where
    step: "disconnect_by_key_if_present_without_suppression drv (fst k) (snd k) d = (dr, d1)"
    by fastforce
  from disconnect_quiet_at [OF Cons.prems(1) step] have at: "\<exists>C. state_at g C d1"
    by (cases dr) auto
  consider (err) e where "dr = Inl e" | (none) "dr = Inr None" | (some) l where "dr = Inr (Some l)"
    by (cases dr; cases "projr dr") auto
  then show ?case
  proof cases
    case err
    with at Cons.prems(2) step show ?thesis by (auto simp: case_prod_beta)
  next
    case none
    with at Cons.prems(2) step Cons.IH show ?thesis by fastforce
  next
    case some
    with at Cons.prems(2) step Cons.IH [of _ _ "rp\<lparr>rp_disconnected := rp_disconnected rp + 1\<rparr>"]
    show ?thesis by fastforce
  qed
qed auto

lemma exclusive_cleanup_at:
  assumes "state_at g B d" and "exclusive_cleanup drv now resolved rp rc d = (rp', rc', d')"
  shows "(\<exists>C. state_at g C d') \<and> rp_rules rp' = rp_rules rp"
  using assms cleanup_loop_at [OF assms(1)]
  by (fastforce simp: exclusive_cleanup_def Let_def split: prod.splits if_splits)

lemma reconcile_pass_at:
  assumes "state_at g A d" and "graph_wf g"
    and "reconcile_pass drv pb exclusive False now rc d = (rp', rc', d')"
  shows "\<exists>C. state_at g C d' \<and> (\<forall>s \<in> set (rp_rules rp'). reports_connected pb g C s)
    \<and> (\<not> exclusive \<or> (\<exists>n < length (pb_connections pb). \<forall>p q. resolve_rule pb g n \<noteq> Resolved p q)
        \<longrightarrow> A \<subseteq> C)"
proof -
  have same: "resolve_rule pb (drv_graph drv d) n = resolve_rule pb g n" for n
    using resolve_rule_same_topology [OF state_atD(2) [OF assms(1)]] by simp
  obtain rp resolved all where res: "reconcile_resolve pb (drv_graph drv d)
      [0..<length (pb_connections pb)] reconcile_report_default [] True = (rp, resolved, all)"
    by (metis prod_cases3)
  from reconcile_resolve_rules [OF res] have
    rules: "\<forall>n p q. (n, p, q) \<in> set resolved \<longrightarrow> resolve_rule pb g n = Resolved p q"
    and none: "\<forall>s \<in> set (rp_rules rp). rs_status s \<noteq> Satisfied"
    and all: "all \<longrightarrow> (\<forall>n < length (pb_connections pb). \<exists>p q. resolve_rule pb g n = Resolved p q)"
    by (auto simp: same reconcile_report_default_def)
  obtain rp1 rc1 d1 where start: "(if exclusive \<and> all then exclusive_cleanup drv now resolved rp rc d
      else (rp, rc, d)) = (rp1, rc1, d1)" by (metis prod_cases3)
  obtain B where at: "state_at g B d1" and kept: "rp_rules rp1 = rp_rules rp"
    and B: "\<not> (exclusive \<and> all) \<longrightarrow> B = A"
  proof (cases "exclusive \<and> all")
    case True
    with start have "exclusive_cleanup drv now resolved rp rc d = (rp1, rc1, d1)" by simp
    from exclusive_cleanup_at [OF assms(1) this] True that show ?thesis by blast
  next
    case False
    with start assms(1) that show ?thesis by auto
  qed
  from none kept have sat: "\<forall>s \<in> set (rp_rules rp1). reports_connected pb g B s"
    by (simp add: reports_connected_def)
  have "fold (reconcile_rule drv False now) resolved (rp1, rc1, d1) = (rp', rc', d')"
    using assms(3) res start by (simp add: reconcile_pass_def)
  from reconcile_rules_at [OF assms(2) at rules sat this] B all show ?thesis by blast
qed

end

subsection \<open>Backoff\<close>

text \<open>
  The backoff, exactly. The failure count of a rule grows by one up to six; the next
  try of the rule is 100 ms times two to the count later, at most 3.2 s; before the sixth
  failure a pass is scheduled no later than that, from the sixth on the rule counts as
  failed and the schedule is left alone.
\<close>

lemma retry_backoff:
  "(let n = min 6 (unat (attempts_so_far rc i) + 1);
        t = now + millis (100 * 2 ^ min 5 n);
        (s, rc') = retry_status i now e rc in
    bt_get (rc_retry_state rc') i = Some \<lparr>rt_attempts = of_nat n, rt_next_retry = t\<rparr>
    \<and> rs_rule_index s = i \<and> rs_detail s = e
    \<and> (if n < 6
       then rs_status s = Retrying \<and> rc_pending rc'
         \<and> rc_next_run rc' = Some (case rc_next_run rc of None \<Rightarrow> t | Some u \<Rightarrow> min u t)
       else rs_status s = Failed \<and> rc_pending rc' = rc_pending rc
         \<and> rc_next_run rc' = rc_next_run rc))"
proof -
  define n where "n = min 6 (unat (attempts_so_far rc i) + 1)"
  have next_n: "next_attempts (attempts_so_far rc i) = of_nat n"
    unfolding n_def by (rule next_attempts_min)
  have "n \<in> {1, 2, 3, 4, 5, 6}" by (auto simp: n_def min_def)
  then have delay: "retry_delay (of_nat n) = millis (100 * 2 ^ min 5 n)"
    and six: "(of_nat n < (6 :: u8)) = (n < 6)" "((6 :: u8) \<le> of_nat n) = (\<not> n < 6)"
    by (auto simp: retry_delay_def millis_def push_bit_eq_mult word_le_nat_alt)
  show ?thesis
    unfolding n_def [symmetric]
    by (simp add: retry_status_def next_n delay six Let_def split: option.split)
qed

subsection \<open>The demo backend\<close>

lemma demo_reconcile_run:
  assumes "demo_ok d"
    and "reconcile_if_due demo_driver pb exclusive False now generation rc d = (Inr (Some rp), rc', d')"
  shows "(\<forall>s \<in> set (rp_rules rp).
        reports_connected pb (demo_graph d) (link_pairs (demo_graph d')) s)
    \<and> ((\<exists>n < length (pb_connections pb).
          \<forall>p q. resolve_rule pb (demo_graph d) n \<noteq> Resolved p q)
        \<longrightarrow> link_pairs (demo_graph d) \<subseteq> link_pairs (demo_graph d'))"
proof -
  from assms(2) obtain rc0 rc1 where
    "reconcile_pass demo_driver pb exclusive False now rc0 d = (rp, rc1, d')"
    by (auto simp: reconcile_if_due_def demo_refresh_def Let_def split: if_splits prod.splits)
  from demo.reconcile_pass_at [OF demo.state_at_here [OF assms(1)] _ this] assms(1)
  show ?thesis by (auto simp: demo_ok_def demo.state_at_def graph_after_def)
qed

text \<open>
  C33: on the in-memory demo driver, where a refresh keeps the graph, a rule that a reconciler
  pass without auto-disconnect reports as satisfied is connected after the pass: it resolves
  to a pair of ports, and that pair is linked. (With auto-disconnect a later rule may take
  the input over; drivers that other programs change are not meant.)
\<close>

theorem satisfied_means_connected:
  assumes "demo_ok d"
    and "reconcile_if_due demo_driver pb exclusive False now generation rc d = (Inr (Some rp), rc', d')"
    and "s \<in> set (rp_rules rp)" and "rs_status s = Satisfied"
  shows "\<exists>p q. resolve_rule pb (demo_graph d) (nat (rs_rule_index s)) = Resolved p q
    \<and> (p, q) \<in> link_pairs (demo_graph d')"
  using demo_reconcile_run [OF assms(1,2)] assms(3,4) by (simp add: reports_connected_def)

theorem satisfied_means_connected_witness:
  "\<exists>rp rc d p q. reconcile_if_due demo_driver stereo_patchbay False False 5 1
      (schedule_now 5 reconciler_new) demo_demo = (Inr (Some rp), rc, d)
    \<and> length (rp_rules rp) = 2
    \<and> resolve_rule stereo_patchbay (demo_graph demo_demo) 1 = Resolved p q
    \<and> (p, q) \<in> link_pairs (demo_graph d)"
proof -
  let ?run = "reconcile_if_due demo_driver stereo_patchbay False False 5 1
      (schedule_now 5 reconciler_new) demo_demo"
  obtain r rc d where run: "?run = (r, rc, d)" by (metis prod_cases3)
  have "(\<lambda>(r, rc, d). is_ok r \<and> projr r \<noteq> None
      \<and> map (\<lambda>s. (rs_rule_index s, rs_status s)) (rp_rules (the (projr r)))
        = [(0, Satisfied), (1, Satisfied)]) ?run"
    by code_simp
  with run obtain rp where r: "r = Inr (Some rp)"
    and rules: "map (\<lambda>s. (rs_rule_index s, rs_status s)) (rp_rules rp)
      = [(0, Satisfied), (1, Satisfied)]"
    by (cases r) auto
  then obtain s where s: "s \<in> set (rp_rules rp)" "rs_status s = Satisfied" "rs_rule_index s = 1"
    by (cases "rp_rules rp"; cases "tl (rp_rules rp)") auto
  have "length (rp_rules rp) = 2" using arg_cong [OF rules, of length] by simp
  with satisfied_means_connected [OF demo_demo_ok run [unfolded r] s(1,2)] s(3) run r
  show ?thesis by auto
qed

text \<open>
  A rule whose endpoints are missing or ambiguous stops the exclusive cleanup: a pass
  over a patchbay with such a rule takes no connection down.
\<close>

lemma reconcile_unresolved_keeps_links:
  assumes "demo_ok d"
    and "reconcile_if_due demo_driver pb exclusive False now generation rc d = (Inr (Some rp), rc', d')"
    and "n < length (pb_connections pb)"
    and "\<forall>p q. resolve_rule pb (demo_graph d) n \<noteq> Resolved p q"
  shows "link_pairs (demo_graph d) \<subseteq> link_pairs (demo_graph d')"
  using demo_reconcile_run [OF assms(1,2)] assms(3,4) by blast

end
