(* ===== verification/Patchbay_Xml.thy ===== *)
theory Patchbay_Xml
  imports Activation
begin

text \<open>
  Saving and loading a patchbay (\<^verbatim>\<open>crates/pw-graph-patchbay/src\<close>: \<^verbatim>\<open>xml.rs\<close>,
  \<^verbatim>\<open>persistence.rs\<close>, the sidecar of \<^verbatim>\<open>selectors.rs\<close>) at the level of XML events: the
  \<^verbatim>\<open>quick_xml\<close> writer and reader, the JSON of \<^verbatim>\<open>serde_json\<close> and the file system are
  outside. A reader is the list of its results; an element carries the results of its
  attribute iterator. The JSON text of a fingerprint is the parameter \<open>fp\<close>.
\<close>

subsection \<open>Events\<close>

type_synonym attribute = "(patchbay_error, string \<times> string) result"

datatype xml_event =
  XDecl string string
| XDocType string
| XStart string "attribute list"
| XEmpty string "attribute list"
| XEnd string
| XText string
| XEof

subsection \<open>Type names\<close>

fun node_type_text :: "node_type \<Rightarrow> string" where
  "node_type_text NT_Recorder = ''recorder''"
| "node_type_text NT_AlsaMidi = ''alsa''"
| "node_type_text _ = ''pipewire''"

fun port_type_text :: "node_type \<Rightarrow> port_type \<Rightarrow> string" where
  "port_type_text NT_AlsaMidi PT_MidiAlsa = ''alsa-midi''"
| "port_type_text _ PT_Audio = ''pipewire-audio''"
| "port_type_text _ PT_MidiJack = ''pipewire-midi''"
| "port_type_text _ PT_Video = ''pipewire-video''"
| "port_type_text _ _ = ''pipewire-other''"

definition endpoint_node_type_from_text :: "string option \<Rightarrow> node_type option" where
  "endpoint_node_type_from_text v =
    (if v = Some ''pipewire'' then Some NT_PipeWire
     else if v = Some ''effect'' then Some NT_Effect
     else if v = Some ''recorder'' then Some NT_Recorder
     else if v = Some ''alsa'' then Some NT_AlsaMidi
     else if v = Some ''windows-audio-endpoint'' then Some NT_WindowsAudioEndpoint
     else if v = Some ''windows-audio-session'' then Some NT_WindowsAudioSession
     else if v = Some ''windows-midi'' then Some NT_WindowsMidi
     else if v = Some ''unknown'' then Some NT_Unknown
     else None)"

definition node_type_from_text :: "string option \<Rightarrow> node_type" where
  "node_type_from_text v =
    (if v = Some ''alsa'' then NT_AlsaMidi
     else if v = Some ''pipewire'' then NT_PipeWire
     else if v = Some ''effect'' then NT_Effect
     else if v = Some ''recorder'' then NT_Recorder
     else if v = Some ''windows-audio-endpoint'' then NT_WindowsAudioEndpoint
     else if v = Some ''windows-audio-session'' then NT_WindowsAudioSession
     else if v = Some ''windows-midi'' then NT_WindowsMidi
     else NT_Unknown)"

definition port_type_from_text :: "string option \<Rightarrow> port_type" where
  "port_type_from_text v =
    (if v = Some ''pipewire-audio'' then PT_Audio
     else if v = Some ''pipewire-midi'' then PT_MidiJack
     else if v = Some ''pipewire-video'' then PT_Video
     else if v = Some ''alsa-midi'' then PT_MidiAlsa
     else PT_Unknown)"

subsection \<open>Writing\<close>

definition end_element :: "string \<Rightarrow> string \<Rightarrow> string \<Rightarrow> xml_event" where
  "end_element side node port = XEmpty side [Inr (''node'', node), Inr (''port'', port)]"

definition connection_events :: "patch_connection \<Rightarrow> xml_event list" where
  "connection_events c =
    (let t = effective_output_node_type c in
     [XStart ''item'' [Inr (''node-type'', node_type_text t),
                       Inr (''port-type'', port_type_text t (pc_port_type c))],
      end_element ''output'' (pc_output_node c) (pc_output_name c),
      end_element ''input'' (pc_input_node c) (pc_input_name c),
      XEnd ''item''])"

definition to_xml :: "patchbay \<Rightarrow> xml_event list" where
  "to_xml pb =
     [XDecl ''1.0'' ''UTF-8'', XDocType ''patchbay'',
      XStart ''patchbay'' [Inr (''name'', pb_name pb), Inr (''version'', ''0.8.3'')],
      XStart ''items'' []]
     @ concat (map connection_events (pb_connections pb))
     @ [XEnd ''items'', XEnd ''patchbay'']"

subsection \<open>Reading\<close>

fun attributes :: "attribute list \<Rightarrow> (patchbay_error, string \<rightharpoonup> string) result" where
  "attributes [] = Inr Map.empty"
| "attributes (Inl e # as) = Inl e"
| "attributes (Inr (k, v) # as) =
     (case attributes as of
        Inl e \<Rightarrow> Inl e
      | Inr m \<Rightarrow> Inr (if m k = None then m(k \<mapsto> v) else m))"

definition start_item :: "(string \<rightharpoonup> string) \<Rightarrow> patch_connection" where
  "start_item attrs =
    (let output_node_type = endpoint_node_type_from_text (attrs ''output-node-type'');
         node_type = (case output_node_type of
             Some t \<Rightarrow> t | None \<Rightarrow> node_type_from_text (attrs ''node-type''));
         input_node_type = (case endpoint_node_type_from_text (attrs ''input-node-type'') of
             Some t \<Rightarrow> Some t | None \<Rightarrow> map_option (\<lambda>_. node_type) output_node_type)
     in patch_connection_default
          \<lparr>pc_node_type := node_type, pc_output_node_type := output_node_type,
           pc_input_node_type := input_node_type,
           pc_port_type := port_type_from_text (attrs ''port-type'')\<rparr>)"

definition attr_or_empty :: "(string \<rightharpoonup> string) \<Rightarrow> string \<Rightarrow> string" where
  "attr_or_empty attrs k = (case attrs k of None \<Rightarrow> '''' | Some v \<Rightarrow> v)"

definition set_end :: "string \<Rightarrow> (string \<rightharpoonup> string) \<Rightarrow> patch_connection \<Rightarrow> patch_connection" where
  "set_end side attrs c =
    (if side = ''output''
     then c\<lparr>pc_output_node := attr_or_empty attrs ''node'',
            pc_output_name := attr_or_empty attrs ''port''\<rparr>
     else c\<lparr>pc_input_node := attr_or_empty attrs ''node'',
            pc_input_name := attr_or_empty attrs ''port''\<rparr>)"

text \<open>One event: the patchbay and the item being read.\<close>

type_synonym xml_state = "patchbay \<times> patch_connection option"

definition read_end_element ::
  "string \<Rightarrow> attribute list \<Rightarrow> xml_state \<Rightarrow> (patchbay_error, xml_state) result" where
  "read_end_element side as st =
    (case attributes as of
       Inl e \<Rightarrow> Inl e
     | Inr m \<Rightarrow> Inr (fst st, map_option (set_end side m) (snd st)))"

definition read_event :: "xml_event \<Rightarrow> xml_state \<Rightarrow> (patchbay_error, xml_state) result" where
  "read_event ev st =
    (case ev of
       XStart name as \<Rightarrow>
         if name = ''patchbay'' then
           (case attributes as of
              Inl e \<Rightarrow> Inl e
            | Inr m \<Rightarrow> Inr (case m ''name'' of
                 None \<Rightarrow> st | Some v \<Rightarrow> ((fst st)\<lparr>pb_name := v\<rparr>, snd st)))
         else if name = ''item'' then
           (case attributes as of Inl e \<Rightarrow> Inl e | Inr m \<Rightarrow> Inr (fst st, Some (start_item m)))
         else if name = ''output'' \<or> name = ''input'' then read_end_element name as st
         else Inr st
     | XEmpty name as \<Rightarrow>
         if name = ''output'' \<or> name = ''input'' then read_end_element name as st else Inr st
     | XEnd name \<Rightarrow>
         if name = ''item'' then
           (case snd st of
              None \<Rightarrow> Inr st
            | Some c \<Rightarrow>
                Inr (if has_names c
                     then (fst st)\<lparr>pb_connections := pb_connections (fst st) @ [c]\<rparr> else fst st,
                     None))
         else Inr st
     | _ \<Rightarrow> Inr st)"

fun read_events ::
  "(patchbay_error, xml_event) result list \<Rightarrow> xml_state \<Rightarrow> (patchbay_error, patchbay) result" where
  "read_events [] st = Inr (fst st)"
| "read_events (Inl e # evs) st = Inl e"
| "read_events (Inr ev # evs) st =
     (if ev = XEof then Inr (fst st)
      else case read_event ev st of Inl e \<Rightarrow> Inl e | Inr st \<Rightarrow> read_events evs st)"

definition from_xml :: "(patchbay_error, xml_event) result list \<Rightarrow> (patchbay_error, patchbay) result"
where
  "from_xml evs = read_events evs (patchbay_new ''patchbay'', None)"

subsection \<open>The selector sidecar\<close>

record sidecar_entry =
  se_index :: "nat option"
  se_fingerprint :: string
  se_output_selector :: "endpoint_selector option"
  se_input_selector :: "endpoint_selector option"
  se_output_node_type :: "node_type option"
  se_input_node_type :: "node_type option"
  se_port_type :: "port_type option"

text \<open>
  The JSON text of an entry, read back: everything but the client id of an identity, which
  \<^verbatim>\<open>NodeIdentity\<close> neither writes nor reads (\<^verbatim>\<open>identity.rs\<close>).
\<close>

definition identity_json :: "node_identity \<Rightarrow> node_identity" where
  "identity_json i = i\<lparr>client_id := None\<rparr>"

definition selector_json :: "endpoint_selector \<Rightarrow> endpoint_selector" where
  "selector_json s = s\<lparr>sel_identity := identity_json (sel_identity s)\<rparr>"

definition entry_json :: "sidecar_entry \<Rightarrow> sidecar_entry" where
  "entry_json e = e\<lparr>se_output_selector := map_option selector_json (se_output_selector e),
     se_input_selector := map_option selector_json (se_input_selector e)\<rparr>"

definition sidecar_entries :: "(patch_connection \<Rightarrow> string) \<Rightarrow> patchbay \<Rightarrow> sidecar_entry list" where
  "sidecar_entries fp pb =
     map (\<lambda>(i, c). \<lparr>se_index = Some i, se_fingerprint = fp c,
             se_output_selector = pc_output_selector c, se_input_selector = pc_input_selector c,
             se_output_node_type = pc_output_node_type c,
             se_input_node_type = pc_input_node_type c,
             se_port_type = Some (pc_port_type c)\<rparr>)
       (zip [0..<length (pb_connections pb)] (pb_connections pb))"

definition find_entry :: "sidecar_entry list \<Rightarrow> bool list \<Rightarrow> (sidecar_entry \<Rightarrow> bool) \<Rightarrow> nat option" where
  "find_entry entries used P =
     List.find (\<lambda>j. \<not> used ! j \<and> P (entries ! j)) [0..<length entries]"

definition match_entry ::
  "(patch_connection \<Rightarrow> string) \<Rightarrow> sidecar_entry list \<Rightarrow> bool list \<Rightarrow> nat \<Rightarrow> patch_connection
    \<Rightarrow> nat option" where
  "match_entry fp entries used i c =
     (case find_entry entries used (\<lambda>e. se_index e = Some i) of
        Some j \<Rightarrow> Some j
      | None \<Rightarrow> find_entry entries used (\<lambda>e. se_fingerprint e = fp c))"

definition apply_entry :: "sidecar_entry \<Rightarrow> patch_connection \<Rightarrow> patch_connection" where
  "apply_entry e c =
     c\<lparr>pc_output_selector := se_output_selector e, pc_input_selector := se_input_selector e,
       pc_output_node_type := se_output_node_type e, pc_input_node_type := se_input_node_type e,
       pc_port_type := (case se_port_type e of None \<Rightarrow> pc_port_type c | Some t \<Rightarrow> t)\<rparr>"

fun load_entries ::
  "(patch_connection \<Rightarrow> string) \<Rightarrow> sidecar_entry list \<Rightarrow> bool list \<Rightarrow> nat \<Rightarrow> patch_connection list
    \<Rightarrow> patch_connection list" where
  "load_entries fp entries used i [] = []"
| "load_entries fp entries used i (c # cs) =
     (case match_entry fp entries used i c of
        None \<Rightarrow> c # load_entries fp entries used (Suc i) cs
      | Some j \<Rightarrow>
          apply_entry (entries ! j) c # load_entries fp entries (used[j := True]) (Suc i) cs)"

text \<open>
  The sidecar as it is in the file; \<open>None\<close>: the file cannot be read or is not a list of entries.
\<close>

definition load_xml_selector_sidecar ::
  "(patch_connection \<Rightarrow> string) \<Rightarrow> sidecar_entry list option \<Rightarrow> patchbay \<Rightarrow> patchbay" where
  "load_xml_selector_sidecar fp sidecar pb =
    (case sidecar of
       None \<Rightarrow> pb
     | Some entries \<Rightarrow>
         pb\<lparr>pb_version := max (pb_version pb) 2,
            pb_connections :=
              load_entries fp (map entry_json entries) (replicate (length entries) False) 0
                (pb_connections pb)\<rparr>)"

text \<open>The XML branches of \<^verbatim>\<open>save_to\<close> and \<^verbatim>\<open>load_from\<close>: the main file and its sidecar.\<close>

definition save_xml ::
  "(patch_connection \<Rightarrow> string) \<Rightarrow> patchbay \<Rightarrow> xml_event list \<times> sidecar_entry list" where
  "save_xml fp pb = (to_xml pb, map entry_json (sidecar_entries fp pb))"

definition load_xml ::
  "(patch_connection \<Rightarrow> string) \<Rightarrow> (patchbay_error, xml_event) result list
    \<Rightarrow> sidecar_entry list option \<Rightarrow> (patchbay_error, patchbay) result" where
  "load_xml fp evs sidecar =
     (case from_xml evs of
        Inl e \<Rightarrow> Inl e
      | Inr pb \<Rightarrow> Inr (load_xml_selector_sidecar fp sidecar pb))"

subsection \<open>Round trips\<close>

text \<open>What the XML alone keeps of a rule.\<close>

definition xml_view :: "patch_connection \<Rightarrow> patch_connection" where
  "xml_view c =
    (let t = effective_output_node_type c in
     patch_connection_default
       \<lparr>pc_node_type := node_type_from_text (Some (node_type_text t)),
        pc_port_type := port_type_from_text (Some (port_type_text t (pc_port_type c))),
        pc_output_node := pc_output_node c, pc_output_name := pc_output_name c,
        pc_input_node := pc_input_node c, pc_input_name := pc_input_name c\<rparr>)"

lemma has_names_xml_view [simp]: "has_names (xml_view c) = has_names c"
  by (simp add: has_names_def xml_view_def Let_def)

lemma read_connection:
  "read_events (map Inr (connection_events c) @ evs) (pb, None) =
     read_events evs (if has_names c then pb\<lparr>pb_connections := pb_connections pb @ [xml_view c]\<rparr>
                      else pb, None)"
  by (simp add: connection_events_def Let_def end_element_def read_event_def read_end_element_def
      start_item_def set_end_def attr_or_empty_def endpoint_node_type_from_text_def has_names_def
      xml_view_def patch_connection_default_def)

lemma read_connections:
  "read_events (map Inr (concat (map connection_events cs)) @ evs) (pb, None) =
     read_events evs
       (pb\<lparr>pb_connections := pb_connections pb @ map xml_view (filter has_names cs)\<rparr>, None)"
  by (induction cs arbitrary: pb) (simp_all add: read_connection)

text \<open>
  Reading back what was written gives the name and, in order, the rules with four
  names, each with exactly its names and with the node and port types as far as the native
  format tells them apart; rules without names are dropped.
\<close>

lemma xml_round_trip:
  "from_xml (map Inr (to_xml pb @ [XEof])) =
     Inr (\<lparr>pb_version = 2, pb_name = pb_name pb,
           pb_connections = map xml_view (filter has_names (pb_connections pb))\<rparr>)"
  by (simp add: from_xml_def to_xml_def read_event_def read_connections patchbay_new_def)

text \<open>What the XML and the sidecar together keep.\<close>

definition saved_view :: "patch_connection \<Rightarrow> patch_connection" where
  "saved_view c =
     c\<lparr>pc_output_port := port_id_default, pc_input_port := port_id_default, pc_pinned := False,
       pc_output_selector := map_option selector_json (pc_output_selector c),
       pc_input_selector := map_option selector_json (pc_input_selector c),
       pc_node_type := node_type_from_text (Some (node_type_text (effective_output_node_type c)))\<rparr>"

lemma find_entry_index:
  assumes "\<And>j. j < length entries \<Longrightarrow> se_index (entries ! j) = Some j" and "i < length entries"
    and "\<not> used ! i"
  shows "find_entry entries used (\<lambda>e. se_index e = Some i) = Some i"
  using assms unfolding find_entry_def find_Some_iff by (auto intro!: exI [of _ i])

text \<open>
  While there are entries left, the rule at a position takes the entry of that position.
\<close>

lemma load_by_position:
  assumes index: "\<And>j. j < length entries \<Longrightarrow> se_index (entries ! j) = Some j"
    and "\<forall>j < length entries. i \<le> j \<longrightarrow> \<not> used ! j" and "i + length cs \<le> length entries"
  shows "load_entries fp entries used i cs
    = map (\<lambda>(e, c). apply_entry e c) (zip (drop i entries) cs)"
  using assms(2,3)
proof (induction cs arbitrary: used i)
  case Nil
  then show ?case by simp
next
  case (Cons c cs)
  have i: "i < length entries" "\<not> used ! i" using Cons.prems by simp_all
  have "match_entry fp entries used i c = Some i"
    by (simp add: match_entry_def find_entry_index [OF index i])
  moreover have "load_entries fp entries (used[i := True]) (Suc i) cs
      = map (\<lambda>(e, c). apply_entry e c) (zip (drop (Suc i) entries) cs)"
    using Cons.prems by (intro Cons.IH) (auto simp: nth_list_update)
  moreover have "drop i entries = entries ! i # drop (Suc i) entries"
    using i(1) by (rule Cons_nth_drop_Suc [symmetric])
  ultimately show ?case by simp
qed

lemma selector_json_fields [simp]:
  "selector_json (selector_json s) = selector_json s"
  "sel_node_type (selector_json s) = sel_node_type s"
  "sel_port_name (selector_json s) = sel_port_name s"
  "sel_channel (selector_json s) = sel_channel s"
  "sel_direction (selector_json s) = sel_direction s"
  "sel_port_type (selector_json s) = sel_port_type s"
  "sel_match_mode (selector_json s) = sel_match_mode s"
  "sel_identity (selector_json s) = identity_json (sel_identity s)"
  "(selector_json s)\<lparr>sel_node_type := t\<rparr> = selector_json (s\<lparr>sel_node_type := t\<rparr>)"
  by (simp_all add: selector_json_def identity_json_def)

lemma identity_json_fields [simp]:
  "application_id (identity_json i) = application_id i"
  "application_name (identity_json i) = application_name i"
  "process_binary (identity_json i) = process_binary i"
  "ident_node_name (identity_json i) = ident_node_name i"
  "media_role (identity_json i) = media_role i"
  "object_serial (identity_json i) = object_serial i"
  "ident_effect_instance_id (identity_json i) = ident_effect_instance_id i"
  by (simp_all add: identity_json_def)

lemma entry_json_idem [simp]: "entry_json (entry_json e) = entry_json e"
proof -
  have "selector_json \<circ> selector_json = selector_json" by (simp add: fun_eq_iff)
  then show ?thesis by (simp add: entry_json_def option.map_comp)
qed

text \<open>Saving and loading: the rules with names, each with the entry of its new position.\<close>

lemma load_saved:
  "load_xml fp (map Inr (fst (save_xml fp pb) @ [XEof])) (Some (snd (save_xml fp pb)))
    = Inr \<lparr>pb_version = 2, pb_name = pb_name pb,
        pb_connections = map (\<lambda>(e, c). apply_entry (entry_json e) (xml_view c))
          (zip (sidecar_entries fp pb) (filter has_names (pb_connections pb)))\<rparr>"
proof -
  let ?es = "map entry_json (sidecar_entries fp pb)"
  have len: "length ?es = length (pb_connections pb)" by (simp add: sidecar_entries_def)
  have "load_entries fp ?es (replicate (length ?es) False) 0
      (map xml_view (filter has_names (pb_connections pb)))
    = map (\<lambda>(e, c). apply_entry e c) (zip (drop 0 ?es) (map xml_view (filter has_names (pb_connections pb))))"
  proof (rule load_by_position)
    show "se_index (?es ! j) = Some j" if "j < length ?es" for j
      using that by (simp add: sidecar_entries_def entry_json_def)
  qed (use len length_filter_le [of has_names "pb_connections pb"] in \<open>simp_all del: length_filter_le\<close>)
  then show ?thesis
    using xml_round_trip [of pb]
    by (simp add: load_xml_def save_xml_def load_xml_selector_sidecar_def zip_map1 zip_map2
        split_def comp_def)
qed

text \<open>The client id decides no resolution.\<close>

lemma endpoint_match_score_json [simp]:
  "endpoint_match_score n (selector_json s) = endpoint_match_score n s"
  unfolding endpoint_match_score_def application_id_score_def process_score_def
    session_or_name_score_def has_application_identity_def Let_def selector_json_fields
    identity_json_fields ..

lemma resolve_selector_json [simp]: "resolve_endpoint g (selector_json s) = resolve_endpoint g s"
proof -
  have app: "application_channel (selector_json s) = application_channel s"
    by (simp add: fun_eq_iff application_channel_def has_application_identity_def)
  then have "score_candidate g (selector_json s) = score_candidate g s"
    "type_candidate (selector_json s) = type_candidate s"
    "name_candidate (selector_json s) = name_candidate s"
    by (simp_all add: fun_eq_iff score_candidate_def type_candidate_def name_candidate_def
        cong: option.case_cong if_cong)
  then show ?thesis by (simp add: resolve_endpoint_def candidates_def)
qed

lemma resolve_selector_saved [simp]:
  "resolve_selector g (map_option selector_json s) legacy = resolve_selector g s legacy"
  by (cases s) (simp_all add: resolve_selector_def Let_def)

text \<open>
  C34: saving a patchbay as XML with its sidecar and loading both again restores every rule
  up to its session port ids, its pin, the coarse legacy type and the PipeWire client id in
  its selectors, which the JSON leaves out, provided all rules have names; and a rule with
  explicit endpoint types resolves afterwards as it did before.
\<close>

theorem save_load_round_trip:
  assumes "\<forall>c \<in> set (pb_connections pb). has_names c"
  shows "load_xml fp (map Inr (fst (save_xml fp pb) @ [XEof])) (Some (snd (save_xml fp pb)))
      = Inr \<lparr>pb_version = 2, pb_name = pb_name pb,
             pb_connections = map saved_view (pb_connections pb)\<rparr>
    \<and> (\<forall>c \<in> set (pb_connections pb).
         pc_output_node_type c \<noteq> None \<and> pc_input_node_type c \<noteq> None
         \<longrightarrow> resolve_connection g (saved_view c) = resolve_connection g c)"
proof -
  have "filter has_names (pb_connections pb) = pb_connections pb" using assms by simp
  moreover have "map (\<lambda>(e, c). apply_entry (entry_json e) (xml_view c))
      (zip (sidecar_entries fp pb) (pb_connections pb)) = map saved_view (pb_connections pb)"
    by (rule nth_equalityI)
      (simp_all add: sidecar_entries_def entry_json_def apply_entry_def xml_view_def saved_view_def
        Let_def patch_connection_default_def)
  ultimately have "load_xml fp (map Inr (fst (save_xml fp pb) @ [XEof])) (Some (snd (save_xml fp pb)))
      = Inr \<lparr>pb_version = 2, pb_name = pb_name pb,
             pb_connections = map saved_view (pb_connections pb)\<rparr>"
    using load_saved [of fp pb] by simp
  moreover have "resolve_connection g (saved_view c) = resolve_connection g c"
    if "c \<in> set (pb_connections pb)" "pc_output_node_type c \<noteq> None" "pc_input_node_type c \<noteq> None" for c
  proof -
    have "has_names c" using assms that(1) by blast
    with that(2,3) show ?thesis
      by (auto simp: resolve_connection_def saved_view_def has_names_def legacy_output_def
          legacy_input_def effective_output_node_type_def effective_input_node_type_def)
  qed
  ultimately show ?thesis by blast
qed

definition example_rule :: "string \<Rightarrow> patch_connection" where
  "example_rule out =
     patch_connection_default
       \<lparr>pc_output_node := ''Audio Capture'', pc_output_name := out,
        pc_input_node := ''Audio Playback'', pc_input_name := ''playback_FL'',
        pc_output_node_type := Some NT_PipeWire, pc_input_node_type := Some NT_PipeWire,
        pc_output_selector :=
          Some (legacy_selector ''Audio Capture'' out Source PT_Audio NT_PipeWire),
        pc_input_selector :=
          Some (legacy_selector ''Audio Playback'' ''playback_FL'' Sink PT_Audio NT_PipeWire)\<rparr>"

definition example_patchbay :: patchbay where
  "example_patchbay =
     (patchbay_new ''p'')\<lparr>pb_connections := [example_rule ''capture_FL'', example_rule ''capture_FR'']\<rparr>"

theorem save_load_round_trip_witness:
  "\<exists>pb. load_xml pc_output_name (map Inr (fst (save_xml pc_output_name example_patchbay) @ [XEof]))
      (Some (snd (save_xml pc_output_name example_patchbay))) = Inr pb
    \<and> map pc_output_selector (pb_connections pb)
      = map (map_option selector_json \<circ> pc_output_selector) (pb_connections example_patchbay)"
proof -
  have "\<forall>c \<in> set (pb_connections example_patchbay). has_names c"
    by (simp add: example_patchbay_def example_rule_def has_names_def)
  from save_load_round_trip [OF this, of pc_output_name empty_graph] show ?thesis
    by (simp add: saved_view_def)
qed

definition shifted_patchbay :: patchbay where
  "shifted_patchbay =
     example_patchbay\<lparr>pb_connections := patch_connection_default # pb_connections example_patchbay\<rparr>"

text \<open>
  C35: in general the sidecar is matched by position only. Whatever the patchbay, loading what
  was saved keeps the rules that have four names, in order, and gives the i-th of them its own
  names but the selectors and endpoint types of the i-th of all rules. So behind a rule
  without names, which the XML reader drops, every rule gets those of an earlier rule.
\<close>

theorem sidecar_assigned_by_position:
  "\<exists>loaded. load_xml fp (map Inr (fst (save_xml fp pb) @ [XEof])) (Some (snd (save_xml fp pb)))
      = Inr loaded \<and>
    length (pb_connections loaded) = length (filter has_names (pb_connections pb)) \<and>
    (\<forall>i < length (pb_connections loaded).
       let new = pb_connections loaded ! i; named = filter has_names (pb_connections pb) ! i;
           old = pb_connections pb ! i
       in (pc_output_node new, pc_output_name new, pc_input_node new, pc_input_name new)
            = (pc_output_node named, pc_output_name named, pc_input_node named, pc_input_name named) \<and>
          pc_output_selector new = map_option selector_json (pc_output_selector old) \<and>
          pc_input_selector new = map_option selector_json (pc_input_selector old) \<and>
          (pc_output_node_type new, pc_input_node_type new, pc_port_type new)
            = (pc_output_node_type old, pc_input_node_type old, pc_port_type old))"
proof -
  let ?named = "filter has_names (pb_connections pb)" and ?es = "sidecar_entries fp pb"
  let ?new = "map (\<lambda>(e, c). apply_entry (entry_json e) (xml_view c)) (zip ?es ?named)"
  have le: "length ?named \<le> length (pb_connections pb)" by simp
  have len: "length ?es = length (pb_connections pb)" by (simp add: sidecar_entries_def)
  have new: "?new ! i = apply_entry (entry_json (?es ! i)) (xml_view (?named ! i))"
    if "i < length ?new" for i
    using that by simp
  have entry: "?es ! i = \<lparr>se_index = Some i, se_fingerprint = fp (pb_connections pb ! i),
      se_output_selector = pc_output_selector (pb_connections pb ! i),
      se_input_selector = pc_input_selector (pb_connections pb ! i),
      se_output_node_type = pc_output_node_type (pb_connections pb ! i),
      se_input_node_type = pc_input_node_type (pb_connections pb ! i),
      se_port_type = Some (pc_port_type (pb_connections pb ! i))\<rparr>"
    if "i < length ?new" for i
  proof -
    have "i < length ?named" using that by simp
    from order.strict_trans2 [OF this le] have "i < length (pb_connections pb)" .
    then show ?thesis by (simp add: sidecar_entries_def)
  qed
  show ?thesis
    unfolding load_saved
    by (intro exI conjI, rule refl)
      (use le len new entry in \<open>auto simp: Let_def entry_json_def apply_entry_def xml_view_def
        patch_connection_default_def\<close>)
qed

theorem sidecar_assigned_by_position_witness:
  "\<exists>loaded. load_xml pc_output_name (map Inr (fst (save_xml pc_output_name shifted_patchbay) @ [XEof]))
      (Some (snd (save_xml pc_output_name shifted_patchbay))) = Inr loaded \<and>
    length (pb_connections loaded) = 2 \<and>
    pc_output_name (pb_connections loaded ! 1) = ''capture_FR'' \<and>
    map_option sel_port_name (pc_output_selector (pb_connections loaded ! 1)) = Some ''capture_FL''"
proof -
  have old: "pb_connections shifted_patchbay ! 1 = example_rule ''capture_FL''"
    "map_option sel_port_name (pc_output_selector (example_rule ''capture_FL'')) = Some ''capture_FL''"
    "pc_output_name (example_rule ''capture_FR'') = ''capture_FR''"
    and named: "filter has_names (pb_connections shifted_patchbay)
      = [example_rule ''capture_FL'', example_rule ''capture_FR'']"
    by (simp_all add: shifted_patchbay_def example_patchbay_def example_rule_def has_names_def
        patch_connection_default_def legacy_selector_def)
  obtain loaded where load: "load_xml pc_output_name
      (map Inr (fst (save_xml pc_output_name shifted_patchbay) @ [XEof]))
      (Some (snd (save_xml pc_output_name shifted_patchbay))) = Inr loaded"
    and len: "length (pb_connections loaded) = 2"
    and each: "i < length (pb_connections loaded) \<Longrightarrow>
      pc_output_name (pb_connections loaded ! i)
        = pc_output_name ([example_rule ''capture_FL'', example_rule ''capture_FR''] ! i) \<and>
      pc_output_selector (pb_connections loaded ! i)
        = map_option selector_json (pc_output_selector (pb_connections shifted_patchbay ! i))" for i
    using sidecar_assigned_by_position [of pc_output_name shifted_patchbay]
    unfolding named by (auto simp: Let_def)
  have one: "pc_output_name (pb_connections loaded ! 1) = ''capture_FR'' \<and>
      pc_output_selector (pb_connections loaded ! 1)
        = map_option selector_json (pc_output_selector (example_rule ''capture_FL''))"
    using each [of 1] old(1,3) len by simp
  obtain s where "pc_output_selector (example_rule ''capture_FL'') = Some s" "sel_port_name s = ''capture_FL''"
    using old(2) by (cases "pc_output_selector (example_rule ''capture_FL'')") simp_all
  with one have "map_option sel_port_name (pc_output_selector (pb_connections loaded ! 1)) = Some ''capture_FL''"
    by simp
  with load len one show ?thesis by blast
qed

end
