(* ===== verification/Byte_Codec.thy ===== *)
theory Byte_Codec
  imports Prelude
begin

text \<open>
  Bytes on the wire: little-endian integers (\<^verbatim>\<open>to_le_bytes\<close>, \<^verbatim>\<open>from_le_bytes\<close>) and the
  bytes of a string. A \<open>string\<close> holds the UTF-8 bytes of the program's string.
\<close>

type_synonym bytes = "u8 list"

fun le_bytes :: "nat \<Rightarrow> nat \<Rightarrow> bytes" where
  "le_bytes 0 x = []"
| "le_bytes (Suc n) x = of_nat (x mod 256) # le_bytes n (x div 256)"

fun from_le :: "bytes \<Rightarrow> nat" where
  "from_le [] = 0"
| "from_le (b # bs) = unat b + 256 * from_le bs"

definition u16_le :: "16 word \<Rightarrow> bytes" where
  "u16_le w = le_bytes 2 (unat w)"

definition u32_le :: "u32 \<Rightarrow> bytes" where
  "u32_le w = le_bytes 4 (unat w)"

definition u64_le :: "u64 \<Rightarrow> bytes" where
  "u64_le w = le_bytes 8 (unat w)"

definition as_bytes :: "string \<Rightarrow> bytes" where
  "as_bytes s = map (\<lambda>c. of_nat (of_char c)) s"

lemma length_le_bytes [simp]: "length (le_bytes n x) = n"
  by (induction n x rule: le_bytes.induct) auto

lemma from_le_bytes: "from_le (le_bytes n x) = x mod 256 ^ n"
proof (induction n x rule: le_bytes.induct)
  case (1 x)
  show ?case by simp
next
  case (2 n x)
  have "unat (of_nat (x mod 256) :: u8) = x mod 256"
    by (simp add: unat_of_nat)
  with 2 show ?case
    by (simp add: mod_mult2_eq)
qed

lemma length_u_le [simp]:
  "length (u16_le w16) = 2" "length (u32_le w32) = 4" "length (u64_le w64) = 8"
  by (simp_all add: u16_le_def u32_le_def u64_le_def)

lemma unat_below: "unat w < 2 ^ LENGTH('a)" for w :: "'a::len word"
  by (rule unsigned_less)

lemma from_le_u16 [simp]: "from_le (u16_le w) = unat w"
  using unat_below [of w] by (simp add: u16_le_def from_le_bytes)

lemma from_le_u32 [simp]: "from_le (u32_le w) = unat w"
  using unat_below [of w] by (simp add: u32_le_def from_le_bytes)

lemma from_le_u64 [simp]: "from_le (u64_le w) = unat w"
  using unat_below [of w] by (simp add: u64_le_def from_le_bytes)

lemma u_le_inject [simp]:
  "u16_le v = u16_le w \<longleftrightarrow> v = w"
  "u32_le x = u32_le y \<longleftrightarrow> x = y"
  "u64_le s = u64_le t \<longleftrightarrow> s = t"
  by (metis from_le_u16 word_unat_eq_iff, metis from_le_u32 word_unat_eq_iff,
      metis from_le_u64 word_unat_eq_iff)

lemma as_bytes_inject [simp]: "as_bytes s = as_bytes t \<longleftrightarrow> s = t"
proof -
  have "inj (\<lambda>c. of_nat (of_char c) :: u8)"
  proof (rule injI)
    fix c d :: char
    assume "(of_nat (of_char c) :: u8) = of_nat (of_char d)"
    then have "unat (of_nat (of_char c) :: u8) = unat (of_nat (of_char d) :: u8)"
      by simp
    then show "c = d"
      by (simp add: unat_of_nat)
  qed
  then show ?thesis
    by (simp add: as_bytes_def inj_map_eq_map)
qed

lemma length_as_bytes [simp]: "length (as_bytes s) = length s"
  by (simp add: as_bytes_def)

text \<open>Fields of known lengths are read back one by one.\<close>

lemma append_split_eq:
  "length xs = length ys \<Longrightarrow> xs @ us = ys @ vs \<longleftrightarrow> xs = ys \<and> us = vs"
  by simp

end
