(* ===== verification/Relay_Crypto.thy ===== *)
theory Relay_Crypto
  imports Byte_Codec
begin

unbundle bit_operations_syntax

text \<open>
  Session keys and authenticated frames of the relay (\<^verbatim>\<open>pw-graph-relay/src/crypto.rs\<close>).
  The libraries it calls are parameters: SPAKE2 (a start and a finish function), HKDF-SHA256
  (salt, secret, info to 32 bytes), HMAC-SHA256, and the AEAD as a record of functions.
  Messages that are authenticated are built byte by byte, so that what they bind is a
  property of the model.
\<close>

subsection \<open>Errors and parameters\<close>

datatype relay_error =
  Relay_Io string
| Relay_Protocol string
| Relay_Codec string
| Relay_Engine string
| Relay_Config string

fun show_relay_error :: "relay_error \<Rightarrow> string" where
  "show_relay_error (Relay_Io e) = ''relay I/O error: '' @ e"
| "show_relay_error (Relay_Protocol e) = ''relay protocol error: '' @ e"
| "show_relay_error (Relay_Codec e) = ''relay codec error: '' @ e"
| "show_relay_error (Relay_Engine e) = ''relay engine error: '' @ e"
| "show_relay_error (Relay_Config e) = ''relay configuration error: '' @ e"

record 'c aead =
  make_cipher :: "bytes \<Rightarrow> (string, 'c) result"
  encrypt :: "'c \<Rightarrow> bytes \<Rightarrow> bytes \<Rightarrow> bytes \<Rightarrow> bytes option"
  decrypt :: "'c \<Rightarrow> bytes \<Rightarrow> bytes \<Rightarrow> bytes \<Rightarrow> bytes option"

type_synonym hkdf = "bytes \<Rightarrow> bytes \<Rightarrow> bytes \<Rightarrow> bytes"
type_synonym hmac = "bytes \<Rightarrow> bytes \<Rightarrow> bytes"

definition tag_len :: nat where "tag_len = 16"

definition confirm_len :: nat where "confirm_len = 32"

definition resume_nonce_len :: nat where "resume_nonce_len = 32"

definition protocol_version :: u8 where "protocol_version = 3"

text \<open>
  What the AEAD documents: encryption with a cipher, nonce and associated data is undone by
  decryption with the same ones, and adds a tag.
\<close>

definition aead_correct :: "'c aead \<Rightarrow> bool" where
  "aead_correct L \<longleftrightarrow>
     (\<forall>c n m a s. encrypt L c n m a = Some s \<longrightarrow>
        decrypt L c n s a = Some m \<and> length s = length m + tag_len)"

subsection \<open>Domain separators\<close>

definition pake_identity :: string where
  "pake_identity = ''qpwgraph-rs/relay/v3''"

definition info_control_c2h :: string where
  "info_control_c2h = ''qpw-relay control client->host''"

definition info_control_h2c :: string where
  "info_control_h2c = ''qpw-relay control host->client''"

definition info_audio_c2h :: string where
  "info_audio_c2h = ''qpw-relay audio client->host''"

definition info_audio_h2c :: string where
  "info_audio_h2c = ''qpw-relay audio host->client''"

definition info_confirm_c :: string where
  "info_confirm_c = ''qpw-relay confirm client''"

definition info_confirm_h :: string where
  "info_confirm_h = ''qpw-relay confirm host''"

definition info_resume_auth :: string where
  "info_resume_auth = ''qpw-relay resume authentication v1''"

definition info_resume_control_c2h :: string where
  "info_resume_control_c2h = ''qpw-relay resume control client->host v1''"

definition info_resume_control_h2c :: string where
  "info_resume_control_h2c = ''qpw-relay resume control host->client v1''"

definition resume_proof_domain :: string where
  "resume_proof_domain = ''qpw-relay resume proof v1''"

definition resume_control_domain :: string where
  "resume_control_domain = ''qpw-relay resume control context v1''"

definition trusted_proof_domain :: string where
  "trusted_proof_domain = ''qpw-relay trusted proof v1''"

definition trusted_keys_domain :: string where
  "trusted_keys_domain = ''qpw-relay trusted session keys v1''"

definition tcp_audio_domain :: string where
  "tcp_audio_domain = ''qpw-relay tcp audio proof v1''"

lemmas domain_defs = resume_proof_domain_def resume_control_domain_def trusted_proof_domain_def
  trusted_keys_domain_def tcp_audio_domain_def

subsection \<open>Sides and keys\<close>

datatype side = Client | Host

fun peer_side :: "side \<Rightarrow> side" where
  "peer_side Client = Host"
| "peer_side Host = Client"

lemma peer_side_twice [simp]: "peer_side (peer_side s) = s"
  by (cases s) auto

record 's pake_state =
  ps_state :: 's
  ps_message :: bytes
  ps_side :: side

definition pake_start ::
    "(bytes \<Rightarrow> bytes \<Rightarrow> 's \<times> bytes) \<Rightarrow> side \<Rightarrow> string \<Rightarrow> 's pake_state" where
  "pake_start start s pin =
     (case start (as_bytes pin) (as_bytes pake_identity) of (state, message) \<Rightarrow>
        \<lparr>ps_state = state, ps_message = message, ps_side = s\<rparr>)"

record session_keys =
  control_send :: bytes
  control_recv :: bytes
  audio_send :: bytes
  audio_recv :: bytes
  confirm_send :: bytes
  confirm_recv :: bytes
  resume_auth :: bytes
  sk_side :: side

definition derive_keys :: "hkdf \<Rightarrow> bytes \<Rightarrow> bytes \<Rightarrow> side \<Rightarrow> session_keys" where
  "derive_keys H shared transcript s =
     (let expand = (\<lambda>info. H transcript shared (as_bytes info));
          control_c2h = expand info_control_c2h;
          control_h2c = expand info_control_h2c;
          audio_c2h = expand info_audio_c2h;
          audio_h2c = expand info_audio_h2c;
          confirm_c = expand info_confirm_c;
          confirm_h = expand info_confirm_h;
          auth = expand info_resume_auth
      in case s of
        Client \<Rightarrow> \<lparr>control_send = control_c2h, control_recv = control_h2c,
                   audio_send = audio_c2h, audio_recv = audio_h2c,
                   confirm_send = confirm_c, confirm_recv = confirm_h,
                   resume_auth = auth, sk_side = s\<rparr>
      | Host \<Rightarrow> \<lparr>control_send = control_h2c, control_recv = control_c2h,
                 audio_send = audio_h2c, audio_recv = audio_c2h,
                 confirm_send = confirm_h, confirm_recv = confirm_c,
                 resume_auth = auth, sk_side = s\<rparr>)"

definition pake_finish ::
    "('s \<Rightarrow> bytes \<Rightarrow> (string, bytes) result) \<Rightarrow> hkdf \<Rightarrow> 's pake_state \<Rightarrow> bytes \<Rightarrow>
     (relay_error, session_keys) result" where
  "pake_finish fin H p peer_message =
     (case fin (ps_state p) peer_message of
        Inl error \<Rightarrow> Inl (Relay_Protocol (''pairing exchange failed: '' @ error))
      | Inr shared \<Rightarrow>
          (case (case ps_side p of Client \<Rightarrow> (ps_message p, peer_message)
                                 | Host \<Rightarrow> (peer_message, ps_message p)) of
             (client_message, host_message) \<Rightarrow>
               Inr (derive_keys H shared (client_message @ host_message) (ps_side p))))"

definition confirmation :: "session_keys \<Rightarrow> bytes" where
  "confirmation k = confirm_send k"

definition verify_confirmation :: "session_keys \<Rightarrow> bytes \<Rightarrow> bool" where
  "verify_confirmation k provided =
     (if length provided \<noteq> confirm_len then False else confirm_recv k = provided)"

definition resume_auth_key :: "session_keys \<Rightarrow> bytes" where
  "resume_auth_key k = resume_auth k"

subsection \<open>Nonces, sealing and opening\<close>

definition nonce_prefix :: "side \<Rightarrow> bytes" where
  "nonce_prefix s = (case s of Client \<Rightarrow> as_bytes ''QPWc'' | Host \<Rightarrow> as_bytes ''QPWh'')"

definition nonce_for :: "side \<Rightarrow> u64 \<Rightarrow> bytes" where
  "nonce_for s counter = nonce_prefix s @ u64_le counter"

definition cipher :: "'c aead \<Rightarrow> bytes \<Rightarrow> (relay_error, 'c) result" where
  "cipher L key =
     (case make_cipher L key of
        Inl error \<Rightarrow> Inl (Relay_Protocol (''session key rejected: '' @ error))
      | Inr c \<Rightarrow> Inr c)"

record 'c sealer =
  s_cipher :: 'c
  s_side :: side
  s_counter :: u64

definition sealer_new :: "'c aead \<Rightarrow> bytes \<Rightarrow> side \<Rightarrow> (relay_error, 'c sealer) result" where
  "sealer_new L key s =
     (case cipher L key of
        Inl e \<Rightarrow> Inl e
      | Inr c \<Rightarrow> Inr \<lparr>s_cipher = c, s_side = s, s_counter = 0\<rparr>)"

definition next_counter :: "'c sealer \<Rightarrow> u64" where
  "next_counter sl = s_counter sl"

definition seal ::
    "'c aead \<Rightarrow> bytes \<Rightarrow> bytes \<Rightarrow> 'c sealer \<Rightarrow> (relay_error, bytes) result \<times> 'c sealer" where
  "seal L plaintext aad sl =
     (case encrypt L (s_cipher sl) (nonce_for (s_side sl) (s_counter sl)) plaintext aad of
        None \<Rightarrow> (Inl (Relay_Protocol ''frame encryption failed''), sl)
      | Some sealed \<Rightarrow> (Inr sealed, sl\<lparr>s_counter := s_counter sl + 1\<rparr>))"

record 'c opener =
  o_cipher :: 'c
  o_side :: side
  o_highest :: u64
  o_seen :: u64
  o_started :: bool

definition replay_window :: u64 where "replay_window = 64"

definition opener_new :: "'c aead \<Rightarrow> bytes \<Rightarrow> side \<Rightarrow> (relay_error, 'c opener) result" where
  "opener_new L key s =
     (case cipher L key of
        Inl e \<Rightarrow> Inl e
      | Inr c \<Rightarrow> Inr \<lparr>o_cipher = c, o_side = s, o_highest = 0, o_seen = 0, o_started = False\<rparr>)"

definition open_with ::
    "'c aead \<Rightarrow> u64 \<Rightarrow> bytes \<Rightarrow> bytes \<Rightarrow> 'c opener \<Rightarrow> (relay_error, bytes) result" where
  "open_with L counter sealed aad o1 =
     (case decrypt L (o_cipher o1) (nonce_for (o_side o1) counter) sealed aad of
        None \<Rightarrow> Inl (Relay_Protocol ''frame authentication failed'')
      | Some plaintext \<Rightarrow> Inr plaintext)"

definition window_allows :: "u64 \<Rightarrow> 'c opener \<Rightarrow> bool" where
  "window_allows counter o1 =
     (if counter > o_highest o1 then True
      else let distance = o_highest o1 - counter in
        if distance \<ge> replay_window then False
        else o_seen o1 AND push_bit (unat distance) 1 = 0)"

definition record_counter :: "u64 \<Rightarrow> 'c opener \<Rightarrow> 'c opener" where
  "record_counter counter o1 =
     (if \<not> o_started o1 then o1\<lparr>o_highest := counter, o_seen := 1, o_started := True\<rparr>
      else if counter > o_highest o1 then
        let shift = counter - o_highest o1 in
        o1\<lparr>o_seen := (if shift \<ge> replay_window then 1
                       else push_bit (unat shift) (o_seen o1) OR 1),
           o_highest := counter\<rparr>
      else
        let distance = o_highest o1 - counter in
        if distance < replay_window
        then o1\<lparr>o_seen := o_seen o1 OR push_bit (unat distance) 1\<rparr>
        else o1)"

text \<open>The control channel is in order: its counter is never sent.\<close>

definition open_sequential ::
    "'c aead \<Rightarrow> bytes \<Rightarrow> bytes \<Rightarrow> 'c opener \<Rightarrow> (relay_error, bytes) result \<times> 'c opener" where
  "open_sequential L sealed aad o1 =
     (let counter = (if o_started o1 then o_highest o1 + 1 else 0) in
      case open_with L counter sealed aad o1 of
        Inl e \<Rightarrow> (Inl e, o1)
      | Inr plaintext \<Rightarrow> (Inr plaintext, o1\<lparr>o_highest := counter, o_started := True\<rparr>))"

definition open_windowed ::
    "'c aead \<Rightarrow> u64 \<Rightarrow> bytes \<Rightarrow> bytes \<Rightarrow> 'c opener \<Rightarrow>
     (relay_error, bytes) result \<times> 'c opener" where
  "open_windowed L counter sealed aad o1 =
     (if o_started o1 \<and> \<not> window_allows counter o1
      then (Inl (Relay_Protocol ''audio packet replayed or too old''), o1)
      else case open_with L counter sealed aad o1 of
        Inl e \<Rightarrow> (Inl e, o1)
      | Inr plaintext \<Rightarrow> (Inr plaintext, record_counter counter o1))"

subsection \<open>Channels\<close>

definition channel ::
    "'c aead \<Rightarrow> bytes \<Rightarrow> side \<Rightarrow> bytes \<Rightarrow> side \<Rightarrow> (relay_error, 'c sealer \<times> 'c opener) result"
where
  "channel L send_key send_side recv_key recv_side =
     (case sealer_new L send_key send_side of
        Inl e \<Rightarrow> Inl e
      | Inr sl \<Rightarrow>
          (case opener_new L recv_key recv_side of Inl e \<Rightarrow> Inl e | Inr o1 \<Rightarrow> Inr (sl, o1)))"

definition control_channel ::
    "'c aead \<Rightarrow> session_keys \<Rightarrow> (relay_error, 'c sealer \<times> 'c opener) result" where
  "control_channel L k =
     channel L (control_send k) (sk_side k) (control_recv k) (peer_side (sk_side k))"

definition audio_channel ::
    "'c aead \<Rightarrow> session_keys \<Rightarrow> (relay_error, 'c sealer \<times> 'c opener) result" where
  "audio_channel L k =
     channel L (audio_send k) (sk_side k) (audio_recv k) (peer_side (sk_side k))"

subsection \<open>Authenticated messages\<close>

text \<open>\<^verbatim>\<open>as u16\<close> keeps the low 16 bits of a length.\<close>

definition len_u16 :: "string \<Rightarrow> bytes" where
  "len_u16 s = u16_le (of_nat (length s))"

definition resume_proof_message ::
    "u64 \<Rightarrow> bytes \<Rightarrow> bytes \<Rightarrow> u64 \<Rightarrow> bytes" where
  "resume_proof_message session_id client_nonce server_nonce generation =
     as_bytes resume_proof_domain @ [protocol_version] @ u64_le session_id @
     u64_le generation @ client_nonce @ server_nonce"

definition resume_proof ::
    "hmac \<Rightarrow> bytes \<Rightarrow> u64 \<Rightarrow> bytes \<Rightarrow> bytes \<Rightarrow> u64 \<Rightarrow> bytes" where
  "resume_proof M secret session_id client_nonce server_nonce generation =
     M secret (resume_proof_message session_id client_nonce server_nonce generation)"

definition verify_resume_proof ::
    "hmac \<Rightarrow> bytes \<Rightarrow> u64 \<Rightarrow> bytes \<Rightarrow> bytes \<Rightarrow> u64 \<Rightarrow> bytes \<Rightarrow> bool" where
  "verify_resume_proof M secret session_id client_nonce server_nonce generation provided =
     (if length provided \<noteq> confirm_len then False
      else resume_proof M secret session_id client_nonce server_nonce generation = provided)"

definition resume_context :: "u64 \<Rightarrow> bytes \<Rightarrow> bytes \<Rightarrow> u64 \<Rightarrow> bytes" where
  "resume_context session_id client_nonce server_nonce generation =
     as_bytes resume_control_domain @ [protocol_version] @ u64_le session_id @
     u64_le generation @ client_nonce @ server_nonce"

definition resume_control_channel ::
    "'c aead \<Rightarrow> hkdf \<Rightarrow> bytes \<Rightarrow> side \<Rightarrow> u64 \<Rightarrow> bytes \<Rightarrow> bytes \<Rightarrow> u64 \<Rightarrow>
     (relay_error, 'c sealer \<times> 'c opener) result" where
  "resume_control_channel L H secret s session_id client_nonce server_nonce generation =
     (let context = resume_context session_id client_nonce server_nonce generation;
          client_to_host = H context secret (as_bytes info_resume_control_c2h);
          host_to_client = H context secret (as_bytes info_resume_control_h2c)
      in case s of
        Client \<Rightarrow> channel L client_to_host Client host_to_client Host
      | Host \<Rightarrow> channel L host_to_client Host client_to_host Client)"

definition trusted_fields ::
    "string \<Rightarrow> string \<Rightarrow> u64 \<Rightarrow> bytes \<Rightarrow> bytes \<Rightarrow> bytes" where
  "trusted_fields client_id host_id session_id client_nonce server_nonce =
     len_u16 client_id @ as_bytes client_id @ len_u16 host_id @ as_bytes host_id @
     u64_le session_id @ client_nonce @ server_nonce"

definition trusted_proof_message ::
    "string \<Rightarrow> string \<Rightarrow> u64 \<Rightarrow> bytes \<Rightarrow> bytes \<Rightarrow> bytes" where
  "trusted_proof_message client_id host_id session_id client_nonce server_nonce =
     as_bytes trusted_proof_domain @
     trusted_fields client_id host_id session_id client_nonce server_nonce"

definition trusted_proof ::
    "hmac \<Rightarrow> bytes \<Rightarrow> string \<Rightarrow> string \<Rightarrow> u64 \<Rightarrow> bytes \<Rightarrow> bytes \<Rightarrow> bytes" where
  "trusted_proof M secret client_id host_id session_id client_nonce server_nonce =
     M secret (trusted_proof_message client_id host_id session_id client_nonce server_nonce)"

definition verify_trusted_proof ::
    "hmac \<Rightarrow> bytes \<Rightarrow> string \<Rightarrow> string \<Rightarrow> u64 \<Rightarrow> bytes \<Rightarrow> bytes \<Rightarrow> bytes \<Rightarrow> bool" where
  "verify_trusted_proof M secret client_id host_id session_id client_nonce server_nonce provided =
     (if length provided \<noteq> confirm_len then False
      else trusted_proof M secret client_id host_id session_id client_nonce server_nonce =
           provided)"

definition trusted_session_keys ::
    "hkdf \<Rightarrow> bytes \<Rightarrow> string \<Rightarrow> string \<Rightarrow> u64 \<Rightarrow> bytes \<Rightarrow> bytes \<Rightarrow> side \<Rightarrow> session_keys" where
  "trusted_session_keys H secret client_id host_id session_id client_nonce server_nonce s =
     derive_keys H secret
       (as_bytes trusted_keys_domain @
        trusted_fields client_id host_id session_id client_nonce server_nonce) s"

definition side_byte :: "side \<Rightarrow> u8" where
  "side_byte s = (case s of Client \<Rightarrow> 0 | Host \<Rightarrow> 1)"

definition tcp_audio_proof ::
    "hmac \<Rightarrow> bytes \<Rightarrow> u64 \<Rightarrow> bytes \<Rightarrow> bytes \<Rightarrow> side \<Rightarrow> bytes" where
  "tcp_audio_proof M secret session_id client_nonce server_nonce s =
     M secret (as_bytes tcp_audio_domain @ [side_byte s] @ u64_le session_id @
       client_nonce @ server_nonce)"

end
