(* ===== verification/Relay_Crypto_Props.thy ===== *)
theory Relay_Crypto_Props
  imports Relay_Crypto
begin

text \<open>
  The replay window of the relay's \<^verbatim>\<open>Opener\<close> against a reference that keeps every accepted
  counter, the agreement of the keys of paired peers, and what the authenticated
  messages bind. A filter of counters is the locale \<open>replay_filter\<close>, interpreted by the
  window.
\<close>

subsection \<open>A filter of counters\<close>

fun run_filter :: "('s \<Rightarrow> 'k \<Rightarrow> bool) \<Rightarrow> ('k \<Rightarrow> 's \<Rightarrow> 's) \<Rightarrow> 'k list \<Rightarrow> 's \<Rightarrow> 'k list" where
  "run_filter allows note [] s = []"
| "run_filter allows note (k # ks) s =
     (if allows s k then k # run_filter allows note ks (note k s)
      else run_filter allows note ks s)"

locale replay_filter =
  fixes allows :: "'s \<Rightarrow> 'k \<Rightarrow> bool"
    and note_key :: "'k \<Rightarrow> 's \<Rightarrow> 's"
    and remembers :: "'s \<Rightarrow> 'k set \<Rightarrow> bool"
  assumes never_again: "remembers s A \<Longrightarrow> allows s k \<Longrightarrow> k \<notin> A"
    and remembers_note: "remembers s A \<Longrightarrow> allows s k \<Longrightarrow> remembers (note_key k s) (insert k A)"
begin

lemma run_distinct:
  "remembers s A \<Longrightarrow>
   distinct (run_filter allows note_key ks s) \<and> set (run_filter allows note_key ks s) \<inter> A = {}"
proof (induction ks arbitrary: s A)
  case Nil
  then show ?case by simp
next
  case (Cons k ks)
  show ?case
  proof (cases "allows s k")
    case True
    with Cons.IH [OF remembers_note [OF Cons.prems True]] never_again [OF Cons.prems True]
    show ?thesis by auto
  next
    case False
    with Cons show ?thesis by simp
  qed
qed

end

subsection \<open>The window as a filter\<close>

definition opener_allows :: "'c opener \<Rightarrow> u64 \<Rightarrow> bool" where
  "opener_allows o1 counter \<longleftrightarrow> \<not> o_started o1 \<or> window_allows counter o1"

text \<open>The reference: a set of accepted counters.\<close>

definition reference_allows :: "u64 set \<Rightarrow> u64 \<Rightarrow> bool" where
  "reference_allows A counter \<longleftrightarrow>
     A = {} \<or> Max A < counter \<or> (Max A - counter < replay_window \<and> counter \<notin> A)"

definition remembers :: "'c opener \<Rightarrow> u64 set \<Rightarrow> bool" where
  "remembers o1 A \<longleftrightarrow> finite A \<and>
     (if o_started o1
      then A \<noteq> {} \<and> o_highest o1 = Max A \<and>
        (\<forall>c. c \<le> o_highest o1 \<longrightarrow> o_highest o1 - c < replay_window \<longrightarrow>
           (bit (o_seen o1) (unat (o_highest o1 - c)) \<longleftrightarrow> c \<in> A))
      else A = {})"

lemma unat_window: "w < replay_window \<longleftrightarrow> unat w < 64"
  by (simp add: replay_window_def word_less_nat_alt)

lemma set_bit_mask:
  "n < 64 \<Longrightarrow> bit (w OR push_bit n 1) m \<longleftrightarrow> bit w m \<or> m = n" for w :: u64
  by (auto simp: bit_simps)

lemma remembers_allows:
  assumes "remembers o1 A"
  shows "opener_allows o1 c \<longleftrightarrow> reference_allows A c"
proof (cases "o_started o1")
  case False
  with assms show ?thesis
    by (simp add: remembers_def opener_allows_def reference_allows_def)
next
  case True
  note r = assms [unfolded remembers_def if_P [OF True]]
  show ?thesis
  proof (cases "o_highest o1 < c")
    case True
    with r \<open>o_started o1\<close> show ?thesis
      by (simp add: opener_allows_def window_allows_def reference_allows_def)
  next
    case False
    then have le: "c \<le> o_highest o1" by simp
    show ?thesis
    proof (cases "o_highest o1 - c < replay_window")
      case True
      then have "unat (o_highest o1 - c) < 64" by (simp only: unat_window)
      then have "window_allows c o1 \<longleftrightarrow> \<not> bit (o_seen o1) (unat (o_highest o1 - c))"
        using False True
        by (simp add: window_allows_def Let_def and_exp_eq_0_iff_not_bit True [unfolded not_le [symmetric]])
      with r le True False \<open>o_started o1\<close> show ?thesis
        by (auto simp: opener_allows_def reference_allows_def)
    next
      case f: False
      with r False \<open>o_started o1\<close> show ?thesis
        by (auto simp: opener_allows_def reference_allows_def window_allows_def Let_def)
    qed
  qed
qed

lemma reference_fresh: "finite A \<Longrightarrow> reference_allows A c \<Longrightarrow> c \<notin> A"
  by (metis Max_ge empty_iff leD reference_allows_def)

text \<open>Moving the window up by \<open>c - h\<close> keeps what each counter in it says.\<close>

lemma window_shift:
  fixes c h d seen :: u64
  assumes "h < c" and "d \<le> c" and "c - d < replay_window"
    and seen: "\<And>e. e \<le> h \<Longrightarrow> h - e < replay_window \<Longrightarrow> bit seen (unat (h - e)) \<longleftrightarrow> e \<in> A"
    and max: "\<And>e. e \<in> A \<Longrightarrow> e \<le> h"
  shows "bit (if replay_window \<le> c - h then 1 else push_bit (unat (c - h)) seen OR 1)
     (unat (c - d)) \<longleftrightarrow> d \<in> insert c A"
proof -
  have sub: "unat (y - x) = unat y - unat x" if "x \<le> y" for x y :: u64
    using that by (rule unat_sub)
  note nat = word_le_nat_alt word_less_nat_alt
  consider "d = c" | "d \<noteq> c" "h < d" | "d \<noteq> c" "d \<le> h"
    by fastforce
  then show ?thesis
  proof cases
    case 1
    then show ?thesis by (simp add: bit_simps)
  next
    case 2
    have "d \<notin> A"
      using max 2 by (meson leD)
    moreover have "unat (c - d) < unat (c - h)" "unat (c - d) \<noteq> 0"
      using 2 assms(1,2) sub [of d c] sub [of h c] by (auto simp: nat word_unat_eq_iff)
    ultimately show ?thesis
      using 2 by (simp add: bit_simps)
  next
    case 3
    have split: "unat (c - d) = unat (c - h) + unat (h - d)"
      using 3 assms(1,2) sub [of d c] sub [of h c] sub [of d h] by (simp add: nat)
    then have win: "h - d < replay_window" and near: "\<not> replay_window \<le> c - h"
      using assms(3) by (auto simp only: unat_window not_le)
    have "unat (c - d) \<noteq> 0"
      using 3 assms(2) sub [of d c] by (auto simp: nat word_unat_eq_iff)
    moreover have "unat (c - d) < 64"
      using assms(3) by (simp only: unat_window)
    ultimately show ?thesis
      using seen [OF 3(2) win] near 3 by (auto simp: bit_simps split)
  qed
qed

lemma remembers_record:
  assumes "remembers o1 A" and "opener_allows o1 c"
  shows "remembers (record_counter c o1) (insert c A)"
proof (cases "o_started o1")
  case False
  with assms(1) show ?thesis
    by (auto simp: remembers_def record_counter_def bit_simps unat_eq_0)
next
  case True
  note r = assms(1) [unfolded remembers_def if_P [OF True]]
  let ?h = "o_highest o1"
  show ?thesis
  proof (cases "?h < c")
    case gt: True
    define seen where "seen = (if replay_window \<le> c - ?h then 1
      else push_bit (unat (c - ?h)) (o_seen o1) OR 1)"
    have "bit seen (unat (c - d)) \<longleftrightarrow> d \<in> insert c A"
      if "d \<le> c" and "c - d < replay_window" for d
      unfolding seen_def using r by (intro window_shift gt that) auto
    moreover have "Max (insert c A) = c"
      using r gt by (intro Max_eqI) (auto dest: Max_ge [of A])
    moreover have "record_counter c o1 = o1\<lparr>o_seen := seen, o_highest := c\<rparr>"
      using True gt by (simp add: record_counter_def Let_def seen_def)
    ultimately show ?thesis
      using True r by (simp add: remembers_def)
  next
    case False
    then have le: "c \<le> ?h" by simp
    have win: "?h - c < replay_window"
      using assms(2) True False by (auto simp: opener_allows_def window_allows_def Let_def split: if_splits)
    then have n: "unat (?h - c) < 64" by (simp only: unat_window)
    have "Max (insert c A) = ?h"
      using r le by (simp add: max_absorb2)
    moreover have "bit (o_seen o1 OR push_bit (unat (?h - c)) 1) (unat (?h - d)) \<longleftrightarrow> d \<in> insert c A"
      if "d \<le> ?h" and "?h - d < replay_window" for d
      using r that by (subst set_bit_mask [OF n]) (auto simp: word_unat_eq_iff [symmetric])
    moreover have "record_counter c o1 = o1\<lparr>o_seen := o_seen o1 OR push_bit (unat (?h - c)) 1\<rparr>"
      using True False win by (simp add: record_counter_def Let_def)
    ultimately show ?thesis
      using True r by (simp add: remembers_def del: push_bit_of_1)
  qed
qed

interpretation window: replay_filter opener_allows record_counter remembers
proof unfold_locales
  fix o1 :: "'c opener" and A c
  assume r: "remembers o1 A" and a: "opener_allows o1 c"
  from r have "finite A" by (simp add: remembers_def)
  with r a show "c \<notin> A" by (metis remembers_allows reference_fresh)
  from r a show "remembers (record_counter c o1) (insert c A)" by (rule remembers_record)
qed

subsection \<open>Datagrams\<close>

text \<open>A stream of received datagrams: the counter of the header, the sealed body, the header.\<close>

fun open_all ::
    "'c aead \<Rightarrow> (u64 \<times> bytes \<times> bytes) list \<Rightarrow> 'c opener \<Rightarrow> (relay_error, bytes) result list" where
  "open_all L [] o1 = []"
| "open_all L ((counter, sealed, aad) # ds) o1 =
     (case open_windowed L counter sealed aad o1 of (r, o2) \<Rightarrow> r # open_all L ds o2)"

text \<open>The reference receiver: it remembers every counter it accepted.\<close>

fun reference_open_all ::
    "'c aead \<Rightarrow> 'c opener \<Rightarrow> (u64 \<times> bytes \<times> bytes) list \<Rightarrow> u64 set \<Rightarrow>
     (relay_error, bytes) result list" where
  "reference_open_all L o1 [] A = []"
| "reference_open_all L o1 ((counter, sealed, aad) # ds) A =
     (if \<not> reference_allows A counter
      then Inl (Relay_Protocol ''audio packet replayed or too old'') # reference_open_all L o1 ds A
      else case open_with L counter sealed aad o1 of
        Inl e \<Rightarrow> Inl e # reference_open_all L o1 ds A
      | Inr plaintext \<Rightarrow> Inr plaintext # reference_open_all L o1 ds (insert counter A))"

lemma record_counter_frame [simp, frame_simps]:
  "o_cipher (record_counter c o1) = o_cipher o1"
  "o_side (record_counter c o1) = o_side o1"
  by (simp_all add: record_counter_def Let_def)

lemma open_with_record [simp]:
  "open_with L counter sealed aad (record_counter c o1) = open_with L counter sealed aad o1"
  by (simp add: open_with_def)

lemma open_windowed_allows:
  "open_windowed L counter sealed aad o1 =
     (if \<not> opener_allows o1 counter
      then (Inl (Relay_Protocol ''audio packet replayed or too old''), o1)
      else case open_with L counter sealed aad o1 of
        Inl e \<Rightarrow> (Inl e, o1)
      | Inr plaintext \<Rightarrow> (Inr plaintext, record_counter counter o1))"
  by (simp add: open_windowed_def opener_allows_def)

lemma reference_open_all_cong:
  "o_cipher o1 = o_cipher o2 \<Longrightarrow> o_side o1 = o_side o2 \<Longrightarrow>
   reference_open_all L o1 ds A = reference_open_all L o2 ds A"
  by (induction ds arbitrary: A) (auto simp: open_with_def split: option.split)

lemma open_all_reference:
  "remembers o1 A \<Longrightarrow> open_all L ds o1 = reference_open_all L o1 ds A"
proof (induction ds arbitrary: o1 A)
  case Nil
  show ?case by simp
next
  case (Cons d ds)
  obtain counter sealed aad where d: "d = (counter, sealed, aad)"
    by (cases d)
  show ?case
  proof (cases "opener_allows o1 counter")
    case True
    then have a: "reference_allows A counter"
      using remembers_allows [OF Cons.prems] by simp
    show ?thesis
    proof (cases "open_with L counter sealed aad o1")
      case (Inl e)
      with True a Cons show ?thesis
        by (simp add: d open_windowed_allows)
    next
      case (Inr p)
      have "open_all L ds (record_counter counter o1) =
          reference_open_all L o1 ds (insert counter A)"
        using Cons.IH [OF remembers_record [OF Cons.prems True]]
        by (simp add: reference_open_all_cong [of "record_counter counter o1" o1])
      with True a Inr show ?thesis
        by (simp add: d open_windowed_allows)
    qed
  next
    case False
    with Cons remembers_allows [OF Cons.prems] show ?thesis
      by (simp add: d open_windowed_allows)
  qed
qed

definition authentic :: "'c aead \<Rightarrow> 'c opener \<Rightarrow> u64 \<times> bytes \<times> bytes \<Rightarrow> bool" where
  "authentic L o1 d = (case d of (counter, sealed, aad) \<Rightarrow> is_ok (open_with L counter sealed aad o1))"

definition accepted_counters ::
    "(u64 \<times> bytes \<times> bytes) list \<Rightarrow> (relay_error, bytes) result list \<Rightarrow> u64 list" where
  "accepted_counters ds rs = map (fst \<circ> fst) (filter (is_ok \<circ> snd) (zip ds rs))"

lemma accepted_counters_simps [simp]:
  "accepted_counters [] rs = []"
  "accepted_counters (d # ds) (r # rs) =
     (if is_ok r then fst d # accepted_counters ds rs else accepted_counters ds rs)"
  by (simp_all add: accepted_counters_def)

lemma authentic_record [simp]: "authentic L (record_counter c o1) = authentic L o1"
  by (auto simp: authentic_def)

lemma accepted_run_filter:
  "accepted_counters ds (open_all L ds o1) =
   run_filter opener_allows record_counter (map fst (filter (authentic L o1) ds)) o1"
proof (induction ds arbitrary: o1)
  case Nil
  show ?case by simp
next
  case (Cons d ds)
  obtain counter sealed aad where d: "d = (counter, sealed, aad)"
    by (cases d)
  show ?case
  proof (cases "open_with L counter sealed aad o1")
    case (Inl e)
    then have "\<not> authentic L o1 d" by (simp add: d authentic_def)
    with Inl Cons.IH show ?thesis
      by (simp add: d open_windowed_allows)
  next
    case (Inr p)
    then have "authentic L o1 d" by (simp add: d authentic_def)
    with Inr Cons.IH show ?thesis
      by (simp add: d open_windowed_allows)
  qed
qed

lemma opener_new_remembers: "opener_new L key s = Inr o1 \<Longrightarrow> remembers o1 {}"
  by (auto simp: opener_new_def remembers_def split: sum.splits)

subsection \<open>Paired channels\<close>

definition expected_counter :: "'c opener \<Rightarrow> u64" where
  "expected_counter o1 = (if o_started o1 then o_highest o1 + 1 else 0)"

lemma pake_finish_keys:
  assumes "pake_finish fin H p peer_message = Inr k" and "fin (ps_state p) peer_message = Inr shared"
  shows "k = derive_keys H shared (case ps_side p of Client \<Rightarrow> ps_message p @ peer_message
    | Host \<Rightarrow> peer_message @ ps_message p) (ps_side p)"
  using assms by (auto simp: pake_finish_def split: side.splits)

lemma derived_keys_match:
  "control_recv (derive_keys H shared t (peer_side s)) = control_send (derive_keys H shared t s)"
  "audio_recv (derive_keys H shared t (peer_side s)) = audio_send (derive_keys H shared t s)"
  "confirm_recv (derive_keys H shared t (peer_side s)) = confirm_send (derive_keys H shared t s)"
  "sk_side (derive_keys H shared t s) = s"
  by (cases s; simp add: derive_keys_def Let_def)+

lemma channel_parts:
  assumes "channel L sk ss rk rs = Inr (sl, o1)"
  shows "s_side sl = ss \<and> s_counter sl = 0 \<and> o_side o1 = rs \<and> \<not> o_started o1 \<and>
    make_cipher L sk = Inr (s_cipher sl) \<and> make_cipher L rk = Inr (o_cipher o1)"
  using assms
  by (auto simp: channel_def sealer_new_def opener_new_def cipher_def split: sum.splits)

subsection \<open>Properties\<close>

text \<open>A checksum cipher, to show that the hypotheses on the AEAD can hold.\<close>

definition sum_aead :: "bytes aead" where
  "sum_aead = \<lparr>make_cipher = (\<lambda>key. Inr key),
     encrypt = (\<lambda>c n m a. Some (m @ replicate tag_len (sum_list (c @ n @ m @ a)))),
     decrypt = (\<lambda>c n s a.
       let m = take (length s - tag_len) s in
       if s = m @ replicate tag_len (sum_list (c @ n @ m @ a)) then Some m else None)\<rparr>"

lemma sum_aead_correct: "aead_correct sum_aead"
  by (auto simp: aead_correct_def sum_aead_def Let_def)

text \<open>
  C24: the 64-bit replay window is equivalent to remembering every accepted counter: for any
  sequence of datagrams, an opener answers each of them as the reference receiver does,
  which refuses a counter when it was accepted before or lies 64 or more below the highest
  accepted one, and nothing else but a failed authentication.
\<close>

theorem replay_window_equivalent:
  assumes "opener_new L key s = Inr o1"
  shows "open_all L ds o1 = reference_open_all L o1 ds {}"
  by (rule open_all_reference [OF opener_new_remembers [OF assms]])

theorem replay_window_equivalent_witness:
  "open_all sum_aead [(7, [], []), (7, [1], [])]
     \<lparr>o_cipher = [5], o_side = Host, o_highest = 0, o_seen = 0, o_started = False\<rparr> =
   reference_open_all sum_aead
     \<lparr>o_cipher = [5], o_side = Host, o_highest = 0, o_seen = 0, o_started = False\<rparr>
     [(7, [], []), (7, [1], [])] {}"
  by (rule replay_window_equivalent [of sum_aead "[5]" Host])
     (simp add: opener_new_def cipher_def sum_aead_def)

text \<open>
  No datagram counter is accepted twice, whatever datagrams arrive and in whatever order,
  so a recorded datagram never opens a second time.
\<close>

lemma no_counter_accepted_twice:
  assumes "opener_new L key s = Inr o1"
  shows "distinct (accepted_counters ds (open_all L ds o1))"
  using window.run_distinct [OF opener_new_remembers [OF assms]]
  by (simp add: accepted_run_filter)

text \<open>
  An authenticated message binds every field of its context: two resume proofs over the
  same bytes are for the same session, generation and nonces; two trusted-reconnect proofs
  over the same bytes are for the same two installations (with ids shorter than 65536 bytes,
  the limit of their length field), session and nonces; and no message of one kind is a
  message of the other.
\<close>

lemma proof_messages_bind:
  assumes "length cn = resume_nonce_len" and "length cn' = resume_nonce_len"
    and "length c < 65536" and "length c' < 65536" and "length h < 65536" and "length h' < 65536"
  shows "(resume_proof_message s cn sn g = resume_proof_message s' cn' sn' g' \<longleftrightarrow>
            s = s' \<and> g = g' \<and> cn = cn' \<and> sn = sn') \<and>
         (trusted_proof_message c h s cn sn = trusted_proof_message c' h' s' cn' sn' \<longleftrightarrow>
            c = c' \<and> h = h' \<and> s = s' \<and> cn = cn' \<and> sn = sn') \<and>
         resume_proof_message s cn sn g \<noteq> trusted_proof_message c h s' cn' sn'"
proof -
  have len: "length x = length y" if "len_u16 x @ u = len_u16 y @ v" "length x < 65536"
    "length y < 65536" for x y u v
  proof -
    from that(1) have "(of_nat (length x) :: 16 word) = of_nat (length y)"
      by (simp add: len_u16_def append_split_eq)
    then have "unat (of_nat (length x) :: 16 word) = unat (of_nat (length y) :: 16 word)"
      by simp
    then show ?thesis
      using that(2,3) by (simp add: unat_of_nat)
  qed
  have field: "len_u16 x @ as_bytes x @ u = len_u16 y @ as_bytes y @ v \<longleftrightarrow> x = y \<and> u = v"
    if "length x < 65536" "length y < 65536" for x y u v
  proof
    assume eq: "len_u16 x @ as_bytes x @ u = len_u16 y @ as_bytes y @ v"
    then have "length x = length y"
      using that by (rule len)
    with eq show "x = y \<and> u = v"
      by (simp add: len_u16_def append_split_eq)
  qed simp
  have "take 12 (resume_proof_message s cn sn g) \<noteq> take 12 (trusted_proof_message c h s' cn' sn')"
    by (simp add: resume_proof_message_def trusted_proof_message_def domain_defs as_bytes_def)
  then have "resume_proof_message s cn sn g \<noteq> trusted_proof_message c h s' cn' sn'"
    by metis
  moreover have "resume_proof_message s cn sn g = resume_proof_message s' cn' sn' g' \<longleftrightarrow>
      s = s' \<and> g = g' \<and> cn = cn' \<and> sn = sn'"
    using assms(1,2) by (simp add: resume_proof_message_def append_split_eq)
  moreover have "trusted_fields c h s cn sn = trusted_fields c' h' s' cn' sn' \<longleftrightarrow>
      c = c' \<and> h = h' \<and> s = s' \<and> cn = cn' \<and> sn = sn'"
    unfolding trusted_fields_def field [OF assms(3,4)] field [OF assms(5,6)]
    using assms(1,2) by (simp add: append_split_eq)
  ultimately show ?thesis
    by (simp add: trusted_proof_message_def)
qed

end
