(* ===== verification/Audio_Packet.thy ===== *)
theory Audio_Packet
  imports Relay_Crypto_Props
begin

text \<open>
  The audio datagram (\<^verbatim>\<open>pw-graph-relay/src/audio.rs\<close>, \<^verbatim>\<open>CodecKind\<close> of
  \<^verbatim>\<open>protocol.rs\<close>): a 20-byte header in the clear, authenticated as associated data, and
  the sealed frame. Slicing past the end cannot happen after the length check of \<open>parse\<close>.
\<close>

datatype codec_kind = Pcm | Opus

fun codec_id :: "codec_kind \<Rightarrow> u8" where
  "codec_id Pcm = 0"
| "codec_id Opus = 1"

definition codec_from_id :: "u8 \<Rightarrow> codec_kind option" where
  "codec_from_id n = (if n = 0 then Some Pcm else if n = 1 then Some Opus else None)"

definition audio_magic :: "16 word" where "audio_magic = 0xA1E5"

definition audio_header_len :: nat where "audio_header_len = 20"

definition audio_version :: u8 where "audio_version = 2"

definition flag_stereo :: u8 where "flag_stereo = 0x10"

definition flag_keyframe :: u8 where "flag_keyframe = 0x20"

record audio_packet =
  ap_stereo :: bool
  ap_keyframe :: bool
  ap_codec :: codec_kind
  ap_sequence :: u32
  ap_timestamp :: u32
  ap_counter :: u64
  ap_sealed :: bytes
  ap_header :: bytes

record audio_header =
  ah_stereo :: bool
  ah_keyframe :: bool
  ah_codec :: codec_kind
  ah_sequence :: u32
  ah_timestamp :: u32

definition slice :: "nat \<Rightarrow> nat \<Rightarrow> 'a list \<Rightarrow> 'a list" where
  "slice i j xs = take (j - i) (drop i xs)"

definition parse_packet :: "bytes \<Rightarrow> audio_packet option" where
  "parse_packet d =
     (if length d < audio_header_len + tag_len then None
      else if from_le (slice 0 2 d) \<noteq> unat audio_magic then None
      else
        let version_flags = d ! 2 in
        if version_flags AND 0x0F \<noteq> audio_version then None
        else case codec_from_id (d ! 3) of
          None \<Rightarrow> None
        | Some codec \<Rightarrow> Some
            \<lparr>ap_stereo = (version_flags AND flag_stereo \<noteq> 0),
             ap_keyframe = (version_flags AND flag_keyframe \<noteq> 0),
             ap_codec = codec,
             ap_sequence = of_nat (from_le (slice 4 8 d)),
             ap_timestamp = of_nat (from_le (slice 8 12 d)),
             ap_counter = of_nat (from_le (slice 12 20 d)),
             ap_sealed = drop audio_header_len d,
             ap_header = take audio_header_len d\<rparr>)"

definition open_packet ::
    "'c aead \<Rightarrow> audio_packet \<Rightarrow> 'c opener \<Rightarrow> (relay_error, bytes) result \<times> 'c opener" where
  "open_packet L p o1 = open_windowed L (ap_counter p) (ap_sealed p) (ap_header p) o1"

definition header_flags :: "audio_header \<Rightarrow> u8" where
  "header_flags h =
     (let flags = audio_version;
          flags = (if ah_stereo h then flags OR flag_stereo else flags)
      in if ah_keyframe h then flags OR flag_keyframe else flags)"

definition header_bytes :: "audio_header \<Rightarrow> u64 \<Rightarrow> bytes" where
  "header_bytes h counter =
     u16_le audio_magic @ [header_flags h, codec_id (ah_codec h)] @ u32_le (ah_sequence h) @
     u32_le (ah_timestamp h) @ u64_le counter"

definition seal_datagram ::
    "'c aead \<Rightarrow> audio_header \<Rightarrow> bytes \<Rightarrow> 'c sealer \<Rightarrow> (relay_error, bytes) result \<times> 'c sealer"
where
  "seal_datagram L h payload sl =
     (let bs = header_bytes h (next_counter sl) in
      case seal L payload bs sl of
        (Inl e, sl') \<Rightarrow> (Inl e, sl')
      | (Inr sealed, sl') \<Rightarrow> (Inr (bs @ sealed), sl'))"

definition announce_packet ::
    "'c aead \<Rightarrow> codec_kind \<Rightarrow> 'c sealer \<Rightarrow> (relay_error, bytes) result \<times> 'c sealer" where
  "announce_packet L codec sl =
     seal_datagram L
       \<lparr>ah_stereo = False, ah_keyframe = True, ah_codec = codec, ah_sequence = 0xFFFFFFFF,
        ah_timestamp = 0\<rparr> [] sl"

subsection \<open>Round trip\<close>

lemma codec_round_trip [simp]: "codec_from_id (codec_id k) = Some k"
  by (cases k) (simp_all add: codec_from_id_def)

lemma length_header_bytes [simp]: "length (header_bytes h c) = audio_header_len"
  by (simp add: header_bytes_def audio_header_len_def)

lemma header_flags_read:
  "header_flags h AND 0x0F = audio_version"
  "header_flags h AND flag_stereo \<noteq> 0 \<longleftrightarrow> ah_stereo h"
  "header_flags h AND flag_keyframe \<noteq> 0 \<longleftrightarrow> ah_keyframe h"
  by (simp_all add: header_flags_def audio_version_def flag_stereo_def flag_keyframe_def Let_def)

text \<open>The fields of a header lie where \<open>parse_packet\<close> reads them.\<close>

lemma header_fields:
  fixes rest :: bytes and h :: audio_header and c :: u64
  defines "d \<equiv> header_bytes h c @ rest"
  shows "slice 0 2 d = u16_le audio_magic" "d ! 2 = header_flags h" "d ! 3 = codec_id (ah_codec h)"
    "slice 4 8 d = u32_le (ah_sequence h)" "slice 8 12 d = u32_le (ah_timestamp h)"
    "slice 12 20 d = u64_le c"
  by (simp_all add: d_def header_bytes_def slice_def nth_append)

lemma parse_header:
  assumes "tag_len \<le> length sealed"
  shows "parse_packet (header_bytes h c @ sealed) = Some
    \<lparr>ap_stereo = ah_stereo h, ap_keyframe = ah_keyframe h, ap_codec = ah_codec h,
     ap_sequence = ah_sequence h, ap_timestamp = ah_timestamp h, ap_counter = c,
     ap_sealed = sealed, ap_header = header_bytes h c\<rparr>"
  using assms by (simp add: parse_packet_def header_fields header_flags_read Let_def)

lemma seal_datagram_parts:
  assumes "aead_correct L" and "seal_datagram L h payload sl = (Inr d, sl')"
  obtains s where "d = header_bytes h (s_counter sl) @ s" "tag_len \<le> length s"
    "decrypt L (s_cipher sl) (nonce_for (s_side sl) (s_counter sl)) s
       (header_bytes h (s_counter sl)) = Some payload"
    "sl' = sl\<lparr>s_counter := s_counter sl + 1\<rparr>"
  using assms
  by (auto simp: seal_datagram_def seal_def next_counter_def Let_def aead_correct_def
      split: option.splits)

lemma datagram_round_trip_open:
  assumes "aead_correct L" and "seal_datagram L h payload sl = (Inr d, sl')"
    and "o_cipher o1 = s_cipher sl" and "o_side o1 = s_side sl"
    and "opener_allows o1 (s_counter sl)"
  shows "\<exists>p. parse_packet d = Some p \<and>
    ap_stereo p = ah_stereo h \<and> ap_keyframe p = ah_keyframe h \<and> ap_codec p = ah_codec h \<and>
    ap_sequence p = ah_sequence h \<and> ap_timestamp p = ah_timestamp h \<and>
    ap_counter p = s_counter sl \<and>
    open_packet L p o1 = (Inr payload, record_counter (s_counter sl) o1)"
proof -
  from assms(1,2) obtain s where "d = header_bytes h (s_counter sl) @ s" "tag_len \<le> length s"
    "decrypt L (s_cipher sl) (nonce_for (s_side sl) (s_counter sl)) s
       (header_bytes h (s_counter sl)) = Some payload"
    by (rule seal_datagram_parts)
  then show ?thesis
    using assms(3-5)
    by (simp add: parse_header open_packet_def open_windowed_allows open_with_def)
qed

text \<open>
  A datagram that one peer seals is parsed by the other back to the header fields the
  sender filled in and the counter it used; opened with the matching opener it yields the
  payload, unless the opener's replay filter refuses that counter.
\<close>

lemma datagram_round_trip:
  assumes "aead_correct L" and "seal_datagram L h payload sl = (Inr d, sl')"
    and "o_cipher o1 = s_cipher sl" and "o_side o1 = s_side sl"
    and "opener_allows o1 (s_counter sl)"
  shows "\<exists>p. parse_packet d = Some p \<and>
    ap_stereo p = ah_stereo h \<and> ap_keyframe p = ah_keyframe h \<and> ap_codec p = ah_codec h \<and>
    ap_sequence p = ah_sequence h \<and> ap_timestamp p = ah_timestamp h \<and>
    ap_counter p = s_counter sl \<and>
    open_packet L p o1 = (Inr payload, record_counter (s_counter sl) o1)"
  by (rule datagram_round_trip_open [OF assms])

end
