(* ===== verification/Jitter_Buffer.thy ===== *)
theory Jitter_Buffer
  imports Ordered_Map
begin

text \<open>
  The receive-side jitter buffer (\<^verbatim>\<open>JitterBuffer\<close> of \<^verbatim>\<open>pw-graph-relay/src/audio.rs\<close>):
  frames keyed by a 32-bit sequence number that wraps, released in sequence order. A
  payload is only moved, so its type is a parameter. Distances are the wrapping difference
  of two sequence numbers read as a signed 32-bit integer.
\<close>

datatype 'p pop_result = Buffering | Frame 'p | Lost

definition min_lookahead :: nat where "min_lookahead = 2"

definition max_lookahead :: nat where "max_lookahead = 4"

definition lookahead_decay_pops :: u32 where "lookahead_decay_pops = 250"

definition max_forward_frames :: u32 where "max_forward_frames = 64"

definition max_queued_frames :: nat where "max_queued_frames = 128"

record 'p jitter =
  j_queued :: "(u32, 'p) btree"
  j_next :: "u32 option"
  j_primed :: bool
  j_anchor :: "u32 option"
  j_depth :: nat
  j_lookahead :: nat
  j_clean :: u32
  j_received :: u64
  j_late :: u64
  j_far :: u64
  j_lost :: u64

definition jitter_new :: "nat \<Rightarrow> 'p jitter" where
  "jitter_new depth =
     \<lparr>j_queued = [], j_next = None, j_primed = False, j_anchor = None, j_depth = max depth 1,
      j_lookahead = min_lookahead, j_clean = 0, j_received = 0, j_late = 0, j_far = 0,
      j_lost = 0\<rparr>"

definition set_anchor :: "u32 \<Rightarrow> 'p jitter \<Rightarrow> 'p jitter" where
  "set_anchor sq j = (if \<not> j_primed j then j\<lparr>j_anchor := Some sq\<rparr> else j)"

text \<open>The eviction loop: the oldest key leaves while the queue is over its cap.\<close>

function evict_oldest :: "(u32, 'p) btree \<Rightarrow> u64 \<Rightarrow> (u32, 'p) btree \<times> u64" where
  "evict_oldest queued far =
     (case queued of
        [] \<Rightarrow> (queued, far)
      | e # _ \<Rightarrow>
          if length queued > max_queued_frames
          then evict_oldest (bt_remove (fst e) queued) (far + 1)
          else (queued, far))"
  by pat_completeness auto

termination
  by (relation "measure (length \<circ> fst)")
     (auto simp: bt_remove_def intro: le_less_trans [OF length_filter_le])

declare evict_oldest.simps [simp del]

definition insert_frame :: "u32 \<Rightarrow> 'p \<Rightarrow> 'p jitter \<Rightarrow> bool \<times> 'p jitter" where
  "insert_frame sq payload j =
     (let inserted = \<not> bt_contains (j_queued j) sq in
      case evict_oldest (bt_insert sq payload (j_queued j)) (j_far j) of
        (queued, far) \<Rightarrow> (inserted, j\<lparr>j_queued := queued, j_far := far\<rparr>))"

definition jitter_push :: "u32 \<Rightarrow> 'p \<Rightarrow> 'p jitter \<Rightarrow> bool \<times> 'p jitter" where
  "jitter_push sq payload j =
     (let j = j\<lparr>j_received := j_received j + 1\<rparr> in
      case j_next j of
        Some nxt \<Rightarrow>
          (let distance = sint (sq - nxt) in
           if distance < 0 then
             (False, j\<lparr>j_late := j_late j + 1,
                       j_lookahead := min (j_lookahead j + 1) max_lookahead, j_clean := 0\<rparr>)
           else if word_of_int distance > max_forward_frames then
             (False, j\<lparr>j_far := j_far j + 1\<rparr>)
           else insert_frame sq payload j)
      | None \<Rightarrow>
          insert_frame sq payload
            (if j_queued j = [] \<and> j_anchor j = None then j\<lparr>j_anchor := Some sq\<rparr> else j))"

definition note_clean_pop :: "'p jitter \<Rightarrow> 'p jitter" where
  "note_clean_pop j =
     (if j_lookahead j \<le> min_lookahead then j
      else
        let j = j\<lparr>j_clean := j_clean j + 1\<rparr> in
        if j_clean j \<ge> lookahead_decay_pops
        then j\<lparr>j_lookahead := j_lookahead j - 1, j_clean := 0\<rparr>
        else j)"

text \<open>
  Priming: playback starts at the earliest frame counted forward from the anchor, and what
  cannot be played in order after it is pruned.
\<close>

definition jitter_start :: "'p jitter \<Rightarrow> u32" where
  "jitter_start j =
     (let anchor = (case j_anchor j of Some a \<Rightarrow> a | None \<Rightarrow> hd (bt_keys (j_queued j)))
      in arg_min_list (\<lambda>sq. sq - anchor) (bt_keys (j_queued j)))"

definition in_forward_window :: "u32 \<Rightarrow> u32 \<Rightarrow> bool" where
  "in_forward_window start sq \<longleftrightarrow>
     0 \<le> sint (sq - start) \<and> sint (sq - start) \<le> uint max_forward_frames"

definition jitter_prime :: "'p jitter \<Rightarrow> 'p jitter" where
  "jitter_prime j =
     (let start = jitter_start j in
      j\<lparr>j_primed := True,
        j_queued := filter (\<lambda>(sq, _). in_forward_window start sq) (j_queued j),
        j_next := Some start\<rparr>)"

definition queued_ahead :: "u32 \<Rightarrow> (u32, 'p) btree \<Rightarrow> nat" where
  "queued_ahead nxt queued = length (filter (\<lambda>sq. sint (sq - nxt) > 0) (bt_keys queued))"

text \<open>The released frame, once the buffer is primed and \<open>nxt\<close> is the expected sequence.\<close>

definition take_next :: "u32 \<Rightarrow> 'p jitter \<Rightarrow> 'p pop_result \<times> 'p jitter" where
  "take_next nxt j =
     (case bt_get (j_queued j) nxt of
        Some payload \<Rightarrow>
          (Frame payload,
           note_clean_pop (j\<lparr>j_queued := bt_remove nxt (j_queued j), j_next := Some (nxt + 1)\<rparr>))
      | None \<Rightarrow>
          if queued_ahead nxt (j_queued j) \<ge> j_lookahead j
          then (Lost, j\<lparr>j_next := Some (nxt + 1), j_lost := j_lost j + 1, j_clean := 0\<rparr>)
          else (Buffering, j))"

definition jitter_pop :: "'p jitter \<Rightarrow> 'p pop_result \<times> 'p jitter" where
  "jitter_pop j =
     (if j_queued j = [] then (Buffering, j)
      else if \<not> j_primed j \<and> length (j_queued j) < j_depth j then (Buffering, j)
      else
        let j = (if \<not> j_primed j then jitter_prime j else j)
        in take_next (the (j_next j)) j)"

subsection \<open>Signed distances\<close>

lemma sint_small:
  fixes d :: u32
  assumes "unat d < 2 ^ 31"
  shows "sint d = int (unat d)"
proof -
  have "int (unat d) < int (2 ^ 31)"
    using assms by (simp only: of_nat_less_iff)
  moreover have "- (2 ^ 31) \<le> uint d"
    by (rule order_trans [OF _ uint_ge_0]) simp
  ultimately have "signed_take_bit 31 (uint d) = uint d"
    by (intro signed_take_bit_int_eq_self) simp_all
  then show ?thesis
    by (simp add: sint_uint)
qed

lemma sint_large:
  fixes d :: u32
  assumes "2 ^ 31 \<le> unat d"
  shows "sint d < 0"
proof -
  have "unat d < 2 ^ 32" using unsigned_less [of d] by simp
  with assms have "unat d div 2 ^ 31 = 1"
    by (intro div_nat_eqI) simp_all
  then have "bit (unat d) 31"
    by (simp only: bit_iff_odd odd_one not_False_eq_True)
  then have "bit d (LENGTH(32) - Suc 0)"
    by (simp add: bit_unsigned_iff)
  then show ?thesis
    by (simp only: bit_last_iff)
qed

lemma in_forward_window_iff: "in_forward_window start sq \<longleftrightarrow> unat (sq - start) \<le> 64"
proof (cases "unat (sq - start) < 2 ^ 31")
  case True
  have "uint max_forward_frames = int 64" by (simp add: max_forward_frames_def)
  then show ?thesis
    unfolding in_forward_window_def sint_small [OF True] by (simp only: of_nat_le_iff) simp
next
  case False
  then show ?thesis
    using sint_large [of "sq - start"] by (simp add: in_forward_window_def)
qed

lemma distance_positive:
  fixes d :: u32
  assumes "unat d \<le> 64"
  shows "sint d > 0 \<longleftrightarrow> d \<noteq> 0"
proof -
  have "sint d = int (unat d)" using assms by (intro sint_small) simp
  then show ?thesis by (simp only: of_nat_0_less_iff unat_gt_0)
qed

lemma far_distance:
  fixes d :: u32
  assumes "unat d < 2 ^ 31"
  shows "word_of_int (sint d) > max_forward_frames \<longleftrightarrow> 64 < unat d"
  by (simp add: max_forward_frames_def word_less_nat_alt)

end
