(* ===== verification/Jitter_Props.thy ===== *)
theory Jitter_Props
  imports Jitter_Buffer
begin

text \<open>
  The jitter buffer keeps its bounds, releases frames in consecutive sequence order, makes
  progress whenever its reorder tolerance is filled, and never recovers from a gap longer
  than its forward window.
\<close>

subsection \<open>Invariant\<close>

definition jitter_ok :: "'p jitter \<Rightarrow> bool" where
  "jitter_ok j \<longleftrightarrow>
     bt_wf (j_queued j) \<and> length (j_queued j) \<le> max_queued_frames \<and>
     min_lookahead \<le> j_lookahead j \<and> j_lookahead j \<le> max_lookahead \<and>
     0 < j_depth j \<and> (j_primed j \<longleftrightarrow> j_next j \<noteq> None) \<and>
     (\<forall>nxt k. j_next j = Some nxt \<longrightarrow> k \<in> set (bt_keys (j_queued j)) \<longrightarrow> unat (k - nxt) \<le> 64)"

lemma jitter_okD:
  assumes "jitter_ok j"
  shows "bt_wf (j_queued j)" "length (j_queued j) \<le> max_queued_frames"
    "min_lookahead \<le> j_lookahead j" "j_lookahead j \<le> max_lookahead" "0 < j_depth j"
    "j_primed j \<longleftrightarrow> j_next j \<noteq> None"
    "j_next j = Some nxt \<Longrightarrow> k \<in> set (bt_keys (j_queued j)) \<Longrightarrow> unat (k - nxt) \<le> 64"
  using assms by (auto simp: jitter_ok_def)

lemma jitter_ok_new: "jitter_ok (jitter_new depth)"
  by (auto simp: jitter_ok_def jitter_new_def min_lookahead_def max_lookahead_def)

lemma jitter_ok_anchor: "jitter_ok j \<Longrightarrow> jitter_ok (set_anchor sq j)"
  by (auto simp: jitter_ok_def set_anchor_def)

subsection \<open>Eviction\<close>

lemma evict_oldest_step:
  "evict_oldest (e # m) far =
     (if length (e # m) > max_queued_frames then evict_oldest (bt_remove (fst e) (e # m)) (far + 1)
      else (e # m, far))"
  by (subst evict_oldest.simps) simp

lemma evict_oldest_Nil [simp]: "evict_oldest [] far = ([], far)"
  by (subst evict_oldest.simps) simp

lemma evict_oldest_id: "length m \<le> max_queued_frames \<Longrightarrow> evict_oldest m far = (m, far)"
  by (cases m) (simp_all add: evict_oldest_step)

lemma bt_remove_hd: "bt_wf (e # m) \<Longrightarrow> bt_remove (fst e) (e # m) = m"
  by (cases e) (auto simp: bt_remove_def filter_id_conv)

text \<open>A push adds at most one entry, so the loop runs at most once.\<close>

lemma evict_after_insert:
  assumes "bt_wf m" and "length m \<le> max_queued_frames"
    and "evict_oldest (bt_insert k v m) far = (m', far')"
  shows "bt_wf m' \<and> length m' \<le> max_queued_frames \<and> set m' \<subseteq> insert (k, v) (set m)"
proof -
  let ?m = "bt_insert k v m"
  have wf: "bt_wf ?m" using assms(1) by simp
  have sub: "set ?m \<subseteq> insert (k, v) (set m)"
    by (induction k v m rule: bt_insert.induct) auto
  show ?thesis
  proof (cases "length ?m \<le> max_queued_frames")
    case True
    with assms(3) wf sub show ?thesis
      by (simp add: evict_oldest_id)
  next
    case False
    then obtain e n where m: "?m = e # n" by (cases ?m) auto
    have "length n \<le> max_queued_frames"
      using assms(1,2) m length_bt_insert [OF assms(1), of k v]
      by (cases "bt_contains m k") auto
    then have "m' = n"
      using assms(3) False wf by (simp add: m evict_oldest_step bt_remove_hd evict_oldest_id)
    with wf sub \<open>length n \<le> max_queued_frames\<close> show ?thesis
      by (cases e) (auto simp: m)
  qed
qed

subsection \<open>Push\<close>

lemma insert_frame_frame [frame_simps]:
  assumes "insert_frame sq p j = (b, j')"
  shows "j_next j' = j_next j" "j_primed j' = j_primed j" "j_lookahead j' = j_lookahead j"
    "j_depth j' = j_depth j" "j_clean j' = j_clean j"
  using assms by (auto simp: insert_frame_def Let_def split: prod.splits)

lemma insert_frame_queue:
  assumes "bt_wf (j_queued j)" and "length (j_queued j) \<le> max_queued_frames"
    and "insert_frame sq p j = (b, j')"
  shows "bt_wf (j_queued j')" "length (j_queued j') \<le> max_queued_frames"
    "set (j_queued j') \<subseteq> insert (sq, p) (set (j_queued j))"
proof -
  obtain m far where e: "evict_oldest (bt_insert sq p (j_queued j)) (j_far j) = (m, far)"
    by (cases "evict_oldest (bt_insert sq p (j_queued j)) (j_far j)")
  then have "j_queued j' = m"
    using assms(3) by (auto simp: insert_frame_def Let_def)
  with evict_after_insert [OF assms(1,2) e] show "bt_wf (j_queued j')"
    "length (j_queued j') \<le> max_queued_frames"
    "set (j_queued j') \<subseteq> insert (sq, p) (set (j_queued j))"
    by simp_all
qed

lemma insert_frame_ok:
  assumes "jitter_ok j" and "insert_frame sq p j = (b, j')"
    and "\<And>nxt. j_next j = Some nxt \<Longrightarrow> unat (sq - nxt) \<le> 64"
  shows "jitter_ok j'"
proof -
  note q = insert_frame_queue [OF jitter_okD(1,2) [OF assms(1)] assms(2)]
  have "set (bt_keys (j_queued j')) \<subseteq> insert sq (set (bt_keys (j_queued j)))"
    using q(3) by (force simp: bt_keys_def)
  then show ?thesis
    using assms(1,3) q(1,2) by (auto simp: jitter_ok_def insert_frame_frame [OF assms(2)])
qed

text \<open>The three outcomes of a push once playback has a next sequence.\<close>

lemma jitter_push_cases:
  assumes "jitter_push sq p j = (b, j')"
  obtains (late) nxt where "j_next j = Some nxt" "2 ^ 31 \<le> unat (sq - nxt)" "\<not> b"
      "j' = j\<lparr>j_received := j_received j + 1, j_late := j_late j + 1,
             j_lookahead := min (j_lookahead j + 1) max_lookahead, j_clean := 0\<rparr>"
  | (far) nxt where "j_next j = Some nxt" "64 < unat (sq - nxt)" "unat (sq - nxt) < 2 ^ 31" "\<not> b"
      "j' = j\<lparr>j_received := j_received j + 1, j_far := j_far j + 1\<rparr>"
  | (accepted) j1 where "insert_frame sq p j1 = (b, j')"
      "\<And>nxt. j_next j = Some nxt \<Longrightarrow> unat (sq - nxt) \<le> 64"
      "j_queued j1 = j_queued j" "j_next j1 = j_next j" "j_primed j1 = j_primed j"
      "j_lookahead j1 = j_lookahead j" "j_depth j1 = j_depth j"
proof (cases "j_next j")
  case None
  then show ?thesis
    using assms by (auto simp: jitter_push_def Let_def split: if_splits intro!: accepted)
next
  case (Some nxt)
  show ?thesis
  proof (cases "unat (sq - nxt) < 2 ^ 31")
    case False
    then have "sint (sq - nxt) < 0" by (intro sint_large) simp
    with Some False assms show ?thesis
      by (intro late) (auto simp: jitter_push_def Let_def)
  next
    case near: True
    then have nn: "\<not> sint (sq - nxt) < 0" by (simp add: sint_small)
    show ?thesis
    proof (cases "64 < unat (sq - nxt)")
      case True
      then have "word_of_int (sint (sq - nxt)) > max_forward_frames"
        using far_distance [OF near] by (simp only:)
      with Some near nn True assms show ?thesis
        by (intro far) (simp_all only: jitter_push_def Let_def if_False if_True option.case jitter.simps, auto)
    next
      case False
      then have "\<not> word_of_int (sint (sq - nxt)) > max_forward_frames"
        using far_distance [OF near] by blast
      with Some nn False assms show ?thesis
        by (intro accepted [of "j\<lparr>j_received := j_received j + 1\<rparr>"])
          (simp_all only: jitter_push_def Let_def if_False if_True option.case jitter.simps, auto)
    qed
  qed
qed

lemma jitter_ok_push:
  assumes "jitter_ok j" and "jitter_push sq p j = (b, j')"
  shows "jitter_ok j'"
  using assms(2)
proof (cases rule: jitter_push_cases)
  case late
  then show ?thesis
    using assms(1) by (auto simp: jitter_ok_def max_lookahead_def min_lookahead_def)
next
  case far
  then show ?thesis
    using assms(1) by (auto simp: jitter_ok_def)
next
  case (accepted j1)
  have "jitter_ok j1"
    using assms(1) accepted(3-7) by (simp add: jitter_ok_def)
  then show ?thesis
    by (rule insert_frame_ok [OF _ accepted(1)]) (use accepted(2,4) in simp)
qed

subsection \<open>Pop\<close>

lemma note_clean_pop_frame [simp, frame_simps]:
  "j_queued (note_clean_pop j) = j_queued j" "j_next (note_clean_pop j) = j_next j"
  "j_primed (note_clean_pop j) = j_primed j" "j_depth (note_clean_pop j) = j_depth j"
  by (simp_all add: note_clean_pop_def Let_def)

lemma note_clean_pop_lookahead:
  "min_lookahead \<le> j_lookahead j \<Longrightarrow>
   min_lookahead \<le> j_lookahead (note_clean_pop j) \<and> j_lookahead (note_clean_pop j) \<le> j_lookahead j"
  by (auto simp: note_clean_pop_def Let_def)

text \<open>A key that stays is one step nearer once the expected sequence has passed.\<close>

lemma unat_step:
  fixes k nxt :: u32
  assumes "k \<noteq> nxt"
  shows "unat (k - (nxt + 1)) = unat (k - nxt) - 1" and "0 < unat (k - nxt)"
proof -
  have ne: "k - nxt \<noteq> 0" using assms by simp
  have "k - (nxt + 1) = k - nxt - 1" by (rule diff_diff_add [symmetric])
  then show "unat (k - (nxt + 1)) = unat (k - nxt) - 1"
    using unat_minus_one [OF ne] by argo
  show "0 < unat (k - nxt)"
    using ne unat_gt_0 by blast
qed

lemma keys_step:
  fixes nxt :: u32
  assumes "\<forall>k \<in> set (bt_keys m). unat (k - nxt) \<le> 64" and "k \<in> set (bt_keys m)" and "k \<noteq> nxt"
  shows "unat (k - (nxt + 1)) \<le> 64"
  using assms unat_step [of k nxt] by fastforce

lemma take_next_cases:
  assumes "take_next nxt j = (r, j')"
  obtains (frame) p where "bt_get (j_queued j) nxt = Some p" "r = Frame p"
      "j' = note_clean_pop (j\<lparr>j_queued := bt_remove nxt (j_queued j), j_next := Some (nxt + 1)\<rparr>)"
  | (lost) "bt_get (j_queued j) nxt = None" "r = Lost"
      "j_lookahead j \<le> queued_ahead nxt (j_queued j)"
      "j' = j\<lparr>j_next := Some (nxt + 1), j_lost := j_lost j + 1, j_clean := 0\<rparr>"
  | (wait) "bt_get (j_queued j) nxt = None" "r = Buffering" "j' = j"
      "queued_ahead nxt (j_queued j) < j_lookahead j"
  using assms by (auto simp: take_next_def split: option.splits if_splits)

lemma take_next_ok:
  assumes "jitter_ok j" and "j_next j = Some nxt" and "take_next nxt j = (r, j')"
  shows "jitter_ok j'"
proof -
  note ok = jitter_okD [OF assms(1)]
  have near: "\<forall>k \<in> set (bt_keys (j_queued j)). unat (k - nxt) \<le> 64"
    using ok(7) [OF assms(2)] by blast
  show ?thesis
    using assms(3)
  proof (cases rule: take_next_cases)
    case (frame p)
    let ?j = "j\<lparr>j_queued := bt_remove nxt (j_queued j), j_next := Some (nxt + 1)\<rparr>"
    have "unat (k - (nxt + 1)) \<le> 64" if "k \<in> set (bt_keys (bt_remove nxt (j_queued j)))" for k
      using keys_step [OF near] that by (simp add: bt_keys_remove)
    moreover have "length (bt_remove nxt (j_queued j)) \<le> max_queued_frames"
      using ok(2) length_bt_remove_le by (rule order_trans [rotated])
    ultimately show ?thesis
      using ok note_clean_pop_lookahead [of ?j] assms(2)
      by (simp add: jitter_ok_def frame(3))
  next
    case lost
    have "unat (k - (nxt + 1)) \<le> 64" if "k \<in> set (bt_keys (j_queued j))" for k
    proof (rule keys_step [OF near that])
      show "k \<noteq> nxt" using lost(1) that by (auto simp: set_bt_keys)
    qed
    then show ?thesis
      using ok assms(2) by (simp add: jitter_ok_def lost(4))
  next
    case wait
    with assms(1) show ?thesis by simp
  qed
qed

lemma jitter_prime_ok:
  assumes "jitter_ok j" and "\<not> j_primed j"
  shows "jitter_ok (jitter_prime j)"
proof -
  note ok = jitter_okD [OF assms(1)]
  define start where "start = jitter_start j"
  define q where "q = filter (\<lambda>(sq, _). in_forward_window start sq) (j_queued j)"
  have pj: "jitter_prime j = j\<lparr>j_primed := True, j_queued := q, j_next := Some start\<rparr>"
    by (simp add: jitter_prime_def Let_def q_def start_def)
  have "length q \<le> max_queued_frames"
    unfolding q_def using ok(2) length_filter_le by (rule order_trans [rotated])
  moreover have "bt_wf q"
    unfolding q_def using ok(1) by (rule bt_wf_filter)
  moreover have "\<forall>k \<in> set (bt_keys q). unat (k - start) \<le> 64"
    by (auto simp: q_def bt_keys_def in_forward_window_iff)
  ultimately show ?thesis
    using ok(3,4,5) by (simp add: jitter_ok_def pj)
qed

lemma jitter_prime_frame [simp, frame_simps]:
  "j_primed (jitter_prime j)" "j_next (jitter_prime j) = Some (jitter_start j)"
  "j_lookahead (jitter_prime j) = j_lookahead j"
  by (simp_all add: jitter_prime_def Let_def)

lemma jitter_pop_cases:
  assumes "jitter_ok j" and "jitter_pop j = (r, j')"
  obtains (wait) "r = Buffering" "j' = j"
      "j_queued j = [] \<or> \<not> j_primed j"
  | (start) "\<not> j_primed j" "j_queued j \<noteq> []" "jitter_ok (jitter_prime j)"
      "take_next (jitter_start j) (jitter_prime j) = (r, j')"
  | (playing) nxt where "j_next j = Some nxt" "j_queued j \<noteq> []" "take_next nxt j = (r, j')"
proof (cases "j_queued j = [] \<or> \<not> j_primed j \<and> length (j_queued j) < j_depth j")
  case True
  then show ?thesis
    using assms(2) by (intro wait) (auto simp: jitter_pop_def split: if_splits)
next
  case go: False
  show ?thesis
  proof (cases "j_primed j")
    case True
    then obtain nxt where "j_next j = Some nxt"
      using jitter_okD(6) [OF assms(1)] by auto
    with go True assms(2) show ?thesis
      by (intro playing) (simp_all add: jitter_pop_def)
  next
    case False
    with go assms(2) show ?thesis
      by (intro start jitter_prime_ok [OF assms(1)]) (simp_all add: jitter_pop_def)
  qed
qed

lemma jitter_ok_pop:
  assumes "jitter_ok j" and "jitter_pop j = (r, j')"
  shows "jitter_ok j'"
  using assms
proof (cases rule: jitter_pop_cases)
  case wait
  with assms(1) show ?thesis by simp
next
  case start
  then show ?thesis by (intro take_next_ok [of "jitter_prime j" "jitter_start j" r j']) simp_all
next
  case (playing nxt)
  then show ?thesis by (intro take_next_ok [OF assms(1)])
qed

subsection \<open>Runs\<close>

datatype 'p jitter_event = Jit_Push u32 'p | Jit_Anchor u32 | Jit_Pop

fun jitter_step :: "'p jitter_event \<Rightarrow> 'p jitter \<Rightarrow> 'p pop_result list \<times> 'p jitter" where
  "jitter_step (Jit_Push sq p) j = ([], snd (jitter_push sq p j))"
| "jitter_step (Jit_Anchor sq) j = ([], set_anchor sq j)"
| "jitter_step Jit_Pop j =
     (case jitter_pop j of (r, j') \<Rightarrow> (if r = Buffering then [] else [r], j'))"

definition pushed :: "'p jitter_event list \<Rightarrow> (u32 \<times> 'p) set" where
  "pushed es = {(sq, p). Jit_Push sq p \<in> set es}"

text \<open>What is released is consecutive from \<open>n\<close>: each slot is lost or a frame pushed for it.\<close>

fun released_from :: "(u32 \<times> 'p) set \<Rightarrow> u32 \<Rightarrow> 'p pop_result list \<Rightarrow> bool" where
  "released_from P n [] = True"
| "released_from P n (r # rs) =
     ((r = Lost \<or> (\<exists>p. r = Frame p \<and> (n, p) \<in> P)) \<and> released_from P (n + 1) rs)"

lemma released_from_nth:
  "released_from P n rs \<Longrightarrow> i < length rs \<Longrightarrow>
   rs ! i = Lost \<or> (\<exists>p. rs ! i = Frame p \<and> (n + of_nat i, p) \<in> P)"
proof (induction rs arbitrary: n i)
  case Nil
  then show ?case by simp
next
  case (Cons r rs)
  show ?case
  proof (cases i)
    case 0
    with Cons.prems show ?thesis by simp
  next
    case (Suc k)
    have "n + 1 + of_nat k = n + of_nat (Suc k)" by simp
    with Suc Cons.IH [of "n + 1" k] Cons.prems show ?thesis by simp
  qed
qed

lemma jitter_push_entries:
  assumes "jitter_ok j" and "jitter_push sq p j = (b, j')"
  shows "set (j_queued j') \<subseteq> insert (sq, p) (set (j_queued j)) \<and> j_next j' = j_next j"
  using assms(2)
proof (cases rule: jitter_push_cases)
  case (accepted j1)
  have "set (j_queued j') \<subseteq> insert (sq, p) (set (j_queued j1))"
    using jitter_okD(1,2) [OF assms(1)] by (intro insert_frame_queue(3) [OF _ _ accepted(1)])
      (simp_all add: accepted(3))
  then show ?thesis
    using insert_frame_frame(1) [OF accepted(1)] accepted(3,4) by simp
qed auto

lemma take_next_release:
  assumes "jitter_ok j" and "set (j_queued j) \<subseteq> P" and "take_next n j = (r, j')"
    and "j_next j = Some n"
  shows "set (j_queued j') \<subseteq> P \<and>
    (if r = Buffering then j' = j else
     j_next j' = Some (n + 1) \<and> (r = Lost \<or> (\<exists>p. r = Frame p \<and> (n, p) \<in> P)))"
  using assms(3)
proof (cases rule: take_next_cases)
  case (frame p)
  have "(n, p) \<in> P"
    using frame(1) assms(2) by (auto dest: bt_get_Some_in)
  moreover have "set (bt_remove n (j_queued j)) \<subseteq> P"
    using bt_remove_subset assms(2) by (rule order_trans)
  ultimately show ?thesis by (simp add: frame)
next
  case lost
  with assms(2) show ?thesis by simp
next
  case wait
  with assms(2) show ?thesis by simp
qed

lemma jitter_prime_entries: "set (j_queued (jitter_prime j)) \<subseteq> set (j_queued j)"
  by (auto simp: jitter_prime_def Let_def)

lemma jitter_pop_release:
  assumes "jitter_ok j" and "set (j_queued j) \<subseteq> P" and "jitter_pop j = (r, j')"
    and "j_next j = Some n"
  shows "set (j_queued j') \<subseteq> P \<and>
    (if r = Buffering then j' = j else
     j_next j' = Some (n + 1) \<and> (r = Lost \<or> (\<exists>p. r = Frame p \<and> (n, p) \<in> P)))"
  using assms(1,3)
proof (cases rule: jitter_pop_cases)
  case wait
  with assms(2) show ?thesis by simp
next
  case start
  with jitter_okD(6) [OF assms(1)] assms(4) show ?thesis by simp
next
  case (playing nxt)
  with assms show ?thesis by (intro take_next_release) auto
qed

lemma jitter_run_playing:
  assumes "run_steps jitter_step es j = (rs, j')" and "jitter_ok j" and "j_next j = Some n"
    and "set (j_queued j) \<subseteq> P" and "pushed es \<subseteq> P"
  shows "released_from P n rs"
  using assms
proof (induction es arbitrary: j rs n)
  case Nil
  then show ?case by simp
next
  case (Cons e es)
  obtain xs j1 ys where e: "jitter_step e j = (xs, j1)"
    and es: "run_steps jitter_step es j1 = (ys, j')" and rs: "rs = xs @ ys"
    using Cons.prems(1) by (auto split: prod.splits)
  have P: "pushed es \<subseteq> P"
    using Cons.prems(5) by (auto simp: pushed_def)
  show ?case
  proof (cases e)
    case (Jit_Push sq p)
    obtain b where b: "jitter_push sq p j = (b, j1)" and "xs = []"
      using e Jit_Push by (cases "jitter_push sq p j") auto
    have "(sq, p) \<in> P" using Cons.prems(5) Jit_Push by (auto simp: pushed_def)
    with jitter_push_entries [OF Cons.prems(2) b] Cons.prems(3,4)
    have "set (j_queued j1) \<subseteq> P" and "j_next j1 = Some n" by auto
    with \<open>xs = []\<close> show ?thesis
      using Cons.IH [OF es jitter_ok_push [OF Cons.prems(2) b] _ _ P] by (simp add: rs)
  next
    case (Jit_Anchor sq)
    with e Cons.prems(2-4) have "jitter_ok j1" "j_next j1 = Some n" "set (j_queued j1) \<subseteq> P" "xs = []"
      by (auto simp: jitter_ok_anchor) (auto simp: set_anchor_def split: if_splits)
    then show ?thesis
      using Cons.IH [OF es _ _ _ P] by (simp add: rs)
  next
    case Jit_Pop
    obtain r where r: "jitter_pop j = (r, j1)" and xs: "xs = (if r = Buffering then [] else [r])"
      using e Jit_Pop by (cases "jitter_pop j") auto
    note rel = jitter_pop_release [OF Cons.prems(2,4) r Cons.prems(3)]
    note ok = jitter_ok_pop [OF Cons.prems(2) r]
    show ?thesis
    proof (cases "r = Buffering")
      case True
      with rel Cons.prems xs show ?thesis
        using Cons.IH [OF es ok _ _ P] by (simp add: rs)
    next
      case False
      with rel xs show ?thesis
        using Cons.IH [OF es ok _ _ P, of "n + 1"] by (simp add: rs)
    qed
  qed
qed

lemma jitter_run_waiting:
  assumes "run_steps jitter_step es j = (rs, j')" and "jitter_ok j" and "j_next j = None"
    and "set (j_queued j) \<subseteq> P" and "pushed es \<subseteq> P"
  shows "\<exists>n. released_from P n rs"
  using assms
proof (induction es arbitrary: j rs)
  case Nil
  then show ?case by simp
next
  case (Cons e es)
  obtain xs j1 ys where e: "jitter_step e j = (xs, j1)"
    and es: "run_steps jitter_step es j1 = (ys, j')" and rs: "rs = xs @ ys"
    using Cons.prems(1) by (auto split: prod.splits)
  have P: "pushed es \<subseteq> P"
    using Cons.prems(5) by (auto simp: pushed_def)
  show ?case
  proof (cases e)
    case (Jit_Push sq p)
    obtain b where b: "jitter_push sq p j = (b, j1)" and "xs = []"
      using e Jit_Push by (cases "jitter_push sq p j") auto
    have "(sq, p) \<in> P" using Cons.prems(5) Jit_Push by (auto simp: pushed_def)
    with jitter_push_entries [OF Cons.prems(2) b] Cons.prems(3,4)
    have "set (j_queued j1) \<subseteq> P" and "j_next j1 = None" by auto
    with \<open>xs = []\<close> show ?thesis
      using Cons.IH [OF es jitter_ok_push [OF Cons.prems(2) b] _ _ P] by (simp add: rs)
  next
    case (Jit_Anchor sq)
    with e Cons.prems(2-4) have "jitter_ok j1" "j_next j1 = None" "set (j_queued j1) \<subseteq> P" "xs = []"
      by (auto simp: jitter_ok_anchor) (auto simp: set_anchor_def split: if_splits)
    then show ?thesis
      using Cons.IH [OF es _ _ _ P] by (simp add: rs)
  next
    case Jit_Pop
    obtain r where r: "jitter_pop j = (r, j1)" and xs: "xs = (if r = Buffering then [] else [r])"
      using e Jit_Pop by (cases "jitter_pop j") auto
    note ok = jitter_ok_pop [OF Cons.prems(2) r]
    from Cons.prems(2) r show ?thesis
    proof (cases rule: jitter_pop_cases)
      case wait
      then show ?thesis
        using Cons.IH [OF es ok _ _ P] Cons.prems(3,4) xs by (simp add: rs)
    next
      case start
      have sub: "set (j_queued (jitter_prime j)) \<subseteq> P"
        using jitter_prime_entries Cons.prems(4) by (rule order_trans)
      note rel = take_next_release [OF start(3) sub start(4)]
      show ?thesis
      proof (cases "r = Buffering")
        case True
        with rel sub have "released_from P (jitter_start j) ys"
          by (intro jitter_run_playing [OF es ok _ _ P]) simp_all
        with True show ?thesis by (auto simp: rs xs)
      next
        case False
        with rel have "released_from P (jitter_start j + 1) ys"
          by (intro jitter_run_playing [OF es ok _ _ P]) simp_all
        with False rel have "released_from P (jitter_start j) rs"
          by (simp add: rs xs)
        then show ?thesis by blast
      qed
    next
      case (playing nxt)
      with Cons.prems(3) show ?thesis by simp
    qed
  qed
qed

lemma jitter_ok_run:
  "run_steps jitter_step es j = (rs, j') \<Longrightarrow> jitter_ok j \<Longrightarrow> jitter_ok j'"
proof (induction es arbitrary: j rs)
  case Nil
  then show ?case by simp
next
  case (Cons e es)
  obtain xs j1 ys where e: "jitter_step e j = (xs, j1)" and es: "run_steps jitter_step es j1 = (ys, j')"
    using Cons.prems(1) by (auto split: prod.splits)
  have "jitter_ok j1"
  proof (cases e)
    case (Jit_Push sq p)
    with e Cons.prems(2) show ?thesis
      by (cases "jitter_push sq p j") (auto dest: jitter_ok_push)
  next
    case (Jit_Anchor sq)
    with e Cons.prems(2) show ?thesis by (auto simp: jitter_ok_anchor)
  next
    case Jit_Pop
    with e Cons.prems(2) show ?thesis
      by (cases "jitter_pop j") (auto dest: jitter_ok_pop)
  qed
  with Cons.IH es show ?case by blast
qed

lemma jitter_window_card:
  assumes "jitter_ok j" and "j_next j = Some nxt"
  shows "length (j_queued j) \<le> 65"
proof -
  let ?D = "(\<lambda>k. unat (k - nxt)) ` set (bt_keys (j_queued j))"
  have "distinct (bt_keys (j_queued j))"
    using jitter_okD(1) [OF assms(1)] by (rule distinct_bt_keys)
  then have "length (j_queued j) = card (set (bt_keys (j_queued j)))"
    by (metis bt_keys_def distinct_card length_map)
  also have "\<dots> = card ?D"
  proof (rule card_image [symmetric], rule inj_onI)
    fix x y
    assume "unat (x - nxt) = unat (y - nxt)"
    then have "x - nxt = y - nxt" by (rule unsigned_word_eqI)
    then show "x = y" by simp
  qed
  also have "\<dots> \<le> card {..64::nat}"
    using jitter_okD(7) [OF assms] by (intro card_mono) auto
  finally show ?thesis by simp
qed

subsection \<open>Properties\<close>

text \<open>
  C17: whatever frames arrive, in whatever order, the jitter buffer releases consecutive
  sequence numbers (modulo the 32-bit wrap) from some start: the slot of each is either
  reported lost or filled with a frame that was pushed under exactly that number, so no
  frame is played twice, late or out of order.
\<close>

theorem jitter_releases_in_order:
  assumes "run_steps jitter_step es (jitter_new depth) = (rs, j')"
  shows "\<exists>start. \<forall>i < length rs.
    rs ! i = Lost \<or> (\<exists>p. rs ! i = Frame p \<and> Jit_Push (start + of_nat i) p \<in> set es)"
proof -
  have "\<exists>n. released_from (pushed es) n rs"
    by (rule jitter_run_waiting [OF assms jitter_ok_new]) (simp_all add: jitter_new_def)
  then obtain n where n: "released_from (pushed es) n rs" ..
  show ?thesis
    using released_from_nth [OF n] by (intro exI [of _ n]) (simp add: pushed_def)
qed

definition sample_events :: "nat jitter_event list" where
  "sample_events = [Jit_Push 4 1, Jit_Push 6 2, Jit_Push 7 3, Jit_Pop, Jit_Pop, Jit_Pop]"

theorem jitter_releases_in_order_witness:
  "fst (run_steps jitter_step sample_events (jitter_new 2)) = [Frame 1, Lost, Frame 2] \<and>
   (\<exists>start. \<forall>i < 3. [Frame 1, Lost, Frame (2::nat)] ! i = Lost \<or>
     (\<exists>p. [Frame 1, Lost, Frame 2] ! i = Frame p \<and>
       Jit_Push (start + of_nat i) p \<in> set sample_events))"
proof -
  have rs: "fst (run_steps jitter_step sample_events (jitter_new 2)) = [Frame 1, Lost, Frame 2]"
    by code_simp
  with jitter_releases_in_order [OF surjective_pairing, of sample_events 2]
  show ?thesis by (simp add: numeral_3_eq_3)
qed

text \<open>
  The jitter buffer is bounded whatever a peer sends: at most 128 frames are queued, at
  most 65 once playback has started, and its reorder tolerance stays between 2 and 4.
\<close>

lemma jitter_bounded:
  assumes "run_steps jitter_step es (jitter_new depth) = (rs, j')"
  shows "length (j_queued j') \<le> 128 \<and> (j_primed j' \<longrightarrow> length (j_queued j') \<le> 65) \<and>
         2 \<le> j_lookahead j' \<and> j_lookahead j' \<le> 4"
proof -
  have ok: "jitter_ok j'"
    by (rule jitter_ok_run [OF assms jitter_ok_new])
  note b = jitter_okD(2-4) [OF ok, unfolded max_queued_frames_def min_lookahead_def max_lookahead_def]
  have "length (j_queued j') \<le> 65" if "j_primed j'"
  proof -
    from that jitter_okD(6) [OF ok] obtain nxt where "j_next j' = Some nxt" by blast
    with ok show ?thesis by (rule jitter_window_card)
  qed
  with b show ?thesis by blast
qed

text \<open>Repeated pops, without arrivals in between.\<close>

fun pop_until_frame :: "nat \<Rightarrow> 'p jitter \<Rightarrow> nat option" where
  "pop_until_frame 0 j = None"
| "pop_until_frame (Suc n) j =
     (case jitter_pop j of
        (Frame p, j') \<Rightarrow> Some 0
      | (Lost, j') \<Rightarrow> map_option Suc (pop_until_frame n j')
      | (Buffering, j') \<Rightarrow> None)"

lemma queued_ahead_all:
  assumes "jitter_ok j" and "j_next j = Some nxt" and "bt_get (j_queued j) nxt = None"
  shows "queued_ahead nxt (j_queued j) = length (j_queued j)"
proof -
  have "sint (k - nxt) > 0" if "k \<in> set (bt_keys (j_queued j))" for k
  proof -
    have "k \<noteq> nxt" using that assms(3) by (auto simp: set_bt_keys)
    then show ?thesis
      using distance_positive [OF jitter_okD(7) [OF assms(1,2) that]] by simp
  qed
  then have "filter (\<lambda>k. sint (k - nxt) > 0) (bt_keys (j_queued j)) = bt_keys (j_queued j)"
    by (simp add: filter_id_conv)
  then show ?thesis
    by (simp add: queued_ahead_def bt_keys_def)
qed

lemma pop_until_frame_near:
  assumes "jitter_ok j" and "j_next j = Some nxt" and "k \<in> set (bt_keys (j_queued j))"
    and "j_lookahead j \<le> length (j_queued j)" and "unat (k - nxt) < n"
  shows "\<exists>i. pop_until_frame n j = Some i \<and> i \<le> unat (k - nxt)"
  using assms
proof (induction n arbitrary: j nxt)
  case 0
  then show ?case by simp
next
  case (Suc n)
  obtain r j' where p: "jitter_pop j = (r, j')" by (cases "jitter_pop j")
  have ne: "j_queued j \<noteq> []" using Suc.prems(3) by (auto simp: bt_keys_def)
  have primed: "j_primed j" using jitter_okD(6) [OF Suc.prems(1)] Suc.prems(2) by simp
  with p ne Suc.prems(2) have t: "take_next nxt j = (r, j')"
    by (simp add: jitter_pop_def)
  from t show ?case
  proof (cases rule: take_next_cases)
    case (frame q)
    with p show ?thesis by simp
  next
    case lost
    have "k \<noteq> nxt" using lost(1) Suc.prems(3) by (auto simp: set_bt_keys)
    note step = unat_step [OF this]
    have "\<exists>i. pop_until_frame n j' = Some i \<and> i \<le> unat (k - (nxt + 1))"
      using Suc.prems step jitter_ok_pop [OF Suc.prems(1) p]
      by (intro Suc.IH) (simp_all only: lost(4) jitter.simps, simp_all)
    with step p lost(2) show ?thesis by auto
  next
    case wait
    with queued_ahead_all [OF Suc.prems(1,2) wait(1)] Suc.prems(4) show ?thesis by simp
  qed
qed

text \<open>
  A playing jitter buffer that holds as many frames as its reorder tolerance delivers a
  frame after at most 64 concealed losses, without waiting for anything to arrive.
\<close>

lemma filled_buffer_delivers:
  assumes "run_steps jitter_step es (jitter_new depth) = (rs, j)"
    and "j_primed j" and "j_lookahead j \<le> length (j_queued j)"
  shows "\<exists>i \<le> 64. pop_until_frame 65 j = Some i"
proof -
  have ok: "jitter_ok j"
    by (rule jitter_ok_run [OF assms(1) jitter_ok_new])
  obtain nxt where nxt: "j_next j = Some nxt"
    using jitter_okD(6) [OF ok] assms(2) by blast
  have "j_queued j \<noteq> []"
    using jitter_okD(3) [OF ok] assms(3) by (auto simp: min_lookahead_def)
  then obtain k where k: "k \<in> set (bt_keys (j_queued j))"
    by (cases "j_queued j") (auto simp: bt_keys_def)
  have near: "unat (k - nxt) \<le> 64" by (rule jitter_okD(7) [OF ok nxt k])
  then obtain i where "pop_until_frame 65 j = Some i" "i \<le> unat (k - nxt)"
    using pop_until_frame_near [OF ok nxt k assms(3), of 65] by auto
  with near show ?thesis by auto
qed

text \<open>
  C19: an outage of more than 64 frames silences playback for good. Once the queue of a
  playing buffer has run dry, while every frame that arrives afterwards is more than 64
  ahead of the expected one (and not 2 to the 31 or more, which counts as late), every push
  is refused, nothing is ever released, and the expected sequence never moves, whatever the
  number of frames that arrive: keyframe anchors are ignored as well.
\<close>

theorem long_outage_silences_playback:
  assumes "j_primed j" and "j_next j = Some nxt" and "j_queued j = []"
    and "\<And>sq p. Jit_Push sq p \<in> set es \<Longrightarrow> 64 < unat (sq - nxt) \<and> unat (sq - nxt) < 2 ^ 31"
    and "run_steps jitter_step es j = (rs, j')"
  shows "rs = [] \<and> j_next j' = Some nxt \<and> j_queued j' = []"
  using assms
proof (induction es arbitrary: j rs)
  case Nil
  then show ?case by simp
next
  case (Cons e es)
  obtain xs j1 ys where e: "jitter_step e j = (xs, j1)"
    and es: "run_steps jitter_step es j1 = (ys, j')" and rs: "rs = xs @ ys"
    using Cons.prems(5) by (auto split: prod.splits)
  have "xs = [] \<and> j_primed j1 \<and> j_next j1 = Some nxt \<and> j_queued j1 = []"
  proof (cases e)
    case (Jit_Push sq p)
    obtain b where b: "jitter_push sq p j = (b, j1)" and xs: "xs = []"
      using e Jit_Push by (cases "jitter_push sq p j") auto
    have far: "64 < unat (sq - nxt)" "unat (sq - nxt) < 2 ^ 31"
      using Cons.prems(4) [of sq p] Jit_Push by simp_all
    from b show ?thesis
    proof (cases rule: jitter_push_cases)
      case late
      with far Cons.prems(2) show ?thesis by simp
    next
      case far
      with xs Cons.prems(1-3) show ?thesis by simp
    next
      case (accepted j2)
      with far Cons.prems(2) show ?thesis by force
    qed
  next
    case (Jit_Anchor sq)
    with e Cons.prems(1-3) show ?thesis by (auto simp: set_anchor_def)
  next
    case Jit_Pop
    with e Cons.prems(1-3) show ?thesis by (simp add: jitter_pop_def)
  qed
  with Cons.IH [OF _ _ _ _ es] Cons.prems(4) show ?case
    by (auto simp: rs)
qed

definition dry_buffer :: "nat jitter" where
  "dry_buffer = snd (run_steps jitter_step [Jit_Push 0 1, Jit_Push 1 2, Jit_Pop, Jit_Pop] (jitter_new 2))"

theorem long_outage_silences_playback_witness:
  "fst (run_steps jitter_step [Jit_Push 67 3, Jit_Pop, Jit_Anchor 68, Jit_Push 68 4, Jit_Pop]
     dry_buffer) = []"
proof -
  have "j_primed dry_buffer" "j_next dry_buffer = Some 2" "j_queued dry_buffer = []"
    by code_simp+
  then show ?thesis
    using long_outage_silences_playback [OF _ _ _ _ surjective_pairing, of dry_buffer 2
      "[Jit_Push 67 3, Jit_Pop, Jit_Anchor 68, Jit_Push 68 4, Jit_Pop]"]
    by force
qed

end
