(* ===== verification/Pcm_Queue.thy ===== *)
theory Pcm_Queue
  imports Prelude "HOL-Library.Sublist"
begin

text \<open>
  The sample queues between the realtime audio callbacks and the relay's network threads
  (\<^verbatim>\<open>pw-graph-relay/src/queue.rs\<close>): a bounded FIFO that drops its oldest samples. A
  sample is only moved, so its type is a parameter. The mutex makes every operation one
  atomic step; whether a lock was obtained (it is refused when poisoned, and by
  \<^verbatim>\<open>try_lock\<close> when busy) is an argument of the operation. Sizes are \<open>nat\<close>s that hold
  a \<^verbatim>\<open>usize\<close>; the drop counter wraps at its 64 bits.

  The locale \<open>sample_stream\<close> states what a consumer of such a queue relies on: one step
  never reorders or invents samples. Whole streams are derived from it.
\<close>

subsection \<open>The queue\<close>

definition default_queue_capacity :: nat where
  "default_queue_capacity = 32 * 1024"

definition capture_depth_frames :: nat where
  "capture_depth_frames = 4"

definition playback_depth_frames :: nat where
  "playback_depth_frames = 4"

record 'a pcm_queue =
  q_samples :: "'a list"
  q_capacity :: nat
  q_target :: nat
  q_align :: nat
  q_drops :: u64

definition pcm_new :: "nat \<Rightarrow> 'a pcm_queue" where
  "pcm_new capacity =
     \<lparr>q_samples = [], q_capacity = capacity, q_target = 0, q_align = 0, q_drops = 0\<rparr>"

definition set_frame_align :: "nat \<Rightarrow> 'a pcm_queue \<Rightarrow> 'a pcm_queue" where
  "set_frame_align n q = q\<lparr>q_align := n\<rparr>"

definition set_target_depth :: "nat \<Rightarrow> 'a pcm_queue \<Rightarrow> 'a pcm_queue" where
  "set_target_depth n q = q\<lparr>q_target := min n (q_capacity q)\<rparr>"

definition pcm_limit :: "'a pcm_queue \<Rightarrow> nat" where
  "pcm_limit q = (case q_target q of 0 \<Rightarrow> q_capacity q | Suc d \<Rightarrow> Suc d)"

definition div_ceil :: "nat \<Rightarrow> nat \<Rightarrow> nat" where
  "div_ceil a b = (if a mod b = 0 then a div b else a div b + 1)"

text \<open>The queue after the push and the number of samples dropped by it.\<close>

definition push_locked :: "'a list \<Rightarrow> 'a list \<Rightarrow> nat \<Rightarrow> nat \<Rightarrow> 'a list \<times> nat" where
  "push_locked queue samples limit align =
     (if limit = 0 then ([], length queue)
      else if length samples \<ge> limit then
        let keep = (if align > 0 then limit div align * align else limit);
            skip = length samples - keep
        in (drop skip samples, length queue + (length samples - keep))
      else
        let over = length queue + length samples - limit;
            count = (if align > 0 \<and> over > 0 then min (div_ceil over align * align) (length queue)
                     else over)
        in (drop count queue @ samples, count))"

definition pcm_push :: "bool \<Rightarrow> 'a list \<Rightarrow> 'a pcm_queue \<Rightarrow> 'a pcm_queue" where
  "pcm_push locked samples q =
     (if \<not> locked then q
      else case push_locked (q_samples q) samples (pcm_limit q) (q_align q) of
        (queue, dropped) \<Rightarrow>
          q\<lparr>q_samples := queue,
            q_drops := (if dropped > 0 then q_drops q + of_nat dropped else q_drops q)\<rparr>)"

definition pcm_try_push :: "bool \<Rightarrow> 'a list \<Rightarrow> 'a pcm_queue \<Rightarrow> bool \<times> 'a pcm_queue" where
  "pcm_try_push locked samples q =
     (if \<not> locked then (False, q) else (True, pcm_push True samples q))"

text \<open>
  The samples are written over the front of the caller's buffer. The three results are the
  queue, the buffer and the count.
\<close>

definition drain_into :: "'a list \<Rightarrow> 'a list \<Rightarrow> 'a list \<times> 'a list \<times> nat" where
  "drain_into queue out =
     (let count = min (length out) (length queue)
      in (drop count queue, take count queue @ drop count out, count))"

definition pcm_pull ::
    "bool \<Rightarrow> 'a list \<Rightarrow> 'a pcm_queue \<Rightarrow> nat \<times> 'a list \<times> 'a pcm_queue" where
  "pcm_pull locked out q =
     (if \<not> locked then (0, out, q)
      else case drain_into (q_samples q) out of
        (queue, out', count) \<Rightarrow> (count, out', q\<lparr>q_samples := queue\<rparr>))"

definition pop_exact :: "bool \<Rightarrow> nat \<Rightarrow> 'a pcm_queue \<Rightarrow> 'a list option \<times> 'a pcm_queue" where
  "pop_exact locked count q =
     (if \<not> locked \<or> length (q_samples q) < count then (None, q)
      else (Some (take count (q_samples q)), q\<lparr>q_samples := drop count (q_samples q)\<rparr>))"

text \<open>
  While the caller waits the lock is free: \<open>waiting\<close> is what the other threads do to the
  queue until the wait ends, by a push that completes the frame or by the timeout.
\<close>

definition pop_exact_timeout ::
    "bool \<Rightarrow> ('a pcm_queue \<Rightarrow> 'a pcm_queue) \<Rightarrow> nat \<Rightarrow> 'a pcm_queue \<Rightarrow>
     'a list option \<times> 'a pcm_queue" where
  "pop_exact_timeout locked waiting count q =
     (if \<not> locked then (None, q)
      else pop_exact True count (if length (q_samples q) < count then waiting q else q))"

definition pcm_len :: "bool \<Rightarrow> 'a pcm_queue \<Rightarrow> nat" where
  "pcm_len locked q = (if locked then length (q_samples q) else 0)"

definition pcm_is_empty :: "bool \<Rightarrow> 'a pcm_queue \<Rightarrow> bool" where
  "pcm_is_empty locked q = (pcm_len locked q = 0)"

definition pcm_clear :: "bool \<Rightarrow> 'a pcm_queue \<Rightarrow> 'a pcm_queue" where
  "pcm_clear locked q = (if locked then q\<lparr>q_samples := []\<rparr> else q)"

subsection \<open>One push\<close>

lemma div_ceil_mult_ge:
  assumes "0 < b"
  shows "a \<le> div_ceil a b * b"
proof (cases "a mod b = 0")
  case True
  then show ?thesis by (auto simp: div_ceil_def)
next
  case False
  have "a = a div b * b + a mod b" by simp
  also have "\<dots> \<le> a div b * b + b"
    using assms by (intro add_left_mono less_imp_le mod_less_divisor)
  finally show ?thesis
    using False by (simp add: div_ceil_def)
qed

lemma div_ceil_exact [simp]: "0 < b \<Longrightarrow> div_ceil (a * b) b = a"
  by (simp add: div_ceil_def)

text \<open>The three ways a push goes.\<close>

lemma push_locked_zero: "push_locked queue samples 0 align = ([], length queue)"
  by (simp add: push_locked_def)

lemma push_locked_oversized:
  assumes "0 < limit" and "limit \<le> length samples"
  obtains keep where "keep \<le> limit" "0 < align \<Longrightarrow> keep = limit div align * align"
    "align = 0 \<Longrightarrow> keep = limit"
    "push_locked queue samples limit align =
       (drop (length samples - keep) samples, length queue + (length samples - keep))"
proof
  let ?keep = "if align > 0 then limit div align * align else limit"
  show "?keep \<le> limit" by simp
  show "push_locked queue samples limit align =
      (drop (length samples - ?keep) samples, length queue + (length samples - ?keep))"
    using assms by (simp add: push_locked_def Let_def)
qed auto

lemma push_locked_fits:
  assumes "length samples < limit"
  obtains count where "length queue + length samples - limit \<le> count" "count \<le> length queue"
    "0 < align \<Longrightarrow>
       count = min (div_ceil (length queue + length samples - limit) align * align) (length queue)"
    "align = 0 \<Longrightarrow> count = length queue + length samples - limit"
    "push_locked queue samples limit align = (drop count queue @ samples, count)"
proof
  let ?over = "length queue + length samples - limit"
  let ?count = "if align > 0 \<and> ?over > 0 then min (div_ceil ?over align * align) (length queue)
    else ?over"
  show "?over \<le> ?count"
    using assms div_ceil_mult_ge [of align ?over] by auto
  show "?count \<le> length queue"
    using assms by auto
  show "push_locked queue samples limit align = (drop ?count queue @ samples, ?count)"
    using assms by (simp add: push_locked_def Let_def)
qed (auto simp: div_ceil_def)

lemmas push_cases = push_locked_oversized push_locked_fits

lemma push_locked_bound: "length (fst (push_locked queue samples limit align)) \<le> limit"
proof -
  consider "limit = 0" | "0 < limit" "limit \<le> length samples" | "length samples < limit"
    by linarith
  then show ?thesis
  proof cases
    case 1
    then show ?thesis by (simp add: push_locked_zero)
  next
    case 2
    then show ?thesis by (rule push_locked_oversized [where queue = queue and align = align]) simp
  next
    case 3
    then show ?thesis by (rule push_locked_fits [where queue = queue and align = align]) simp
  qed
qed

lemma push_locked_suffix: "suffix (fst (push_locked queue samples limit align)) (queue @ samples)"
proof -
  have "suffix (drop n samples) (queue @ samples)" for n
    by (metis suffix_appendI suffix_drop)
  moreover have "suffix (drop n queue @ samples) (queue @ samples)" for n
    by (simp add: suffix_drop)
  ultimately show ?thesis
    by (auto simp: push_locked_def Let_def)
qed

text \<open>Every sample is kept or counted as dropped, unless the limit is zero.\<close>

lemma push_locked_counts:
  assumes "0 < limit"
  shows "length (fst (push_locked queue samples limit align)) +
         snd (push_locked queue samples limit align) = length queue + length samples"
proof (cases "limit \<le> length samples")
  case True
  with assms show ?thesis
    by (rule push_locked_oversized [where queue = queue and align = align]) simp
next
  case False
  then have "length samples < limit" by simp
  then show ?thesis
    by (rule push_locked_fits [where queue = queue and align = align]) simp
qed

text \<open>A push that leaves room drops nothing.\<close>

lemma push_locked_room:
  assumes "length queue + length samples \<le> limit" and "length samples < limit"
  shows "push_locked queue samples limit align = (queue @ samples, 0)"
  using assms by (simp add: push_locked_def Let_def)

subsection \<open>Whole frames\<close>

text \<open>
  The specification of a queue whose limit is \<open>k\<close> frames and that is aligned to them: a
  push keeps the newest \<open>k\<close> frames of what was queued followed by what arrived.
\<close>

definition newest :: "nat \<Rightarrow> 'b list \<Rightarrow> 'b list" where
  "newest k xs = drop (length xs - k) xs"

definition frames :: "nat \<Rightarrow> 'a list list \<Rightarrow> bool" where
  "frames a fs = (\<forall>f \<in> set fs. length f = a)"

lemma length_concat_frames: "frames a fs \<Longrightarrow> length (concat fs) = length fs * a"
  by (induction fs) (auto simp: frames_def)

lemma drop_concat_frames: "frames a fs \<Longrightarrow> drop (n * a) (concat fs) = concat (drop n fs)"
proof (induction fs arbitrary: n)
  case Nil
  show ?case by simp
next
  case (Cons f fs)
  then show ?case
    by (cases n) (auto simp: frames_def)
qed

lemma frames_append [simp]: "frames a (fs @ gs) \<longleftrightarrow> frames a fs \<and> frames a gs"
  by (auto simp: frames_def)

lemma push_locked_frames:
  assumes "0 < a" and "0 < k" and fs: "frames a fs" and gs: "frames a gs"
  shows "push_locked (concat fs) (concat gs) (k * a) a =
    (concat (newest k (fs @ gs)), (length fs + length gs - k) * a)"
proof (cases "k \<le> length gs")
  case True
  have "0 < k * a" "k * a \<le> length (concat gs)"
    using assms True by (auto simp: length_concat_frames)
  then show ?thesis
  proof (rule push_locked_oversized [where queue = "concat fs" and align = a])
    fix keep
    assume keep: "0 < a \<Longrightarrow> keep = k * a div a * a"
      and p: "push_locked (concat fs) (concat gs) (k * a) a =
        (drop (length (concat gs) - keep) (concat gs),
         length (concat fs) + (length (concat gs) - keep))"
    have "length (concat gs) - keep = (length gs - k) * a"
      using keep assms(1) gs by (simp add: length_concat_frames diff_mult_distrib)
    moreover have "newest k (fs @ gs) = drop (length gs - k) gs"
      using True by (simp add: newest_def)
    ultimately show ?thesis
      using p True fs gs
      by (simp add: drop_concat_frames length_concat_frames add_mult_distrib [symmetric])
  qed
next
  case False
  then have "length (concat gs) < k * a"
    using assms by (simp add: length_concat_frames)
  then show ?thesis
  proof (rule push_locked_fits [where queue = "concat fs" and align = a])
    fix count
    let ?over = "length (concat fs) + length (concat gs) - k * a"
    assume count: "0 < a \<Longrightarrow> count = min (div_ceil ?over a * a) (length (concat fs))"
      and p: "push_locked (concat fs) (concat gs) (k * a) a =
        (drop count (concat fs) @ concat gs, count)"
    have "?over = (length fs + length gs - k) * a"
      using fs gs by (simp add: length_concat_frames diff_mult_distrib add_mult_distrib)
    then have "count = min ((length fs + length gs - k) * a) (length fs * a)"
      using count assms(1) fs by (simp add: length_concat_frames)
    also have "\<dots> = (length fs + length gs - k) * a"
      using False by (intro min_absorb1 mult_le_mono1) simp
    finally have c: "count = (length fs + length gs - k) * a" .
    show ?thesis
      unfolding p c using False fs by (simp add: newest_def drop_concat_frames)
  qed
qed

subsection \<open>Streams\<close>

text \<open>
  A run is a sequence of steps with what they deliver. A consumer relies on one law: what a
  step delivers, followed by what is then held, is what was held and offered, in
  order, with some of it missing.
\<close>

locale sample_stream =
  fixes step :: "'e \<Rightarrow> 'q \<Rightarrow> 'a list \<times> 'q"
    and contents :: "'q \<Rightarrow> 'a list"
    and offered :: "'e \<Rightarrow> 'a list"
    and ok :: "'q \<Rightarrow> bool"
  assumes step_order:
      "step e q = (xs, q') \<Longrightarrow> subseq (xs @ contents q') (contents q @ offered e)"
    and step_ok: "step e q = (xs, q') \<Longrightarrow> ok q \<Longrightarrow> ok q'"
begin

lemma run_order:
  "run_steps step es q = (xs, q') \<Longrightarrow>
   subseq (xs @ contents q') (contents q @ concat (map offered es))"
proof (induction es arbitrary: q xs)
  case Nil
  then show ?case by simp
next
  case (Cons e es)
  from Cons.prems obtain ys r zs where e: "step e q = (ys, r)"
    and es: "run_steps step es r = (zs, q')" and xs: "xs = ys @ zs"
    by (auto split: prod.splits)
  have "subseq (ys @ zs @ contents q') (ys @ contents r @ concat (map offered es))"
    using Cons.IH [OF es] by (simp only: subseq_append')
  also have "subseq \<dots> (contents q @ offered e @ concat (map offered es))"
    using step_order [OF e] by (metis append.assoc list_emb_append_mono subseq_order.order_refl)
  finally show ?case by (simp add: xs)
qed

lemma run_ok: "run_steps step es q = (xs, q') \<Longrightarrow> ok q \<Longrightarrow> ok q'"
proof (induction es arbitrary: q xs)
  case Nil
  then show ?case by simp
next
  case (Cons e es)
  then show ?case
    by (auto split: prod.splits dest: step_ok)
qed

end

text \<open>The operations as events; a delivery is what the caller receives.\<close>

datatype 'a queue_event =
  Push bool "'a list"
| Try_Push bool "'a list"
| Pull bool "'a list"
| Pop bool nat
| Clear bool
| Set_Target nat
| Set_Align nat

fun queue_step :: "'a queue_event \<Rightarrow> 'a pcm_queue \<Rightarrow> 'a list \<times> 'a pcm_queue" where
  "queue_step (Push locked xs) q = ([], pcm_push locked xs q)"
| "queue_step (Try_Push locked xs) q = ([], snd (pcm_try_push locked xs q))"
| "queue_step (Pull locked out) q =
     (case pcm_pull locked out q of (count, out', q') \<Rightarrow> (take count out', q'))"
| "queue_step (Pop locked n) q =
     (case pop_exact locked n q of (None, q') \<Rightarrow> ([], q') | (Some xs, q') \<Rightarrow> (xs, q'))"
| "queue_step (Clear locked) q = ([], pcm_clear locked q)"
| "queue_step (Set_Target n) q = ([], set_target_depth n q)"
| "queue_step (Set_Align n) q = ([], set_frame_align n q)"

fun queue_offered :: "'a queue_event \<Rightarrow> 'a list" where
  "queue_offered (Push locked xs) = xs"
| "queue_offered (Try_Push locked xs) = xs"
| "queue_offered e = []"

lemma pcm_push_samples:
  "q_samples (pcm_push locked xs q) =
     (if locked then fst (push_locked (q_samples q) xs (pcm_limit q) (q_align q)) else q_samples q)"
  by (simp add: pcm_push_def split: prod.split)

lemma pcm_push_frame [simp, frame_simps]:
  "q_capacity (pcm_push locked xs q) = q_capacity q"
  "q_target (pcm_push locked xs q) = q_target q"
  "q_align (pcm_push locked xs q) = q_align q"
  by (simp_all add: pcm_push_def split: prod.split)

lemma pcm_push_order: "subseq (q_samples (pcm_push locked xs q)) (q_samples q @ xs)"
  by (auto simp: pcm_push_samples intro: list_emb_append2 suffix_imp_subseq push_locked_suffix)

definition queue_ok :: "nat \<Rightarrow> 'a pcm_queue \<Rightarrow> bool" where
  "queue_ok cap q =
     (q_capacity q = cap \<and> q_target q \<le> cap \<and> length (q_samples q) \<le> cap)"

lemma queue_ok_limit: "queue_ok cap q \<Longrightarrow> pcm_limit q \<le> cap"
  by (auto simp: queue_ok_def pcm_limit_def split: nat.split)

lemma queue_ok_new [simp]: "queue_ok cap (pcm_new cap)"
  by (simp add: queue_ok_def pcm_new_def)

lemma queue_ok_push:
  assumes "queue_ok cap q"
  shows "queue_ok cap (pcm_push locked xs q)"
proof -
  have "length (fst (push_locked (q_samples q) xs (pcm_limit q) (q_align q))) \<le> cap"
    using push_locked_bound queue_ok_limit [OF assms] by (rule le_trans)
  with assms show ?thesis
    by (simp add: queue_ok_def pcm_push_samples)
qed

lemma queue_step_order:
  "queue_step e q = (xs, q') \<Longrightarrow> subseq (xs @ q_samples q') (q_samples q @ queue_offered e)"
  by (cases e)
     (auto simp: pcm_try_push_def pcm_push_order pcm_pull_def drain_into_def Let_def pop_exact_def
       pcm_clear_def set_target_depth_def set_frame_align_def split: if_splits)

lemma queue_step_ok: "queue_step e q = (xs, q') \<Longrightarrow> queue_ok cap q \<Longrightarrow> queue_ok cap q'"
  by (cases e)
     (auto simp: pcm_try_push_def queue_ok_push pcm_pull_def drain_into_def Let_def pop_exact_def
       pcm_clear_def set_target_depth_def set_frame_align_def split: if_splits,
      auto simp: queue_ok_def)

interpretation pcm: sample_stream queue_step q_samples queue_offered "queue_ok cap" for cap
  by unfold_locales (erule queue_step_order, erule queue_step_ok)

subsection \<open>Properties\<close>

text \<open>
  Whatever the threads do with a sample queue, and whichever locks they fail to get, the
  samples it delivers, followed by those it holds, are the samples offered to it in their
  order with some left out, and it never holds more than its capacity.
\<close>

lemma queue_delivers_in_order:
  assumes "run_steps queue_step es (pcm_new cap) = (xs, q)"
  shows "subseq (xs @ q_samples q) (concat (map queue_offered es)) \<and> length (q_samples q) \<le> cap"
  using pcm.run_order [OF assms] pcm.run_ok [OF assms queue_ok_new]
  by (simp add: pcm_new_def queue_ok_def)

text \<open>
  C32: a push refines a bounded queue of frames. When the queue is aligned to frames of
  \<open>a\<close> samples, is limited to \<open>k\<close> of them and is given whole frames, it holds exactly the
  newest \<open>k\<close> frames afterwards, no frame is cut, and the drop counter grows by the
  samples of the frames left out.
\<close>

theorem push_refines_frame_queue:
  assumes "frames a fs" and "frames a gs" and "0 < a" and "0 < k"
    and "q_samples q = concat fs" and "q_align q = a" and "q_target q = k * a"
  shows "q_samples (pcm_push True (concat gs) q) = concat (newest k (fs @ gs)) \<and>
         q_drops (pcm_push True (concat gs) q) =
           q_drops q + of_nat ((length fs + length gs - k) * a)"
proof -
  have "pcm_limit q = k * a"
    using assms by (auto simp: pcm_limit_def split: nat.split)
  then show ?thesis
    using push_locked_frames [OF assms(3,4,1,2)] assms(3,5,6)
    by (cases "k < length fs + length gs") (simp_all add: pcm_push_def)
qed

theorem push_refines_frame_queue_witness:
  "q_samples (pcm_push True (concat [[5, 6]])
     \<lparr>q_samples = concat [[1, 2], [3, 4::nat]], q_capacity = 8, q_target = 2 * 2, q_align = 2,
      q_drops = 0\<rparr>) = concat (newest 2 ([[1, 2], [3, 4]] @ [[5, 6]])) \<and>
   q_drops (pcm_push True (concat [[5, 6]])
     \<lparr>q_samples = concat [[1, 2], [3, 4::nat]], q_capacity = 8, q_target = 2 * 2, q_align = 2,
      q_drops = 0\<rparr>) = 0 + of_nat ((length [[1, 2], [3, 4::nat]] + length [[5, 6::nat]] - 2) * 2)"
  using push_refines_frame_queue [of 2 "[[1, 2], [3, 4]]" "[[5, 6]]" 2
    "\<lparr>q_samples = concat [[1, 2], [3, 4::nat]], q_capacity = 8, q_target = 2 * 2, q_align = 2,
      q_drops = 0\<rparr>"]
  by (simp add: frames_def)

end
