(* ===== verification/Audio_Receive.thy ===== *)
theory Audio_Receive
  imports Audio_Packet Jitter_Props Pcm_Queue
begin

text \<open>
  The receive worker (\<^verbatim>\<open>run_rx_source\<close> of \<^verbatim>\<open>pw-graph-relay/src/session/audio_worker.rs\<close>):
  what one received datagram does to the session. It composes the datagram parser, the
  replay-protected opener, the jitter buffer, the decoder and the playback queue. The decoder
  and the sample-rate converter (floating point, Opus) are parameters with their own state;
  the level meter is left out. The innermost loop has no bound in the code, so it is a
  \<open>partial_function\<close> whose result \<open>None\<close> would be not ending; it is shown to end.
\<close>

record audio_format =
  af_rate :: u32
  af_channels :: "16 word"
  af_frame_ms :: "16 word"

definition frame_samples :: "audio_format \<Rightarrow> nat" where
  "frame_samples f = (unat (af_rate f) div 1000) * unat (af_frame_ms f) * unat (af_channels f)"

definition is_stereo :: "audio_format \<Rightarrow> bool" where
  "is_stereo f = (af_channels f \<ge> 2)"

definition packet_matches_negotiation ::
    "audio_packet \<Rightarrow> codec_kind \<Rightarrow> audio_format \<Rightarrow> bool" where
  "packet_matches_negotiation p codec format =
     (ap_codec p = codec \<and> ap_stereo p = is_stereo format)"

record ('d, 'v) decode_ops =
  dec_decode :: "'d \<Rightarrow> bytes \<Rightarrow> (string, f32 list) result \<times> 'd"
  dec_conceal :: "'d \<Rightarrow> (string, f32 list) result \<times> 'd"
  dec_convert :: "'v \<Rightarrow> f32 list \<Rightarrow> f32 list \<times> 'v"

record ('c, 'd, 'v, 'a) rx_state =
  rx_opener :: "'c opener"
  rx_peer :: "'a option"
  rx_jitter :: "bytes jitter"
  rx_decoder :: 'd
  rx_converter :: 'v
  rx_incoming :: "f32 pcm_queue"
  rx_errors :: "string list"

definition play_samples ::
    "('d, 'v) decode_ops \<Rightarrow> f32 list \<Rightarrow> ('c, 'd, 'v, 'a) rx_state \<Rightarrow> ('c, 'd, 'v, 'a) rx_state"
where
  "play_samples D xs st =
     (case dec_convert D (rx_converter st) xs of
        (converted, v) \<Rightarrow>
          st\<lparr>rx_converter := v, rx_incoming := pcm_push True converted (rx_incoming st)\<rparr>)"

text \<open>One round of the release loop, after the jitter buffer gave a frame or a loss.\<close>

definition play_released ::
    "('d, 'v) decode_ops \<Rightarrow> bytes pop_result \<Rightarrow> ('c, 'd, 'v, 'a) rx_state \<Rightarrow>
     ('c, 'd, 'v, 'a) rx_state" where
  "play_released D r st =
     (case r of
        Buffering \<Rightarrow> st
      | Frame payload \<Rightarrow>
          (case dec_decode D (rx_decoder st) payload of
             (Inl error, d) \<Rightarrow>
               st\<lparr>rx_decoder := d, rx_errors := rx_errors st @ [''audio decode failed: '' @ error]\<rparr>
           | (Inr xs, d) \<Rightarrow> play_samples D xs (st\<lparr>rx_decoder := d\<rparr>))
      | Lost \<Rightarrow>
          (case dec_conceal D (rx_decoder st) of
             (Inl error, d) \<Rightarrow> st\<lparr>rx_decoder := d\<rparr>
           | (Inr xs, d) \<Rightarrow> play_samples D xs (st\<lparr>rx_decoder := d\<rparr>)))"

partial_function (option) release_loop ::
    "('d, 'v) decode_ops \<Rightarrow> ('c, 'd, 'v, 'a) rx_state \<Rightarrow> ('c, 'd, 'v, 'a) rx_state option" where
  "release_loop D st =
     (case jitter_pop (rx_jitter st) of
        (r, j) \<Rightarrow>
          if r = Buffering then Some (st\<lparr>rx_jitter := j\<rparr>)
          else release_loop D (play_released D r (st\<lparr>rx_jitter := j\<rparr>)))"

text \<open>The datagram, from the socket to the playback queue.\<close>

definition receive_datagram ::
    "'c aead \<Rightarrow> ('d, 'v) decode_ops \<Rightarrow> bool \<Rightarrow> codec_kind \<Rightarrow> audio_format \<Rightarrow>
     bytes \<Rightarrow> 'a option \<Rightarrow> ('c, 'd, 'v, 'a) rx_state \<Rightarrow> ('c, 'd, 'v, 'a) rx_state option" where
  "receive_datagram L D host_side codec format datagram addr st =
     (case parse_packet datagram of
        None \<Rightarrow> Some st
      | Some p \<Rightarrow>
          (case open_packet L p (rx_opener st) of
             (Inl e, o1) \<Rightarrow> Some (st\<lparr>rx_opener := o1\<rparr>)
           | (Inr payload, o1) \<Rightarrow>
               let st = st\<lparr>rx_opener := o1\<rparr>;
                   st = (if host_side \<and> addr \<noteq> None then st\<lparr>rx_peer := addr\<rparr> else st)
               in if payload = [] then Some st
                  else if \<not> packet_matches_negotiation p codec format then Some st
                  else
                    let j = (if ap_keyframe p then set_anchor (ap_sequence p) (rx_jitter st)
                             else rx_jitter st)
                    in case jitter_push (ap_sequence p) payload j of
                         (False, j') \<Rightarrow> Some (st\<lparr>rx_jitter := j'\<rparr>)
                       | (True, j') \<Rightarrow> release_loop D (st\<lparr>rx_jitter := j'\<rparr>)))"

text \<open>The worker's start: the playback queue is aligned to local frames and limited to four.\<close>

definition prepare_incoming :: "audio_format \<Rightarrow> audio_format \<Rightarrow> f32 pcm_queue \<Rightarrow> f32 pcm_queue" where
  "prepare_incoming local_format format q =
     (let incoming_frame = max 1 ((unat (af_rate local_format) div 1000) *
            unat (af_frame_ms format) * unat (af_channels local_format))
      in set_target_depth (incoming_frame * playback_depth_frames)
           (set_frame_align incoming_frame q))"

definition jitter_depth_frames :: nat where "jitter_depth_frames = 2"

definition rx_start :: "'c opener \<Rightarrow> 'd \<Rightarrow> 'v \<Rightarrow> f32 pcm_queue \<Rightarrow> ('c, 'd, 'v, 'a) rx_state" where
  "rx_start o1 d v q =
     \<lparr>rx_opener = o1, rx_peer = None, rx_jitter = jitter_new jitter_depth_frames, rx_decoder = d,
      rx_converter = v, rx_incoming = q, rx_errors = []\<rparr>"

fun receive_all ::
    "'c aead \<Rightarrow> ('d, 'v) decode_ops \<Rightarrow> bool \<Rightarrow> codec_kind \<Rightarrow> audio_format \<Rightarrow>
     (bytes \<times> 'a option) list \<Rightarrow> ('c, 'd, 'v, 'a) rx_state \<Rightarrow> ('c, 'd, 'v, 'a) rx_state option"
where
  "receive_all L D host codec format [] st = Some st"
| "receive_all L D host codec format ((d, addr) # ds) st =
     (case receive_datagram L D host codec format d addr st of
        None \<Rightarrow> None
      | Some st' \<Rightarrow> receive_all L D host codec format ds st')"

subsection \<open>The release loop ends\<close>

lemma play_samples_frame [simp, frame_simps]:
  "rx_jitter (play_samples D xs st) = rx_jitter st"
  "rx_opener (play_samples D xs st) = rx_opener st"
  "rx_peer (play_samples D xs st) = rx_peer st"
  by (simp_all add: play_samples_def split: prod.split)

lemma play_released_frame [simp, frame_simps]:
  "rx_jitter (play_released D r st) = rx_jitter st"
  "rx_opener (play_released D r st) = rx_opener st"
  "rx_peer (play_released D r st) = rx_peer st"
  by (auto simp: play_released_def split: pop_result.split prod.split sum.split)

text \<open>All queued frames lie less than \<open>n\<close> ahead of the expected one.\<close>

definition within :: "nat \<Rightarrow> 'p jitter \<Rightarrow> bool" where
  "within n j \<longleftrightarrow> (\<exists>nxt. j_next j = Some nxt \<and>
     (\<forall>k \<in> set (bt_keys (j_queued j)). unat (k - nxt) < n))"

lemma within_ok: "jitter_ok j \<Longrightarrow> j_next j = Some nxt \<Longrightarrow> within 65 j"
  by (auto simp: within_def dest: jitter_okD(7))

lemma within_step:
  assumes "jitter_ok j" and "within n j" and "jitter_pop j = (r, j')" and "r \<noteq> Buffering"
  shows "0 < n \<and> within (n - 1) j'"
proof -
  obtain nxt where nxt: "j_next j = Some nxt"
    and near: "\<forall>k \<in> set (bt_keys (j_queued j)). unat (k - nxt) < n"
    using assms(2) by (auto simp: within_def)
  have primed: "j_primed j" using jitter_okD(6) [OF assms(1)] nxt by simp
  have ne: "j_queued j \<noteq> []" using assms(3,4) by (auto simp: jitter_pop_def)
  with near have n: "0 < n" by (cases "j_queued j") (auto simp: bt_keys_def)
  have step: "unat (k - (nxt + 1)) < n - 1" if "k \<in> set (bt_keys (j_queued j))" "k \<noteq> nxt" for k
  proof -
    have "unat (k - nxt) < n" using near that(1) by blast
    with unat_step [OF that(2)] show ?thesis by linarith
  qed
  have "take_next nxt j = (r, j')"
    using assms(3) ne primed nxt by (simp add: jitter_pop_def)
  then have "within (n - 1) j'"
  proof (cases rule: take_next_cases)
    case (frame p)
    have "\<forall>k \<in> set (bt_keys (bt_remove nxt (j_queued j))). unat (k - (nxt + 1)) < n - 1"
      using step by (simp add: bt_keys_remove)
    with frame(3) show ?thesis by (simp add: within_def)
  next
    case lost
    have "nxt \<notin> set (bt_keys (j_queued j))" using lost(1) by (simp add: set_bt_keys)
    with step lost(4) show ?thesis by (auto simp: within_def)
  next
    case wait
    with assms(4) show ?thesis by simp
  qed
  with n show ?thesis by blast
qed

lemma release_loop_Buffering:
  "jitter_pop (rx_jitter st) = (Buffering, j) \<Longrightarrow> release_loop D st = Some (st\<lparr>rx_jitter := j\<rparr>)"
  by (subst release_loop.simps) simp

lemma release_loop_step:
  "jitter_pop (rx_jitter st) = (r, j) \<Longrightarrow> r \<noteq> Buffering \<Longrightarrow>
   release_loop D st = release_loop D (play_released D r (st\<lparr>rx_jitter := j\<rparr>))"
  by (subst release_loop.simps) simp

definition kept :: "('c, 'd, 'v, 'a) rx_state \<Rightarrow> ('c, 'd, 'v, 'a) rx_state \<Rightarrow> bool" where
  "kept st st' \<longleftrightarrow> jitter_ok (rx_jitter st') \<and> rx_opener st' = rx_opener st \<and> rx_peer st' = rx_peer st"

lemma release_loop_within:
  "jitter_ok (rx_jitter st) \<Longrightarrow> within n (rx_jitter st) \<Longrightarrow>
   \<exists>st'. release_loop D st = Some st' \<and> kept st st'"
proof (induction n arbitrary: st)
  case 0
  obtain r j where p: "jitter_pop (rx_jitter st) = (r, j)" by fastforce
  then have "r = Buffering" using within_step [OF 0 p] by blast
  with p jitter_ok_pop [OF 0(1) p] show ?case
    by (simp add: release_loop_Buffering kept_def)
next
  case (Suc n)
  obtain r j where p: "jitter_pop (rx_jitter st) = (r, j)" by fastforce
  note ok = jitter_ok_pop [OF Suc.prems(1) p]
  show ?case
  proof (cases "r = Buffering")
    case True
    with p ok show ?thesis by (simp add: release_loop_Buffering kept_def)
  next
    case False
    let ?st = "play_released D r (st\<lparr>rx_jitter := j\<rparr>)"
    have "within n j" using within_step [OF Suc.prems p False] by simp
    with ok obtain st' where "release_loop D ?st = Some st'" "kept ?st st'"
      using Suc.IH [of ?st] by auto
    with release_loop_step [OF p False, of D] show ?thesis
      by (auto simp: kept_def)
  qed
qed

text \<open>A buffer that has not started either waits or starts within its window.\<close>

lemma release_loop_ends:
  assumes "jitter_ok (rx_jitter st)"
  shows "\<exists>st'. release_loop D st = Some st' \<and> kept st st'"
proof (cases "j_next (rx_jitter st)")
  case (Some nxt)
  with assms show ?thesis by (intro release_loop_within [where n = 65] within_ok)
next
  case None
  obtain r j where p: "jitter_pop (rx_jitter st) = (r, j)" by fastforce
  note ok = jitter_ok_pop [OF assms p]
  show ?thesis
  proof (cases "r = Buffering")
    case True
    with p ok show ?thesis by (simp add: release_loop_Buffering kept_def)
  next
    case False
    let ?st = "play_released D r (st\<lparr>rx_jitter := j\<rparr>)"
    from assms p have "j_next j \<noteq> None"
    proof (cases rule: jitter_pop_cases)
      case start
      then show ?thesis
        using take_next_release [OF start(3) order_refl start(4)] False by simp
    qed (use False None in auto)
    then obtain nxt where "j_next j = Some nxt" by blast
    then obtain st' where "release_loop D ?st = Some st'" "kept ?st st'"
      using release_loop_within [of ?st 65 D] within_ok ok by auto
    with release_loop_step [OF p False, of D] show ?thesis
      by (auto simp: kept_def)
  qed
qed

subsection \<open>One datagram\<close>

lemma open_packet_result:
  "open_packet L p o1 = (r, o2) \<Longrightarrow> o2 = (if is_ok r then record_counter (ap_counter p) o1 else o1)"
  by (cases "open_with L (ap_counter p) (ap_sealed p) (ap_header p) o1")
     (auto simp: open_packet_def open_windowed_allows split: if_splits, (metis is_ok.simps)+)

text \<open>What a datagram does to the opener.\<close>

definition opener_after :: "'c aead \<Rightarrow> bytes \<Rightarrow> 'c opener \<Rightarrow> 'c opener" where
  "opener_after L d o1 =
     (case parse_packet d of None \<Rightarrow> o1 | Some p \<Rightarrow> snd (open_packet L p o1))"

lemma receive_datagram_ends:
  fixes st :: "('c, 'd, 'v, 'a) rx_state"
  assumes "jitter_ok (rx_jitter st)"
  shows "\<exists>st'. receive_datagram L D host codec format d addr st = Some st' \<and>
    jitter_ok (rx_jitter st') \<and> rx_opener st' = opener_after L d (rx_opener st)"
proof (cases "parse_packet d")
  case None
  with assms show ?thesis by (simp add: receive_datagram_def opener_after_def)
next
  case (Some p)
  obtain r o1 where o1: "open_packet L p (rx_opener st) = (r, o1)" by fastforce
  show ?thesis
  proof (cases r)
    case (Inl e)
    with Some o1 assms show ?thesis by (simp add: receive_datagram_def opener_after_def)
  next
    case (Inr payload)
    let ?j = "if ap_keyframe p then set_anchor (ap_sequence p) (rx_jitter st) else rx_jitter st"
    obtain b j where j: "jitter_push (ap_sequence p) payload ?j = (b, j)" by fastforce
    have ok: "jitter_ok j"
      by (rule jitter_ok_push [OF _ j]) (simp add: assms jitter_ok_anchor)
    define st1 where "st1 = (if host \<and> addr \<noteq> None then st\<lparr>rx_opener := o1, rx_peer := addr\<rparr>
      else st\<lparr>rx_opener := o1\<rparr>)"
    have st1: "rx_opener st1 = o1" "rx_jitter st1 = rx_jitter st"
      by (simp_all add: st1_def)
    have eq: "receive_datagram L D host codec format d addr st =
        (if payload = [] \<or> \<not> packet_matches_negotiation p codec format then Some st1
         else if b then release_loop D (st1\<lparr>rx_jitter := j\<rparr>) else Some (st1\<lparr>rx_jitter := j\<rparr>))"
      using Some o1 Inr j by (cases b; cases "ap_keyframe p"; simp add: receive_datagram_def Let_def st1_def)
    have after: "opener_after L d (rx_opener st) = o1"
      using Some o1 by (simp add: opener_after_def)
    obtain st' where "release_loop D (st1\<lparr>rx_jitter := j\<rparr>) = Some st'"
      "kept (st1\<lparr>rx_jitter := j\<rparr>) st'"
      using release_loop_ends [of "st1\<lparr>rx_jitter := j\<rparr>" D] ok by auto
    then show ?thesis
      unfolding eq after using ok assms st1 by (auto simp: kept_def)
  qed
qed

subsection \<open>Replays\<close>

text \<open>A counter that the opener refuses stays refused.\<close>

definition refuses :: "'c opener \<Rightarrow> u64 \<Rightarrow> bool" where
  "refuses o1 c \<longleftrightarrow> \<not> opener_allows o1 c"

lemma reference_refuses_mono:
  assumes "finite B" and "A \<subseteq> B" and "\<not> reference_allows A c"
  shows "\<not> reference_allows B c"
proof -
  have ne: "A \<noteq> {}" using assms(3) by (auto simp: reference_allows_def)
  have max: "Max A \<le> Max B" using assms(1,2) ne by (intro Max_mono)
  have le: "c \<le> Max A"
    using assms(3) by (auto simp: reference_allows_def not_less)
  show ?thesis
  proof (cases "c \<in> A")
    case True
    then show ?thesis using reference_fresh [OF assms(1)] assms(2) by blast
  next
    case False
    then have "\<not> Max A - c < replay_window"
      using assms(3) by (auto simp: reference_allows_def)
    moreover have "Max A - c \<le> Max B - c"
      using max le by (simp add: word_le_minus_mono_left)
    ultimately have "\<not> Max B - c < replay_window"
      by (meson le_less_trans)
    moreover have "\<not> Max B < c" using le max by simp
    moreover have "B \<noteq> {}" using ne assms(2) by blast
    ultimately show ?thesis by (simp add: reference_allows_def)
  qed
qed

lemma opener_after_remembers:
  assumes "remembers o1 A"
  shows "\<exists>B. remembers (opener_after L d o1) B \<and> A \<subseteq> B"
proof (cases "parse_packet d")
  case None
  with assms show ?thesis by (auto simp: opener_after_def)
next
  case (Some p)
  show ?thesis
  proof (cases "opener_allows o1 (ap_counter p)")
    case True
    with Some assms remembers_record [OF assms True] show ?thesis
      by (auto simp: opener_after_def open_packet_def open_windowed_allows split: sum.split)
  next
    case False
    with Some assms show ?thesis
      by (auto simp: opener_after_def open_packet_def open_windowed_allows)
  qed
qed

text \<open>
  Once a datagram has been seen, the opener will never open it: it did not authenticate, or
  its counter is recorded or too old.
\<close>

definition spent :: "'c aead \<Rightarrow> bytes \<Rightarrow> 'c opener \<Rightarrow> bool" where
  "spent L d o1 \<longleftrightarrow>
     (case parse_packet d of
        None \<Rightarrow> True
      | Some p \<Rightarrow> \<not> authentic L o1 (ap_counter p, ap_sealed p, ap_header p) \<or>
          \<not> opener_allows o1 (ap_counter p))"

lemma authentic_opener_after [simp]: "authentic L (opener_after L d o1) = authentic L o1"
  by (auto simp: opener_after_def open_packet_def open_windowed_allows split: option.split sum.split)

lemma spent_after:
  assumes "remembers o1 A"
  shows "spent L d (opener_after L d o1)"
proof (cases "parse_packet d")
  case None
  then show ?thesis by (simp add: spent_def)
next
  case (Some p)
  show ?thesis
  proof (cases "opener_allows o1 (ap_counter p) \<and>
      authentic L o1 (ap_counter p, ap_sealed p, ap_header p)")
    case True
    then have o: "opener_after L d o1 = record_counter (ap_counter p) o1"
      using Some by (auto simp: opener_after_def open_packet_def open_windowed_allows authentic_def
          split: sum.split)
    have "remembers (record_counter (ap_counter p) o1) (insert (ap_counter p) A)"
      using True by (intro remembers_record [OF assms]) (elim conjE)
    then have "\<not> opener_allows (record_counter (ap_counter p) o1) (ap_counter p)"
      using window.never_again by blast
    with Some o show ?thesis by (simp add: spent_def)
  next
    case False
    then have "opener_after L d o1 = o1"
      using Some by (auto simp: opener_after_def open_packet_def open_windowed_allows authentic_def
          split: sum.split)
    with Some False show ?thesis by (auto simp: spent_def)
  qed
qed

lemma spent_mono:
  assumes "remembers o1 A" and "spent L d o1"
  shows "spent L d (opener_after L e o1)"
proof (cases "parse_packet d")
  case None
  then show ?thesis by (simp add: spent_def)
next
  case (Some p)
  obtain B where B: "remembers (opener_after L e o1) B" "A \<subseteq> B"
    using opener_after_remembers [OF assms(1)] by blast
  have "\<not> opener_allows (opener_after L e o1) (ap_counter p)"
    if "\<not> opener_allows o1 (ap_counter p)"
  proof -
    from that have "\<not> reference_allows A (ap_counter p)"
      using remembers_allows [OF assms(1)] by simp
    moreover have "finite B" using B(1) by (simp add: remembers_def)
    ultimately have "\<not> reference_allows B (ap_counter p)"
      using reference_refuses_mono B(2) by blast
    then show ?thesis using remembers_allows [OF B(1)] by simp
  qed
  with Some assms(2) show ?thesis by (auto simp: spent_def)
qed

lemma spent_no_effect:
  assumes "spent L d (rx_opener st)"
  shows "receive_datagram L D host codec format d addr st = Some st"
proof (cases "parse_packet d")
  case None
  then show ?thesis by (simp add: receive_datagram_def)
next
  case (Some p)
  have "\<exists>e. open_packet L p (rx_opener st) = (Inl e, rx_opener st)"
    using assms Some
    by (auto simp: spent_def open_packet_def open_windowed_allows authentic_def split: sum.splits)
  with Some show ?thesis by (auto simp: receive_datagram_def)
qed

text \<open>The invariant of the worker: a bounded jitter buffer and a consistent replay window.\<close>

definition rx_ok :: "('c, 'd, 'v, 'a) rx_state \<Rightarrow> bool" where
  "rx_ok st \<longleftrightarrow> jitter_ok (rx_jitter st) \<and> (\<exists>A. remembers (rx_opener st) A)"

lemma receive_datagram_ok:
  assumes "rx_ok st"
  shows "\<exists>st'. receive_datagram L D host codec format d addr st = Some st' \<and> rx_ok st' \<and>
    rx_opener st' = opener_after L d (rx_opener st)"
proof -
  obtain st' where st': "receive_datagram L D host codec format d addr st = Some st'"
    "jitter_ok (rx_jitter st')" "rx_opener st' = opener_after L d (rx_opener st)"
    using receive_datagram_ends [of st] assms unfolding rx_ok_def by blast
  then have "rx_ok st'"
    using assms opener_after_remembers unfolding rx_ok_def by metis
  with st' show ?thesis by blast
qed

lemma rx_ok_start:
  assumes "opener_new L key s = Inr o1"
  shows "rx_ok (rx_start o1 d v q)"
  using opener_new_remembers [OF assms] by (auto simp: rx_ok_def rx_start_def jitter_ok_new)

lemma receive_all_ok:
  "rx_ok st \<Longrightarrow> \<exists>st'. receive_all L D host codec format ds st = Some st' \<and> rx_ok st'"
proof (induction ds arbitrary: st)
  case Nil
  then show ?case by simp
next
  case (Cons x ds)
  obtain d addr where x: "x = (d, addr)" by fastforce
  obtain st1 where "receive_datagram L D host codec format d addr st = Some st1" "rx_ok st1"
    using receive_datagram_ok [OF Cons.prems] by blast
  with Cons.IH [of st1] show ?case by (simp add: x)
qed

lemma receive_all_spent:
  "rx_ok st \<Longrightarrow> spent L d (rx_opener st) \<Longrightarrow>
   receive_all L D host codec format ds st = Some st' \<Longrightarrow> spent L d (rx_opener st')"
proof (induction ds arbitrary: st)
  case Nil
  then show ?case by simp
next
  case (Cons x ds)
  obtain e addr where x: "x = (e, addr)" by fastforce
  obtain st1 where st1: "receive_datagram L D host codec format e addr st = Some st1" "rx_ok st1"
    "rx_opener st1 = opener_after L e (rx_opener st)"
    using receive_datagram_ok [OF Cons.prems(1)] by blast
  obtain A where "remembers (rx_opener st) A" using Cons.prems(1) by (auto simp: rx_ok_def)
  then have "spent L d (rx_opener st1)"
    using spent_mono Cons.prems(2) st1(3) by metis
  with Cons.IH [OF st1(2)] Cons.prems(3) st1(1) show ?case by (simp add: x)
qed

lemma receive_all_append:
  "receive_all L D host codec format (xs @ ys) st =
     (case receive_all L D host codec format xs st of
        None \<Rightarrow> None
      | Some st' \<Rightarrow> receive_all L D host codec format ys st')"
  by (induction xs arbitrary: st) (auto split: option.split)

subsection \<open>Properties\<close>

text \<open>
  C23: the receive worker ends its work on every datagram: whatever sequence of bytes arrives
  from whatever addresses, the loop that releases, decodes and plays frames always stops,
  also for losses that the decoder fails to conceal.
\<close>

theorem receive_worker_ends:
  assumes "opener_new L key s = Inr o1"
  shows "\<exists>st. receive_all L D host codec format ds (rx_start o1 d v q) = Some st"
proof -
  have "rx_ok (rx_start o1 d v q)" by (rule rx_ok_start [OF assms])
  from receive_all_ok [OF this] show ?thesis by blast
qed

theorem receive_worker_ends_witness:
  "\<exists>st. receive_all sum_aead
     \<lparr>dec_decode = (\<lambda>d b. (Inl ''bad'', d)), dec_conceal = (\<lambda>d. (Inl ''none'', d)),
      dec_convert = (\<lambda>v xs. (xs, v))\<rparr> True Opus \<lparr>af_rate = 48000, af_channels = 2, af_frame_ms = 10\<rparr>
     [([1, 2, 3], Some (7 :: nat))]
     (rx_start \<lparr>o_cipher = [5], o_side = Client, o_highest = 0, o_seen = 0, o_started = False\<rparr>
       () () (pcm_new 4096)) = Some st"
  by (rule receive_worker_ends [of sum_aead "[5]" Client])
     (simp add: opener_new_def cipher_def sum_aead_def)

text \<open>
  C16: a datagram has an effect at most once. When a session has received a datagram, a copy
  of it that arrives any time later, from any address and after any other traffic, changes
  nothing: not the replay window, not the jitter buffer, not the playback queue, and not the
  address that audio is sent to.
\<close>

theorem repeated_datagram_has_no_effect:
  assumes "opener_new L key s = Inr o1"
  shows "receive_all L D host codec format (xs @ (d, a) # ys @ [(d, b)]) (rx_start o1 dec v q) =
         receive_all L D host codec format (xs @ (d, a) # ys) (rx_start o1 dec v q)"
proof -
  let ?run = "receive_all L D host codec format"
  have start: "rx_ok (rx_start o1 dec v q)" by (rule rx_ok_start [OF assms])
  obtain st1 where st1: "?run xs (rx_start o1 dec v q) = Some st1" "rx_ok st1"
    using receive_all_ok [OF start] by blast
  obtain st2 where st2: "receive_datagram L D host codec format d a st1 = Some st2" "rx_ok st2"
    "rx_opener st2 = opener_after L d (rx_opener st1)"
    using receive_datagram_ok [OF st1(2)] by blast
  have "spent L d (rx_opener st2)"
    using st1(2) spent_after st2(3) by (metis rx_ok_def)
  moreover obtain st3 where st3: "?run ys st2 = Some st3"
    using receive_all_ok [OF st2(2)] by blast
  ultimately have "spent L d (rx_opener st3)"
    using receive_all_spent [OF st2(2)] by blast
  then have "?run [(d, b)] st3 = Some st3"
    by (simp add: spent_no_effect)
  with st1(1) st2(1) st3 show ?thesis
    by (simp add: receive_all_append)
qed

theorem repeated_datagram_has_no_effect_witness:
  "receive_all sum_aead
     \<lparr>dec_decode = (\<lambda>d b. (Inr [0], d)), dec_conceal = (\<lambda>d. (Inr [], d)),
      dec_convert = (\<lambda>v xs. (xs, v))\<rparr> True Opus \<lparr>af_rate = 48000, af_channels = 2, af_frame_ms = 10\<rparr>
     ([] @ ([1, 2], Some (7 :: nat)) # [] @ [([1, 2], Some 8)])
     (rx_start \<lparr>o_cipher = [5], o_side = Client, o_highest = 0, o_seen = 0, o_started = False\<rparr>
       () () (pcm_new 4096)) =
   receive_all sum_aead
     \<lparr>dec_decode = (\<lambda>d b. (Inr [0], d)), dec_conceal = (\<lambda>d. (Inr [], d)),
      dec_convert = (\<lambda>v xs. (xs, v))\<rparr> True Opus \<lparr>af_rate = 48000, af_channels = 2, af_frame_ms = 10\<rparr>
     ([] @ ([1, 2], Some 7) # [])
     (rx_start \<lparr>o_cipher = [5], o_side = Client, o_highest = 0, o_seen = 0, o_started = False\<rparr>
       () () (pcm_new 4096))"
  by (rule repeated_datagram_has_no_effect [of sum_aead "[5]" Client])
     (simp add: opener_new_def cipher_def sum_aead_def)

end
