(* ===== verification/Audio_Path.thy ===== *)
theory Audio_Path
  imports Audio_Receive
begin

text \<open>
  The transmit worker (\<^verbatim>\<open>run_tx_source\<close> of \<^verbatim>\<open>session/audio_worker.rs\<close>) and the PCM codec
  (\<^verbatim>\<open>codec.rs\<close>), and the whole audio path: frames that one peer sends, received in order by
  the other, end up in its playback queue sample for sample.
\<close>

subsection \<open>PCM codec\<close>

definition pcm_encode :: "f32 list \<Rightarrow> bytes" where
  "pcm_encode pcm = concat (map u32_le pcm)"

text \<open>\<open>out_len\<close> is the length of the caller's buffer; the samples written are returned.\<close>

fun read_samples :: "nat \<Rightarrow> bytes \<Rightarrow> f32 list" where
  "read_samples 0 payload = []"
| "read_samples (Suc n) payload =
     of_nat (from_le (take 4 payload)) # read_samples n (drop 4 payload)"

definition pcm_decode :: "audio_format \<Rightarrow> nat \<Rightarrow> bytes \<Rightarrow> (string, f32 list) result" where
  "pcm_decode format out_len payload =
     (let expected = frame_samples format in
      if length payload \<noteq> expected * 4
      then Inl (''PCM frame of '' @ show_nat (length payload) @
                '' bytes is not the negotiated '' @ show_nat (expected * 4) @ '' bytes'')
      else if expected > out_len
      then Inl (''PCM frame of '' @ show_nat expected @ '' samples exceeds the '' @
                show_nat out_len @ '' sample buffer'')
      else Inr (read_samples expected payload))"

definition pcm_conceal :: "audio_format \<Rightarrow> nat \<Rightarrow> (string, f32 list) result" where
  "pcm_conceal format out_len = Inr (replicate (min (frame_samples format) out_len) 0)"

text \<open>The receiver's decoder for PCM, with its one-frame buffer and the identity conversion.\<close>

definition pcm_ops :: "audio_format \<Rightarrow> (unit, unit) decode_ops" where
  "pcm_ops format =
     \<lparr>dec_decode = (\<lambda>d payload. (pcm_decode format (frame_samples format) payload, d)),
      dec_conceal = (\<lambda>d. (pcm_conceal format (frame_samples format), d)),
      dec_convert = (\<lambda>v xs. (xs, v))\<rparr>"

lemma length_pcm_encode: "length (pcm_encode pcm) = length pcm * 4"
  by (induction pcm) (simp_all add: pcm_encode_def)

lemma read_pcm_encode: "read_samples (length pcm) (pcm_encode pcm) = pcm"
  by (induction pcm) (simp_all add: pcm_encode_def)

lemma pcm_round_trip:
  "length pcm = frame_samples format \<Longrightarrow> frame_samples format \<le> out_len \<Longrightarrow>
   pcm_decode format out_len (pcm_encode pcm) = Inr pcm"
  using read_pcm_encode [of pcm] by (simp add: pcm_decode_def length_pcm_encode)

subsection \<open>Sending\<close>

datatype send_outcome = Sent | Send_Timed_Out | Send_Failed string

record 'c tx_state =
  tx_sealer :: "'c sealer"
  tx_sequence :: u32
  tx_timestamp :: u32

definition tx_start :: "'c sealer \<Rightarrow> 'c tx_state" where
  "tx_start sl = \<lparr>tx_sealer = sl, tx_sequence = 0, tx_timestamp = 0\<rparr>"

definition tx_header :: "codec_kind \<Rightarrow> audio_format \<Rightarrow> 'c tx_state \<Rightarrow> audio_header" where
  "tx_header codec format tx =
     \<lparr>ah_stereo = is_stereo format, ah_keyframe = (tx_sequence tx = 0), ah_codec = codec,
      ah_sequence = tx_sequence tx, ah_timestamp = tx_timestamp tx\<rparr>"

definition tx_advance :: "audio_format \<Rightarrow> 'c tx_state \<Rightarrow> 'c tx_state" where
  "tx_advance format tx =
     tx\<lparr>tx_sequence := tx_sequence tx + 1,
        tx_timestamp := tx_timestamp tx + ucast (af_frame_ms format)\<rparr>"

text \<open>
  One frame taken from the capture queue: \<open>encoded\<close> is the encoder's result, \<open>outcome\<close> what
  the transport says of a datagram. The result is the datagram handed to the transport, if
  any, or the reason for which the session is torn down.
\<close>

definition send_frame ::
    "'c aead \<Rightarrow> codec_kind \<Rightarrow> audio_format \<Rightarrow> (string, bytes) result \<Rightarrow>
     (bytes \<Rightarrow> send_outcome) \<Rightarrow> 'c tx_state \<Rightarrow>
     (string, bytes option \<times> 'c tx_state) result" where
  "send_frame L codec format encoded outcome tx =
     (case encoded of
        Inl error \<Rightarrow> Inl (''audio encode failed: '' @ error)
      | Inr payload \<Rightarrow>
          if payload = [] then Inr (None, tx)
          else case seal_datagram L (tx_header codec format tx) payload (tx_sealer tx) of
            (Inl error, sl) \<Rightarrow> Inl (''audio seal failed: '' @ show_relay_error error)
          | (Inr datagram, sl) \<Rightarrow>
              let tx = tx\<lparr>tx_sealer := sl\<rparr> in
              (case outcome datagram of
                 Sent \<Rightarrow> Inr (Some datagram, tx_advance format tx)
               | Send_Timed_Out \<Rightarrow> Inr (Some datagram, tx_advance format tx)
               | Send_Failed error \<Rightarrow> Inl (''audio send failed: '' @ error)))"

fun send_all ::
    "'c aead \<Rightarrow> audio_format \<Rightarrow> f32 list list \<Rightarrow> 'c tx_state \<Rightarrow> (string, bytes list) result" where
  "send_all L format [] tx = Inr []"
| "send_all L format (pcm # pcms) tx =
     (case send_frame L Pcm format (Inr (pcm_encode pcm)) (\<lambda>d. Sent) tx of
        Inl e \<Rightarrow> Inl e
      | Inr (None, tx') \<Rightarrow> send_all L format pcms tx'
      | Inr (Some d, tx') \<Rightarrow>
          (case send_all L format pcms tx' of Inl e \<Rightarrow> Inl e | Inr ds \<Rightarrow> Inr (d # ds)))"

lemma send_frame_sent:
  assumes "aead_correct L" and "pcm \<noteq> []"
    and "send_frame L Pcm format (Inr (pcm_encode pcm)) (\<lambda>d. Sent) tx = Inr (r, tx')"
  obtains d where "r = Some d"
    "seal_datagram L (tx_header Pcm format tx) (pcm_encode pcm) (tx_sealer tx) =
       (Inr d, tx_sealer tx')"
    "tx_sealer tx' = tx_sealer tx\<lparr>s_counter := s_counter (tx_sealer tx) + 1\<rparr>"
    "tx_sequence tx' = tx_sequence tx + 1"
proof -
  obtain x sl where seal: "seal_datagram L (tx_header Pcm format tx) (pcm_encode pcm) (tx_sealer tx) = (x, sl)"
    by fastforce
  have ne: "pcm_encode pcm \<noteq> []"
    using assms(2) length_pcm_encode [of pcm] by (metis length_0_conv mult_is_0 zero_neq_numeral)
  show thesis
  proof (cases x)
    case (Inl e)
    with seal ne assms(3) show ?thesis by (simp add: send_frame_def)
  next
    case (Inr d)
    note s = seal [unfolded Inr]
    from assms(1) s obtain b where "sl = tx_sealer tx\<lparr>s_counter := s_counter (tx_sealer tx) + 1\<rparr>"
      by (rule seal_datagram_parts)
    moreover have "r = Some d" "tx' = tx_advance format (tx\<lparr>tx_sealer := sl\<rparr>)"
      using s ne assms(3) by (simp_all add: send_frame_def Let_def)
    ultimately show ?thesis
      using s by (intro that) (simp_all add: tx_advance_def)
  qed
qed

subsection \<open>Receiving in order\<close>

lemma jitter_push_expected:
  assumes "j_next j = Some s" and "j_queued j = []"
  shows "jitter_push s p j =
    (True, j\<lparr>j_received := j_received j + 1, j_queued := [(s, p)], j_far := j_far j\<rparr>)"
  using assms
  by (simp add: jitter_push_def insert_frame_def bt_contains_def evict_oldest_id max_queued_frames_def)

lemma jitter_pop_single:
  assumes "j_primed j" and "j_next j = Some s" and "j_queued j = [(s, p)]"
    and "j_lookahead j = min_lookahead"
  shows "jitter_pop j = (Frame p, j\<lparr>j_queued := [], j_next := Some (s + 1)\<rparr>)"
  using assms
  by (simp add: jitter_pop_def take_next_def bt_get_Cons bt_remove_def note_clean_pop_def)

lemma jitter_pop_empty: "j_queued j = [] \<Longrightarrow> jitter_pop j = (Buffering, j)"
  by (simp add: jitter_pop_def)

lemma play_pcm:
  assumes "length pcm = frame_samples format"
  shows "play_released (pcm_ops format) (Frame (pcm_encode pcm)) st =
    st\<lparr>rx_decoder := (), rx_converter := (), rx_incoming := pcm_push True pcm (rx_incoming st)\<rparr>"
  using pcm_round_trip [OF assms order_refl] assms
  by (simp add: play_released_def play_samples_def pcm_ops_def)

text \<open>The receiver between frames: nothing queued, \<open>s\<close> expected, \<open>q\<close> the playback queue.\<close>

definition playing :: "u32 \<Rightarrow> f32 pcm_queue \<Rightarrow> ('c, unit, unit, 'a) rx_state \<Rightarrow> bool" where
  "playing s q st \<longleftrightarrow> j_primed (rx_jitter st) \<and> j_next (rx_jitter st) = Some s \<and>
     j_queued (rx_jitter st) = [] \<and> j_lookahead (rx_jitter st) = min_lookahead \<and>
     rx_incoming st = q"

lemma release_single:
  assumes "j_primed (rx_jitter st)" and "j_next (rx_jitter st) = Some s"
    and "j_queued (rx_jitter st) = [(s, pcm_encode pcm)]"
    and "j_lookahead (rx_jitter st) = min_lookahead"
    and "length pcm = frame_samples format"
  shows "\<exists>st'. release_loop (pcm_ops format) st = Some st' \<and>
    playing (s + 1) (pcm_push True pcm (rx_incoming st)) st' \<and> rx_opener st' = rx_opener st"
  using release_loop_step [OF jitter_pop_single [OF assms(1-4)], of "pcm_ops format"]
    assms(1,4)
  by (simp add: release_loop_Buffering jitter_pop_empty playing_def play_pcm [OF assms(5)])

lemma receive_opened:
  assumes "aead_correct L" and "seal_datagram L h (pcm_encode pcm) sl = (Inr d, sl')" and "pcm \<noteq> []"
    and "o_cipher (rx_opener st) = s_cipher sl" and "o_side (rx_opener st) = s_side sl"
    and "remembers (rx_opener st) A" and "\<And>a. a \<in> A \<Longrightarrow> a < s_counter sl"
    and "ah_stereo h = is_stereo format" and "ah_codec h = Pcm"
  shows "\<exists>st1. rx_opener st1 = record_counter (s_counter sl) (rx_opener st) \<and>
    rx_jitter st1 = rx_jitter st \<and> rx_incoming st1 = rx_incoming st \<and>
    receive_datagram L D host Pcm format d addr st =
      (case jitter_push (ah_sequence h) (pcm_encode pcm)
           (if ah_keyframe h then set_anchor (ah_sequence h) (rx_jitter st) else rx_jitter st) of
         (False, j') \<Rightarrow> Some (st1\<lparr>rx_jitter := j'\<rparr>)
       | (True, j') \<Rightarrow> release_loop D (st1\<lparr>rx_jitter := j'\<rparr>))"
proof -
  have "reference_allows A (s_counter sl)"
    using assms(6,7) by (cases "A = {}") (auto simp: reference_allows_def remembers_def)
  then have "opener_allows (rx_opener st) (s_counter sl)"
    using remembers_allows [OF assms(6)] by simp
  from datagram_round_trip_open [OF assms(1,2,4,5) this]
  obtain p where p: "parse_packet d = Some p" "ap_stereo p = ah_stereo h"
    "ap_keyframe p = ah_keyframe h" "ap_codec p = ah_codec h" "ap_sequence p = ah_sequence h"
    "open_packet L p (rx_opener st) =
       (Inr (pcm_encode pcm), record_counter (s_counter sl) (rx_opener st))"
    by blast
  have ne: "pcm_encode pcm \<noteq> []"
    using assms(3) length_pcm_encode [of pcm] by (metis length_0_conv mult_is_0 zero_neq_numeral)
  let ?o = "record_counter (s_counter sl) (rx_opener st)"
  show ?thesis
    using p ne assms(8,9)
    by (intro exI [of _ "if host \<and> addr \<noteq> None then st\<lparr>rx_opener := ?o, rx_peer := addr\<rparr>
        else st\<lparr>rx_opener := ?o\<rparr>"])
      (simp add: receive_datagram_def packet_matches_negotiation_def Let_def del: not_None_eq)
qed

text \<open>A frame that is the expected one, while playing.\<close>

lemma receive_expected:
  assumes "aead_correct L" and "seal_datagram L h (pcm_encode pcm) sl = (Inr d, sl')" and "pcm \<noteq> []"
    and "o_cipher (rx_opener st) = s_cipher sl" and "o_side (rx_opener st) = s_side sl"
    and "remembers (rx_opener st) A" and "\<And>a. a \<in> A \<Longrightarrow> a < s_counter sl"
    and "ah_stereo h = is_stereo format" and "ah_codec h = Pcm"
    and "length pcm = frame_samples format" and "playing (ah_sequence h) q st"
  shows "\<exists>st'. receive_datagram L (pcm_ops format) host Pcm format d addr st = Some st' \<and>
    playing (ah_sequence h + 1) (pcm_push True pcm q) st' \<and>
    rx_opener st' = record_counter (s_counter sl) (rx_opener st)"
proof -
  let ?s = "ah_sequence h"
  obtain st1 where st1: "rx_opener st1 = record_counter (s_counter sl) (rx_opener st)"
    "rx_jitter st1 = rx_jitter st" "rx_incoming st1 = rx_incoming st"
    and eq: "receive_datagram L (pcm_ops format) host Pcm format d addr st =
      (case jitter_push ?s (pcm_encode pcm)
           (if ah_keyframe h then set_anchor ?s (rx_jitter st) else rx_jitter st) of
         (False, j') \<Rightarrow> Some (st1\<lparr>rx_jitter := j'\<rparr>)
       | (True, j') \<Rightarrow> release_loop (pcm_ops format) (st1\<lparr>rx_jitter := j'\<rparr>))"
    using receive_opened [OF assms(1-9), of "pcm_ops format" host addr] by blast
  have j: "(if ah_keyframe h then set_anchor ?s (rx_jitter st) else rx_jitter st) = rx_jitter st"
    using assms(11) by (simp add: playing_def set_anchor_def)
  have push: "jitter_push ?s (pcm_encode pcm) (rx_jitter st) = (True, (rx_jitter st)
      \<lparr>j_received := j_received (rx_jitter st) + 1, j_queued := [(?s, pcm_encode pcm)],
       j_far := j_far (rx_jitter st)\<rparr>)"
    using assms(11) by (intro jitter_push_expected) (simp_all add: playing_def)
  let ?st = "st1\<lparr>rx_jitter := (rx_jitter st)
      \<lparr>j_received := j_received (rx_jitter st) + 1, j_queued := [(?s, pcm_encode pcm)],
       j_far := j_far (rx_jitter st)\<rparr>\<rparr>"
  have "\<exists>st'. release_loop (pcm_ops format) ?st = Some st' \<and>
      playing (?s + 1) (pcm_push True pcm (rx_incoming ?st)) st' \<and> rx_opener st' = rx_opener ?st"
    using assms(11) by (intro release_single assms(10)) (simp_all add: playing_def)
  then show ?thesis
    using assms(11) st1 by (simp add: eq j push playing_def)
qed

text \<open>Sender and receiver in step: what the opener has seen lies below the next counter.\<close>

definition in_step :: "'c tx_state \<Rightarrow> ('c, 'd, 'v, 'a) rx_state \<Rightarrow> bool" where
  "in_step tx st \<longleftrightarrow>
     o_cipher (rx_opener st) = s_cipher (tx_sealer tx) \<and>
     o_side (rx_opener st) = s_side (tx_sealer tx) \<and>
     (\<exists>A. remembers (rx_opener st) A \<and> (\<forall>a \<in> A. a < s_counter (tx_sealer tx)))"

lemma in_step_next:
  assumes "in_step tx st" and "unat (s_counter (tx_sealer tx)) + 1 < 2 ^ 64"
    and "rx_opener st' = record_counter (s_counter (tx_sealer tx)) (rx_opener st)"
    and "tx_sealer tx' = tx_sealer tx\<lparr>s_counter := s_counter (tx_sealer tx) + 1\<rparr>"
  shows "in_step tx' st'" and "unat (s_counter (tx_sealer tx')) = unat (s_counter (tx_sealer tx)) + 1"
proof -
  let ?c = "s_counter (tx_sealer tx)"
  obtain A where A: "remembers (rx_opener st) A" "\<forall>a \<in> A. a < ?c"
    using assms(1) by (auto simp: in_step_def)
  have "reference_allows A ?c"
    using A by (cases "A = {}") (auto simp: reference_allows_def remembers_def)
  then have "remembers (rx_opener st') (insert ?c A)"
    unfolding assms(3) by (intro remembers_record A(1)) (simp add: remembers_allows [OF A(1)])
  moreover have u: "unat (?c + 1) = unat ?c + 1"
    using assms(2) by (simp add: unat_word_ariths)
  then have "\<forall>a \<in> insert ?c A. a < ?c + 1"
    using A(2) by (auto simp: word_less_nat_alt)
  ultimately show "in_step tx' st'"
    using assms(1,3,4) by (auto simp: in_step_def)
  show "unat (s_counter (tx_sealer tx')) = unat ?c + 1"
    using u assms(4) by simp
qed

lemma tx_header_fields [simp]:
  "ah_stereo (tx_header codec format tx) = is_stereo format"
  "ah_codec (tx_header codec format tx) = codec"
  "ah_sequence (tx_header codec format tx) = tx_sequence tx"
  "ah_keyframe (tx_header codec format tx) = (tx_sequence tx = 0)"
  by (simp_all add: tx_header_def)

lemma send_all_Cons:
  assumes "aead_correct L" and "pcm \<noteq> []" and "send_all L format (pcm # pcms) tx = Inr ds"
  obtains d tx' ds' where "ds = d # ds'" "send_all L format pcms tx' = Inr ds'"
    "seal_datagram L (tx_header Pcm format tx) (pcm_encode pcm) (tx_sealer tx) =
       (Inr d, tx_sealer tx')"
    "tx_sealer tx' = tx_sealer tx\<lparr>s_counter := s_counter (tx_sealer tx) + 1\<rparr>"
    "tx_sequence tx' = tx_sequence tx + 1"
proof -
  obtain r tx' where sf: "send_frame L Pcm format (Inr (pcm_encode pcm)) (\<lambda>d. Sent) tx = Inr (r, tx')"
    using assms(3) by (auto split: sum.splits)
  from assms(1,2) sf obtain d where d: "r = Some d"
    "seal_datagram L (tx_header Pcm format tx) (pcm_encode pcm) (tx_sealer tx) =
       (Inr d, tx_sealer tx')"
    "tx_sealer tx' = tx_sealer tx\<lparr>s_counter := s_counter (tx_sealer tx) + 1\<rparr>"
    "tx_sequence tx' = tx_sequence tx + 1"
    by (rule send_frame_sent)
  moreover obtain ds' where "ds = d # ds'" "send_all L format pcms tx' = Inr ds'"
    using assms(3) sf d(1) by (auto split: sum.splits)
  ultimately show ?thesis using that by blast
qed

lemma playing_run:
  assumes "aead_correct L" and "0 < frame_samples format"
  shows "send_all L format pcms tx = Inr ds \<Longrightarrow> \<forall>pcm \<in> set pcms. length pcm = frame_samples format \<Longrightarrow>
    playing (tx_sequence tx) q st \<Longrightarrow> in_step tx st \<Longrightarrow>
    unat (s_counter (tx_sealer tx)) + length pcms < 2 ^ 64 \<Longrightarrow>
    \<exists>st'. receive_all L (pcm_ops format) host Pcm format (map (\<lambda>d. (d, addr)) ds) st = Some st' \<and>
      rx_incoming st' = fold (pcm_push True) pcms q"
proof (induction pcms arbitrary: tx ds st q)
  case Nil
  then show ?case by (simp add: playing_def)
next
  case (Cons pcm pcms)
  have len: "length pcm = frame_samples format" using Cons.prems(2) by simp
  then have ne: "pcm \<noteq> []" using assms(2) by auto
  from assms(1) ne Cons.prems(1) obtain d tx' ds' where ds: "ds = d # ds'"
    and rest: "send_all L format pcms tx' = Inr ds'"
    and seal: "seal_datagram L (tx_header Pcm format tx) (pcm_encode pcm) (tx_sealer tx) =
       (Inr d, tx_sealer tx')"
    and tx': "tx_sealer tx' = tx_sealer tx\<lparr>s_counter := s_counter (tx_sealer tx) + 1\<rparr>"
      "tx_sequence tx' = tx_sequence tx + 1"
    by (rule send_all_Cons)
  obtain A where A: "remembers (rx_opener st) A" "\<And>a. a \<in> A \<Longrightarrow> a < s_counter (tx_sealer tx)"
    and same: "o_cipher (rx_opener st) = s_cipher (tx_sealer tx)"
      "o_side (rx_opener st) = s_side (tx_sealer tx)"
    using Cons.prems(4) by (auto simp: in_step_def)
  obtain st1 where st1: "receive_datagram L (pcm_ops format) host Pcm format d addr st = Some st1"
    "playing (tx_sequence tx + 1) (pcm_push True pcm q) st1"
    "rx_opener st1 = record_counter (s_counter (tx_sealer tx)) (rx_opener st)"
    using receive_expected [OF assms(1) seal ne same A, of format q host addr] len Cons.prems(3)
    by auto
  have room: "unat (s_counter (tx_sealer tx)) + 1 < 2 ^ 64" using Cons.prems(5) by simp
  note step = in_step_next [OF Cons.prems(4) room st1(3) tx'(1)]
  have "\<exists>st'. receive_all L (pcm_ops format) host Pcm format (map (\<lambda>d. (d, addr)) ds') st1 = Some st' \<and>
      rx_incoming st' = fold (pcm_push True) pcms (pcm_push True pcm q)"
    using Cons.prems(2,5) st1(2) step tx'(2) by (intro Cons.IH [OF rest]) simp_all
  with st1(1) show ?case by (simp add: ds)
qed

subsection \<open>Starting up\<close>

text \<open>The buffer after the first frame, and after the second one starts playback.\<close>

definition first_queued :: "'p \<Rightarrow> 'p jitter \<Rightarrow> bool" where
  "first_queued p j \<longleftrightarrow> \<not> j_primed j \<and> j_next j = None \<and> j_queued j = [(0, p)] \<and>
     j_anchor j = Some 0 \<and> j_depth j = 2 \<and> j_lookahead j = min_lookahead"

lemma first_push:
  "\<exists>j. jitter_push 0 p (set_anchor 0 (jitter_new jitter_depth_frames)) = (True, j) \<and>
     first_queued p j \<and> jitter_pop j = (Buffering, j)"
  by (simp add: jitter_push_def insert_frame_def bt_contains_def evict_oldest_id max_queued_frames_def
      set_anchor_def jitter_new_def jitter_depth_frames_def first_queued_def jitter_pop_def)

lemma second_push:
  assumes "first_queued p j"
  shows "\<exists>j'. jitter_push 1 p' j = (True, j') \<and> \<not> j_primed j' \<and> j_next j' = None \<and>
     j_queued j' = [(0, p), (1, p')] \<and> j_anchor j' = Some 0 \<and> j_depth j' = 2 \<and>
     j_lookahead j' = min_lookahead"
  using assms
  by (simp add: jitter_push_def insert_frame_def bt_contains_def bt_get_def evict_oldest_id
      max_queued_frames_def first_queued_def)

lemma prime_two:
  assumes "\<not> j_primed j" and "j_queued j = [(0, p), (1, p')]" and "j_anchor j = Some 0"
    and "j_depth j = 2" and "j_lookahead j = min_lookahead"
  shows "jitter_pop j = (Frame p, j\<lparr>j_primed := True, j_queued := [(1, p')], j_next := Some 1\<rparr>)"
proof -
  have "jitter_start j = 0"
    using assms by (simp add: jitter_start_def bt_keys_def)
  then show ?thesis
    using assms
    by (simp add: jitter_pop_def jitter_prime_def in_forward_window_iff take_next_def bt_get_def
        bt_remove_def note_clean_pop_def)
qed

lemma receive_first_two:
  assumes "aead_correct L" and "0 < frame_samples format"
    and "length p0 = frame_samples format" and "length p1 = frame_samples format"
    and tx: "tx_sequence tx = 0" and "in_step tx st" and "unat (s_counter (tx_sealer tx)) + 2 < 2 ^ 64"
    and st: "rx_jitter st = jitter_new jitter_depth_frames"
    and d0: "seal_datagram L (tx_header Pcm format tx) (pcm_encode p0) (tx_sealer tx) =
       (Inr d0, tx_sealer tx1)"
    and tx1: "tx_sealer tx1 = tx_sealer tx\<lparr>s_counter := s_counter (tx_sealer tx) + 1\<rparr>"
      "tx_sequence tx1 = tx_sequence tx + 1"
    and d1: "seal_datagram L (tx_header Pcm format tx1) (pcm_encode p1) (tx_sealer tx1) =
       (Inr d1, tx_sealer tx2)"
    and tx2: "tx_sealer tx2 = tx_sealer tx1\<lparr>s_counter := s_counter (tx_sealer tx1) + 1\<rparr>"
  shows "\<exists>st2. receive_all L (pcm_ops format) host Pcm format [(d0, addr), (d1, addr)] st = Some st2 \<and>
    playing 2 (pcm_push True p1 (pcm_push True p0 (rx_incoming st))) st2 \<and> in_step tx2 st2"
proof -
  let ?D = "pcm_ops format"
  have ne: "p0 \<noteq> []" "p1 \<noteq> []" using assms(2-4) by auto
  obtain A where A: "remembers (rx_opener st) A" "\<And>a. a \<in> A \<Longrightarrow> a < s_counter (tx_sealer tx)"
    and same: "o_cipher (rx_opener st) = s_cipher (tx_sealer tx)"
      "o_side (rx_opener st) = s_side (tx_sealer tx)"
    using assms(6) by (auto simp: in_step_def)
  obtain j where j: "jitter_push 0 (pcm_encode p0) (set_anchor 0 (jitter_new jitter_depth_frames)) = (True, j)"
    "first_queued (pcm_encode p0) j" "jitter_pop j = (Buffering, j)"
    using first_push [of "pcm_encode p0"] by (elim exE conjE)
  obtain st0 where st0: "rx_opener st0 = record_counter (s_counter (tx_sealer tx)) (rx_opener st)"
    "rx_incoming st0 = rx_incoming st"
    "receive_datagram L ?D host Pcm format d0 addr st = release_loop ?D (st0\<lparr>rx_jitter := j\<rparr>)"
    using receive_opened [OF assms(1) d0 ne(1) same A, of format ?D host addr]
    by (simp only: tx_header_fields tx st j(1) if_True simp_thms prod.case bool.case) blast
  let ?st1 = "st0\<lparr>rx_jitter := j\<rparr>"
  have r1: "receive_datagram L ?D host Pcm format d0 addr st = Some ?st1"
    using release_loop_Buffering [of ?st1 j ?D] j(3) st0(3) by simp
  have room: "unat (s_counter (tx_sealer tx)) + 1 < 2 ^ 64" using assms(7) by simp
  have o1: "rx_opener ?st1 = record_counter (s_counter (tx_sealer tx)) (rx_opener st)"
    using st0(1) by simp
  note step1 = in_step_next [OF assms(6) room o1 tx1(1)]
  obtain B where B: "remembers (rx_opener ?st1) B" "\<And>a. a \<in> B \<Longrightarrow> a < s_counter (tx_sealer tx1)"
    and same1: "o_cipher (rx_opener ?st1) = s_cipher (tx_sealer tx1)"
      "o_side (rx_opener ?st1) = s_side (tx_sealer tx1)"
    using step1(1) by (auto simp: in_step_def)
  obtain j2 where j2: "jitter_push 1 (pcm_encode p1) j = (True, j2)" "\<not> j_primed j2"
    "j_queued j2 = [(0, pcm_encode p0), (1, pcm_encode p1)]" "j_anchor j2 = Some 0"
    "j_depth j2 = 2" "j_lookahead j2 = min_lookahead"
    using second_push [OF j(2), of "pcm_encode p1"] by (elim exE conjE)
  have seq1: "tx_sequence tx1 = 1" and not_one: "((1 :: u32) = 0) = False" and jit1: "rx_jitter ?st1 = j"
    using tx tx1(2) by simp_all
  obtain st2 where st2: "rx_opener st2 = record_counter (s_counter (tx_sealer tx1)) (rx_opener ?st1)"
    "rx_incoming st2 = rx_incoming ?st1"
    "receive_datagram L ?D host Pcm format d1 addr ?st1 = release_loop ?D (st2\<lparr>rx_jitter := j2\<rparr>)"
    using receive_opened [OF assms(1) d1 ne(2) same1 B, of format ?D host addr]
    by (simp only: tx_header_fields seq1 j2(1) jit1 not_one if_False simp_thms prod.case bool.case) blast
  let ?st3 = "play_released ?D (Frame (pcm_encode p0)) (st2\<lparr>rx_jitter :=
    j2\<lparr>j_primed := True, j_queued := [(1, pcm_encode p1)], j_next := Some 1\<rparr>\<rparr>)"
  have "release_loop ?D (st2\<lparr>rx_jitter := j2\<rparr>) = release_loop ?D ?st3"
    using release_loop_step [of "st2\<lparr>rx_jitter := j2\<rparr>"] prime_two [OF j2(2-6)] by simp
  moreover have "\<exists>st'. release_loop ?D ?st3 = Some st' \<and>
      playing (1 + 1) (pcm_push True p1 (rx_incoming ?st3)) st' \<and> rx_opener st' = rx_opener ?st3"
    using j2(6) by (intro release_single assms(4)) simp_all
  ultimately obtain st4 where st4: "receive_datagram L ?D host Pcm format d1 addr ?st1 = Some st4"
    "playing 2 (pcm_push True p1 (rx_incoming ?st3)) st4" "rx_opener st4 = rx_opener ?st3"
    using st2(3) by auto
  have "rx_incoming ?st3 = pcm_push True p0 (rx_incoming st)"
    using st0(2) st2(2) by (simp add: play_pcm [OF assms(3)])
  moreover have "in_step tx2 st4"
  proof (rule in_step_next(1) [OF step1(1) _ _ tx2])
    show "unat (s_counter (tx_sealer tx1)) + 1 < 2 ^ 64" using step1(2) assms(7) by simp
    show "rx_opener st4 = record_counter (s_counter (tx_sealer tx1)) (rx_opener ?st1)"
      using st4(3) st2(1) by simp
  qed
  ultimately show ?thesis
    using r1 st4(1,2) by simp
qed

lemma receive_all_Cons2:
  "receive_all L D host codec format [a, b] st = Some st2 \<Longrightarrow>
   receive_all L D host codec format (a # b # ds) st = receive_all L D host codec format ds st2"
  using receive_all_append [of L D host codec format "[a, b]" ds st] by simp

lemma path_run:
  assumes "aead_correct L" and "0 < frame_samples format"
    and "\<forall>pcm \<in> set pcms. length pcm = frame_samples format"
    and "2 \<le> length pcms" and "length pcms < 2 ^ 64"
    and "in_step tx st" and "tx_sequence tx = 0" and "s_counter (tx_sealer tx) = 0"
    and "rx_jitter st = jitter_new jitter_depth_frames"
    and "send_all L format pcms tx = Inr ds"
  shows "\<exists>st'. receive_all L (pcm_ops format) host Pcm format (map (\<lambda>d. (d, addr)) ds) st = Some st' \<and>
    rx_incoming st' = fold (pcm_push True) pcms (rx_incoming st)"
proof -
  obtain p0 p1 rest where pcms: "pcms = p0 # p1 # rest"
    using assms(4) by (cases pcms; cases "tl pcms") auto
  have len: "length p0 = frame_samples format" "length p1 = frame_samples format"
    using assms(3) by (simp_all add: pcms)
  with assms(2) have ne: "p0 \<noteq> []" "p1 \<noteq> []" by auto
  from assms(1) ne(1) assms(10) [unfolded pcms] obtain d0 tx1 ds1 where d0: "ds = d0 # ds1"
    and s1: "send_all L format (p1 # rest) tx1 = Inr ds1"
    and seal0: "seal_datagram L (tx_header Pcm format tx) (pcm_encode p0) (tx_sealer tx) =
       (Inr d0, tx_sealer tx1)"
    and tx1: "tx_sealer tx1 = tx_sealer tx\<lparr>s_counter := s_counter (tx_sealer tx) + 1\<rparr>"
      "tx_sequence tx1 = tx_sequence tx + 1"
    by (rule send_all_Cons)
  from assms(1) ne(2) s1 obtain d1 tx2 ds2 where d1: "ds1 = d1 # ds2"
    and s2: "send_all L format rest tx2 = Inr ds2"
    and seal1: "seal_datagram L (tx_header Pcm format tx1) (pcm_encode p1) (tx_sealer tx1) =
       (Inr d1, tx_sealer tx2)"
    and tx2: "tx_sealer tx2 = tx_sealer tx1\<lparr>s_counter := s_counter (tx_sealer tx1) + 1\<rparr>"
      "tx_sequence tx2 = tx_sequence tx1 + 1"
    by (rule send_all_Cons)
  have room: "unat (s_counter (tx_sealer tx)) + 2 < 2 ^ 64" by (simp add: assms(8))
  obtain st2 where st2:
    "receive_all L (pcm_ops format) host Pcm format [(d0, addr), (d1, addr)] st = Some st2"
    "playing 2 (pcm_push True p1 (pcm_push True p0 (rx_incoming st))) st2" "in_step tx2 st2"
    using receive_first_two [OF assms(1,2) len assms(7,6) room assms(9) seal0 tx1 seal1 tx2(1)]
    by blast
  have "tx_sequence tx2 = 2" and "unat (s_counter (tx_sealer tx2)) = 2"
    using tx1 tx2 assms(7,8) by simp_all
  with playing_run [OF assms(1,2) s2 _ _ st2(3), of _ host addr] st2(2) assms(3,5)
  have "\<exists>st'. receive_all L (pcm_ops format) host Pcm format (map (\<lambda>d. (d, addr)) ds2) st2 = Some st' \<and>
      rx_incoming st' = fold (pcm_push True) rest (pcm_push True p1 (pcm_push True p0 (rx_incoming st)))"
    by (simp add: pcms)
  with receive_all_Cons2 [OF st2(1)] show ?thesis
    by (simp add: pcms d0 d1)
qed

subsection \<open>The playback queue\<close>

lemma newest_newest: "newest k (newest k xs @ [y]) = newest k (xs @ [y])"
  by (cases "k \<le> length xs") (auto simp: newest_def Suc_diff_le)

lemma frames_newest: "frames a fs \<Longrightarrow> frames a (newest k fs)"
  by (auto simp: frames_def newest_def dest: in_set_dropD)

lemma push_one_frame:
  assumes "frames a fs" and "length f = a" and "0 < a" and "0 < k"
    and "q_samples q = concat (newest k fs)" and "q_align q = a" and "q_target q = k * a"
  shows "q_samples (pcm_push True f q) = concat (newest k (fs @ [f]))"
proof -
  have "pcm_limit q = k * a"
    using assms(3,4,7) by (auto simp: pcm_limit_def split: nat.split)
  then show ?thesis
    using push_locked_frames [OF assms(3,4) frames_newest [OF assms(1)], of "[f]" k] assms(2,5,6)
    by (simp add: pcm_push_samples frames_def newest_newest)
qed

lemma fold_push_frames:
  assumes "0 < a" and "0 < k" and "q_align q = a" and "q_target q = k * a"
    and "frames a fs" and "q_samples q = concat (newest k fs)" and "frames a gs"
  shows "q_samples (fold (pcm_push True) gs q) = concat (newest k (fs @ gs))"
  using assms(3-)
proof (induction gs arbitrary: q fs)
  case Nil
  then show ?case by simp
next
  case (Cons g gs)
  have g: "length g = a" "frames a gs" using Cons.prems(5) by (auto simp: frames_def)
  have "frames a (fs @ [g])" using Cons.prems(3) g(1) by (simp add: frames_def)
  moreover have "q_samples (pcm_push True g q) = concat (newest k (fs @ [g]))"
    using Cons.prems g(1) assms(1,2) by (intro push_one_frame)
  ultimately show ?case
    using Cons.IH [of "pcm_push True g q" "fs @ [g]"] Cons.prems(1,2) g(2) by simp
qed

lemma sum_send_all: "\<exists>ds. send_all sum_aead format pcms tx = Inr ds"
proof (induction pcms arbitrary: tx)
  case Nil
  show ?case by simp
next
  case (Cons pcm pcms)
  obtain d sl where "seal_datagram sum_aead (tx_header Pcm format tx) (pcm_encode pcm) (tx_sealer tx) =
      (Inr d, sl)"
    by (simp add: seal_datagram_def seal_def sum_aead_def Let_def)
  then have "\<exists>r tx'. send_frame sum_aead Pcm format (Inr (pcm_encode pcm)) (\<lambda>d. Sent) tx = Inr (r, tx')"
    by (simp add: send_frame_def Let_def)
  then obtain r tx' where
    "send_frame sum_aead Pcm format (Inr (pcm_encode pcm)) (\<lambda>d. Sent) tx = Inr (r, tx')" by blast
  moreover obtain ds where "send_all sum_aead format pcms tx' = Inr ds"
    using Cons.IH by blast
  ultimately show ?case by (cases r) simp_all
qed

subsection \<open>Property\<close>

text \<open>
  C12: the audio path is faithful end to end. When a sender and a receiver hold the same key,
  every sequence of two or more PCM frames that the sender encodes, seals and sends, and that
  arrives in order, is authenticated, released by the jitter buffer, decoded and played: the
  receiver's playback queue, in the same local format, ends up with exactly the newest four
  frames, sample for sample.
\<close>

theorem audio_path_faithful:
  assumes "aead_correct L" and "sealer_new L key s = Inr sl" and "opener_new L key s = Inr o1"
    and "0 < frame_samples format" and "4 * frame_samples format \<le> default_queue_capacity"
    and "\<forall>pcm \<in> set pcms. length pcm = frame_samples format"
    and "2 \<le> length pcms" and "length pcms < 2 ^ 64"
    and "send_all L format pcms (tx_start sl) = Inr ds"
  shows "\<exists>st. receive_all L (pcm_ops format) host Pcm format (map (\<lambda>d. (d, addr)) ds)
      (rx_start o1 () () (prepare_incoming format format (pcm_new default_queue_capacity))) = Some st \<and>
    q_samples (rx_incoming st) = concat (newest playback_depth_frames pcms)"
proof -
  let ?q = "prepare_incoming format format (pcm_new default_queue_capacity)"
  let ?st = "rx_start o1 () () ?q :: ('a, unit, unit, 'b) rx_state"
  have "in_step (tx_start sl) ?st"
    using assms(2,3) opener_new_remembers [OF assms(3)]
    by (auto simp: in_step_def tx_start_def rx_start_def sealer_new_def opener_new_def split: sum.splits)
  moreover have "tx_sequence (tx_start sl) = 0" "s_counter (tx_sealer (tx_start sl)) = 0"
    "rx_jitter ?st = jitter_new jitter_depth_frames" "rx_incoming ?st = ?q"
    using assms(2) by (auto simp: tx_start_def rx_start_def sealer_new_def split: sum.splits)
  ultimately obtain st where st:
    "receive_all L (pcm_ops format) host Pcm format (map (\<lambda>d. (d, addr)) ds) ?st = Some st"
    "rx_incoming st = fold (pcm_push True) pcms ?q"
    using path_run [OF assms(1,4,6,7,8) _ _ _ _ assms(9), of ?st host addr] by auto
  have a: "max 1 (unat (af_rate format) div 1000 * unat (af_frame_ms format) *
      unat (af_channels format)) = frame_samples format"
    using assms(4) by (simp add: frame_samples_def)
  have "q_align ?q = frame_samples format" "q_target ?q = playback_depth_frames * frame_samples format"
    "q_samples ?q = concat (newest playback_depth_frames [])"
    using assms(5) unfolding prepare_incoming_def a
    by (simp_all add: set_target_depth_def set_frame_align_def pcm_new_def playback_depth_frames_def
        newest_def Let_def)
  then have "q_samples (fold (pcm_push True) pcms ?q) = concat (newest playback_depth_frames ([] @ pcms))"
    using assms(4,6) by (intro fold_push_frames [of "frame_samples format"])
      (simp_all add: playback_depth_frames_def frames_def)
  with st show ?thesis by simp
qed

theorem audio_path_faithful_witness:
  "\<exists>ds st. send_all sum_aead \<lparr>af_rate = 1000, af_channels = 1, af_frame_ms = 2\<rparr> [[1, 2], [3, 4]]
       (tx_start \<lparr>s_cipher = [5], s_side = Client, s_counter = 0\<rparr>) = Inr ds \<and>
     receive_all sum_aead (pcm_ops \<lparr>af_rate = 1000, af_channels = 1, af_frame_ms = 2\<rparr>) True Pcm
       \<lparr>af_rate = 1000, af_channels = 1, af_frame_ms = 2\<rparr> (map (\<lambda>d. (d, Some (7 :: nat))) ds)
       (rx_start \<lparr>o_cipher = [5], o_side = Client, o_highest = 0, o_seen = 0, o_started = False\<rparr> () ()
         (prepare_incoming \<lparr>af_rate = 1000, af_channels = 1, af_frame_ms = 2\<rparr>
           \<lparr>af_rate = 1000, af_channels = 1, af_frame_ms = 2\<rparr> (pcm_new default_queue_capacity))) = Some st \<and>
     q_samples (rx_incoming st) = [1, 2, 3, 4]"
proof -
  let ?f = "\<lparr>af_rate = 1000, af_channels = 1, af_frame_ms = 2\<rparr>"
  let ?sl = "\<lparr>s_cipher = [5], s_side = Client, s_counter = 0\<rparr> :: bytes sealer"
  let ?o = "\<lparr>o_cipher = [5], o_side = Client, o_highest = 0, o_seen = 0, o_started = False\<rparr>"
  have "\<exists>ds. send_all sum_aead ?f [[1, 2], [3, 4]] (tx_start ?sl) = Inr ds"
    by (rule sum_send_all)
  then obtain ds where ds: "send_all sum_aead ?f [[1, 2], [3, 4]] (tx_start ?sl) = Inr ds" ..
  have "sealer_new sum_aead [5] Client = Inr ?sl" "opener_new sum_aead [5] Client = Inr ?o"
    by (simp_all add: sealer_new_def opener_new_def cipher_def sum_aead_def)
  then have "\<exists>st. receive_all sum_aead (pcm_ops ?f) True Pcm ?f (map (\<lambda>d. (d, Some (7 :: nat))) ds)
      (rx_start ?o () () (prepare_incoming ?f ?f (pcm_new default_queue_capacity))) = Some st \<and>
      q_samples (rx_incoming st) = concat (newest playback_depth_frames [[1, 2], [3, 4]])"
    by (intro audio_path_faithful [OF sum_aead_correct _ _ _ _ _ _ _ ds])
      (simp_all add: frame_samples_def default_queue_capacity_def)
  with ds show ?thesis
    by (simp add: newest_def playback_depth_frames_def)
qed

end
