(* ===== verification/Control_Protocol.thy ===== *)
theory Control_Protocol
  imports Relay_Crypto_Props Endpoint "HOL-Library.Product_Lexorder" "HOL-Library.List_Lexorder"
    "HOL-Library.Char_ord" "HOL-Library.Sublist"
begin

text \<open>
  The vocabulary of the relay's control protocol (\<^verbatim>\<open>pw-graph-relay/src/protocol.rs\<close>):
  supported formats, roles and modes, flow and direction offers with their deterministic
  resolution, and the framing of control messages. JSON is a library: a message is encoded
  and decoded by parameters.
\<close>

subsection \<open>Strings\<close>

text \<open>The byte sequences of the characters that \<^verbatim>\<open>str::trim\<close> removes.\<close>

definition bytes_string :: "nat list \<Rightarrow> string" where
  "bytes_string ns = map char_of ns"

definition whitespace :: "string list" where
  "whitespace =
     map (\<lambda>n. bytes_string [n]) [9, 10, 11, 12, 13, 32] @
     map bytes_string [[0xC2, 0x85], [0xC2, 0xA0], [0xE1, 0x9A, 0x80], [0xE2, 0x80, 0xA8],
       [0xE2, 0x80, 0xA9], [0xE2, 0x80, 0xAF], [0xE2, 0x81, 0x9F], [0xE3, 0x80, 0x80]] @
     map (\<lambda>n. bytes_string [0xE2, 0x80, n]) [0x80..<0x8B]"

function strip :: "string list \<Rightarrow> string \<Rightarrow> string" where
  "strip ws s =
     (case List.find (\<lambda>w. w \<noteq> [] \<and> prefix w s) ws of
        None \<Rightarrow> s
      | Some w \<Rightarrow> strip ws (drop (length w) s))"
  by pat_completeness auto

termination
  by (relation "measure (length \<circ> snd)") (auto simp: find_Some_iff prefix_def)

declare strip.simps [simp del]

definition trim :: "string \<Rightarrow> string" where
  "trim s = rev (strip (map rev whitespace) (rev (strip whitespace s)))"

definition to_ascii_lowercase :: "string \<Rightarrow> string" where
  "to_ascii_lowercase s = map ascii_lower s"

definition is_blank :: "string \<Rightarrow> bool" where
  "is_blank s = (trim s = [])"

lemma strip_keeps: "c \<in> set s \<Longrightarrow> \<forall>w \<in> set ws. c \<notin> set w \<Longrightarrow> c \<in> set (strip ws s)"
proof (induction ws s rule: strip.induct)
  case (1 ws s)
  show ?case
  proof (cases "List.find (\<lambda>w. w \<noteq> [] \<and> prefix w s) ws")
    case None
    then show ?thesis using 1 by (subst strip.simps) simp
  next
    case (Some w)
    then have w: "w \<in> set ws" "prefix w s" by (auto simp: find_Some_iff)
    then obtain r where "s = w @ r" by (auto simp: prefix_def)
    then have "c \<in> set (drop (length w) s)" using 1(2,3) w by auto
    then show ?thesis using 1(1) [OF Some] 1(3) Some by (subst strip.simps) simp
  qed
qed

lemma whitespace_chars:
  "w \<in> set whitespace \<Longrightarrow> c \<in> set w \<Longrightarrow> \<not> (33 \<le> (of_char c :: nat) \<and> (of_char c :: nat) < 128)"
  by (auto simp: whitespace_def bytes_string_def upt_rec)

lemma not_blankI:
  assumes "c \<in> set s" "33 \<le> (of_char c :: nat)" "(of_char c :: nat) < 128"
  shows "\<not> is_blank s"
proof -
  have out: "\<forall>w \<in> set whitespace. c \<notin> set w" using whitespace_chars assms(2,3) by blast
  have "c \<in> set (strip (map rev whitespace) (rev (strip whitespace s)))"
  proof (rule strip_keeps)
    show "c \<in> set (rev (strip whitespace s))" using strip_keeps [OF assms(1) out] by simp
    show "\<forall>w \<in> set (map rev whitespace). c \<notin> set w" using out by simp
  qed
  then show ?thesis by (auto simp: is_blank_def trim_def)
qed
subsection \<open>Formats\<close>

definition frame_durations_ms :: "16 word list" where
  "frame_durations_ms = [5, 10, 20, 40, 60]"

definition abs_diff :: "16 word \<Rightarrow> 16 word \<Rightarrow> 16 word" where
  "abs_diff a b = (if a < b then b - a else a - b)"

definition normalize_frame_ms :: "16 word \<Rightarrow> 16 word" where
  "normalize_frame_ms n = arg_min_list (\<lambda>c. abs_diff c n) frame_durations_ms"

definition is_supported_frame_ms :: "16 word \<Rightarrow> bool" where
  "is_supported_frame_ms n = (n \<in> set frame_durations_ms)"

definition sample_rates_hz :: "u32 list" where
  "sample_rates_hz = [16000, 24000, 48000]"

definition max_sample_rate_hz :: u32 where "max_sample_rate_hz = 48000"

definition max_channels :: "16 word" where "max_channels = 2"

definition is_supported_sample_rate :: "u32 \<Rightarrow> bool" where
  "is_supported_sample_rate r = (r \<in> set sample_rates_hz)"

definition is_supported_channels :: "16 word \<Rightarrow> bool" where
  "is_supported_channels c = (1 \<le> c \<and> c \<le> max_channels)"

definition validate_negotiation ::
    "'k \<Rightarrow> 16 word \<Rightarrow> u32 \<Rightarrow> 16 word \<Rightarrow> (relay_error, unit) result" where
  "validate_negotiation codec frame_ms sample_rate channels =
     (if \<not> is_supported_frame_ms frame_ms
      then Inl (Relay_Protocol (''unsupported frame duration '' @ show_word frame_ms @ '' ms''))
      else if \<not> is_supported_sample_rate sample_rate
      then Inl (Relay_Protocol (''unsupported sample rate '' @ show_word sample_rate @ '' Hz''))
      else if \<not> is_supported_channels channels
      then Inl (Relay_Protocol (''unsupported channel count '' @ show_word channels))
      else Inr ())"

subsection \<open>Roles and modes\<close>

datatype device_kind = Android | Linux | Other_Device

fun device_kind_as_str :: "device_kind \<Rightarrow> string" where
  "device_kind_as_str Android = ''android''"
| "device_kind_as_str Linux = ''linux''"
| "device_kind_as_str Other_Device = ''other''"

definition device_kind_parse :: "string \<Rightarrow> device_kind" where
  "device_kind_parse value =
     (let v = to_ascii_lowercase (trim value) in
      if v = ''android'' then Android
      else if v = ''linux'' then Linux
      else if v = ''other'' then Other_Device
      else Android)"

record roles =
  emit :: bool
  receive :: bool

definition emit_only :: roles where "emit_only = \<lparr>emit = True, receive = False\<rparr>"

definition receive_only :: roles where "receive_only = \<lparr>emit = False, receive = True\<rparr>"

definition both_roles :: roles where "both_roles = \<lparr>emit = True, receive = True\<rparr>"

definition roles_default :: roles where "roles_default = \<lparr>emit = False, receive = False\<rparr>"

definition roles_is_empty :: "roles \<Rightarrow> bool" where
  "roles_is_empty r = (\<not> emit r \<and> \<not> receive r)"

definition is_one_way :: "roles \<Rightarrow> bool" where
  "is_one_way r = (emit r \<noteq> receive r)"

datatype relay_mode = Emitter | Receiver

fun relay_mode_as_str :: "relay_mode \<Rightarrow> string" where
  "relay_mode_as_str Emitter = ''emitter''"
| "relay_mode_as_str Receiver = ''receiver''"

definition relay_mode_parse :: "string \<Rightarrow> relay_mode option" where
  "relay_mode_parse value =
     (let v = to_ascii_lowercase (trim value) in
      if v = ''emitter'' \<or> v = ''emit'' then Some Emitter
      else if v = ''receiver'' \<or> v = ''receive'' then Some Receiver
      else None)"

fun roles_for_mode :: "relay_mode \<Rightarrow> roles" where
  "roles_for_mode Emitter = emit_only"
| "roles_for_mode Receiver = receive_only"

definition mode_of_roles :: "roles \<Rightarrow> relay_mode option" where
  "mode_of_roles r =
     (if emit r \<and> \<not> receive r then Some Emitter
      else if \<not> emit r \<and> receive r then Some Receiver else None)"

datatype relay_direction = Mobile_To_Desktop | Desktop_To_Mobile

fun relay_direction_as_str :: "relay_direction \<Rightarrow> string" where
  "relay_direction_as_str Mobile_To_Desktop = ''mobile_to_desktop''"
| "relay_direction_as_str Desktop_To_Mobile = ''desktop_to_mobile''"

definition relay_direction_parse :: "string \<Rightarrow> relay_direction option" where
  "relay_direction_parse value =
     (let v = to_ascii_lowercase (trim value) in
      if v = ''mobile_to_desktop'' \<or> v = ''mobile_to_pc'' then Some Mobile_To_Desktop
      else if v = ''desktop_to_mobile'' \<or> v = ''pc_to_mobile'' then Some Desktop_To_Mobile
      else None)"

fun roles_for_direction :: "relay_direction \<Rightarrow> roles" where
  "roles_for_direction Mobile_To_Desktop = emit_only"
| "roles_for_direction Desktop_To_Mobile = receive_only"

definition direction_of_roles :: "roles \<Rightarrow> relay_direction option" where
  "direction_of_roles r =
     (if emit r \<and> \<not> receive r then Some Mobile_To_Desktop
      else if \<not> emit r \<and> receive r then Some Desktop_To_Mobile else None)"

subsection \<open>Offers\<close>

record relay_flow =
  rf_emitter :: string

definition flow_is_valid :: "relay_flow \<Rightarrow> bool" where
  "flow_is_valid f = (\<not> is_blank (rf_emitter f))"

definition flow_mode_for :: "relay_flow \<Rightarrow> string \<Rightarrow> relay_mode option" where
  "flow_mode_for f local_device_id =
     (if \<not> flow_is_valid f \<or> is_blank local_device_id then None
      else Some (if local_device_id = rf_emitter f then Emitter else Receiver))"

record flow_offer =
  fo_generation :: u64
  fo_emitter :: string
  fo_proposer :: string

definition flow_offer_is_valid :: "flow_offer \<Rightarrow> bool" where
  "flow_offer_is_valid f = (\<not> is_blank (fo_emitter f) \<and> \<not> is_blank (fo_proposer f))"

definition offer_flow :: "flow_offer \<Rightarrow> relay_flow" where
  "offer_flow f = \<lparr>rf_emitter = fo_emitter f\<rparr>"

record flow_ack =
  fa_generation :: u64
  fa_emitter :: string

definition flow_ack_is_valid :: "flow_ack \<Rightarrow> bool" where
  "flow_ack_is_valid a = (\<not> is_blank (fa_emitter a))"

text \<open>The order of \<^verbatim>\<open>cmp\<close> followed by \<^verbatim>\<open>then_with\<close> is the lexicographic one on this key.\<close>

definition flow_key :: "flow_offer \<Rightarrow> u64 \<times> string \<times> string" where
  "flow_key f = (fo_generation f, fo_proposer f, fo_emitter f)"

definition resolve_flow_offers :: "flow_offer \<Rightarrow> flow_offer \<Rightarrow> flow_offer" where
  "resolve_flow_offers left right = (if flow_key left < flow_key right then right else left)"

instantiation relay_direction :: linorder
begin

fun direction_rank :: "relay_direction \<Rightarrow> nat" where
  "direction_rank Mobile_To_Desktop = 0"
| "direction_rank Desktop_To_Mobile = 1"

definition less_eq_relay_direction :: "relay_direction \<Rightarrow> relay_direction \<Rightarrow> bool" where
  "less_eq_relay_direction a b = (direction_rank a \<le> direction_rank b)"

definition less_relay_direction :: "relay_direction \<Rightarrow> relay_direction \<Rightarrow> bool" where
  "less_relay_direction a b = (direction_rank a < direction_rank b)"

instance
proof
  fix a b c :: relay_direction
  show "a < b \<longleftrightarrow> a \<le> b \<and> \<not> b \<le> a"
    by (auto simp: less_eq_relay_direction_def less_relay_direction_def)
  show "a \<le> a" by (simp add: less_eq_relay_direction_def)
  show "a \<le> b \<Longrightarrow> b \<le> c \<Longrightarrow> a \<le> c" by (simp add: less_eq_relay_direction_def)
  show "a \<le> b \<Longrightarrow> b \<le> a \<Longrightarrow> a = b"
    by (cases a; cases b; simp add: less_eq_relay_direction_def)
  show "a \<le> b \<or> b \<le> a" by (auto simp: less_eq_relay_direction_def)
qed

end

record direction_offer =
  do_generation :: u64
  do_direction :: relay_direction
  do_device :: string

definition direction_offer_is_valid :: "direction_offer \<Rightarrow> bool" where
  "direction_offer_is_valid d = (\<not> is_blank (do_device d))"

record direction_ack =
  da_generation :: u64
  da_direction :: relay_direction

definition direction_key :: "direction_offer \<Rightarrow> u64 \<times> string \<times> relay_direction" where
  "direction_key d = (do_generation d, do_device d, do_direction d)"

definition resolve_direction_offers :: "direction_offer \<Rightarrow> direction_offer \<Rightarrow> direction_offer" where
  "resolve_direction_offers left right =
     (if direction_key left < direction_key right then right else left)"

lemma flow_key_inject: "flow_key f = flow_key g \<Longrightarrow> f = g"
  by (simp add: flow_key_def)

lemma direction_key_inject: "direction_key f = direction_key g \<Longrightarrow> f = g"
  by (simp add: direction_key_def)

subsection \<open>Framing\<close>

definition control_magic :: bytes where "control_magic = as_bytes ''QPR3''"

definition max_control_frame :: nat where "max_control_frame = 64 * 1024"

definition header_len :: nat where "header_len = 9"

text \<open>Errors of reading: the stream ended, or what it held was refused.\<close>

datatype io_error = Unexpected_Eof | Invalid_Data string

definition read_exact :: "nat \<Rightarrow> bytes \<Rightarrow> (io_error, bytes \<times> bytes) result" where
  "read_exact n stream =
     (if length stream < n then Inl Unexpected_Eof else Inr (take n stream, drop n stream))"

definition frame_header :: "nat \<Rightarrow> bytes" where
  "frame_header len = control_magic @ [protocol_version] @ u32_le (of_nat len)"

definition encode_frame :: "('m \<Rightarrow> (string, bytes) result) \<Rightarrow> 'm \<Rightarrow> (io_error, bytes) result" where
  "encode_frame enc message =
     (case enc message of
        Inl error \<Rightarrow> Inl (Invalid_Data error)
      | Inr payload \<Rightarrow> Inr (frame_header (length payload) @ payload))"

definition read_body :: "bytes \<Rightarrow> (io_error, bytes \<times> bytes) result" where
  "read_body stream =
     (case read_exact header_len stream of
        Inl e \<Rightarrow> Inl e
      | Inr (header, rest) \<Rightarrow>
          if take 4 header \<noteq> control_magic
          then Inl (Invalid_Data ''control frame is missing the QPR3 magic'')
          else if header ! 4 \<noteq> protocol_version
          then Inl (Invalid_Data (''unsupported protocol version '' @ show_word (header ! 4)))
          else
            let len = from_le (drop 5 header) in
            if len > max_control_frame
            then Inl (Invalid_Data (''control frame of '' @ show_nat len @ '' bytes exceeds the limit''))
            else read_exact len rest)"

definition decode_message :: "(bytes \<Rightarrow> (string, 'm) result) \<Rightarrow> bytes \<Rightarrow> (io_error, 'm) result" where
  "decode_message dec payload =
     (case dec payload of
        Inl error \<Rightarrow> Inl (Invalid_Data (''control frame is not valid protocol JSON: '' @ error))
      | Inr m \<Rightarrow> Inr m)"

definition read_frame ::
    "(bytes \<Rightarrow> (string, 'm) result) \<Rightarrow> bytes \<Rightarrow> (io_error, 'm \<times> bytes) result" where
  "read_frame dec stream =
     (case read_body stream of
        Inl e \<Rightarrow> Inl e
      | Inr (payload, rest) \<Rightarrow>
          (case decode_message dec payload of Inl e \<Rightarrow> Inl e | Inr m \<Rightarrow> Inr (m, rest)))"

definition write_sealed_frame ::
    "'c aead \<Rightarrow> ('m \<Rightarrow> (string, bytes) result) \<Rightarrow> 'm \<Rightarrow> 'c sealer \<Rightarrow>
     (io_error, bytes) result \<times> 'c sealer" where
  "write_sealed_frame L enc message sl =
     (case enc message of
        Inl error \<Rightarrow> (Inl (Invalid_Data error), sl)
      | Inr plaintext \<Rightarrow>
          let header = frame_header (length plaintext + tag_len) in
          (case seal L plaintext header sl of
             (Inl error, sl') \<Rightarrow> (Inl (Invalid_Data (show_relay_error error)), sl')
           | (Inr sealed, sl') \<Rightarrow> (Inr (header @ sealed), sl')))"

definition read_sealed_frame ::
    "'c aead \<Rightarrow> (bytes \<Rightarrow> (string, 'm) result) \<Rightarrow> bytes \<Rightarrow> 'c opener \<Rightarrow>
     (io_error, 'm \<times> bytes) result \<times> 'c opener" where
  "read_sealed_frame L dec stream o1 =
     (case read_exact header_len stream of
        Inl e \<Rightarrow> (Inl e, o1)
      | Inr (header, rest) \<Rightarrow>
          if take 4 header \<noteq> control_magic \<or> header ! 4 \<noteq> protocol_version
          then (Inl (Invalid_Data ''sealed control frame has a bad header''), o1)
          else
            let len = from_le (drop 5 header) in
            if len > max_control_frame \<or> len < tag_len
            then (Inl (Invalid_Data (''sealed control frame of '' @ show_nat len @
                    '' bytes is out of range'')), o1)
            else (case read_exact len rest of
                Inl e \<Rightarrow> (Inl e, o1)
              | Inr (sealed, rest') \<Rightarrow>
                  (case open_sequential L sealed header o1 of
                     (Inl error, o2) \<Rightarrow> (Inl (Invalid_Data (show_relay_error error)), o2)
                   | (Inr plaintext, o2) \<Rightarrow>
                       (case decode_message dec plaintext of
                          Inl e \<Rightarrow> (Inl e, o2)
                        | Inr m \<Rightarrow> (Inr (m, rest'), o2)))))"

subsection \<open>Streams of frames\<close>

lemma frame_header_parts:
  "length (frame_header n) = header_len" "take 4 (frame_header n) = control_magic"
  "frame_header n ! 4 = protocol_version" "drop 5 (frame_header n) = u32_le (of_nat n)"
  by (simp_all add: frame_header_def control_magic_def header_len_def as_bytes_def)

lemma frame_header_length:
  "n \<le> max_control_frame \<Longrightarrow> from_le (drop 5 (frame_header n)) = n"
  by (simp add: frame_header_parts max_control_frame_def unat_of_nat)

lemma read_exact_append: "length xs = n \<Longrightarrow> read_exact n (xs @ ys) = Inr (xs, ys)"
  by (auto simp: read_exact_def)

lemma read_encoded_frame:
  assumes "encode_frame enc m = Inr f" and "enc m = Inr b" and "dec b = Inr m"
    and "length b \<le> max_control_frame"
  shows "read_frame dec (f @ rest) = Inr (m, rest)"
proof -
  have f: "f = frame_header (length b) @ b"
    using assms(1,2) by (simp add: encode_frame_def)
  have "read_exact header_len (f @ rest) = Inr (frame_header (length b), b @ rest)"
    by (simp add: f read_exact_append frame_header_parts)
  then have "read_body (f @ rest) = Inr (b, rest)"
    by (simp add: read_body_def frame_header_parts(2,3) frame_header_length [OF assms(4)]
        read_exact_append leD assms(4) Let_def)
  then show ?thesis
    by (simp add: read_frame_def decode_message_def assms(3))
qed

text \<open>A sealed frame in front of a stream is read back, and both counters advance together.\<close>

lemma read_sealed_written:
  assumes "aead_correct L" and "write_sealed_frame L enc m sl = (Inr f, sl')"
    and "enc m = Inr b" and "dec b = Inr m" and "length b + tag_len \<le> max_control_frame"
    and "s_cipher sl = o_cipher o1" and "s_side sl = o_side o1"
    and "s_counter sl = expected_counter o1"
  obtains o2 where "read_sealed_frame L dec (f @ rest) o1 = (Inr (m, rest), o2)"
    "s_cipher sl' = o_cipher o2" "s_side sl' = o_side o2" "s_counter sl' = expected_counter o2"
proof -
  let ?h = "frame_header (length b + tag_len)"
  obtain c where e: "encrypt L (s_cipher sl) (nonce_for (s_side sl) (s_counter sl)) b ?h = Some c"
    and f: "f = ?h @ c" and sl': "sl' = sl\<lparr>s_counter := s_counter sl + 1\<rparr>"
    using assms(2,3) by (auto simp: write_sealed_frame_def seal_def Let_def split: option.splits)
  have dec: "decrypt L (o_cipher o1) (nonce_for (o_side o1) (expected_counter o1)) c ?h = Some b"
    and len: "length c = length b + tag_len"
    using assms(1,6-8) e by (simp_all add: aead_correct_def)
  let ?o = "o1\<lparr>o_highest := expected_counter o1, o_started := True\<rparr>"
  have open_c: "open_sequential L c ?h o1 = (Inr b, ?o)"
    using dec by (simp add: open_sequential_def open_with_def expected_counter_def Let_def)
  have "read_exact header_len (f @ rest) = Inr (?h, c @ rest)"
    by (simp add: f read_exact_append frame_header_parts)
  then have "read_sealed_frame L dec (f @ rest) o1 = (Inr (m, rest), ?o)"
    by (simp add: read_sealed_frame_def frame_header_parts(2,3) frame_header_length [OF assms(5)]
        read_exact_append len open_c decode_message_def assms(4) leD [OF assms(5)] Let_def)
  then show ?thesis
    by (rule that) (use assms(6-8) in \<open>simp_all add: sl' expected_counter_def\<close>)
qed

fun write_all ::
    "'c aead \<Rightarrow> ('m \<Rightarrow> (string, bytes) result) \<Rightarrow> 'm list \<Rightarrow> 'c sealer \<Rightarrow> (io_error, bytes) result"
where
  "write_all L enc [] sl = Inr []"
| "write_all L enc (m # ms) sl =
     (case write_sealed_frame L enc m sl of
        (Inl e, sl') \<Rightarrow> Inl e
      | (Inr f, sl') \<Rightarrow>
          (case write_all L enc ms sl' of Inl e \<Rightarrow> Inl e | Inr fs \<Rightarrow> Inr (f @ fs)))"

fun read_many ::
    "'c aead \<Rightarrow> (bytes \<Rightarrow> (string, 'm) result) \<Rightarrow> nat \<Rightarrow> bytes \<Rightarrow> 'c opener \<Rightarrow>
     (io_error, 'm list \<times> bytes) result" where
  "read_many L dec 0 stream o1 = Inr ([], stream)"
| "read_many L dec (Suc n) stream o1 =
     (case read_sealed_frame L dec stream o1 of
        (Inl e, o2) \<Rightarrow> Inl e
      | (Inr (m, rest), o2) \<Rightarrow>
          (case read_many L dec n rest o2 of Inl e \<Rightarrow> Inl e | Inr (ms, rest') \<Rightarrow> Inr (m # ms, rest')))"

text \<open>What the codec of messages provides: it is faithful and stays within the frame limit.\<close>

definition message_codec ::
    "('m \<Rightarrow> (string, bytes) result) \<Rightarrow> (bytes \<Rightarrow> (string, 'm) result) \<Rightarrow> 'm \<Rightarrow> bool" where
  "message_codec enc dec m \<longleftrightarrow>
     (\<exists>b. enc m = Inr b \<and> dec b = Inr m \<and> length b + tag_len \<le> max_control_frame)"

lemma read_many_written:
  assumes "aead_correct L"
  shows "write_all L enc ms sl = Inr fs \<Longrightarrow> \<forall>m \<in> set ms. message_codec enc dec m \<Longrightarrow>
    s_cipher sl = o_cipher o1 \<Longrightarrow> s_side sl = o_side o1 \<Longrightarrow> s_counter sl = expected_counter o1 \<Longrightarrow>
    read_many L dec (length ms) (fs @ rest) o1 = Inr (ms, rest)"
proof (induction ms arbitrary: sl fs o1)
  case Nil
  then show ?case by simp
next
  case (Cons m ms)
  obtain b where b: "enc m = Inr b" "dec b = Inr m" "length b + tag_len \<le> max_control_frame"
    using Cons.prems(2) by (auto simp: message_codec_def)
  obtain f sl' gs where f: "write_sealed_frame L enc m sl = (Inr f, sl')"
    and gs: "write_all L enc ms sl' = Inr gs" and fs: "fs = f @ gs"
    using Cons.prems(1) by (auto split: prod.splits sum.splits)
  from assms f b Cons.prems(3-5)
  obtain o2 where o2: "read_sealed_frame L dec (f @ gs @ rest) o1 = (Inr (m, gs @ rest), o2)"
    "s_cipher sl' = o_cipher o2" "s_side sl' = o_side o2" "s_counter sl' = expected_counter o2"
    by (rule read_sealed_written [where dec = dec and rest = "gs @ rest"])
  have "read_many L dec (length ms) (gs @ rest) o2 = Inr (ms, rest)"
    using Cons.prems(2) by (intro Cons.IH [OF gs _ o2(2-4)]) simp
  with o2(1) show ?case by (simp add: fs)
qed

text \<open>
  C36: the control channel is faithful. When both peers complete the key exchange with the
  same shared secret, either side's key confirmation is accepted by the other, and a sequence of messages that one side writes is read by the other side in order,
  leaving the rest of the stream, in whatever direction. Assumed of each message: its JSON
  text parses back to it and its frame is within the control limit; the writer does not check
  that limit, while the reader refuses a larger frame.
\<close>

theorem control_stream_round_trip:
  assumes "aead_correct L" and "\<And>salt ikm info. length (H salt ikm info) = confirm_len"
    and "ps_side c = s" and "ps_side h = peer_side s"
    and "fin (ps_state c) (ps_message h) = Inr shared"
    and "fin (ps_state h) (ps_message c) = Inr shared"
    and "pake_finish fin H c (ps_message h) = Inr ck"
    and "pake_finish fin H h (ps_message c) = Inr hk"
    and "control_channel L ck = Inr (sl, o1)" and "control_channel L hk = Inr (sl', o2)"
    and "write_all L enc ms sl = Inr fs" and "\<forall>m \<in> set ms. message_codec enc dec m"
  shows "verify_confirmation hk (confirmation ck) \<and>
         read_many L dec (length ms) (fs @ rest) o2 = Inr (ms, rest)"
proof -
  define t where "t = (case s of Client \<Rightarrow> ps_message c @ ps_message h
    | Host \<Rightarrow> ps_message h @ ps_message c)"
  have ck: "ck = derive_keys H shared t s" and hk: "hk = derive_keys H shared t (peer_side s)"
    using pake_finish_keys [OF assms(7,5)] pake_finish_keys [OF assms(8,6)] assms(3,4)
    by (cases s; simp add: t_def)+
  have "length (confirm_send ck) = confirm_len"
    using assms(2) by (cases s) (simp_all add: ck derive_keys_def Let_def)
  then have "verify_confirmation hk (confirmation ck)"
    by (simp add: verify_confirmation_def confirmation_def ck hk derived_keys_match)
  moreover have "s_cipher sl = o_cipher o2 \<and> s_side sl = o_side o2 \<and> s_counter sl = expected_counter o2"
    using channel_parts [OF assms(9) [unfolded control_channel_def]]
      channel_parts [OF assms(10) [unfolded control_channel_def]]
    by (simp add: ck hk derived_keys_match expected_counter_def)
  ultimately show ?thesis
    using read_many_written [OF assms(1,11,12)] by simp
qed

theorem control_stream_round_trip_witness:
  "\<exists>ck hk sl o1 sl' o2 fs.
     verify_confirmation hk (confirmation ck) \<and>
     control_channel sum_aead ck = Inr (sl, o1) \<and> control_channel sum_aead hk = Inr (sl', o2) \<and>
     write_all sum_aead Inr [[104, 105], [7]] sl = Inr fs \<and>
     read_many sum_aead Inr 2 (fs @ [1]) o2 = Inr ([[104, 105], [7]], [1])"
proof -
  let ?fin = "\<lambda>(st :: unit) (m :: bytes). (Inr [42] :: (string, bytes) result)"
  let ?H = "\<lambda>(salt :: bytes) (ikm :: bytes) info. take confirm_len ((info :: bytes) @ replicate confirm_len 0)"
  let ?c = "\<lparr>ps_state = (), ps_message = [1], ps_side = Client\<rparr>"
  let ?h = "\<lparr>ps_state = (), ps_message = [2], ps_side = Host\<rparr>"
  obtain ck hk where ck: "pake_finish ?fin ?H ?c [2] = Inr ck"
    and hk: "pake_finish ?fin ?H ?h [1] = Inr hk"
    by (simp add: pake_finish_def)
  obtain sl o1 sl' o2 where ch: "control_channel sum_aead ck = Inr (sl, o1)"
    "control_channel sum_aead hk = Inr (sl', o2)"
    by (simp add: control_channel_def channel_def sealer_new_def opener_new_def cipher_def
        sum_aead_def)
  obtain fs where fs: "write_all sum_aead Inr [[104, 105], [7]] sl = Inr fs"
    by (simp add: write_sealed_frame_def seal_def sum_aead_def Let_def)
  have "\<forall>m \<in> set [[104, 105], [7]]. message_codec Inr Inr (m :: bytes)"
    by (simp add: message_codec_def tag_len_def max_control_frame_def)
  then have "verify_confirmation hk (confirmation ck)"
    and "read_many sum_aead Inr 2 (fs @ [1]) o2 = Inr ([[104, 105], [7]], [1])"
    using control_stream_round_trip [of sum_aead ?H ?c Client ?h ?fin "[42]" ck hk sl o1 sl' o2,
        OF _ _ _ _ _ _ _ _ ch fs, of Inr "[1]"] ck hk
    by (simp_all add: sum_aead_correct numeral_2_eq_2)
  with ch fs show ?thesis by blast
qed

end
