(* ===== verification/Flow_Negotiation.thy ===== *)
theory Flow_Negotiation
  imports Control_Protocol
begin

text \<open>
  Negotiation of the emitter of a session (\<^verbatim>\<open>FlowNegotiation\<close>, \<^verbatim>\<open>DirectionNegotiation\<close> and
  the session operations on them, \<^verbatim>\<open>pw-graph-relay/src/engine/record.rs\<close>). Two peers
  propose offers concurrently; both kinds of offer are resolved by a total order, stated as
  the locale \<open>offer_order\<close> and interpreted by each. Mutexes make every operation one step.
\<close>

subsection \<open>Resolution as a maximum\<close>

locale offer_order =
  fixes key :: "'o \<Rightarrow> 'k::linorder"
    and resolve :: "'o \<Rightarrow> 'o \<Rightarrow> 'o"
  assumes resolve_key: "resolve a b = (if key a < key b then b else a)"
    and key_inject: "key a = key b \<Longrightarrow> a = b"
begin

lemma resolve_either: "resolve a b = a \<or> resolve a b = b"
  by (simp add: resolve_key)

lemma key_resolve: "key (resolve a b) = max (key a) (key b)"
  by (cases "key a < key b") (simp_all add: resolve_key max.absorb1 max.absorb4 not_less leD)

lemma resolve_eqI: "key a = max (key b) (key c) \<Longrightarrow> a = resolve b c"
  by (rule key_inject) (simp add: key_resolve)

lemma resolve_comm: "resolve a b = resolve b a"
  by (rule key_inject) (simp add: key_resolve max.commute)

lemma resolve_assoc: "resolve (resolve a b) c = resolve a (resolve b c)"
  by (rule key_inject) (simp add: key_resolve max.assoc)

lemma resolve_idem: "resolve a a = a"
  by (simp add: resolve_key)

lemma resolve_absorb: "key b \<le> key a \<Longrightarrow> resolve a b = a"
  by (simp add: resolve_key leD)

lemma resolve_absorb2: "key a \<le> key b \<Longrightarrow> resolve a b = b"
  by (metis resolve_absorb resolve_comm)

end

interpretation flow: offer_order flow_key resolve_flow_offers
  by unfold_locales (auto simp: resolve_flow_offers_def dest: flow_key_inject)

interpretation direction: offer_order direction_key resolve_direction_offers
  by unfold_locales (auto simp: resolve_direction_offers_def dest: direction_key_inject)

subsection \<open>Flow negotiation\<close>

record flow_negotiation =
  fn_local :: flow_offer
  fn_resolved :: flow_offer
  fn_remote :: "flow_offer option"
  fn_pending :: "flow_offer option"
  fn_sent :: bool

record flow_resolution =
  fr_winner :: flow_offer
  fr_changed :: bool

definition flow_negotiation_new :: "flow_offer \<Rightarrow> bool \<Rightarrow> flow_negotiation" where
  "flow_negotiation_new loc pending =
     \<lparr>fn_local = loc, fn_resolved = loc, fn_remote = None,
      fn_pending = (if pending then Some loc else None), fn_sent = False\<rparr>"

definition flow_queue :: "flow_offer \<Rightarrow> flow_negotiation \<Rightarrow> (string, unit) result \<times> flow_negotiation"
where
  "flow_queue offer n =
     (if \<not> flow_offer_is_valid offer
      then (Inl ''flow offer requires stable emitter and proposer ids'', n)
      else if fo_proposer offer \<noteq> fo_proposer (fn_local n)
      then (Inl ''flow offer identity does not match the session owner'', n)
      else if fo_generation offer < fo_generation (fn_local n)
      then (Inl ''flow offer generation is older than the local offer'', n)
      else if fo_generation offer = fo_generation (fn_local n) \<and>
              fo_emitter offer \<noteq> fo_emitter (fn_local n)
      then (Inl ''flow changes must increment the offer generation'', n)
      else if offer = fn_local n
      then (Inr (), if fn_pending n = None \<and> fn_resolved n \<noteq> offer
                    then n\<lparr>fn_pending := Some offer, fn_sent := False\<rparr> else n)
      else (Inr (), n\<lparr>fn_local := offer, fn_pending := Some offer, fn_sent := False\<rparr>))"

definition flow_pending :: "flow_negotiation \<Rightarrow> flow_offer option" where
  "flow_pending n = (if \<not> fn_sent n then fn_pending n else None)"

definition flow_mark_sent :: "flow_offer \<Rightarrow> flow_negotiation \<Rightarrow> flow_negotiation" where
  "flow_mark_sent offer n = (if fn_pending n = Some offer then n\<lparr>fn_sent := True\<rparr> else n)"

definition flow_reset_send :: "flow_negotiation \<Rightarrow> flow_negotiation" where
  "flow_reset_send n = (if fn_pending n \<noteq> None then n\<lparr>fn_sent := False\<rparr> else n)"

definition flow_receive_offer ::
    "flow_offer \<Rightarrow> flow_negotiation \<Rightarrow>
     (string, flow_ack \<times> flow_resolution option) result \<times> flow_negotiation" where
  "flow_receive_offer remote n =
     (if \<not> flow_offer_is_valid remote
      then (Inl ''flow offer requires stable emitter and proposer ids'', n)
      else
        let n = n\<lparr>fn_remote := Some (case fn_remote n of
                    Some previous \<Rightarrow> resolve_flow_offers previous remote
                  | None \<Rightarrow> remote)\<rparr>;
            candidate = resolve_flow_offers (fn_local n) remote;
            winner = resolve_flow_offers (fn_resolved n) candidate;
            changed = (winner \<noteq> fn_resolved n);
            n = n\<lparr>fn_resolved := winner\<rparr>;
            n = (if winner \<noteq> fn_local n then n\<lparr>fn_pending := None, fn_sent := False\<rparr> else n)
        in (Inr (\<lparr>fa_generation = fo_generation winner, fa_emitter = fo_emitter winner\<rparr>,
                 if changed then Some \<lparr>fr_winner = winner, fr_changed = changed\<rparr> else None), n))"

definition flow_remote_is_current :: "flow_negotiation \<Rightarrow> flow_offer \<Rightarrow> bool" where
  "flow_remote_is_current n remote =
     (case fn_remote n of
        Some known \<Rightarrow>
          if fo_generation known > fo_generation remote then False
          else if fo_generation known = fo_generation remote
          then fo_emitter known = fo_emitter remote
          else True
      | None \<Rightarrow> True)"

definition flow_receive_ack ::
    "flow_ack \<Rightarrow> string \<Rightarrow> flow_negotiation \<Rightarrow> flow_resolution option \<times> flow_negotiation" where
  "flow_receive_ack ack peer_id n =
     (if \<not> flow_ack_is_valid ack then (None, n)
      else case fn_pending n of
        None \<Rightarrow> (None, n)
      | Some pending \<Rightarrow>
          let matches_local = (fa_generation ack = fo_generation pending \<and>
                               fa_emitter ack = fo_emitter pending);
              remote = \<lparr>fo_generation = fa_generation ack, fo_emitter = fa_emitter ack,
                        fo_proposer = peer_id\<rparr>;
              matches_remote = (\<not> matches_local \<and> flow_remote_is_current n remote \<and>
                                resolve_flow_offers pending remote = remote)
          in if \<not> matches_local \<and> \<not> matches_remote then (None, n)
             else
               let previous = fn_resolved n;
                   winner = (if matches_remote then resolve_flow_offers pending remote else pending);
                   winner = resolve_flow_offers previous winner;
                   changed = (winner \<noteq> previous)
               in (Some \<lparr>fr_winner = winner, fr_changed = changed\<rparr>,
                   n\<lparr>fn_resolved := winner, fn_pending := None, fn_sent := False\<rparr>))"

subsection \<open>Direction negotiation\<close>

record direction_negotiation =
  dn_local :: direction_offer
  dn_resolved :: direction_offer
  dn_remote :: "direction_offer option"
  dn_pending :: "direction_offer option"
  dn_sent :: bool
  dn_flow :: "flow_negotiation option"

record direction_resolution =
  dr_winner :: direction_offer
  dr_changed :: bool

definition direction_negotiation_new :: "direction_offer \<Rightarrow> direction_negotiation" where
  "direction_negotiation_new loc =
     \<lparr>dn_local = loc, dn_resolved = loc, dn_remote = None, dn_pending = Some loc,
      dn_sent = False, dn_flow = None\<rparr>"

text \<open>The offer that stands for the roles a session was established with.\<close>

definition initial_flow_offer :: "string \<Rightarrow> string \<Rightarrow> bool \<Rightarrow> u64 \<Rightarrow> flow_offer" where
  "initial_flow_offer local_device_id peer_id local_is_emitter generation =
     \<lparr>fo_generation = generation,
      fo_emitter = (if local_is_emitter then local_device_id else peer_id),
      fo_proposer = local_device_id\<rparr>"

definition with_initial_flow ::
    "direction_offer \<Rightarrow> string \<Rightarrow> string \<Rightarrow> bool \<Rightarrow> u64 \<Rightarrow> direction_negotiation" where
  "with_initial_flow loc local_device_id peer_id local_is_emitter generation =
     (direction_negotiation_new loc)
       \<lparr>dn_flow := Some (flow_negotiation_new
          (initial_flow_offer local_device_id peer_id local_is_emitter generation) False)\<rparr>"

definition ensure_flow ::
    "string \<Rightarrow> string \<Rightarrow> bool \<Rightarrow> u64 \<Rightarrow> direction_negotiation \<Rightarrow>
     flow_negotiation \<times> direction_negotiation" where
  "ensure_flow local_device_id peer_id local_is_emitter generation d =
     (case dn_flow d of
        Some f \<Rightarrow> (f, d)
      | None \<Rightarrow>
          let f = flow_negotiation_new
                    (initial_flow_offer local_device_id peer_id local_is_emitter generation) False
          in (f, d\<lparr>dn_flow := Some f\<rparr>))"

definition direction_queue ::
    "direction_offer \<Rightarrow> direction_negotiation \<Rightarrow> (string, unit) result \<times> direction_negotiation"
where
  "direction_queue offer d =
     (if \<not> direction_offer_is_valid offer
      then (Inl ''direction offer requires a stable device id'', d)
      else if do_device offer \<noteq> do_device (dn_local d)
      then (Inl ''direction offer identity does not match the session owner'', d)
      else if do_generation offer < do_generation (dn_local d)
      then (Inl ''direction offer generation is older than the local offer'', d)
      else if do_generation offer = do_generation (dn_local d) \<and>
              do_direction offer \<noteq> do_direction (dn_local d)
      then (Inl ''direction changes must increment the offer generation'', d)
      else if offer = dn_local d
      then (Inr (), if dn_pending d = None \<and> dn_resolved d \<noteq> offer
                    then d\<lparr>dn_pending := Some offer, dn_sent := False\<rparr> else d)
      else (Inr (), d\<lparr>dn_local := offer, dn_pending := Some offer, dn_sent := False\<rparr>))"

definition direction_pending :: "direction_negotiation \<Rightarrow> direction_offer option" where
  "direction_pending d = (if \<not> dn_sent d then dn_pending d else None)"

definition direction_mark_sent ::
    "direction_offer \<Rightarrow> direction_negotiation \<Rightarrow> direction_negotiation" where
  "direction_mark_sent offer d = (if dn_pending d = Some offer then d\<lparr>dn_sent := True\<rparr> else d)"

definition direction_reset_send :: "direction_negotiation \<Rightarrow> direction_negotiation" where
  "direction_reset_send d = (if dn_pending d \<noteq> None then d\<lparr>dn_sent := False\<rparr> else d)"

definition direction_receive_offer ::
    "direction_offer \<Rightarrow> direction_negotiation \<Rightarrow>
     (string, direction_ack \<times> direction_resolution option) result \<times> direction_negotiation" where
  "direction_receive_offer remote d =
     (if \<not> direction_offer_is_valid remote
      then (Inl ''direction offer requires a stable device id'', d)
      else
        let d = d\<lparr>dn_remote := Some (case dn_remote d of
                    Some previous \<Rightarrow> resolve_direction_offers previous remote
                  | None \<Rightarrow> remote)\<rparr>;
            candidate = resolve_direction_offers (dn_local d) remote;
            winner = resolve_direction_offers (dn_resolved d) candidate;
            changed = (winner \<noteq> dn_resolved d);
            d = d\<lparr>dn_resolved := winner\<rparr>;
            d = (if winner \<noteq> dn_local d then d\<lparr>dn_pending := None, dn_sent := False\<rparr> else d)
        in (Inr (\<lparr>da_generation = do_generation winner, da_direction = do_direction winner\<rparr>,
                 if changed then Some \<lparr>dr_winner = winner, dr_changed = changed\<rparr> else None), d))"

definition direction_remote_is_current :: "direction_negotiation \<Rightarrow> direction_offer \<Rightarrow> bool" where
  "direction_remote_is_current d remote =
     (direction_offer_is_valid remote \<and>
      (case dn_remote d of
         Some known \<Rightarrow>
           if do_generation known > do_generation remote then False
           else if do_generation known = do_generation remote
           then do_direction known = do_direction remote
           else True
       | None \<Rightarrow> True))"

definition direction_receive_ack ::
    "direction_ack \<Rightarrow> string \<Rightarrow> direction_negotiation \<Rightarrow>
     direction_resolution option \<times> direction_negotiation" where
  "direction_receive_ack ack peer_id d =
     (case dn_pending d of
        None \<Rightarrow> (None, d)
      | Some pending \<Rightarrow>
          let matches_local = (da_generation ack = do_generation pending \<and>
                               da_direction ack = do_direction pending);
              remote = \<lparr>do_generation = da_generation ack, do_direction = da_direction ack,
                        do_device = peer_id\<rparr>;
              matches_remote = (\<not> matches_local \<and> direction_remote_is_current d remote \<and>
                                resolve_direction_offers pending remote = remote)
          in if \<not> matches_local \<and> \<not> matches_remote then (None, d)
             else
               let previous = dn_resolved d;
                   winner = (if matches_remote then resolve_direction_offers pending remote
                             else pending);
                   winner = resolve_direction_offers previous winner;
                   changed = (winner \<noteq> previous)
               in (Some \<lparr>dr_winner = winner, dr_changed = changed\<rparr>,
                   d\<lparr>dn_resolved := winner, dn_pending := None, dn_sent := False\<rparr>))"

end
