(* ===== verification/Session_Record.thy ===== *)
theory Session_Record
  imports Flow_Negotiation
begin

text \<open>
  The part of \<^verbatim>\<open>SessionRecord\<close> that its threads coordinate through
  (\<^verbatim>\<open>pw-graph-relay/src/engine/record.rs\<close>): the active roles, the negotiation state and the
  state of the control channel. Every field sits behind an atomic or a mutex, so each
  operation is one step on the record; a poisoned mutex is outside the model.
\<close>

datatype control_state =
    Control_Active
  | Resume_Eligible (eligible_generation: u64)
  | Resuming (resuming_generation: u64)

datatype resume_grace_result = Expired | Resumed | In_Progress u64

record session_record =
  sr_peer :: string
  sr_active_roles :: u8
  sr_direction :: direction_negotiation
  sr_control_generation :: u64
  sr_control_state :: control_state

subsection \<open>Roles\<close>

definition role_bits :: "roles \<Rightarrow> u8" where
  "role_bits r = or (of_bool (emit r)) (push_bit 1 (of_bool (receive r)))"

definition local_roles :: "session_record \<Rightarrow> roles" where
  "local_roles r =
     (if sr_active_roles r = 1 then emit_only
      else if sr_active_roles r = 2 then receive_only
      else if sr_active_roles r = 3 then both_roles
      else roles_default)"

definition set_local_roles :: "roles \<Rightarrow> session_record \<Rightarrow> session_record" where
  "set_local_roles roles r =
     (let roles = (if is_one_way roles then roles else roles_default)
      in r\<lparr>sr_active_roles := role_bits roles\<rparr>)"

definition local_device_id :: "session_record \<Rightarrow> string" where
  "local_device_id r = do_device (dn_local (sr_direction r))"

subsection \<open>The flow of a session\<close>

definition session_flow :: "session_record \<Rightarrow> relay_flow option" where
  "session_flow r = map_option (\<lambda>f. offer_flow (fn_resolved f)) (dn_flow (sr_direction r))"

definition local_mode :: "session_record \<Rightarrow> relay_mode option" where
  "local_mode r =
     (case session_flow r of None \<Rightarrow> None | Some f \<Rightarrow> flow_mode_for f (local_device_id r))"

definition session_ensure_flow :: "session_record \<Rightarrow> flow_negotiation \<times> session_record" where
  "session_ensure_flow r =
     (let d = sr_direction r;
          current_generation = (case dn_flow d of
             Some f \<Rightarrow> fo_generation (fn_local f)
           | None \<Rightarrow> do_generation (dn_local d));
          local_is_emitter = emit (local_roles r);
          (f, d) = ensure_flow (local_device_id r) (sr_peer r) local_is_emitter
                     current_generation d
      in (f, r\<lparr>sr_direction := d\<rparr>))"

definition put_flow :: "flow_negotiation \<Rightarrow> session_record \<Rightarrow> session_record" where
  "put_flow f r = r\<lparr>sr_direction := (sr_direction r)\<lparr>dn_flow := Some f\<rparr>\<rparr>"

definition queue_flow_offer ::
    "flow_offer \<Rightarrow> session_record \<Rightarrow> (string, unit) result \<times> session_record" where
  "queue_flow_offer offer r =
     (let (f, r) = session_ensure_flow r;
          (res, f) = flow_queue offer f
      in (res, put_flow f r))"

definition pending_flow_offer :: "session_record \<Rightarrow> flow_offer option \<times> session_record" where
  "pending_flow_offer r = (let (f, r) = session_ensure_flow r in (flow_pending f, r))"

definition mark_flow_offer_sent :: "flow_offer \<Rightarrow> session_record \<Rightarrow> session_record" where
  "mark_flow_offer_sent offer r =
     (case dn_flow (sr_direction r) of
        Some f \<Rightarrow> put_flow (flow_mark_sent offer f) r
      | None \<Rightarrow> r)"

definition reset_flow_offer_send :: "session_record \<Rightarrow> session_record" where
  "reset_flow_offer_send r =
     (case dn_flow (sr_direction r) of
        Some f \<Rightarrow> put_flow (flow_reset_send f) r
      | None \<Rightarrow> r)"

definition receive_flow_offer ::
    "flow_offer \<Rightarrow> session_record \<Rightarrow>
     (string, flow_ack \<times> flow_resolution option) result \<times> session_record" where
  "receive_flow_offer offer r =
     (if fo_proposer offer \<noteq> sr_peer r
      then (Inl ''flow offer identity does not match the authenticated peer'', r)
      else let (f, r) = session_ensure_flow r;
               (res, f) = flow_receive_offer offer f
           in (res, put_flow f r))"

definition receive_flow_ack ::
    "flow_ack \<Rightarrow> session_record \<Rightarrow> flow_resolution option \<times> session_record" where
  "receive_flow_ack ack r =
     (case dn_flow (sr_direction r) of
        None \<Rightarrow> (None, r)
      | Some f \<Rightarrow> let (res, f) = flow_receive_ack ack (sr_peer r) f in (res, put_flow f r))"

definition apply_flow :: "relay_flow \<Rightarrow> session_record \<Rightarrow> session_record" where
  "apply_flow flow r =
     (case flow_mode_for flow (local_device_id r) of
        Some mode \<Rightarrow> set_local_roles (roles_for_mode mode) r
      | None \<Rightarrow> r)"

text \<open>
  What the control thread does with a resolution (\<^verbatim>\<open>emit_flow_resolution\<close>,
  \<^verbatim>\<open>session/control.rs\<close>): the event carries the generation, the emitter and the local mode.
\<close>

definition emit_flow_resolution ::
    "flow_resolution \<Rightarrow> session_record \<Rightarrow>
     (u64 \<times> relay_flow \<times> relay_mode) option \<times> session_record" where
  "emit_flow_resolution resolution r =
     (let flow = offer_flow (fr_winner resolution);
          r = apply_flow flow r
      in (case flow_mode_for flow (local_device_id r) of
            None \<Rightarrow> (None, r)
          | Some mode \<Rightarrow> (Some (fo_generation (fr_winner resolution), flow, mode), r)))"

subsection \<open>The direction of a session\<close>

definition pending_direction_offer :: "session_record \<Rightarrow> direction_offer option" where
  "pending_direction_offer r = direction_pending (sr_direction r)"

definition mark_direction_offer_sent :: "direction_offer \<Rightarrow> session_record \<Rightarrow> session_record" where
  "mark_direction_offer_sent offer r =
     r\<lparr>sr_direction := direction_mark_sent offer (sr_direction r)\<rparr>"

definition reset_direction_offer_send :: "session_record \<Rightarrow> session_record" where
  "reset_direction_offer_send r = r\<lparr>sr_direction := direction_reset_send (sr_direction r)\<rparr>"

definition receive_direction_offer ::
    "direction_offer \<Rightarrow> session_record \<Rightarrow>
     (string, direction_ack \<times> direction_resolution option) result \<times> session_record" where
  "receive_direction_offer offer r =
     (if do_device offer \<noteq> sr_peer r
      then (Inl ''direction offer identity does not match the authenticated peer'', r)
      else let (res, d) = direction_receive_offer offer (sr_direction r)
           in (res, r\<lparr>sr_direction := d\<rparr>))"

definition receive_direction_ack ::
    "direction_ack \<Rightarrow> session_record \<Rightarrow> direction_resolution option \<times> session_record" where
  "receive_direction_ack ack r =
     (let (res, d) = direction_receive_ack ack (sr_peer r) (sr_direction r)
      in (res, r\<lparr>sr_direction := d\<rparr>))"

subsection \<open>Ownership of the control channel\<close>

definition mark_control_dropped :: "session_record \<Rightarrow> bool \<times> session_record" where
  "mark_control_dropped r =
     (case sr_control_state r of
        Control_Active \<Rightarrow>
          (True, r\<lparr>sr_control_state := Resume_Eligible (sr_control_generation r)\<rparr>)
      | Resume_Eligible _ \<Rightarrow> (True, r)
      | Resuming _ \<Rightarrow> (False, r))"

definition begin_resume :: "session_record \<Rightarrow> u64 option \<times> session_record" where
  "begin_resume r =
     (case sr_control_state r of
        Resume_Eligible generation \<Rightarrow>
          (if generation = - 1 then (None, r)
           else (Some (generation + 1), r\<lparr>sr_control_state := Resuming (generation + 1)\<rparr>))
      | _ \<Rightarrow> (None, r))"

definition cancel_resume :: "u64 \<Rightarrow> session_record \<Rightarrow> session_record" where
  "cancel_resume generation r =
     (if sr_control_state r = Resuming generation
      then r\<lparr>sr_control_state := Resume_Eligible (sr_control_generation r)\<rparr> else r)"

definition finish_resume :: "u64 \<Rightarrow> session_record \<Rightarrow> bool \<times> session_record" where
  "finish_resume generation r =
     (if sr_control_state r \<noteq> Resuming generation then (False, r)
      else (True, r\<lparr>sr_control_generation := generation, sr_control_state := Control_Active\<rparr>))"

definition expire_resume_grace ::
    "u64 \<Rightarrow> session_record \<Rightarrow> resume_grace_result \<times> session_record" where
  "expire_resume_grace generation r =
     (if sr_control_generation r \<noteq> generation then (Resumed, r)
      else case sr_control_state r of
        Resume_Eligible current \<Rightarrow>
          (if current = generation then (Expired, r\<lparr>sr_control_state := Control_Active\<rparr>)
           else (Resumed, r))
      | Resuming generation \<Rightarrow> (In_Progress generation, r)
      | Control_Active \<Rightarrow> (Resumed, r))"

definition abort_resume :: "u64 \<Rightarrow> session_record \<Rightarrow> bool \<times> session_record" where
  "abort_resume generation r =
     (if sr_control_state r = Resuming generation
      then (True, r\<lparr>sr_control_state := Control_Active\<rparr>) else (False, r))"

end
