(* ===== verification/Resume_Props.thy ===== *)
theory Resume_Props
  imports Session_Record
begin

text \<open>
  Resumption of a session's control channel (\<^verbatim>\<open>engine/record.rs\<close> and \<^verbatim>\<open>session/resume.rs\<close>):
  the control threads of one session as a step relation over its record, with the owners
  of the channel counted beside it, and the grace wait of a dropped owner.
\<close>

subsection \<open>The threads of a session\<close>

text \<open>
  \<open>run_owners\<close> counts the control loops that hold the channel and have not dropped it,
  \<open>run_handovers\<close> the resumes that were committed; \<open>run_torn\<close> says that a grace wait returned
  false, on which its caller removes the session. A thread that cannot deliver its \<^verbatim>\<open>ResumeOk\<close>
  marks the channel dropped twice (\<^verbatim>\<open>handle_failed_resume_ok\<close>, then the grace wait it calls):
  \<open>run_redrops\<close> counts the second marks still to come, \<open>run_stolen\<close> those that found the
  channel active again and so took it from another owner.
\<close>

record control_run =
  run_record :: session_record
  run_owners :: nat
  run_handovers :: nat
  run_torn :: bool
  run_redrops :: nat
  run_stolen :: nat

datatype control_event =
    Drop_Control
  | Drop_Undelivered
  | Drop_Again
  | Begin_Resume
  | Cancel_Resume u64
  | Finish_Resume u64
  | Expire_Grace u64
  | Abort_Resume u64

inductive control_step :: "control_event \<Rightarrow> control_run \<Rightarrow> control_run \<Rightarrow> bool" where
  dropped: "run_owners c > 0 \<Longrightarrow> mark_control_dropped (run_record c) = (b, r) \<Longrightarrow>
    control_step Drop_Control c (c\<lparr>run_record := r, run_owners := run_owners c - 1\<rparr>)"
| undelivered: "run_owners c > 0 \<Longrightarrow> mark_control_dropped (run_record c) = (b, r) \<Longrightarrow>
    control_step Drop_Undelivered c
      (c\<lparr>run_record := r, run_owners := run_owners c - 1, run_redrops := run_redrops c + 1\<rparr>)"
| again: "run_redrops c > 0 \<Longrightarrow> mark_control_dropped (run_record c) = (b, r) \<Longrightarrow>
    control_step Drop_Again c
      (c\<lparr>run_record := r, run_redrops := run_redrops c - 1,
         run_stolen := run_stolen c +
           (if sr_control_state (run_record c) = Control_Active then 1 else 0)\<rparr>)"
| begun: "begin_resume (run_record c) = (g, r) \<Longrightarrow>
    control_step Begin_Resume c (c\<lparr>run_record := r\<rparr>)"
| cancelled: "control_step (Cancel_Resume g) c (c\<lparr>run_record := cancel_resume g (run_record c)\<rparr>)"
| finished: "finish_resume g (run_record c) = (True, r) \<Longrightarrow>
    control_step (Finish_Resume g) c
      (c\<lparr>run_record := r, run_owners := run_owners c + 1, run_handovers := run_handovers c + 1\<rparr>)"
| refused: "finish_resume g (run_record c) = (False, r) \<Longrightarrow>
    control_step (Finish_Resume g) c (c\<lparr>run_record := r\<rparr>)"
| expired: "expire_resume_grace g (run_record c) = (res, r) \<Longrightarrow>
    control_step (Expire_Grace g) c (c\<lparr>run_record := r, run_torn := (run_torn c \<or> res = Expired)\<rparr>)"
| aborted: "abort_resume g (run_record c) = (b, r) \<Longrightarrow>
    control_step (Abort_Resume g) c (c\<lparr>run_record := r, run_torn := (run_torn c \<or> b)\<rparr>)"

inductive_cases control_stepE: "control_step e c c'"

text \<open>A session starts with one control loop and generation one.\<close>

definition fresh_control :: "session_record \<Rightarrow> control_run" where
  "fresh_control r =
     \<lparr>run_record = r\<lparr>sr_control_generation := 1, sr_control_state := Control_Active\<rparr>,
      run_owners = 1, run_handovers = 0, run_torn = False, run_redrops = 0, run_stolen = 0\<rparr>"

inductive control_reachable :: "session_record \<Rightarrow> control_run \<Rightarrow> bool" for r where
  start: "control_reachable r (fresh_control r)"
| step: "control_reachable r c \<Longrightarrow> control_step e c c' \<Longrightarrow> control_reachable r c'"

subsection \<open>The invariant of ownership\<close>

definition control_ok :: "control_run \<Rightarrow> bool" where
  "control_ok c =
     (unat (sr_control_generation (run_record c)) = Suc (run_handovers c) \<and>
      (case sr_control_state (run_record c) of
         Control_Active \<Rightarrow> run_owners c \<le> 1 + run_stolen c \<and>
           (run_stolen c = 0 \<longrightarrow> run_owners c = (if run_torn c then 0 else 1))
       | Resume_Eligible g \<Rightarrow> run_owners c \<le> run_stolen c \<and>
           (run_stolen c = 0 \<longrightarrow> \<not> run_torn c) \<and> g = sr_control_generation (run_record c)
       | Resuming g \<Rightarrow> run_owners c \<le> run_stolen c \<and>
           (run_stolen c = 0 \<longrightarrow> \<not> run_torn c) \<and> unat g = Suc (Suc (run_handovers c))))"

lemma unat_Suc: "g \<noteq> - 1 \<Longrightarrow> unat (g + 1 :: u64) = Suc (unat g)"
  by (metis Suc_eq_plus1 add.commute eq_neg_iff_add_eq_0 unatSuc)

lemma control_step_ok: "control_step e c c' \<Longrightarrow> control_ok c \<Longrightarrow> control_ok c'"
proof (induction rule: control_step.induct)
  case (dropped c b r)
  then show ?case
    by (auto simp: mark_control_dropped_def control_ok_def split: control_state.splits if_splits)
next
  case (undelivered c b r)
  then show ?case
    by (auto simp: mark_control_dropped_def control_ok_def split: control_state.splits if_splits)
next
  case (again c b r)
  then show ?case
    by (auto simp: mark_control_dropped_def control_ok_def split: control_state.splits if_splits)
next
  case (begun c g r)
  then show ?case
    by (auto simp: begin_resume_def control_ok_def unat_Suc split: control_state.splits if_splits)
next
  case (cancelled g c)
  then show ?case
    by (auto simp: cancel_resume_def control_ok_def split: control_state.splits)
next
  case (finished g c r)
  then show ?case
    by (auto simp: finish_resume_def control_ok_def split: control_state.splits if_splits)
next
  case (refused g c r)
  then show ?case
    by (auto simp: finish_resume_def split: if_splits)
next
  case (expired g c res r)
  then show ?case
    by (auto simp: expire_resume_grace_def control_ok_def split: control_state.splits if_splits)
next
  case (aborted g c b r)
  then show ?case
    by (auto simp: abort_resume_def control_ok_def split: control_state.splits if_splits)
qed

lemma control_reachable_ok: "control_reachable r c \<Longrightarrow> control_ok c"
proof (induction rule: control_reachable.induct)
  case start
  then show ?case by (simp add: fresh_control_def control_ok_def)
next
  case (step c e c')
  then show ?case by (blast intro: control_step_ok)
qed

text \<open>
  C37: Whatever the interleaving of drops, resume attempts, cancellations, expiries and aborts
  (of any generation) and of the second drop that follows an undelivered \<^verbatim>\<open>ResumeOk\<close>, at most
  one control loop owns the session's channel, plus one for every second drop that found the
  channel active. While that has not happened, the record is marked active exactly while a
  loop owns it, unless a grace wait has ended the session, after which nobody does. Every
  committed resume has advanced the key generation by exactly one.
\<close>

theorem control_channel_owners:
  assumes "control_reachable r c"
  shows "run_owners c \<le> 1 + run_stolen c \<and>
    (run_stolen c = 0 \<longrightarrow>
      (\<not> run_torn c \<longrightarrow> (sr_control_state (run_record c) = Control_Active) = (run_owners c = 1)) \<and>
      (run_torn c \<longrightarrow> run_owners c = 0)) \<and>
    unat (sr_control_generation (run_record c)) = 1 + run_handovers c"
  using control_reachable_ok [OF assms]
  by (auto simp: control_ok_def split: control_state.splits if_splits)

definition some_session :: session_record where
  "some_session =
     \<lparr>sr_peer = ''desk'', sr_active_roles = 1,
      sr_direction = with_initial_flow
        \<lparr>do_generation = 0, do_direction = Mobile_To_Desktop, do_device = ''phone''\<rparr>
        ''phone'' ''desk'' True 0,
      sr_control_generation = 1, sr_control_state = Control_Active\<rparr>"

text \<open>
  A session that is removed while a control loop owns it: a \<^verbatim>\<open>ResumeOk\<close> that is not delivered,
  a replacement that resumes between the two drops, and the grace wait of the failed owner.
\<close>

abbreviation stolen_run :: "nat \<Rightarrow> nat \<Rightarrow> nat \<Rightarrow> nat \<Rightarrow> bool \<Rightarrow> u64 \<Rightarrow> control_state \<Rightarrow> control_run" where
  "stolen_run owners redrops stolen handovers torn g st \<equiv>
     \<lparr>run_record = some_session\<lparr>sr_control_generation := g, sr_control_state := st\<rparr>,
      run_owners = owners, run_handovers = handovers, run_torn = torn, run_redrops = redrops,
      run_stolen = stolen\<rparr>"

lemma control_channel_owners_witness:
  "\<exists>c. control_reachable some_session c \<and> run_torn c \<and> run_owners c = 1 \<and> run_stolen c = 1 \<and>
     run_owners c \<le> 1 + run_stolen c \<and> unat (sr_control_generation (run_record c)) = 3"
proof -
  have "control_reachable some_session (stolen_run 1 0 0 0 False 1 Control_Active)"
    using control_reachable.start [of some_session] by (simp add: fresh_control_def some_session_def)
  then have "control_reachable some_session (stolen_run 0 0 0 0 False 1 (Resume_Eligible 1))"
    by (rule control_reachable.step [where e = "Drop_Control"])
      (use control_step.dropped [of "stolen_run 1 0 0 0 False 1 Control_Active" True] in
        \<open>simp add: mark_control_dropped_def some_session_def\<close>)
  then have "control_reachable some_session (stolen_run 0 0 0 0 False 1 (Resuming 2))"
    by (rule control_reachable.step [where e = "Begin_Resume"])
      (use control_step.begun [of "stolen_run 0 0 0 0 False 1 (Resume_Eligible 1)"] in
        \<open>simp add: begin_resume_def some_session_def\<close>)
  then have "control_reachable some_session (stolen_run 1 0 0 1 False 2 Control_Active)"
    by (rule control_reachable.step [where e = "Finish_Resume 2"])
      (use control_step.finished [of 2 "stolen_run 0 0 0 0 False 1 (Resuming 2)"] in
        \<open>simp add: finish_resume_def some_session_def\<close>)
  then have "control_reachable some_session (stolen_run 0 1 0 1 False 2 (Resume_Eligible 2))"
    by (rule control_reachable.step [where e = "Drop_Undelivered"])
      (use control_step.undelivered [of "stolen_run 1 0 0 1 False 2 Control_Active" True] in
        \<open>simp add: mark_control_dropped_def some_session_def\<close>)
  then have "control_reachable some_session (stolen_run 0 1 0 1 False 2 (Resuming 3))"
    by (rule control_reachable.step [where e = "Begin_Resume"])
      (use control_step.begun [of "stolen_run 0 1 0 1 False 2 (Resume_Eligible 2)"] in
        \<open>simp add: begin_resume_def some_session_def\<close>)
  then have "control_reachable some_session (stolen_run 1 1 0 2 False 3 Control_Active)"
    by (rule control_reachable.step [where e = "Finish_Resume 3"])
      (use control_step.finished [of 3 "stolen_run 0 1 0 1 False 2 (Resuming 3)"] in
        \<open>simp add: finish_resume_def some_session_def numeral_2_eq_2\<close>)
  then have "control_reachable some_session (stolen_run 1 0 1 2 False 3 (Resume_Eligible 3))"
    by (rule control_reachable.step [where e = "Drop_Again"])
      (use control_step.again [of "stolen_run 1 1 0 2 False 3 Control_Active" True] in
        \<open>simp add: mark_control_dropped_def some_session_def\<close>)
  then have "control_reachable some_session (stolen_run 1 0 1 2 True 3 Control_Active)"
    by (rule control_reachable.step [where e = "Expire_Grace 3"])
      (use control_step.expired [of 3 "stolen_run 1 0 1 2 False 3 (Resume_Eligible 3)"] in
        \<open>simp add: expire_resume_grace_def some_session_def\<close>)
  from this control_channel_owners [OF this] show ?thesis
    by (intro exI [of _ "stolen_run 1 0 1 2 True 3 Control_Active"]) (simp add: some_session_def)
qed

subsection \<open>A second drop\<close>

text \<open>
  \<^verbatim>\<open>handle_failed_resume_ok\<close> marks the channel dropped and then calls the grace wait, which
  marks it dropped again. The steps of a session in which a resume is committed between the
  two: the first four belong to the owner that failed to answer and to the resume that
  replaces it, the final two to the failed owner's grace wait.
\<close>

definition failed_resume_ok_run :: "session_record \<Rightarrow> resume_grace_result \<times> session_record" where
  "failed_resume_ok_run r =
     (let (_, r) = mark_control_dropped r;
          (attempt, r) = begin_resume r;
          (_, r) = finish_resume (the attempt) r;
          (_, r) = mark_control_dropped r
      in expire_resume_grace (sr_control_generation r) r)"

text \<open>
  The failure path after an undeliverable \<^verbatim>\<open>ResumeOk\<close> drops the channel twice. When a
  replacement resume is begun and committed between the two drops, the second drop takes the
  channel from its new, live owner, and the grace wait of the failed owner expires it: the
  session is removed although it has been resumed.
\<close>

lemma second_drop_expires_the_new_owner:
  "sr_control_generation r \<noteq> - 1 \<Longrightarrow> sr_control_state r = Control_Active \<Longrightarrow>
   fst (failed_resume_ok_run r) = Expired \<and>
   sr_control_generation (snd (failed_resume_ok_run r)) = sr_control_generation r + 1"
  by (simp add: failed_resume_ok_run_def mark_control_dropped_def begin_resume_def
      finish_resume_def expire_resume_grace_def)

subsection \<open>The grace wait\<close>

text \<open>
  One round of \<^verbatim>\<open>await_resume_grace_with_deadlines\<close>: whether the session is still alive, the
  three readings of the clock, and what the other threads do to the record before the round,
  between the check of the generation and the lock of \<^verbatim>\<open>expire_resume_grace\<close>, and between that
  lock and the one of \<^verbatim>\<open>abort_resume\<close>. The result if the wait ends, else the deadline of a
  challenge seen in flight.
\<close>

record grace_round =
  gr_alive :: bool
  gr_now :: nat
  gr_seen :: nat
  gr_check :: nat
  gr_before :: "session_record \<Rightarrow> session_record"
  gr_between :: "session_record \<Rightarrow> session_record"
  gr_during :: "session_record \<Rightarrow> session_record"

definition grace_poll ::
    "nat \<Rightarrow> nat \<Rightarrow> u64 \<Rightarrow> grace_round \<Rightarrow> nat option \<Rightarrow> session_record \<Rightarrow>
     bool option \<times> nat option \<times> session_record" where
  "grace_poll deadline handshake_timeout generation rd in_flight r =
     (let r = gr_before rd r in
      if \<not> gr_alive rd then (Some True, in_flight, r)
      else if sr_control_generation r \<noteq> generation then (Some True, in_flight, r)
      else if gr_now rd < deadline then (None, in_flight, r)
      else (case expire_resume_grace generation (gr_between rd r) of
          (Expired, r) \<Rightarrow> (Some False, in_flight, r)
        | (Resumed, r) \<Rightarrow> (Some True, in_flight, r)
        | (In_Progress g, r) \<Rightarrow>
            let challenge =
              (case in_flight of Some d \<Rightarrow> d | None \<Rightarrow> gr_seen rd + handshake_timeout) in
            if challenge \<le> gr_check rd then
              (case abort_resume g (gr_during rd r) of
                 (True, r) \<Rightarrow> (Some False, Some challenge, r)
               | (False, r) \<Rightarrow> (None, Some challenge, r))
            else (None, Some challenge, r)))"

text \<open>
  The wait over a list of rounds. Other threads also run between the mark of the drop and the
  reading of the generation.
\<close>

fun grace_rounds ::
    "nat \<Rightarrow> nat \<Rightarrow> u64 \<Rightarrow> grace_round list \<Rightarrow> nat option \<Rightarrow> session_record \<Rightarrow>
     bool option \<times> session_record" where
  "grace_rounds deadline handshake_timeout generation [] in_flight r = (None, r)"
| "grace_rounds deadline handshake_timeout generation (rd # rounds) in_flight r =
     (case grace_poll deadline handshake_timeout generation rd in_flight r of
        (Some result, _, r) \<Rightarrow> (Some result, r)
      | (None, in_flight, r) \<Rightarrow>
          grace_rounds deadline handshake_timeout generation rounds in_flight r)"

definition await_resume_grace ::
    "nat \<Rightarrow> nat \<Rightarrow> nat \<Rightarrow> (session_record \<Rightarrow> session_record) \<Rightarrow> grace_round list \<Rightarrow>
     session_record \<Rightarrow> bool option \<times> session_record" where
  "await_resume_grace start grace handshake_timeout others rounds r =
     (let (_, r) = mark_control_dropped r; r = others r
      in grace_rounds (start + grace) handshake_timeout (sr_control_generation r) rounds None r)"

text \<open>The attempt a round finds in flight is not ended between the two locks of the round.\<close>

definition undisturbed :: "grace_round \<Rightarrow> bool" where
  "undisturbed rd \<longleftrightarrow>
     (\<forall>r g. sr_control_state r = Resuming g \<longrightarrow> sr_control_state (gr_during rd r) = Resuming g)"

lemmas grace_poll_simps = grace_poll_def expire_resume_grace_def abort_resume_def Let_def

lemma grace_poll_past_challenge:
  assumes "deadline \<le> gr_now rd" "d \<le> gr_check rd" "undisturbed rd"
  obtains b f r' where "grace_poll deadline timeout g rd (Some d) r = (Some b, f, r')"
proof (cases "grace_poll deadline timeout g rd (Some d) r")
  case (fields res f r')
  then have "res \<noteq> None"
    using assms unfolding undisturbed_def
    by (cases "sr_control_state (gr_between rd (gr_before rd r))")
      (auto simp: grace_poll_simps split: if_splits)
  then show thesis using fields that by auto
qed

lemma grace_poll_keeps_challenge:
  "grace_poll deadline timeout g rd (Some d) r = (None, f, r') \<Longrightarrow> f = Some d"
  by (cases "sr_control_state (gr_between rd (gr_before rd r))")
    (auto simp: grace_poll_simps split: if_splits)

lemma grace_poll_past_deadline:
  "deadline \<le> gr_now rd \<Longrightarrow> grace_poll deadline timeout g rd None r = (None, f, r') \<Longrightarrow>
   f = Some (gr_seen rd + timeout)"
  by (cases "sr_control_state (gr_between rd (gr_before rd r))")
    (auto simp: grace_poll_simps split: if_splits)

lemma grace_poll_challenge_bound:
  assumes "grace_poll deadline timeout g rd f r = (None, f', r')"
    and "gr_seen rd \<le> t" "\<forall>d. f = Some d \<longrightarrow> d \<le> t + timeout"
  shows "\<forall>d. f' = Some d \<longrightarrow> d \<le> t + timeout"
  using assms
  by (cases "sr_control_state (gr_between rd (gr_before rd r))"; cases f)
    (auto simp: grace_poll_simps split: if_splits)

lemma grace_rounds_past_challenge:
  assumes "deadline \<le> gr_now final" "d \<le> gr_check final" "undisturbed final"
  shows "fst (grace_rounds deadline timeout g (rounds @ [final]) (Some d) r) \<noteq> None"
proof (induction rounds arbitrary: r)
  case Nil
  obtain b f r' where "grace_poll deadline timeout g final (Some d) r = (Some b, f, r')"
    by (rule grace_poll_past_challenge [OF assms])
  then show ?case by simp
next
  case (Cons rd rounds)
  show ?case
  proof (cases "grace_poll deadline timeout g rd (Some d) r")
    case (fields res f r')
    then show ?thesis
      using Cons.IH [of r'] grace_poll_keeps_challenge [of deadline timeout g rd d r f r']
      by (cases res) auto
  qed
qed

lemma grace_rounds_past_deadline:
  assumes late: "deadline \<le> gr_now late" "gr_seen late \<le> t"
    and final: "deadline \<le> gr_now final" "t + timeout \<le> gr_check final" "undisturbed final"
    and "\<forall>rd \<in> set before. gr_seen rd \<le> t" "\<forall>d. f = Some d \<longrightarrow> d \<le> t + timeout"
  shows "fst (grace_rounds deadline timeout g (before @ late # between @ [final]) f r) \<noteq> None"
  using assms(6,7)
proof (induction before arbitrary: f r)
  case Nil
  show ?case
  proof (cases "grace_poll deadline timeout g late f r")
    case (fields res f' r')
    have "\<exists>d. f' = Some d \<and> d \<le> gr_check final" if "res = None"
      using late final(2) Nil(2) fields that
      by (cases f) (auto dest: grace_poll_past_deadline grace_poll_keeps_challenge)
    then show ?thesis
      using grace_rounds_past_challenge [OF final(1) _ final(3), of _ timeout g between r']
      by (cases res) (auto simp: fields)
  qed
next
  case (Cons rd before)
  show ?case
  proof (cases "grace_poll deadline timeout g rd f r")
    case (fields res f' r')
    then show ?thesis
      using Cons.IH [of f' r'] Cons.prems
        grace_poll_challenge_bound [of deadline timeout g rd f r f' r' t]
      by (cases res) auto
  qed
qed

text \<open>
  C38: The grace wait of a dropped owner gives a verdict once a round at or after the deadline
  is followed, at any distance, by one the handshake timeout later in which the attempt seen
  in flight is not ended between the expiry check and the abort, two separate locks. Whatever
  the resume attempts otherwise do to the record before, between and within the rounds, the
  wait needs no attempt to finish.
\<close>

theorem grace_wait_ends:
  assumes "start + grace \<le> gr_now late" and "gr_seen late \<le> t"
    and "\<forall>rd \<in> set before. gr_seen rd \<le> t"
    and "start + grace \<le> gr_now final" and "t + handshake_timeout \<le> gr_check final"
    and "undisturbed final"
  shows "\<exists>verdict. fst (await_resume_grace start grace handshake_timeout others
      (before @ late # between @ [final]) r) = Some verdict"
  using grace_rounds_past_deadline [OF assms(1,2,4-6,3), of None]
  by (simp add: await_resume_grace_def split_def Let_def)

abbreviation quiet_round :: "nat \<Rightarrow> grace_round" where
  "quiet_round now \<equiv> \<lparr>gr_alive = True, gr_now = now, gr_seen = now, gr_check = now,
     gr_before = id, gr_between = id, gr_during = id\<rparr>"

text \<open>
  An attempt begins just before the deadline and is cancelled between the two locks of a later
  round, where the abort finds nothing and the wait goes on; the round after it ends it.
\<close>

lemma grace_wait_ends_witness:
  "let late = (quiet_round 15000)\<lparr>gr_between := (\<lambda>r. snd (begin_resume r))\<rparr>;
       raced = (quiet_round 25000)\<lparr>gr_during := cancel_resume 2\<rparr>;
       await = \<lambda>rounds. fst (await_resume_grace 0 15000 10000 id rounds some_session)
   in await [quiet_round 250, late, raced] = None \<and>
      (\<exists>verdict. await ([quiet_round 250] @ late # [raced] @ [quiet_round 25250]) = Some verdict)"
proof -
  have "fst (await_resume_grace 0 15000 10000 id [quiet_round 250,
      (quiet_round 15000)\<lparr>gr_between := (\<lambda>r. snd (begin_resume r))\<rparr>,
      (quiet_round 25000)\<lparr>gr_during := cancel_resume 2\<rparr>] some_session) = None"
    by (simp add: await_resume_grace_def some_session_def mark_control_dropped_def grace_poll_simps
        begin_resume_def cancel_resume_def)
  moreover have "\<exists>verdict. fst (await_resume_grace 0 15000 10000 id ([quiet_round 250] @
      (quiet_round 15000)\<lparr>gr_between := (\<lambda>r. snd (begin_resume r))\<rparr> #
      [(quiet_round 25000)\<lparr>gr_during := cancel_resume 2\<rparr>] @ [quiet_round 25250]) some_session) = Some verdict"
    by (rule grace_wait_ends [where t = 15000]) (simp_all add: undisturbed_def)
  ultimately show ?thesis by (simp only: Let_def)
qed

end
