(* ===== verification/Flow_Net.thy ===== *)
theory Flow_Net
  imports Session_Record
begin

text \<open>
  The two ends of a session negotiating its emitter: the setup of both records, the network
  between their control threads and one step of either (\<^verbatim>\<open>session/control.rs\<close>,
  \<^verbatim>\<open>session/handshake.rs\<close>, the flow messages). The network holds everything ever sent and
  may deliver it late, in any order, more than once or never, which covers a control
  stream that drops and is resumed.
\<close>

subsection \<open>Single operations\<close>

lemma flow_queue_cases:
  assumes "flow_queue offer f = (res, f')"
  obtains (same) "f' = f"
    | (again) "fn_pending f = None" "f' = f\<lparr>fn_pending := Some (fn_local f), fn_sent := False\<rparr>"
    | (fresh) "f' = f\<lparr>fn_local := offer, fn_pending := Some offer, fn_sent := False\<rparr>"
        "flow_offer_is_valid offer" "fo_proposer offer = fo_proposer (fn_local f)"
        "fo_generation (fn_local f) < fo_generation offer"
proof (cases "f' = f")
  case True
  then show thesis by (rule same)
next
  case False
  have eq: "offer = fn_local f" if "fo_generation offer = fo_generation (fn_local f)"
    "fo_emitter offer = fo_emitter (fn_local f)" "fo_proposer offer = fo_proposer (fn_local f)"
    using that by (cases offer; cases "fn_local f") simp
  show thesis
  proof (cases "offer = fn_local f")
    case True
    show thesis
      by (rule again) (use assms False True in \<open>simp_all add: flow_queue_def split: if_splits\<close>)
  next
    case new: False
    have valid: "flow_offer_is_valid offer" "fo_proposer offer = fo_proposer (fn_local f)"
      "\<not> fo_generation offer < fo_generation (fn_local f)"
      "\<not> (fo_generation offer = fo_generation (fn_local f) \<and>
          fo_emitter offer \<noteq> fo_emitter (fn_local f))"
      "f' = f\<lparr>fn_local := offer, fn_pending := Some offer, fn_sent := False\<rparr>"
      using assms False new by (simp_all add: flow_queue_def split: if_splits)
    have "fo_generation offer \<noteq> fo_generation (fn_local f)"
      using valid(2,4) eq new by blast
    with valid(3) have "fo_generation (fn_local f) < fo_generation offer" by simp
    then show thesis by (rule fresh [OF valid(5,1,2)])
  qed
qed

subsection \<open>The setup of a session\<close>

text \<open>
  What both ends know when the session is established: their device ids, who emits, and
  the direction and generation each has configured for itself.
\<close>

record flow_setup =
  su_ident :: "side \<Rightarrow> string"
  su_emitting :: "side \<Rightarrow> bool"
  su_generation :: "side \<Rightarrow> u64"
  su_direction :: "side \<Rightarrow> relay_direction"

definition well_set_up :: "flow_setup \<Rightarrow> bool" where
  "well_set_up P =
     (su_ident P Client \<noteq> su_ident P Host \<and> su_emitting P Client \<noteq> su_emitting P Host \<and>
      \<not> is_blank (su_ident P Client) \<and> \<not> is_blank (su_ident P Host))"

definition init_offer :: "flow_setup \<Rightarrow> side \<Rightarrow> flow_offer" where
  "init_offer P s =
     initial_flow_offer (su_ident P s) (su_ident P (peer_side s)) (su_emitting P s)
       (su_generation P s)"

definition init_session :: "flow_setup \<Rightarrow> side \<Rightarrow> session_record" where
  "init_session P s =
     \<lparr>sr_peer = su_ident P (peer_side s),
      sr_active_roles = role_bits \<lparr>emit = su_emitting P s, receive = \<not> su_emitting P s\<rparr>,
      sr_direction = with_initial_flow
        \<lparr>do_generation = su_generation P s, do_direction = su_direction P s,
         do_device = su_ident P s\<rparr>
        (su_ident P s) (su_ident P (peer_side s)) (su_emitting P s) (su_generation P s),
      sr_control_generation = 1, sr_control_state = Control_Active\<rparr>"

subsection \<open>Steps\<close>

text \<open>
  A received offer is resolved in the record, acknowledged on the stream and only then applied
  to the audio roles: when the acknowledgement cannot be written, \<^verbatim>\<open>apply_flow_offer\<close> returns the
  error, the resolution is lost and the channel is dropped. \<open>nt_unapplied\<close> is a history of
  that: the ends whose last change of the winner was lost this way.
\<close>

record flow_net =
  nt_session :: "side \<Rightarrow> session_record"
  nt_offers :: "side \<Rightarrow> flow_offer set"
  nt_acks :: "side \<Rightarrow> flow_ack set"
  nt_unapplied :: "side set"

definition with_session :: "side \<Rightarrow> session_record \<Rightarrow> flow_net \<Rightarrow> flow_net" where
  "with_session s r c = c\<lparr>nt_session := (nt_session c)(s := r)\<rparr>"

definition with_offer :: "side \<Rightarrow> flow_offer \<Rightarrow> flow_net \<Rightarrow> flow_net" where
  "with_offer s x c = c\<lparr>nt_offers := (nt_offers c)(s := insert x (nt_offers c s))\<rparr>"

definition with_ack :: "side \<Rightarrow> flow_ack \<Rightarrow> flow_net \<Rightarrow> flow_net" where
  "with_ack s a c = c\<lparr>nt_acks := (nt_acks c)(s := insert a (nt_acks c s))\<rparr>"

definition applied :: "side \<Rightarrow> flow_resolution option \<Rightarrow> flow_net \<Rightarrow> flow_net" where
  "applied s res c = (if res = None then c else c\<lparr>nt_unapplied := nt_unapplied c - {s}\<rparr>)"

definition not_applied :: "side \<Rightarrow> flow_resolution option \<Rightarrow> flow_net \<Rightarrow> flow_net" where
  "not_applied s res c = (if res = None then c else c\<lparr>nt_unapplied := insert s (nt_unapplied c)\<rparr>)"

definition after_resolution :: "flow_resolution option \<Rightarrow> session_record \<Rightarrow> session_record" where
  "after_resolution res r =
     (case res of None \<Rightarrow> r | Some x \<Rightarrow> snd (emit_flow_resolution x r))"

definition init_net :: "flow_setup \<Rightarrow> flow_net" where
  "init_net P = \<lparr>nt_session = init_session P, nt_offers = (\<lambda>_. {}), nt_acks = (\<lambda>_. {}),
     nt_unapplied = {}\<rparr>"

text \<open>
  A user chooses an emitter at either end, or the control threads exchange messages. The write
  of the acknowledgement succeeds (\<open>offer\<close>) or fails (\<open>unwritten\<close>).
\<close>

datatype flow_event = Choose | Exchange

inductive flow_step :: "flow_event \<Rightarrow> flow_net \<Rightarrow> flow_net \<Rightarrow> bool" where
  choose: "queue_flow_offer x (nt_session c s) = (res, r) \<Longrightarrow>
    flow_step Choose c (with_session s r c)"
| flush: "pending_flow_offer (nt_session c s) = (Some x, r) \<Longrightarrow>
    flow_step Exchange c (with_offer s x (with_session s (mark_flow_offer_sent x r) c))"
| resend: "flow_step Exchange c (with_session s (reset_flow_offer_send (nt_session c s)) c)"
| offer: "x \<in> nt_offers c (peer_side s) \<Longrightarrow>
    receive_flow_offer x (nt_session c s) = (Inr (a, res), r) \<Longrightarrow>
    flow_step Exchange c
      (applied s res (with_ack s a (with_session s (after_resolution res r) c)))"
| unwritten: "x \<in> nt_offers c (peer_side s) \<Longrightarrow>
    receive_flow_offer x (nt_session c s) = (Inr (a, res), r) \<Longrightarrow>
    flow_step Exchange c (not_applied s res (with_session s r c))"
| refuse: "x \<in> nt_offers c (peer_side s) \<Longrightarrow>
    receive_flow_offer x (nt_session c s) = (Inl e, r) \<Longrightarrow>
    flow_step Exchange c (with_session s r c)"
| ack: "a \<in> nt_acks c (peer_side s) \<Longrightarrow>
    receive_flow_ack a (nt_session c s) = (res, r) \<Longrightarrow>
    flow_step Exchange c (applied s res (with_session s (after_resolution res r) c))"

inductive flow_reachable :: "flow_setup \<Rightarrow> flow_net \<Rightarrow> bool" for P where
  start: "flow_reachable P (init_net P)"
| step: "flow_reachable P c \<Longrightarrow> flow_step e c c' \<Longrightarrow> flow_reachable P c'"

definition negotiation :: "session_record \<Rightarrow> flow_negotiation" where
  "negotiation r = the (dn_flow (sr_direction r))"

definition settled :: "flow_net \<Rightarrow> bool" where
  "settled c =
     (fn_pending (negotiation (nt_session c Client)) = None \<and>
      fn_pending (negotiation (nt_session c Host)) = None)"

end
