(* ===== verification/Flow_Props.thy ===== *)
theory Flow_Props
  imports Flow_Net
begin

text \<open>
  Agreement of the two ends of a session on its emitter. The invariant says of each end
  that everything it believes was proposed by one of the two, that its own choice stays
  queued until it is resolved, and that a choice it no longer queues is known to its peer.
\<close>

subsection \<open>Genuine offers\<close>

text \<open>\<open>L\<close> gives the current offer of each end, \<open>offered_by\<close> the offers an end can have made.\<close>

definition offered_by :: "flow_setup \<Rightarrow> (side \<Rightarrow> flow_offer) \<Rightarrow> side \<Rightarrow> flow_offer \<Rightarrow> bool" where
  "offered_by P L s x =
     (flow_offer_is_valid x \<and> fo_proposer x = su_ident P s \<and>
      su_generation P s \<le> fo_generation x \<and> fo_generation x \<le> fo_generation (L s) \<and>
      (fo_generation x = su_generation P s \<longrightarrow> x = init_offer P s) \<and>
      (fo_generation x = fo_generation (L s) \<longrightarrow> x = L s))"

definition offered :: "flow_setup \<Rightarrow> (side \<Rightarrow> flow_offer) \<Rightarrow> flow_offer \<Rightarrow> bool" where
  "offered P L x = (\<exists>s. offered_by P L s x)"

definition behind ::
    "flow_setup \<Rightarrow> (side \<Rightarrow> flow_offer) \<Rightarrow> side \<Rightarrow> flow_offer \<Rightarrow> u64 \<Rightarrow> string \<Rightarrow> bool" where
  "behind P L s R g e =
     (\<exists>w. offered P L w \<and> fo_generation w = g \<and> fo_emitter w = e \<and>
          flow_key (init_offer P s) \<le> flow_key w \<and> flow_key w \<le> flow_key R)"

lemma init_offer_parts [simp]:
  "fo_generation (init_offer P s) = su_generation P s"
  "fo_proposer (init_offer P s) = su_ident P s"
  by (simp_all add: init_offer_def initial_flow_offer_def)

lemma init_offer_emitter:
  "well_set_up P \<Longrightarrow> fo_emitter (init_offer P s) = fo_emitter (init_offer P t)"
  by (cases s; cases t; cases "su_emitting P Client"; cases "su_emitting P Host")
    (simp_all add: well_set_up_def init_offer_def initial_flow_offer_def)

lemma ident_distinct: "well_set_up P \<Longrightarrow> su_ident P s = su_ident P t \<Longrightarrow> s = t"
  by (cases s; cases t) (auto simp: well_set_up_def)

lemma init_offer_valid: "well_set_up P \<Longrightarrow> flow_offer_is_valid (init_offer P s)"
  by (cases s) (simp_all add: well_set_up_def init_offer_def initial_flow_offer_def
      flow_offer_is_valid_def)

lemma flow_key_generation: "flow_key a \<le> flow_key b \<Longrightarrow> fo_generation a \<le> fo_generation b"
  by (auto simp: flow_key_def less_eq_prod_def)

lemma flow_key_newer: "fo_generation a < fo_generation b \<Longrightarrow> flow_key a < flow_key b"
  by (simp add: flow_key_def less_prod_def)

lemma offered_by_le: "offered_by P L s x \<Longrightarrow> flow_key x \<le> flow_key (L s)"
  unfolding offered_by_def by (metis flow_key_newer order.not_eq_order_implies_strict less_imp_le order_refl)

lemma offered_by_ge: "offered_by P L s x \<Longrightarrow> flow_key (init_offer P s) \<le> flow_key x"
  unfolding offered_by_def
  by (metis flow_key_newer init_offer_parts(1) order.not_eq_order_implies_strict less_imp_le
      order_refl)

lemma offered_by_top: "offered_by P L s x \<Longrightarrow> flow_key (L s) \<le> flow_key x \<Longrightarrow> x = L s"
  using flow_key_generation [of "L s" x] by (auto simp: offered_by_def)

lemma offered_by_init:
  "offered_by P L s x \<Longrightarrow> L s = init_offer P s \<Longrightarrow> x = init_offer P s"
  by (auto simp: offered_by_def)

lemma offered_byI: "offered_by P L s x \<Longrightarrow> offered P L x"
  by (auto simp: offered_def)

lemma offeredE:
  assumes "offered P L x"
  obtains "offered_by P L s x" | "offered_by P L (peer_side s) x"
proof -
  obtain t where t: "offered_by P L t x" using assms by (auto simp: offered_def)
  show thesis
  proof (cases "t = s")
    case True
    then show thesis using t that(1) by simp
  next
    case False
    then have "t = peer_side s" by (cases s; cases t) simp_all
    then show thesis using t that(2) by simp
  qed
qed

lemma offered_by_resolve:
  "offered_by P L s a \<Longrightarrow> offered_by P L s b \<Longrightarrow> offered_by P L s (resolve_flow_offers a b)"
  using flow.resolve_either [of a b] by auto

lemma offered_resolve:
  "offered P L a \<Longrightarrow> offered P L b \<Longrightarrow> offered P L (resolve_flow_offers a b)"
  using flow.resolve_either [of a b] by auto

subsection \<open>Progress of the offers\<close>

definition advances ::
    "flow_setup \<Rightarrow> (side \<Rightarrow> flow_offer) \<Rightarrow> (side \<Rightarrow> flow_offer) \<Rightarrow> bool" where
  "advances P L L' = (\<forall>s x. offered_by P L s x \<longrightarrow> offered_by P L' s x)"

lemma advances_refl [simp]: "advances P L L"
  by (simp add: advances_def)

lemma advances_offered: "advances P L L' \<Longrightarrow> offered P L x \<Longrightarrow> offered P L' x"
  by (auto simp: advances_def offered_def)

lemma behind_mono:
  "behind P L s R g e \<Longrightarrow> advances P L L' \<Longrightarrow> flow_key R \<le> flow_key R' \<Longrightarrow>
   behind P L' s R' g e"
  unfolding behind_def
  by (elim exE conjE, intro exI conjI) (assumption | rule advances_offered | erule order_trans)+

lemma advances_fresh:
  assumes "fo_generation (L s) < fo_generation x"
  shows "advances P L (L(s := x))"
  using assms by (auto simp: advances_def offered_by_def)

lemma offered_by_fresh:
  assumes "offered_by P L s (L s)" "fo_generation (L s) < fo_generation x"
    "flow_offer_is_valid x" "fo_proposer x = fo_proposer (L s)"
  shows "offered_by P (L(s := x)) s x"
  using assms by (auto simp: offered_by_def)

subsection \<open>The invariant of one end\<close>

text \<open>\<open>R\<close> is the winner of the peer.\<close>

definition nego_ok ::
    "flow_setup \<Rightarrow> (side \<Rightarrow> flow_offer) \<Rightarrow> side \<Rightarrow> flow_offer \<Rightarrow> flow_negotiation \<Rightarrow> bool" where
  "nego_ok P L s R f =
     (fn_local f = L s \<and> offered_by P L s (L s) \<and> offered P L (fn_resolved f) \<and>
      (\<forall>k. fn_remote f = Some k \<longrightarrow> offered_by P L (peer_side s) k) \<and>
      (\<forall>p. fn_pending f = Some p \<longrightarrow> p = L s) \<and>
      (fn_pending f = None \<longrightarrow>
         flow_key (L s) \<le> flow_key (fn_resolved f) \<and>
         (L s = init_offer P s \<or> flow_key (L s) < flow_key (fn_resolved f) \<or>
          behind P L (peer_side s) R (fo_generation (L s)) (fo_emitter (L s)))))"

lemma nego_okD:
  assumes "nego_ok P L s R f"
  shows "fn_local f = L s" "offered_by P L s (L s)" "offered P L (fn_resolved f)"
    "fn_remote f = Some k \<Longrightarrow> offered_by P L (peer_side s) k"
    "fn_pending f = Some p \<Longrightarrow> p = L s"
    "fn_pending f = None \<Longrightarrow> flow_key (L s) \<le> flow_key (fn_resolved f)"
    "fn_pending f = None \<Longrightarrow> L s = init_offer P s \<or> flow_key (L s) < flow_key (fn_resolved f) \<or>
       behind P L (peer_side s) R (fo_generation (L s)) (fo_emitter (L s))"
  using assms by (simp_all add: nego_ok_def)

lemma nego_ok_mono:
  assumes "nego_ok P L s R f" "advances P L L'" "L' s = L s" "flow_key R \<le> flow_key R'"
  shows "nego_ok P L' s R' f"
proof -
  have "offered_by P L' s (L' s)" "offered P L' (fn_resolved f)"
    "\<forall>k. fn_remote f = Some k \<longrightarrow> offered_by P L' (peer_side s) k"
    using nego_okD(2-4) [OF assms(1)] assms(2,3) advances_offered
    by (simp_all add: advances_def)
  moreover have "behind P L' (peer_side s) R' (fo_generation (L s)) (fo_emitter (L s))"
    if "behind P L (peer_side s) R (fo_generation (L s)) (fo_emitter (L s))"
    using behind_mono [OF that assms(2,4)] .
  ultimately show ?thesis
    using assms(1) by (auto simp: nego_ok_def assms(3))
qed

lemma nego_ok_queue:
  assumes ok: "nego_ok P L s R f" and q: "flow_queue x f = (res, f')"
  defines "L' \<equiv> L(s := fn_local f')"
  shows "advances P L L'" "nego_ok P L' s R f'" "fn_resolved f' = fn_resolved f"
proof -
  have "advances P L L' \<and> nego_ok P L' s R f' \<and> fn_resolved f' = fn_resolved f"
    using q
  proof (cases rule: flow_queue_cases)
    case same
    moreover have "L' = L" using same nego_okD(1) [OF ok] by (simp add: L'_def)
    ultimately show ?thesis using ok by simp
  next
    case again
    moreover have "L' = L" using again nego_okD(1) [OF ok] by (simp add: L'_def)
    ultimately show ?thesis using ok by (simp add: nego_ok_def)
  next
    case fresh
    then have L': "L' = L(s := x)" and gen: "fo_generation (L s) < fo_generation x"
      using nego_okD(1) [OF ok] by (simp_all add: L'_def)
    have adv: "advances P L L'" unfolding L' by (rule advances_fresh) (rule gen)
    have "offered_by P L' s x"
      unfolding L' using fresh nego_okD(1,2) [OF ok] gen by (intro offered_by_fresh) simp_all
    moreover have "\<forall>k. fn_remote f = Some k \<longrightarrow> offered_by P L' (peer_side s) k"
      using adv nego_okD(4) [OF ok] by (simp add: advances_def)
    ultimately have "nego_ok P L' s R f'"
      using fresh advances_offered [OF adv nego_okD(3) [OF ok]] by (simp add: nego_ok_def L')
    then show ?thesis using adv fresh by simp
  qed
  then show "advances P L L'" "nego_ok P L' s R f'" "fn_resolved f' = fn_resolved f"
    by simp_all
qed

lemma flow_receive_offer_valid:
  assumes "flow_offer_is_valid x" and "flow_receive_offer x f = (res, f')"
  obtains a r where "res = Inr (a, r)"
    "fn_resolved f' = resolve_flow_offers (fn_resolved f) (resolve_flow_offers (fn_local f) x)"
    "fn_local f' = fn_local f"
    "fn_remote f' = Some (case fn_remote f of Some p \<Rightarrow> resolve_flow_offers p x | None \<Rightarrow> x)"
    "fn_pending f' = (if fn_resolved f' = fn_local f then fn_pending f else None)"
    "a = \<lparr>fa_generation = fo_generation (fn_resolved f'), fa_emitter = fo_emitter (fn_resolved f')\<rparr>"
    "\<And>y. r = Some y \<Longrightarrow> fr_winner y = fn_resolved f'"
    "r = None \<Longrightarrow> fn_resolved f' = fn_resolved f"
proof -
  let ?w = "resolve_flow_offers (fn_resolved f) (resolve_flow_offers (fn_local f) x)"
  let ?r = "case fn_remote f of Some p \<Rightarrow> resolve_flow_offers p x | None \<Rightarrow> x"
  let ?a = "\<lparr>fa_generation = fo_generation ?w, fa_emitter = fo_emitter ?w\<rparr>"
  let ?c = "if ?w = fn_resolved f then None else Some \<lparr>fr_winner = ?w, fr_changed = True\<rparr>"
  have "flow_receive_offer x f = (Inr (?a, ?c),
       if ?w = fn_local f then f\<lparr>fn_remote := Some ?r, fn_resolved := ?w\<rparr>
       else f\<lparr>fn_remote := Some ?r, fn_resolved := ?w, fn_pending := None, fn_sent := False\<rparr>)"
    using assms(1) by (simp add: flow_receive_offer_def Let_def)
  with assms(2) show thesis by (intro that [of ?a ?c]) (auto split: if_splits)
qed

lemma nego_ok_receive_offer:
  assumes ok: "nego_ok P L s R f" and x: "offered_by P L (peer_side s) x"
    and rcv: "flow_receive_offer x f = (Inr (a, r), f')"
  shows "nego_ok P L s R f'" "flow_key (fn_resolved f) \<le> flow_key (fn_resolved f')"
    "behind P L s (fn_resolved f') (fa_generation a) (fa_emitter a)"
proof -
  note D = nego_okD [OF ok]
  have valid: "flow_offer_is_valid x" using x by (simp add: offered_by_def)
  from valid rcv have
    w: "fn_resolved f' = resolve_flow_offers (fn_resolved f) (resolve_flow_offers (L s) x)"
    and loc: "fn_local f' = L s"
    and rem: "fn_remote f' = Some (case fn_remote f of Some p \<Rightarrow> resolve_flow_offers p x | None \<Rightarrow> x)"
    and pend: "fn_pending f' = (if fn_resolved f' = L s then fn_pending f else None)"
    and a: "fa_generation a = fo_generation (fn_resolved f')"
      "fa_emitter a = fo_emitter (fn_resolved f')"
    by (auto elim!: flow_receive_offer_valid simp: D(1))
  have key: "flow_key (fn_resolved f') =
      max (flow_key (fn_resolved f)) (max (flow_key (L s)) (flow_key x))"
    by (simp add: w flow.key_resolve)
  then show grow: "flow_key (fn_resolved f) \<le> flow_key (fn_resolved f')" by simp
  have off: "offered P L (fn_resolved f')"
    unfolding w by (intro offered_resolve D(3) offered_byI [OF D(2)] offered_byI [OF x])
  have local_le: "flow_key (L s) \<le> flow_key (fn_resolved f')" by (simp add: key le_max_iff_disj)
  have "\<forall>k. fn_remote f' = Some k \<longrightarrow> offered_by P L (peer_side s) k"
    using D(4) x by (auto simp: rem offered_by_resolve split: option.splits)
  moreover have "L s = init_offer P s \<or> flow_key (L s) < flow_key (fn_resolved f') \<or>
      behind P L (peer_side s) R (fo_generation (L s)) (fo_emitter (L s))"
    if "fn_pending f' = None"
  proof (cases "fn_resolved f' = L s")
    case True
    then have "fn_pending f = None" using that pend by simp
    from D(7) [OF this] show ?thesis using grow by (auto dest: less_le_trans)
  next
    case False
    then have "flow_key (L s) \<noteq> flow_key (fn_resolved f')" using flow_key_inject by metis
    then have "flow_key (L s) < flow_key (fn_resolved f')"
      using local_le by (metis order.not_eq_order_implies_strict)
    then show ?thesis by simp
  qed
  ultimately show "nego_ok P L s R f'"
    using D(2,5) off local_le by (simp add: nego_ok_def loc pend)
  show "behind P L s (fn_resolved f') (fa_generation a) (fa_emitter a)"
    unfolding behind_def a
    using off order_trans [OF offered_by_ge [OF D(2)] local_le] by blast
qed

lemma flow_receive_ack_cases:
  assumes "flow_receive_ack a peer f = (res, f')"
  obtains (ignored) "f' = f" "res = None"
    | (taken) p w y where "fn_pending f = Some p"
      "w = p \<and> fa_generation a = fo_generation p \<and> fa_emitter a = fo_emitter p \<or>
       w = \<lparr>fo_generation = fa_generation a, fo_emitter = fa_emitter a, fo_proposer = peer\<rparr> \<and>
       \<not> (fa_generation a = fo_generation p \<and> fa_emitter a = fo_emitter p) \<and>
       resolve_flow_offers p w = w"
      "f' = f\<lparr>fn_resolved := resolve_flow_offers (fn_resolved f) w, fn_pending := None,
              fn_sent := False\<rparr>"
      "res = Some y" "fr_winner y = resolve_flow_offers (fn_resolved f) w"
proof (cases "f' = f \<and> res = None")
  case True
  then show thesis using ignored by simp
next
  case False
  then obtain p where p: "fn_pending f = Some p" "flow_ack_is_valid a"
    using assms by (cases "fn_pending f") (auto simp: flow_receive_ack_def split: if_splits)
  let ?r = "\<lparr>fo_generation = fa_generation a, fo_emitter = fa_emitter a, fo_proposer = peer\<rparr>"
  let ?m = "fa_generation a = fo_generation p \<and> fa_emitter a = fo_emitter p"
  show thesis
  proof (cases ?m)
    case True
    then show thesis
      using assms p by (intro taken [of p p]) (auto simp: flow_receive_ack_def Let_def)
  next
    case other: False
    then have "resolve_flow_offers p ?r = ?r"
      using assms p False by (auto simp: flow_receive_ack_def Let_def split: if_splits)
    then show thesis
      using assms p other False
      by (intro taken [of p ?r]) (auto simp: flow_receive_ack_def Let_def split: if_splits)
  qed
qed

lemma nego_ok_receive_ack:
  assumes ok: "nego_ok P L s R f" and su: "well_set_up P"
    and a: "behind P L (peer_side s) R (fa_generation a) (fa_emitter a)"
    and rcv: "flow_receive_ack a (su_ident P (peer_side s)) f = (res, f')"
  shows "nego_ok P L s R f'" "flow_key (fn_resolved f) \<le> flow_key (fn_resolved f')"
    "res = None \<Longrightarrow> fn_resolved f' = fn_resolved f"
    "res = Some y \<Longrightarrow> fr_winner y = fn_resolved f'"
proof -
  note D = nego_okD [OF ok]
  have "nego_ok P L s R f' \<and> flow_key (fn_resolved f) \<le> flow_key (fn_resolved f') \<and>
      (res = None \<longrightarrow> fn_resolved f' = fn_resolved f) \<and>
      (\<forall>y. res = Some y \<longrightarrow> fr_winner y = fn_resolved f')"
    using rcv
  proof (cases rule: flow_receive_ack_cases)
    case ignored
    then show ?thesis using ok by simp
  next
    case (taken p w z)
    have p: "p = L s" by (rule D(5) [OF taken(1)])
    have w: "offered P L w \<and> flow_key (L s) \<le> flow_key w \<and>
       (flow_key (L s) < flow_key w \<or>
        behind P L (peer_side s) R (fo_generation (L s)) (fo_emitter (L s)))"
      using taken(2)
    proof (elim disjE conjE)
      assume "w = p" "fa_generation a = fo_generation p" "fa_emitter a = fo_emitter p"
      then show ?thesis using a offered_byI [OF D(2)] by (simp add: p)
    next
      assume w: "w = \<lparr>fo_generation = fa_generation a, fo_emitter = fa_emitter a,
                       fo_proposer = su_ident P (peer_side s)\<rparr>"
        and other: "\<not> (fa_generation a = fo_generation p \<and> fa_emitter a = fo_emitter p)"
        and win: "resolve_flow_offers p w = w"
      have le: "flow_key (L s) \<le> flow_key w"
        using win flow.key_resolve [of p w] by (simp add: p max_def split: if_splits)
      moreover have "L s \<noteq> w" using other by (auto simp: p w)
      ultimately have less: "flow_key (L s) < flow_key w"
        using flow_key_inject by (metis order.not_eq_order_implies_strict)
      obtain v where v: "offered P L v" "fo_generation v = fa_generation a"
        "fo_emitter v = fa_emitter a" using a by (auto simp: behind_def)
      from v(1) have "offered P L w"
      proof (cases rule: offeredE [where s = s])
        case 1
        have "fo_generation (L s) \<le> fo_generation v"
          using flow_key_generation [OF le] v(2) by (simp add: w)
        then have "v = L s" using 1 by (auto simp: offered_by_def)
        then show ?thesis using v other by (simp add: p)
      next
        case 2
        then have "v = w" using v by (cases v) (simp add: w offered_by_def)
        then show ?thesis using v by simp
      qed
      then show ?thesis using le less by simp
    qed
    have key: "flow_key (fn_resolved f') = max (flow_key (fn_resolved f)) (flow_key w)"
      by (simp add: taken(3) flow.key_resolve)
    have "nego_ok P L s R f'"
      using D(1,2,4) w offered_resolve [OF D(3), of w] key
      by (auto simp: nego_ok_def taken(3) flow.key_resolve le_max_iff_disj less_max_iff_disj)
    then show ?thesis using key taken(3-5) by simp
  qed
  then show "nego_ok P L s R f'" "flow_key (fn_resolved f) \<le> flow_key (fn_resolved f')"
    "res = None \<Longrightarrow> fn_resolved f' = fn_resolved f"
    "res = Some y \<Longrightarrow> fr_winner y = fn_resolved f'" by simp_all
qed

subsection \<open>One end\<close>

definition roles_of :: "flow_setup \<Rightarrow> side \<Rightarrow> flow_offer \<Rightarrow> roles" where
  "roles_of P s w = (if su_ident P s = fo_emitter w then emit_only else receive_only)"

definition session_ok ::
    "flow_setup \<Rightarrow> (side \<Rightarrow> flow_offer) \<Rightarrow> (side \<Rightarrow> flow_offer) \<Rightarrow> side \<Rightarrow> session_record \<Rightarrow> bool" where
  "session_ok P L R s r =
     (sr_peer r = su_ident P (peer_side s) \<and> local_device_id r = su_ident P s \<and>
      (\<exists>f. dn_flow (sr_direction r) = Some f \<and> fn_resolved f = R s \<and>
           nego_ok P L s (R (peer_side s)) f))"

definition node_ok ::
    "flow_setup \<Rightarrow> (side \<Rightarrow> flow_offer) \<Rightarrow> (side \<Rightarrow> flow_offer) \<Rightarrow> side \<Rightarrow> flow_net \<Rightarrow> bool" where
  "node_ok P L R s c =
     (session_ok P L R s (nt_session c s) \<and>
      (s \<notin> nt_unapplied c \<longrightarrow> local_roles (nt_session c s) = roles_of P s (R s)) \<and>
      (\<forall>x \<in> nt_offers c s. offered_by P L s x) \<and>
      (\<forall>a \<in> nt_acks c s. behind P L s (R s) (fa_generation a) (fa_emitter a)))"

definition net_ok :: "flow_setup \<Rightarrow> flow_net \<Rightarrow> bool" where
  "net_ok P c = (\<exists>L R. \<forall>s. node_ok P L R s c)"

lemma put_flow_parts [simp]:
  "sr_peer (put_flow f r) = sr_peer r" "local_device_id (put_flow f r) = local_device_id r"
  "local_roles (put_flow f r) = local_roles r" "dn_flow (sr_direction (put_flow f r)) = Some f"
  by (simp_all add: put_flow_def local_device_id_def local_roles_def)

lemma set_local_roles_one_way:
  "is_one_way roles \<Longrightarrow> local_roles (set_local_roles roles r) = roles"
  by (cases roles; cases "emit roles")
    (auto simp: set_local_roles_def local_roles_def role_bits_def is_one_way_def emit_only_def
      receive_only_def Let_def)

lemma set_local_roles_parts [simp]:
  "sr_peer (set_local_roles x r) = sr_peer r"
  "sr_direction (set_local_roles x r) = sr_direction r"
  "local_device_id (set_local_roles x r) = local_device_id r"
  by (simp_all add: set_local_roles_def local_device_id_def Let_def)

lemma apply_flow_parts [simp]:
  "sr_peer (apply_flow x r) = sr_peer r" "sr_direction (apply_flow x r) = sr_direction r"
  "local_device_id (apply_flow x r) = local_device_id r"
  by (simp_all add: apply_flow_def split: option.splits)

lemma after_resolution_parts [simp]:
  "sr_peer (after_resolution res r) = sr_peer r"
  "sr_direction (after_resolution res r) = sr_direction r"
  "local_device_id (after_resolution res r) = local_device_id r"
  by (simp_all add: after_resolution_def emit_flow_resolution_def Let_def split: option.splits)

lemma snd_emit_flow_resolution:
  "snd (emit_flow_resolution x r) = apply_flow (offer_flow (fr_winner x)) r"
  by (simp add: emit_flow_resolution_def Let_def split: option.splits)

lemma ident_not_blank: "well_set_up P \<Longrightarrow> \<not> is_blank (su_ident P s)"
  by (cases s) (simp_all add: well_set_up_def)

lemma offered_emitter: "offered P L w \<Longrightarrow> \<not> is_blank (fo_emitter w)"
  by (auto simp: offered_def offered_by_def flow_offer_is_valid_def)

lemma after_resolution_roles:
  assumes "well_set_up P" "offered P L w" "local_device_id r = su_ident P s"
    and "res = None \<Longrightarrow> local_roles r = roles_of P s w"
    and "\<And>y. res = Some y \<Longrightarrow> fr_winner y = w"
  shows "local_roles (after_resolution res r) = roles_of P s w"
proof (cases res)
  case None
  then show ?thesis using assms(4) by (simp add: after_resolution_def)
next
  case (Some y)
  have "local_roles (apply_flow (offer_flow w) r) = roles_of P s w"
    using ident_not_blank [OF assms(1), of s] offered_emitter [OF assms(2)] assms(3)
    by (simp add: apply_flow_def flow_mode_for_def flow_is_valid_def offer_flow_def roles_of_def
        set_local_roles_one_way is_one_way_def emit_only_def receive_only_def)
  then show ?thesis
    using assms(5) Some by (simp add: after_resolution_def snd_emit_flow_resolution)
qed

lemma session_okE:
  assumes "session_ok P L R s r"
  obtains f where "dn_flow (sr_direction r) = Some f" "fn_resolved f = R s"
    "nego_ok P L s (R (peer_side s)) f"
  using assms by (auto simp: session_ok_def)

lemma session_ok_mono:
  assumes "session_ok P L R s r" "advances P L L'" "L' s = L s" "R' s = R s"
    "flow_key (R (peer_side s)) \<le> flow_key (R' (peer_side s))"
  shows "session_ok P L' R' s r"
  using assms nego_ok_mono [OF _ assms(2,3,5)] by (auto simp: session_ok_def)

lemma ensure_flow_present:
  "dn_flow (sr_direction r) = Some f \<Longrightarrow> session_ensure_flow r = (f, r)"
  by (simp add: session_ensure_flow_def ensure_flow_def Let_def)

subsection \<open>Both ends\<close>

lemma peer_side_neq [simp]: "peer_side s \<noteq> s" "s \<noteq> peer_side s"
  by (cases s; simp)+

lemma net_ok_update:
  assumes inv: "\<forall>t. node_ok P L R t c" and new: "node_ok P (L(s := l)) (R(s := w)) s c'"
    and adv: "advances P L (L(s := l))" and grow: "flow_key (R s) \<le> flow_key w"
    and rest: "\<And>t. t \<noteq> s \<Longrightarrow> nt_session c' t = nt_session c t \<and> nt_offers c' t = nt_offers c t \<and>
        nt_acks c' t = nt_acks c t \<and> (t \<in> nt_unapplied c' \<longleftrightarrow> t \<in> nt_unapplied c)"
  shows "net_ok P c'"
proof -
  have "node_ok P (L(s := l)) (R(s := w)) t c'" for t
  proof (cases "t = s")
    case True
    then show ?thesis using new by simp
  next
    case False
    then have t: "peer_side t = s" by (cases s; cases t) simp_all
    have ok: "node_ok P L R t c" using inv by simp
    have "session_ok P (L(s := l)) (R(s := w)) t (nt_session c t)"
      using ok grow False by (intro session_ok_mono [OF _ adv]) (simp_all add: node_ok_def t)
    moreover have "\<forall>a \<in> nt_acks c t. behind P (L(s := l)) t (R t) (fa_generation a) (fa_emitter a)"
      using ok behind_mono [OF _ adv order_refl] by (simp add: node_ok_def)
    ultimately show ?thesis
      using ok rest [OF False] adv False by (simp add: node_ok_def advances_def)
  qed
  then show ?thesis by (auto simp: net_ok_def)
qed

text \<open>A step in which an end only moves its own record on, and keeps its roles.\<close>

lemma net_ok_session:
  assumes inv: "\<forall>t. node_ok P L R t c" and "session_ok P (L(s := l)) R s r"
    and adv: "advances P L (L(s := l))" and roles: "local_roles r = local_roles (nt_session c s)"
  shows "net_ok P (with_session s r c)"
proof (rule net_ok_update [OF inv _ adv, of "R s"])
  have "node_ok P L R s c" using inv by simp
  then show "node_ok P (L(s := l)) (R(s := R s)) s (with_session s r c)"
    using assms(2) adv behind_mono [OF _ adv order_refl] roles
    by (simp add: node_ok_def with_session_def advances_def)
qed (simp_all add: with_session_def)

lemma net_parts [simp]:
  "nt_session (with_session s r c) = (nt_session c)(s := r)"
  "nt_offers (with_session s r c) = nt_offers c" "nt_acks (with_session s r c) = nt_acks c"
  "nt_unapplied (with_session s r c) = nt_unapplied c"
  "nt_session (with_offer s x c) = nt_session c" "nt_acks (with_offer s x c) = nt_acks c"
  "nt_offers (with_offer s x c) = (nt_offers c)(s := insert x (nt_offers c s))"
  "nt_unapplied (with_offer s x c) = nt_unapplied c"
  "nt_session (with_ack s a c) = nt_session c" "nt_offers (with_ack s a c) = nt_offers c"
  "nt_acks (with_ack s a c) = (nt_acks c)(s := insert a (nt_acks c s))"
  "nt_unapplied (with_ack s a c) = nt_unapplied c"
  "nt_session (applied s res c) = nt_session c" "nt_offers (applied s res c) = nt_offers c"
  "nt_acks (applied s res c) = nt_acks c"
  "nt_unapplied (applied s res c) = (if res = None then nt_unapplied c else nt_unapplied c - {s})"
  "nt_session (not_applied s res c) = nt_session c" "nt_offers (not_applied s res c) = nt_offers c"
  "nt_acks (not_applied s res c) = nt_acks c"
  "nt_unapplied (not_applied s res c) =
     (if res = None then nt_unapplied c else insert s (nt_unapplied c))"
  by (simp_all add: with_session_def with_offer_def with_ack_def applied_def not_applied_def)

text \<open>
  A step that resolves the negotiation of an end: with its roles applied (and possibly an
  acknowledgement sent), or without.
\<close>

lemma net_ok_resolved:
  assumes inv: "\<forall>t. node_ok P L R t c" and ok: "session_ok P L (R(s := w)) s r"
    and grow: "flow_key (R s) \<le> flow_key w" and same: "res = None \<Longrightarrow> w = R s"
    and roles: "(res = None \<longrightarrow> local_roles (nt_session c s) = roles_of P s w) \<Longrightarrow>
      local_roles r = roles_of P s w"
  shows "net_ok P (applied s res (with_session s r c))"
    "behind P L s w (fa_generation a) (fa_emitter a) \<Longrightarrow>
      net_ok P (applied s res (with_ack s a (with_session s r c)))"
proof -
  have node: "node_ok P L R s c" using inv by simp
  have mine: "(s \<notin> nt_unapplied c \<longrightarrow> local_roles r = roles_of P s w) \<and>
      (res \<noteq> None \<longrightarrow> local_roles r = roles_of P s w)"
    using node same roles by (cases res) (simp_all add: node_ok_def)
  show "net_ok P (applied s res (with_session s r c))"
    by (rule net_ok_update [OF inv, of s "L s" w])
      (use node ok grow mine behind_mono [OF _ advances_refl grow] in
        \<open>simp_all add: node_ok_def split: if_splits\<close>)
  show "net_ok P (applied s res (with_ack s a (with_session s r c)))"
    if "behind P L s w (fa_generation a) (fa_emitter a)"
    by (rule net_ok_update [OF inv, of s "L s" w])
      (use node ok grow mine that behind_mono [OF _ advances_refl grow] in
        \<open>simp_all add: node_ok_def split: if_splits\<close>)
qed

lemma net_ok_unwritten:
  assumes inv: "\<forall>t. node_ok P L R t c" and ok: "session_ok P L (R(s := w)) s r"
    and grow: "flow_key (R s) \<le> flow_key w" and same: "res = None \<Longrightarrow> w = R s"
    and roles: "local_roles r = local_roles (nt_session c s)"
  shows "net_ok P (not_applied s res (with_session s r c))"
proof -
  have node: "node_ok P L R s c" using inv by simp
  show ?thesis
    by (rule net_ok_update [OF inv, of s "L s" w])
      (use node ok grow same roles behind_mono [OF _ advances_refl grow] in
        \<open>simp_all add: node_ok_def\<close>)
qed

lemma fun_upd_same [simp]: "f x = y \<Longrightarrow> f(x := y) = f"
  by (rule ext) simp

lemma session_ok_put:
  assumes "session_ok P L R s r" "nego_ok P L s (R (peer_side s)) f" "fn_resolved f = R s"
  shows "session_ok P L R s (put_flow f r)"
  using assms by (simp add: session_ok_def)

lemma nego_ok_flags:
  "nego_ok P L s R (flow_mark_sent x f) = nego_ok P L s R f"
  "nego_ok P L s R (flow_reset_send f) = nego_ok P L s R f"
  "fn_resolved (flow_mark_sent x f) = fn_resolved f" "fn_resolved (flow_reset_send f) = fn_resolved f"
  by (simp_all add: nego_ok_def flow_mark_sent_def flow_reset_send_def)

lemma choose_ok:
  assumes inv: "\<forall>t. node_ok P L R t c" and q: "queue_flow_offer x (nt_session c s) = (res, r)"
  shows "net_ok P (with_session s r c)"
proof -
  have ok: "session_ok P L R s (nt_session c s)" using inv by (simp add: node_ok_def)
  obtain f where f: "dn_flow (sr_direction (nt_session c s)) = Some f" "fn_resolved f = R s"
    "nego_ok P L s (R (peer_side s)) f" by (rule session_okE [OF ok])
  obtain res' f' where f': "flow_queue x f = (res', f')" by fastforce
  note queued = nego_ok_queue [OF f(3) f']
  have r: "r = put_flow f' (nt_session c s)"
    using q by (simp add: queue_flow_offer_def ensure_flow_present [OF f(1)] f')
  show ?thesis
  proof (rule net_ok_session [OF inv _ queued(1)])
    show "session_ok P (L(s := fn_local f')) R s r"
      unfolding r using ok queued(2,3) f(2)
      by (simp add: session_ok_def)
  qed (simp add: r)
qed

lemma flush_ok:
  assumes inv: "\<forall>t. node_ok P L R t c"
    and q: "pending_flow_offer (nt_session c s) = (Some x, r)"
  shows "net_ok P (with_offer s x (with_session s (mark_flow_offer_sent x r) c))"
proof -
  have node: "node_ok P L R s c" using inv by simp
  then have ok: "session_ok P L R s (nt_session c s)" by (simp add: node_ok_def)
  obtain f where f: "dn_flow (sr_direction (nt_session c s)) = Some f" "fn_resolved f = R s"
    "nego_ok P L s (R (peer_side s)) f" by (rule session_okE [OF ok])
  have "fn_pending f = Some x" and r: "r = nt_session c s"
    using q by (auto simp: pending_flow_offer_def ensure_flow_present [OF f(1)] flow_pending_def
        split: if_splits)
  then have "offered_by P L s x" using nego_okD(2,5) [OF f(3)] by simp
  moreover have "session_ok P L R s (mark_flow_offer_sent x r)"
    "local_roles (mark_flow_offer_sent x r) = local_roles (nt_session c s)"
    using session_ok_put [OF ok, of "flow_mark_sent x f"] f
    by (simp_all add: mark_flow_offer_sent_def r nego_ok_flags)
  ultimately have "node_ok P (L(s := L s)) (R(s := R s)) s
      (with_offer s x (with_session s (mark_flow_offer_sent x r) c))"
    using node by (simp add: node_ok_def)
  then show ?thesis
    by (rule net_ok_update [OF inv]) simp_all
qed

lemma resend_ok:
  assumes inv: "\<forall>t. node_ok P L R t c"
  shows "net_ok P (with_session s (reset_flow_offer_send (nt_session c s)) c)"
proof -
  have ok: "session_ok P L R s (nt_session c s)" using inv by (simp add: node_ok_def)
  obtain f where f: "dn_flow (sr_direction (nt_session c s)) = Some f" "fn_resolved f = R s"
    "nego_ok P L s (R (peer_side s)) f" by (rule session_okE [OF ok])
  have "session_ok P L R s (reset_flow_offer_send (nt_session c s))"
    "local_roles (reset_flow_offer_send (nt_session c s)) = local_roles (nt_session c s)"
    using session_ok_put [OF ok, of "flow_reset_send f"] f
    by (simp_all add: reset_flow_offer_send_def nego_ok_flags)
  then show ?thesis
    using net_ok_session [OF inv, of s "L s"] by simp
qed

text \<open>What an end makes of a resolved negotiation.\<close>

lemma session_ok_resolved:
  assumes ok: "session_ok P L R s r" and f: "nego_ok P L s (R (peer_side s)) f"
  shows "session_ok P L (R(s := fn_resolved f)) s (put_flow f r)"
    "session_ok P L (R(s := fn_resolved f)) s (after_resolution res (put_flow f r))"
  using ok f by (simp_all add: session_ok_def)

lemma roles_resolved:
  assumes su: "well_set_up P" and ok: "session_ok P L R s r" and f: "nego_ok P L s R' f"
    and win: "\<And>y. res = Some y \<Longrightarrow> fr_winner y = fn_resolved f"
    and old: "res = None \<longrightarrow> local_roles r = roles_of P s (fn_resolved f)"
  shows "local_roles (after_resolution res (put_flow f r)) = roles_of P s (fn_resolved f)"
  using ok old win
  by (intro after_resolution_roles [OF su nego_okD(3) [OF f]]) (simp_all add: session_ok_def)

text \<open>What receiving a genuine offer does to an end, before the acknowledgement is written.\<close>

lemma offer_received:
  assumes inv: "\<forall>t. node_ok P L R t c" and x: "x \<in> nt_offers c (peer_side s)"
    and rcv: "receive_flow_offer x (nt_session c s) = (Inr (a, res), r)"
  obtains f where "session_ok P L R s (nt_session c s)" "nego_ok P L s (R (peer_side s)) f"
    "r = put_flow f (nt_session c s)" "flow_key (R s) \<le> flow_key (fn_resolved f)"
    "behind P L s (fn_resolved f) (fa_generation a) (fa_emitter a)"
    "res = None \<Longrightarrow> fn_resolved f = R s" "\<And>y. res = Some y \<Longrightarrow> fr_winner y = fn_resolved f"
proof -
  have ok: "session_ok P L R s (nt_session c s)" using inv by (simp add: node_ok_def)
  obtain f where f: "dn_flow (sr_direction (nt_session c s)) = Some f" "fn_resolved f = R s"
    "nego_ok P L s (R (peer_side s)) f" by (rule session_okE [OF ok])
  have pr: "offered_by P L (peer_side s) x" using inv x by (simp add: node_ok_def)
  obtain out f' where f': "flow_receive_offer x f = (out, f')" by fastforce
  have out: "out = Inr (a, res)" and r: "r = put_flow f' (nt_session c s)"
    using rcv by (auto simp: receive_flow_offer_def ensure_flow_present [OF f(1)] f' split: if_splits)
  note got = nego_ok_receive_offer [OF f(3) pr f' [unfolded out]]
  have "flow_offer_is_valid x" using pr by (simp add: offered_by_def)
  then have "res = None \<Longrightarrow> fn_resolved f' = R s" "\<And>y. res = Some y \<Longrightarrow> fr_winner y = fn_resolved f'"
    using f' out f(2) by (auto elim!: flow_receive_offer_valid)
  then show thesis using that [OF ok got(1) r _ got(3)] got(2) f(2) by simp
qed

lemma offer_ok:
  assumes su: "well_set_up P" and inv: "\<forall>t. node_ok P L R t c"
    and x: "x \<in> nt_offers c (peer_side s)"
    and rcv: "receive_flow_offer x (nt_session c s) = (Inr (a, res), r)"
  shows "net_ok P (applied s res (with_ack s a (with_session s (after_resolution res r) c)))"
    "net_ok P (not_applied s res (with_session s r c))"
proof -
  obtain f where ok: "session_ok P L R s (nt_session c s)" and f: "nego_ok P L s (R (peer_side s)) f"
    and r: "r = put_flow f (nt_session c s)" and grow: "flow_key (R s) \<le> flow_key (fn_resolved f)"
    and a: "behind P L s (fn_resolved f) (fa_generation a) (fa_emitter a)"
    and same: "res = None \<Longrightarrow> fn_resolved f = R s"
    and win: "\<And>y. res = Some y \<Longrightarrow> fr_winner y = fn_resolved f"
    by (rule offer_received [OF inv x rcv]) blast
  show "net_ok P (applied s res (with_ack s a (with_session s (after_resolution res r) c)))"
    unfolding r
    by (rule net_ok_resolved(2) [OF inv session_ok_resolved(2) [OF ok f] grow same _ a],
        assumption, rule roles_resolved [OF su ok f win])
  show "net_ok P (not_applied s res (with_session s r c))"
    unfolding r
    by (rule net_ok_unwritten [OF inv session_ok_resolved(1) [OF ok f] grow same]) simp_all
qed

lemma refuse_ok:
  assumes inv: "\<forall>t. node_ok P L R t c"
    and x: "x \<in> nt_offers c (peer_side s)"
    and rcv: "receive_flow_offer x (nt_session c s) = (Inl e, r)"
  shows "False"
proof -
  have ok: "session_ok P L R s (nt_session c s)" using inv by (simp add: node_ok_def)
  obtain f where f: "dn_flow (sr_direction (nt_session c s)) = Some f" by (rule session_okE [OF ok])
  have pr: "offered_by P L (peer_side s) x" using inv x by (simp add: node_ok_def)
  obtain out f' where f': "flow_receive_offer x f = (out, f')" by fastforce
  have "flow_offer_is_valid x" using pr by (simp add: offered_by_def)
  then obtain a y where "out = Inr (a, y)" using f' by (auto elim: flow_receive_offer_valid)
  then show ?thesis
    using rcv pr ok by (auto simp: receive_flow_offer_def ensure_flow_present [OF f] f' offered_by_def
        session_ok_def split: if_splits)
qed

lemma ack_ok:
  assumes su: "well_set_up P" and inv: "\<forall>t. node_ok P L R t c"
    and a: "a \<in> nt_acks c (peer_side s)"
    and rcv: "receive_flow_ack a (nt_session c s) = (res, r)"
  shows "net_ok P (applied s res (with_session s (after_resolution res r) c))"
proof -
  have ok: "session_ok P L R s (nt_session c s)" using inv by (simp add: node_ok_def)
  obtain f where f: "dn_flow (sr_direction (nt_session c s)) = Some f" "fn_resolved f = R s"
    "nego_ok P L s (R (peer_side s)) f" by (rule session_okE [OF ok])
  have "sr_peer (nt_session c s) = su_ident P (peer_side s)" using ok by (simp add: session_ok_def)
  moreover obtain res' f' where f': "flow_receive_ack a (su_ident P (peer_side s)) f = (res', f')"
    by fastforce
  ultimately have res': "res' = res" and r: "r = put_flow f' (nt_session c s)"
    using rcv by (auto simp: receive_flow_ack_def f(1))
  have "behind P L (peer_side s) (R (peer_side s)) (fa_generation a) (fa_emitter a)"
    using inv a by (simp add: node_ok_def)
  note got = nego_ok_receive_ack [OF f(3) su this f' [unfolded res']]
  show ?thesis
    unfolding r
    by (rule net_ok_resolved(1) [OF inv session_ok_resolved(2) [OF ok got(1)]])
      (use got(2,3) f(2) roles_resolved [OF su ok got(1,4)] in simp_all)
qed

lemma init_net_ok:
  assumes su: "well_set_up P"
  shows "net_ok P (init_net P)"
proof -
  have "node_ok P (init_offer P) (init_offer P) s (init_net P)" for s
  proof -
    have pr: "offered_by P (init_offer P) s (init_offer P s)"
      using init_offer_valid [OF su] by (simp add: offered_by_def)
    have ident: "su_ident P s \<noteq> su_ident P (peer_side s)"
      using ident_distinct [OF su, of s "peer_side s"] by auto
    have "local_roles (init_session P s) = roles_of P s (init_offer P s)"
      using ident
      by (cases "su_emitting P s") (simp_all add: init_session_def local_roles_def role_bits_def
          roles_of_def init_offer_def initial_flow_offer_def)
    moreover have "nego_ok P (init_offer P) s (init_offer P (peer_side s))
        (flow_negotiation_new (init_offer P s) False)"
      using pr offered_byI [OF pr] by (simp add: nego_ok_def flow_negotiation_new_def)
    ultimately show ?thesis
      by (simp add: node_ok_def session_ok_def init_net_def init_session_def with_initial_flow_def
          direction_negotiation_new_def local_device_id_def init_offer_def flow_negotiation_new_def)
  qed
  then show ?thesis by (auto simp: net_ok_def)
qed

lemma flow_step_ok:
  assumes su: "well_set_up P" and "flow_step e c c'" and "net_ok P c"
  shows "net_ok P c'"
proof -
  obtain L R where "\<forall>s. node_ok P L R s c" using assms(3) by (auto simp: net_ok_def)
  with assms(2) show ?thesis
    by cases (auto intro: choose_ok flush_ok resend_ok offer_ok [OF su] ack_ok [OF su]
        dest: refuse_ok)
qed

lemma flow_reachable_ok: "flow_reachable P c \<Longrightarrow> well_set_up P \<Longrightarrow> net_ok P c"
  by (induction rule: flow_reachable.induct) (auto intro: init_net_ok flow_step_ok)

subsection \<open>Agreement\<close>

lemma key_antisym: "flow_key a \<le> flow_key b \<Longrightarrow> flow_key b \<le> flow_key a \<Longrightarrow> a = b"
  by (rule flow_key_inject) (rule order_antisym)

lemma winner_of_higher:
  assumes "nego_ok P L s R f" "fn_pending f = None" "flow_key (L (peer_side s)) \<le> flow_key (L s)"
  shows "fn_resolved f = L s"
proof -
  note D = nego_okD [OF assms(1)]
  have le: "flow_key (L s) \<le> flow_key (fn_resolved f)" by (rule D(6) [OF assms(2)])
  from D(3) show ?thesis
  proof (cases rule: offeredE [where s = s])
    case 1
    then show ?thesis by (rule offered_by_top) (rule le)
  next
    case 2
    then have "flow_key (fn_resolved f) \<le> flow_key (L s)"
      using offered_by_le [OF 2] assms(3) by simp
    then show ?thesis using le by (rule key_antisym)
  qed
qed

lemma emitters_agree:
  assumes su: "well_set_up P"
    and f: "nego_ok P L s (R (peer_side s)) f" "fn_pending f = None" "fn_resolved f = R s"
    and g: "nego_ok P L (peer_side s) (R s) g" "fn_pending g = None"
      "fn_resolved g = R (peer_side s)"
    and le: "flow_key (L (peer_side s)) \<le> flow_key (L s)"
  shows "fo_emitter (R (peer_side s)) = fo_emitter (L s) \<and> R s = L s"
proof -
  let ?t = "peer_side s"
  note F = nego_okD [OF f(1)] and G = nego_okD [OF g(1)]
  have Rs: "R s = L s" using winner_of_higher [OF f(1,2) le] f(3) by simp
  have Rt: "offered P L (R ?t)" "flow_key (L ?t) \<le> flow_key (R ?t)"
    using G(3) G(6) [OF g(2)] g(3) by simp_all
  have last_offer: "w = L ?t" if "offered_by P L ?t w" "fo_generation w = fo_generation (L ?t)" for w
    using that by (simp add: offered_by_def)
  have "fo_emitter (R ?t) = fo_emitter (L s)"
    using Rt(1)
  proof (cases rule: offeredE [where s = s])
    case 1
    consider "L s = init_offer P s"
      | w where "flow_key w \<le> flow_key (R ?t)" "fo_generation w = fo_generation (L s)"
      using F(7) [OF f(2)] by (auto simp: f(3) Rs behind_def)
    then show ?thesis
    proof cases
      case init: 1
      then show ?thesis using offered_by_init [OF 1] by simp
    next
      case (2 w)
      then have "fo_generation (L s) \<le> fo_generation (R ?t)"
        using flow_key_generation [of w "R ?t"] by simp
      then have "R ?t = L s" using 1 by (auto simp: offered_by_def)
      then show ?thesis by simp
    qed
  next
    case 2
    have Lt: "R ?t = L ?t" by (rule offered_by_top [OF 2 Rt(2)])
    consider (init) "L s = init_offer P s"
      | (known) w where "offered P L w" "flow_key w \<le> flow_key (L ?t)"
        "fo_generation w = fo_generation (L s)" "fo_emitter w = fo_emitter (L s)"
      using F(7) [OF f(2)] by (auto simp: f(3) Rs Lt behind_def)
    then show ?thesis
    proof cases
      case init
      consider "L ?t = init_offer P ?t"
        | w where "offered P L w" "fo_generation w = fo_generation (L ?t)"
          "fo_emitter w = fo_emitter (L ?t)" "flow_key (init_offer P s) \<le> flow_key w"
        using G(7) [OF g(2)] by (auto simp: g(3) Lt behind_def)
      then show ?thesis
      proof cases
        case 1
        then show ?thesis using init_offer_emitter [OF su, of s ?t] by (simp add: Lt init)
      next
        case (2 w)
        from 2(1) show ?thesis
        proof (cases rule: offeredE [where s = s])
          case 1
          then show ?thesis using offered_by_init [OF 1 init] 2(3) by (simp add: Lt init)
        next
          case w: 2
          then have "w = L ?t" using last_offer 2(2) by simp
          then have "L ?t = L s" using 2(4) le by (simp add: key_antisym init)
          then show ?thesis by (simp add: Lt)
        qed
      qed
    next
      case (known w)
      from known(1) show ?thesis
      proof (cases rule: offeredE [where s = s])
        case 1
        then have "w = L s" using known(3) by (simp add: offered_by_def)
        then have "L ?t = L s" using known(2) le by (simp add: key_antisym)
        then show ?thesis by (simp add: Lt)
      next
        case w: 2
        have "fo_generation w = fo_generation (L ?t)"
          using flow_key_generation [OF known(2)] flow_key_generation [OF le] known(3) by simp
        then have "w = L ?t" using last_offer w by simp
        then show ?thesis using known(4) by (simp add: Lt)
      qed
    qed
  qed
  then show ?thesis using Rs by simp
qed

lemma settled_iff: "settled c = (\<forall>s. fn_pending (negotiation (nt_session c s)) = None)"
  by (auto simp: settled_def) (metis side.exhaust)

end
