(* ===== verification/Flow_Progress.thy ===== *)
theory Flow_Progress
  imports Flow_Props
begin

text \<open>
  The negotiation of the emitter as a whole: ends with empty queues agree, and from every
  reachable state an exchange of offers and acknowledgements empties both queues, with no
  choice of a user in between. An acknowledgement that cannot be written leaves the roles of
  its end behind, so that both ends may emit.
\<close>

subsection \<open>Agreement of settled ends\<close>

text \<open>
  C10: The two ends of a session agree on who emits. Start from an established session and
  let users at either end choose emitters at any time, while the control threads exchange
  offers and acknowledgements over a network that may delay, reorder, repeat and lose them,
  with writes that fail and any number of resumed channels. Whenever neither end has a choice
  left in its queue, both name the same emitter, the one in the higher of the two current
  offers; and the audio roles of an end follow it, unless the last change of its winner was
  lost with an acknowledgement it could not write. So without such a loss the two never both
  emit.
\<close>

theorem ends_agree_on_the_emitter:
  assumes su: "well_set_up P" and reach: "flow_reachable P c" and quiet: "settled c"
  defines "mine \<equiv> \<lambda>s. fn_local (negotiation (nt_session c s))"
  shows "\<exists>e m. e = fo_emitter (mine m) \<and> (\<forall>s. flow_key (mine s) \<le> flow_key (mine m)) \<and>
    (\<forall>s. session_flow (nt_session c s) = Some \<lparr>rf_emitter = e\<rparr> \<and>
         (s \<notin> nt_unapplied c \<longrightarrow>
          local_roles (nt_session c s) = (if su_ident P s = e then emit_only else receive_only)))"
proof -
  obtain L R where inv: "\<forall>s. node_ok P L R s c"
    using flow_reachable_ok [OF reach su] by (auto simp: net_ok_def)
  have "\<exists>f. dn_flow (sr_direction (nt_session c s)) = Some f \<and> fn_resolved f = R s \<and>
      fn_pending f = None \<and> fn_local f = L s \<and> nego_ok P L s (R (peer_side s)) f" for s
  proof -
    have "session_ok P L R s (nt_session c s)" using inv by (simp add: node_ok_def)
    then obtain f where f: "dn_flow (sr_direction (nt_session c s)) = Some f"
      "fn_resolved f = R s" "nego_ok P L s (R (peer_side s)) f" by (rule session_okE)
    moreover have "negotiation (nt_session c s) = f" using f(1) by (simp add: negotiation_def)
    then have "fn_pending f = None" using quiet by (auto simp: settled_iff)
    ultimately show ?thesis using nego_okD(1) by blast
  qed
  then obtain F where F: "\<And>s. dn_flow (sr_direction (nt_session c s)) = Some (F s)"
    "\<And>s. fn_resolved (F s) = R s" "\<And>s. fn_pending (F s) = None" "\<And>s. fn_local (F s) = L s"
    "\<And>s. nego_ok P L s (R (peer_side s)) (F s)" by metis
  have mine: "mine s = L s" for s using F(1,4) by (simp add: mine_def negotiation_def)
  obtain m where m: "flow_key (L (peer_side m)) \<le> flow_key (L m)"
    by (metis linear peer_side.simps)
  have agree: "fo_emitter (R (peer_side m)) = fo_emitter (L m) \<and> R m = L m"
    using F(5) [of "peer_side m"] by (intro emitters_agree [OF su F(5,3,2) _ F(3,2) m]) simp
  have both: "s = m \<or> s = peer_side m" for s by (cases s; cases m) simp_all
  have "fo_emitter (R s) = fo_emitter (L m) \<and> flow_key (L s) \<le> flow_key (L m)" for s
    using both [of s] agree m by auto
  moreover have "s \<notin> nt_unapplied c \<longrightarrow> local_roles (nt_session c s) = roles_of P s (R s)" for s
    using inv by (simp add: node_ok_def)
  ultimately show ?thesis
    using F(1,2) by (intro exI [of _ "fo_emitter (L m)"] exI [of _ m])
      (simp add: mine session_flow_def offer_flow_def roles_of_def)
qed

subsection \<open>An exchange empties a queue\<close>

abbreviation queued :: "flow_net \<Rightarrow> side \<Rightarrow> flow_offer option" where
  "queued c s \<equiv> fn_pending (negotiation (nt_session c s))"

lemma net_okE:
  assumes "net_ok P c"
  obtains L R f where "\<forall>t. node_ok P L R t c" "session_ok P L R s (nt_session c s)"
    "dn_flow (sr_direction (nt_session c s)) = Some f" "negotiation (nt_session c s) = f"
    "fn_resolved f = R s" "nego_ok P L s (R (peer_side s)) f"
proof -
  obtain L R where inv: "\<forall>t. node_ok P L R t c" using assms by (auto simp: net_ok_def)
  then have ok: "session_ok P L R s (nt_session c s)" by (simp add: node_ok_def)
  then obtain f where "dn_flow (sr_direction (nt_session c s)) = Some f" "fn_resolved f = R s"
    "nego_ok P L s (R (peer_side s)) f" by (rule session_okE)
  then show thesis using that [OF inv ok] by (simp add: negotiation_def)
qed

lemma negotiation_put [simp]: "negotiation (put_flow f r) = f"
  by (simp add: negotiation_def)

lemma negotiation_after [simp]: "negotiation (after_resolution res r) = negotiation r"
  by (simp add: negotiation_def)

lemma send_queued:
  assumes "net_ok P c" "queued c s = Some p"
  obtains c' where "(flow_step Exchange)\<^sup>*\<^sup>* c c'" "p \<in> nt_offers c' s" "queued c' s = Some p"
    "nt_session c' (peer_side s) = nt_session c (peer_side s)"
proof -
  let ?r = "nt_session c s"
  obtain f where f: "dn_flow (sr_direction ?r) = Some f" "negotiation ?r = f"
    by (rule net_okE [OF assms(1), of s])
  have pend: "fn_pending f = Some p" using assms(2) f(2) by simp
  define r1 where "r1 = reset_flow_offer_send ?r"
  have r1: "r1 = put_flow (f\<lparr>fn_sent := False\<rparr>) ?r"
    using f(1) pend by (simp add: r1_def reset_flow_offer_send_def flow_reset_send_def)
  define c1 where "c1 = with_session s r1 c"
  have "flow_step Exchange c c1"
    unfolding c1_def r1_def by (rule flow_step.resend)
  moreover have flush: "pending_flow_offer (nt_session c1 s) = (Some p, r1)"
    using pend by (simp add: c1_def r1 pending_flow_offer_def ensure_flow_present flow_pending_def)
  note flow_step.flush [OF flush]
  ultimately have "(flow_step Exchange)\<^sup>*\<^sup>* c (with_offer s p (with_session s
      (mark_flow_offer_sent p r1) c1))" by simp
  then show thesis
    by (rule that) (simp_all add: c1_def r1 mark_flow_offer_sent_def flow_mark_sent_def pend)
qed

lemma deliver_offer:
  assumes "net_ok P c" "p \<in> nt_offers c s"
  obtains c' where "flow_step Exchange c c'" "nt_session c' s = nt_session c s"
    "\<lparr>fa_generation = fo_generation (fn_resolved (negotiation (nt_session c' (peer_side s)))),
      fa_emitter = fo_emitter (fn_resolved (negotiation (nt_session c' (peer_side s))))\<rparr>
     \<in> nt_acks c' (peer_side s)"
    "flow_key p \<le> flow_key (fn_resolved (negotiation (nt_session c' (peer_side s))))"
    "flow_key (fn_local (negotiation (nt_session c' (peer_side s))))
       \<le> flow_key (fn_resolved (negotiation (nt_session c' (peer_side s))))"
    "queued c (peer_side s) = None \<longrightarrow> queued c' (peer_side s) = None"
proof -
  let ?t = "peer_side s" and ?r = "nt_session c (peer_side s)"
  obtain L R g where inv: "\<forall>t. node_ok P L R t c" and ok: "session_ok P L R ?t ?r"
    and g: "dn_flow (sr_direction ?r) = Some g" "negotiation ?r = g"
    by (rule net_okE [OF assms(1), of ?t])
  have pr: "offered_by P L s p" using inv assms(2) by (simp add: node_ok_def)
  then have valid: "flow_offer_is_valid p" by (simp add: offered_by_def)
  obtain out g' where g': "flow_receive_offer p g = (out, g')" by fastforce
  obtain a res where out: "out = Inr (a, res)"
    and w: "fn_resolved g' = resolve_flow_offers (fn_resolved g) (resolve_flow_offers (fn_local g) p)"
    and loc: "fn_local g' = fn_local g"
    and pend: "fn_pending g' = (if fn_resolved g' = fn_local g then fn_pending g else None)"
    and a: "a = \<lparr>fa_generation = fo_generation (fn_resolved g'),
                 fa_emitter = fo_emitter (fn_resolved g')\<rparr>"
    by (rule flow_receive_offer_valid [OF valid g'])
  have rcv: "receive_flow_offer p ?r = (Inr (a, res), put_flow g' ?r)"
    using pr ok by (simp add: receive_flow_offer_def ensure_flow_present [OF g(1)] g' out
        session_ok_def offered_by_def)
  let ?c = "applied ?t res (with_ack ?t a (with_session ?t (after_resolution res (put_flow g' ?r)) c))"
  have step: "flow_step Exchange c ?c"
    by (rule flow_step.offer [OF _ rcv]) (simp add: assms(2))
  have "flow_key (fn_resolved g') =
      max (flow_key (fn_resolved g)) (max (flow_key (fn_local g)) (flow_key p))"
    by (simp add: w flow.key_resolve)
  then show thesis
    by (intro that [OF step]) (simp_all add: a loc pend g(2) le_max_iff_disj)
qed

lemma receive_ack_clears:
  assumes ok: "nego_ok P L s R f" and p: "fn_pending f = Some p" and w: "offered P L w"
    and le: "flow_key (L s) \<le> flow_key w" "flow_key (L (peer_side s)) \<le> flow_key w"
  obtains y f' where "flow_receive_ack \<lparr>fa_generation = fo_generation w, fa_emitter = fo_emitter w\<rparr>
      (su_ident P (peer_side s)) f = (Some y, f')" "fn_pending f' = None"
proof -
  let ?a = "\<lparr>fa_generation = fo_generation w, fa_emitter = fo_emitter w\<rparr>"
  note D = nego_okD [OF ok]
  have pL: "p = L s" by (rule D(5) [OF p])
  have valid: "flow_ack_is_valid ?a" using offered_emitter [OF w] by (simp add: flow_ack_is_valid_def)
  have "fo_generation w = fo_generation p \<and> fo_emitter w = fo_emitter p \<or>
    w = \<lparr>fo_generation = fo_generation w, fo_emitter = fo_emitter w,
         fo_proposer = su_ident P (peer_side s)\<rparr> \<and> flow_remote_is_current f w \<and>
    resolve_flow_offers p w = w"
    using w
  proof (cases rule: offeredE [where s = s])
    case 1
    then have "w = L s" using le(1) by (rule offered_by_top)
    then show ?thesis by (simp add: pL)
  next
    case 2
    then have wL: "w = L (peer_side s)" using le(2) by (rule offered_by_top)
    have "flow_remote_is_current f w"
      using D(4) by (auto simp: flow_remote_is_current_def wL offered_by_def not_le
          dest: leD split: option.splits)
    moreover have "resolve_flow_offers p w = w"
      using le(1) by (simp add: pL flow.resolve_absorb2)
    ultimately show ?thesis using 2 by (cases w) (simp add: offered_by_def)
  qed
  then have "\<exists>y f'. flow_receive_ack ?a (su_ident P (peer_side s)) f = (Some y, f') \<and>
      fn_pending f' = None"
    using p valid by (auto simp: flow_receive_ack_def Let_def)
  then show thesis using that by blast
qed

lemma answer_offer:
  assumes "net_ok P c" "queued c s = Some p"
    and a: "\<lparr>fa_generation = fo_generation w, fa_emitter = fo_emitter w\<rparr> \<in> nt_acks c (peer_side s)"
    and w: "w = fn_resolved (negotiation (nt_session c (peer_side s)))"
    and le: "flow_key p \<le> flow_key w"
      "flow_key (fn_local (negotiation (nt_session c (peer_side s)))) \<le> flow_key w"
  obtains c' where "flow_step Exchange c c'" "queued c' s = None"
    "nt_session c' (peer_side s) = nt_session c (peer_side s)"
proof -
  obtain L R f where inv: "\<forall>t. node_ok P L R t c" and ok: "session_ok P L R s (nt_session c s)"
    and f: "dn_flow (sr_direction (nt_session c s)) = Some f" "negotiation (nt_session c s) = f"
      "nego_ok P L s (R (peer_side s)) f"
    by (rule net_okE [OF assms(1), of s])
  have pend: "fn_pending f = Some p" using assms(2) f(2) by simp
  have "session_ok P L R (peer_side s) (nt_session c (peer_side s))"
    using inv by (simp add: node_ok_def)
  then have wL: "offered P L w" "flow_key (L (peer_side s)) \<le> flow_key w"
    using le(2) by (auto elim!: session_okE simp: w negotiation_def dest: nego_okD(1,3))
  have pL: "flow_key (L s) \<le> flow_key w" using nego_okD(5) [OF f(3) pend] le(1) by simp
  obtain y f' where rcv: "flow_receive_ack
      \<lparr>fa_generation = fo_generation w, fa_emitter = fo_emitter w\<rparr>
      (su_ident P (peer_side s)) f = (Some y, f')" and none: "fn_pending f' = None"
    by (rule receive_ack_clears [OF f(3) pend wL(1) pL wL(2)])
  have "receive_flow_ack \<lparr>fa_generation = fo_generation w, fa_emitter = fo_emitter w\<rparr>
      (nt_session c s) = (Some y, put_flow f' (nt_session c s))"
    using ok rcv by (simp add: receive_flow_ack_def f(1) session_ok_def)
  from flow_step.ack [OF a this] show thesis
    by (rule that) (simp_all add: none)
qed

lemma clear_queue:
  assumes su: "well_set_up P" and ok: "net_ok P c"
  obtains c' where "(flow_step Exchange)\<^sup>*\<^sup>* c c'" "net_ok P c'" "queued c' s = None"
    "queued c (peer_side s) = None \<longrightarrow> queued c' (peer_side s) = None"
proof (cases "queued c s")
  case None
  then show thesis using that [of c] ok by simp
next
  case (Some p)
  note keeps = flow_step_ok [OF su]
  obtain c1 where c1: "(flow_step Exchange)\<^sup>*\<^sup>* c c1" "p \<in> nt_offers c1 s" "queued c1 s = Some p"
    "nt_session c1 (peer_side s) = nt_session c (peer_side s)"
    by (rule send_queued [OF ok Some])
  have ok1: "net_ok P c1"
    using c1(1) ok by (induction rule: rtranclp_induct) (auto intro: keeps)
  obtain c2 where c2: "flow_step Exchange c1 c2" "nt_session c2 s = nt_session c1 s"
    "\<lparr>fa_generation = fo_generation (fn_resolved (negotiation (nt_session c2 (peer_side s)))),
      fa_emitter = fo_emitter (fn_resolved (negotiation (nt_session c2 (peer_side s))))\<rparr>
     \<in> nt_acks c2 (peer_side s)"
    "flow_key p \<le> flow_key (fn_resolved (negotiation (nt_session c2 (peer_side s))))"
    "flow_key (fn_local (negotiation (nt_session c2 (peer_side s))))
       \<le> flow_key (fn_resolved (negotiation (nt_session c2 (peer_side s))))"
    "queued c1 (peer_side s) = None \<longrightarrow> queued c2 (peer_side s) = None"
    by (rule deliver_offer [OF ok1 c1(2)])
  have ok2: "net_ok P c2" by (rule keeps [OF c2(1) ok1])
  have "queued c2 s = Some p" using c1(3) c2(2) by simp
  from answer_offer [OF ok2 this c2(3) refl c2(4,5)] obtain c3 where c3:
    "flow_step Exchange c2 c3" "queued c3 s = None"
    "nt_session c3 (peer_side s) = nt_session c2 (peer_side s)" .
  have steps: "(flow_step Exchange)\<^sup>*\<^sup>* c c3" using c1(1) c2(1) c3(1) by simp
  have ok3: "net_ok P c3" by (rule keeps [OF c3(1) ok2])
  show thesis
    by (rule that [OF steps ok3 c3(2)]) (use c1(4) c2(6) c3(3) in simp)
qed

text \<open>
  C28: The negotiation is never stuck. From every reachable state of a session, whatever was
  lost, delayed, repeated or not written before, there is an exchange of messages, without a
  further choice of a user, after which neither end has a choice left in its queue. By the
  agreement of settled ends the two then name one emitter.
\<close>

theorem negotiation_can_settle:
  assumes su: "well_set_up P" and reach: "flow_reachable P c"
  shows "\<exists>c'. (flow_step Exchange)\<^sup>*\<^sup>* c c' \<and> settled c'"
proof -
  obtain c1 where c1: "(flow_step Exchange)\<^sup>*\<^sup>* c c1" "net_ok P c1" "queued c1 Client = None"
    by (rule clear_queue [OF su flow_reachable_ok [OF reach su]])
  obtain c2 where c2: "(flow_step Exchange)\<^sup>*\<^sup>* c1 c2" "queued c2 Host = None"
    "queued c1 (peer_side Host) = None \<longrightarrow> queued c2 (peer_side Host) = None"
    by (rule clear_queue [OF su c1(2), where s = Host])
  then show ?thesis
    using c1 rtranclp_trans [OF c1(1) c2(1)] by (auto simp: settled_def)
qed

subsection \<open>A run\<close>

definition phone_and_desk :: flow_setup where
  "phone_and_desk =
     \<lparr>su_ident = (\<lambda>s. if s = Client then ''phone'' else ''desk''),
      su_emitting = (\<lambda>s. s = Client), su_generation = (\<lambda>s. if s = Client then 0 else 3),
      su_direction = (\<lambda>s. Mobile_To_Desktop)\<rparr>"

definition desk_emits :: flow_offer where
  "desk_emits = \<lparr>fo_generation = 4, fo_emitter = ''desk'', fo_proposer = ''phone''\<rparr>"

definition choose_at :: "side \<Rightarrow> flow_offer \<Rightarrow> flow_net \<Rightarrow> flow_net" where
  "choose_at s x c = with_session s (snd (queue_flow_offer x (nt_session c s))) c"

definition flush_at :: "side \<Rightarrow> flow_net \<Rightarrow> flow_net" where
  "flush_at s c =
     (case pending_flow_offer (nt_session c s) of
        (Some x, r) \<Rightarrow> with_offer s x (with_session s (mark_flow_offer_sent x r) c)
      | (None, r) \<Rightarrow> c)"

definition offer_at :: "side \<Rightarrow> flow_offer \<Rightarrow> flow_net \<Rightarrow> flow_net" where
  "offer_at s x c =
     (case receive_flow_offer x (nt_session c s) of
        (Inr (a, res), r) \<Rightarrow>
          applied s res (with_ack s a (with_session s (after_resolution res r) c))
      | (Inl e, r) \<Rightarrow> with_session s r c)"

definition ack_at :: "side \<Rightarrow> flow_ack \<Rightarrow> flow_net \<Rightarrow> flow_net" where
  "ack_at s a c =
     (case receive_flow_ack a (nt_session c s) of
        (res, r) \<Rightarrow> applied s res (with_session s (after_resolution res r) c))"

definition unwritten_at :: "side \<Rightarrow> flow_offer \<Rightarrow> flow_net \<Rightarrow> flow_net" where
  "unwritten_at s x c =
     (case receive_flow_offer x (nt_session c s) of
        (Inr (a, res), r) \<Rightarrow> not_applied s res (with_session s r c)
      | (Inl e, r) \<Rightarrow> with_session s r c)"

definition resend_at :: "side \<Rightarrow> flow_net \<Rightarrow> flow_net" where
  "resend_at s c = with_session s (reset_flow_offer_send (nt_session c s)) c"

lemma reachable_at:
  assumes "flow_reachable P c"
  shows "flow_reachable P (choose_at s x c)" "flow_reachable P (flush_at s c)"
    "x \<in> nt_offers c (peer_side s) \<Longrightarrow> flow_reachable P (offer_at s x c)"
    "a \<in> nt_acks c (peer_side s) \<Longrightarrow> flow_reachable P (ack_at s a c)"
    "x \<in> nt_offers c (peer_side s) \<Longrightarrow> flow_reachable P (unwritten_at s x c)"
    "flow_reachable P (resend_at s c)"
proof -
  note go = flow_reachable.step [OF assms]
  show "flow_reachable P (choose_at s x c)"
    unfolding choose_at_def by (rule go, rule flow_step.choose) (rule prod.collapse [symmetric])
  show "flow_reachable P (flush_at s c)"
    unfolding flush_at_def
    by (auto split: prod.split option.split intro: assms go flow_step.flush)
  show "x \<in> nt_offers c (peer_side s) \<Longrightarrow> flow_reachable P (offer_at s x c)"
    unfolding offer_at_def
    by (auto split: prod.split sum.split intro: go flow_step.offer flow_step.refuse)
  show "a \<in> nt_acks c (peer_side s) \<Longrightarrow> flow_reachable P (ack_at s a c)"
    unfolding ack_at_def by (auto split: prod.split intro: go flow_step.ack)
  show "x \<in> nt_offers c (peer_side s) \<Longrightarrow> flow_reachable P (unwritten_at s x c)"
    unfolding unwritten_at_def
    by (auto split: prod.split sum.split intro: go flow_step.unwritten flow_step.refuse)
  show "flow_reachable P (resend_at s c)"
    unfolding resend_at_def by (rule go) (rule flow_step.resend)
qed

lemma resolve_newer:
  "fo_generation a < fo_generation b \<Longrightarrow> resolve_flow_offers a b = b"
  "fo_generation a < fo_generation b \<Longrightarrow> resolve_flow_offers b a = b"
  by (simp_all add: flow.resolve_absorb flow.resolve_absorb2 flow_key_newer less_imp_le)

definition chosen_net :: flow_net where
  "chosen_net = choose_at Client desk_emits (init_net phone_and_desk)"

definition agreed_net :: flow_net where
  "agreed_net = ack_at Client \<lparr>fa_generation = 4, fa_emitter = ''desk''\<rparr>
     (offer_at Host desk_emits (flush_at Client chosen_net))"

lemma not_blank_names: "\<not> is_blank ''desk''" "\<not> is_blank ''phone''"
  by (rule not_blankI [of "CHR ''e''"], simp_all)+

lemma phone_and_desk_set_up: "well_set_up phone_and_desk"
  by (simp add: well_set_up_def phone_and_desk_def not_blank_names)

lemma chosen_reachable: "flow_reachable phone_and_desk chosen_net"
  unfolding chosen_net_def by (intro reachable_at flow_reachable.start)

lemmas run_simps = init_net_def init_session_def phone_and_desk_def with_initial_flow_def
  direction_negotiation_new_def flow_negotiation_new_def initial_flow_offer_def desk_emits_def
  session_ensure_flow_def ensure_flow_def put_flow_def Let_def not_blank_names

lemma chosen_client:
  "negotiation (nt_session chosen_net Client) =
     \<lparr>fn_local = desk_emits, fn_resolved = init_offer phone_and_desk Client, fn_remote = None,
      fn_pending = Some desk_emits, fn_sent = False\<rparr>"
  "nt_session chosen_net Host = init_session phone_and_desk Host"
  by (simp_all add: chosen_net_def choose_at_def queue_flow_offer_def flow_queue_def run_simps
      flow_offer_is_valid_def init_offer_def negotiation_def)

definition phone_chosen :: session_record where
  "phone_chosen =
     put_flow \<lparr>fn_local = desk_emits, fn_resolved = init_offer phone_and_desk Client,
       fn_remote = None, fn_pending = Some desk_emits, fn_sent = True\<rparr>
       (init_session phone_and_desk Client)"

definition phone_agreed :: session_record where
  "phone_agreed =
     put_flow \<lparr>fn_local = desk_emits, fn_resolved = desk_emits,
       fn_remote = None, fn_pending = None, fn_sent = False\<rparr>
       (init_session phone_and_desk Client)"

definition desk_agreed :: session_record where
  "desk_agreed =
     put_flow \<lparr>fn_local = init_offer phone_and_desk Host, fn_resolved = desk_emits,
       fn_remote = Some desk_emits, fn_pending = None, fn_sent = False\<rparr>
       (init_session phone_and_desk Host)"

lemma flush_chosen:
  "flush_at Client chosen_net =
     with_offer Client desk_emits (with_session Client phone_chosen (init_net phone_and_desk))"
  by (simp add: flush_at_def chosen_net_def choose_at_def queue_flow_offer_def flow_queue_def
      flow_offer_is_valid_def init_offer_def pending_flow_offer_def flow_pending_def
      mark_flow_offer_sent_def flow_mark_sent_def phone_chosen_def with_session_def run_simps)

lemma offer_to_desk:
  "receive_flow_offer desk_emits (init_session phone_and_desk Host) =
     (Inr (\<lparr>fa_generation = 4, fa_emitter = ''desk''\<rparr>,
           Some \<lparr>fr_winner = desk_emits, fr_changed = True\<rparr>), desk_agreed)"
  by (simp add: receive_flow_offer_def flow_receive_offer_def run_simps flow_offer_is_valid_def
      resolve_newer desk_agreed_def init_offer_def)

lemma ack_to_phone:
  "receive_flow_ack \<lparr>fa_generation = 4, fa_emitter = ''desk''\<rparr> phone_chosen =
     (Some \<lparr>fr_winner = desk_emits, fr_changed = True\<rparr>, phone_agreed)"
  by (simp add: receive_flow_ack_def flow_receive_ack_def run_simps flow_ack_is_valid_def
      resolve_newer phone_chosen_def phone_agreed_def init_offer_def)

lemma agreed_net_reachable:
  "flow_reachable phone_and_desk agreed_net"
  "settled agreed_net" "fn_local (negotiation (nt_session agreed_net Host)) = init_offer phone_and_desk Host"
proof -
  have "flow_reachable phone_and_desk (flush_at Client chosen_net)"
    by (rule reachable_at(2) [OF chosen_reachable])
  then have "flow_reachable phone_and_desk (offer_at Host desk_emits (flush_at Client chosen_net))"
    by (rule reachable_at(3)) (simp add: flush_chosen)
  then show "flow_reachable phone_and_desk agreed_net"
    unfolding agreed_net_def
    by (rule reachable_at(4)) (simp add: flush_chosen offer_at_def init_net_def offer_to_desk)
  show "settled agreed_net" "fn_local (negotiation (nt_session agreed_net Host)) = init_offer phone_and_desk Host"
    by (simp_all add: agreed_net_def flush_chosen offer_at_def ack_at_def init_net_def offer_to_desk
        ack_to_phone settled_def phone_agreed_def desk_agreed_def)
qed

lemma agreed_net_applied: "nt_unapplied agreed_net = {}"
  by (simp add: agreed_net_def flush_chosen offer_at_def ack_at_def init_net_def offer_to_desk
      ack_to_phone)

lemma ends_agree_on_the_emitter_witness:
  "\<not> settled chosen_net \<and> settled agreed_net \<and>
   (\<exists>e. \<forall>s. local_roles (nt_session agreed_net s) =
      (if su_ident phone_and_desk s = e then emit_only else receive_only))"
proof (intro conjI)
  show "\<not> settled chosen_net"
    by (simp add: settled_def chosen_client)
  show "settled agreed_net" by (rule agreed_net_reachable(2))
  show "\<exists>e. \<forall>s. local_roles (nt_session agreed_net s) =
      (if su_ident phone_and_desk s = e then emit_only else receive_only)"
    using ends_agree_on_the_emitter [OF phone_and_desk_set_up agreed_net_reachable(1,2)]
      agreed_net_applied by auto
qed

lemma negotiation_can_settle_witness:
  "\<not> settled chosen_net \<and> (\<exists>c'. (flow_step Exchange)\<^sup>*\<^sup>* chosen_net c' \<and> settled c')"
  using negotiation_can_settle [OF phone_and_desk_set_up chosen_reachable]
  by (simp add: settled_def chosen_client)

subsection \<open>A lost acknowledgement\<close>



abbreviation flow_at :: "flow_setup \<Rightarrow> side \<Rightarrow> flow_negotiation \<Rightarrow> session_record" where
  "flow_at P s f \<equiv> put_flow f (init_session P s)"

lemma flow_at_simps [simp]:
  "dn_flow (sr_direction (init_session P s)) = Some (flow_negotiation_new (init_offer P s) False)"
  "sr_peer (init_session P s) = su_ident P (peer_side s)"
  "local_device_id (init_session P s) = su_ident P s"
  "put_flow f (flow_at P s g) = flow_at P s f"
  by (simp_all add: init_session_def with_initial_flow_def init_offer_def local_device_id_def
      put_flow_def direction_negotiation_new_def)













end
