(* ===== verification/Engine_State.thy ===== *)
theory Engine_State
  imports Session_Record Ordered_Map
begin

text \<open>
  The shared interior of the relay engine (\<^verbatim>\<open>pw-graph-relay/src/engine/inner.rs\<close>,
  \<^verbatim>\<open>limits.rs\<close>, \<^verbatim>\<open>trust.rs\<close>, parts of \<^verbatim>\<open>types.rs\<close> and \<^verbatim>\<open>handle.rs\<close>): the event
  queue, the pairing rate limiter, candidate backoff, trusted credentials with their
  enrollment transactions, the session table and the handshake slots. Each table has a mutex
  of its own, so an operation on one is a step; a clock reading is an argument, in
  milliseconds, and one reading stands for the readings of one step. Addresses are any
  ordered type.
\<close>

subsection \<open>Limits\<close>

definition max_queued_events :: nat where "max_queued_events = 256"

definition max_pending_trust_enrollments :: nat where "max_pending_trust_enrollments = 64"

definition trust_enrollment_timeout :: nat where "trust_enrollment_timeout = 30 * 1000"

definition max_trusted_candidate_failures :: nat where "max_trusted_candidate_failures = 1024"

definition max_trusted_successful_addresses :: nat where
  "max_trusted_successful_addresses = 1024"

definition max_trusted_peers :: nat where "max_trusted_peers = 256"

definition pairing_attempt_limit :: u32 where "pairing_attempt_limit = 5"

definition pairing_lockout :: nat where "pairing_lockout = 60 * 1000"

definition max_pairing_failure_records :: nat where "max_pairing_failure_records = 1024"

subsection \<open>Events\<close>

text \<open>The events that are queued without a look at their payload share a constructor.\<close>

datatype 'e relay_event =
    Audio_Level u64 f32
  | Error_Event string
  | Session_Lost u64 string
  | Other_Event 'e

fun replace_first :: "('a \<Rightarrow> bool) \<Rightarrow> 'a \<Rightarrow> 'a list \<Rightarrow> 'a list option" where
  "replace_first p x [] = None"
| "replace_first p x (y # ys) =
     (if p y then Some (x # ys) else map_option ((#) y) (replace_first p x ys))"

fun same_level :: "u64 \<Rightarrow> 'e relay_event \<Rightarrow> bool" where
  "same_level i (Audio_Level queued _) = (queued = i)"
| "same_level i _ = False"

fun same_error :: "string \<Rightarrow> 'e relay_event \<Rightarrow> bool" where
  "same_error message (Error_Event queued) = (queued = message)"
| "same_error message _ = False"

fun coalesced :: "'e relay_event \<Rightarrow> 'e relay_event list \<Rightarrow> 'e relay_event list option" where
  "coalesced (Audio_Level i rms) events = replace_first (same_level i) (Audio_Level i rms) events"
| "coalesced (Error_Event message) events =
     (let recent = length events - 8 in
      map_option ((@) (take recent events))
        (replace_first (same_error message) (Error_Event message) (drop recent events)))"
| "coalesced (Session_Lost i reason) events = None"
| "coalesced (Other_Event e) events = None"

definition emit_event :: "'e relay_event \<Rightarrow> 'e relay_event list \<Rightarrow> 'e relay_event list" where
  "emit_event event events =
     (case coalesced event events of
        Some events' \<Rightarrow> events'
      | None \<Rightarrow>
          let events' = events @ [event]
          in drop (length events' - max_queued_events) events')"

definition drain_events :: "'e relay_event list \<Rightarrow> 'e relay_event list \<times> 'e relay_event list" where
  "drain_events events = (events, [])"

subsection \<open>Failure tables\<close>

record failure_record =
  fl_count :: u32
  fl_locked_until :: nat
  fl_last_seen :: nat

type_synonym 'k failures = "('k, failure_record) btree"

definition least_recently_seen :: "'k failures \<Rightarrow> 'k option" where
  "least_recently_seen m =
     (if m = [] then None else Some (fst (arg_min_list (\<lambda>(_, r). fl_last_seen r) m)))"

definition make_room :: "nat \<Rightarrow> nat \<Rightarrow> 'k \<Rightarrow> 'k failures \<Rightarrow> 'k failures" where
  "make_room cap now k m =
     (if \<not> bt_contains m k \<and> cap \<le> length m then
        let m = filter (\<lambda>(_, r). now < fl_locked_until r) m in
        if cap \<le> length m then
          (case least_recently_seen m of Some oldest \<Rightarrow> bt_remove oldest m | None \<Rightarrow> m)
        else m
      else m)"

definition or_insert_failure :: "nat \<Rightarrow> 'k \<Rightarrow> 'k failures \<Rightarrow> failure_record" where
  "or_insert_failure now k m =
     (case bt_get m k of
        Some r \<Rightarrow> r
      | None \<Rightarrow> \<lparr>fl_count = 0, fl_locked_until = now, fl_last_seen = now\<rparr>)"

definition pairing_allowed :: "nat \<Rightarrow> 'a \<Rightarrow> 'a failures \<Rightarrow> bool \<times> 'a failures" where
  "pairing_allowed now addr failures =
     (case bt_get failures addr of
        Some r \<Rightarrow>
          (if now < fl_locked_until r then (False, failures)
           else if fl_locked_until r \<le> now \<and> pairing_attempt_limit \<le> fl_count r
           then (True, bt_remove addr failures)
           else (True, failures))
      | None \<Rightarrow> (True, failures))"

definition note_pairing_failure :: "nat \<Rightarrow> 'a::linorder \<Rightarrow> 'a failures \<Rightarrow> 'a failures" where
  "note_pairing_failure now addr failures =
     (let failures = make_room max_pairing_failure_records now addr failures;
          r = or_insert_failure now addr failures;
          r = r\<lparr>fl_count := fl_count r + 1, fl_last_seen := now\<rparr>;
          r = (if pairing_attempt_limit \<le> fl_count r
               then r\<lparr>fl_locked_until := now + pairing_lockout\<rparr> else r)
      in bt_insert addr r failures)"

definition clear_pairing_failures :: "'a \<Rightarrow> 'a failures \<Rightarrow> 'a failures" where
  "clear_pairing_failures addr failures = bt_remove addr failures"

definition candidate_allowed ::
    "nat \<Rightarrow> string \<times> 'a \<Rightarrow> (string \<times> 'a) failures \<Rightarrow> bool \<times> (string \<times> 'a) failures" where
  "candidate_allowed now key failures =
     (case bt_get failures key of
        None \<Rightarrow> (True, failures)
      | Some r \<Rightarrow>
          (if fl_locked_until r \<le> now then (True, bt_remove key failures) else (False, failures)))"

definition saturating_count :: "u32 \<Rightarrow> u32" where
  "saturating_count n = (if n = - 1 then - 1 else n + 1)"

definition candidate_delay :: "u32 \<Rightarrow> nat" where
  "candidate_delay count = min (500 * 2 ^ min (unat count - 1) 6) (30 * 1000)"

definition note_candidate_failure ::
    "nat \<Rightarrow> string \<times> 'a::linorder \<Rightarrow> (string \<times> 'a) failures \<Rightarrow> (string \<times> 'a) failures" where
  "note_candidate_failure now key failures =
     (let failures = make_room max_trusted_candidate_failures now key failures;
          r = or_insert_failure now key failures;
          r = r\<lparr>fl_count := saturating_count (fl_count r), fl_last_seen := now\<rparr>;
          r = r\<lparr>fl_locked_until := now + candidate_delay (fl_count r)\<rparr>
      in bt_insert key r failures)"

definition note_candidate_success ::
    "string \<Rightarrow> 'a \<Rightarrow> (string \<times> 'a) failures \<times> (string, 'a) btree \<Rightarrow>
     (string \<times> 'a) failures \<times> (string, 'a) btree" where
  "note_candidate_success peer addr tables =
     (let (failures, addresses) = tables;
          failures = bt_remove (peer, addr) failures;
          addresses = (if \<not> bt_contains addresses peer \<and>
                          max_trusted_successful_addresses \<le> length addresses
                       then (case bt_keys addresses of
                               oldest # _ \<Rightarrow> bt_remove oldest addresses | [] \<Rightarrow> addresses)
                       else addresses)
      in (failures, bt_insert peer addr addresses))"

subsection \<open>Trusted credentials\<close>

datatype enrollment_decision = Pending | Accepted | Rejected string

record pending_enrollment =
  pe_session :: u64
  pe_peer :: string
  pe_secret :: bytes
  pe_created :: nat
  pe_decision :: enrollment_decision

record enrollment_resolution =
  er_peer :: string
  er_secret :: bytes
  er_accepted :: bool
  er_reason :: "string option"

record trust_state =
  ts_trusted :: "(string, bytes) btree"
  ts_pending :: "(u64, pending_enrollment) btree"
  ts_next :: u64

definition import_trusted :: "(string \<times> bytes) list \<Rightarrow> (string, bytes) btree" where
  "import_trusted peers =
     fold (\<lambda>(peer, secret) m. bt_insert peer secret m) (take max_trusted_peers peers) []"

definition trust_new :: "(string \<times> bytes) list \<Rightarrow> trust_state" where
  "trust_new peers = \<lparr>ts_trusted = import_trusted peers, ts_pending = [], ts_next = 1\<rparr>"

definition update_trusted :: "(string \<times> bytes) list \<Rightarrow> trust_state \<Rightarrow> trust_state" where
  "update_trusted peers st = st\<lparr>ts_trusted := import_trusted peers\<rparr>"

definition trusted_secret :: "string \<Rightarrow> trust_state \<Rightarrow> bytes option" where
  "trusted_secret peer st = bt_get (ts_trusted st) peer"

definition remember_trusted_peer :: "string \<Rightarrow> bytes \<Rightarrow> trust_state \<Rightarrow> trust_state" where
  "remember_trusted_peer peer secret st =
     st\<lparr>ts_trusted := bt_insert peer secret (ts_trusted st)\<rparr>"

definition expired_enrollment :: "nat \<Rightarrow> pending_enrollment \<Rightarrow> bool" where
  "expired_enrollment now e = (trust_enrollment_timeout \<le> now - pe_created e)"

definition begin_trusted_enrollment ::
    "nat \<Rightarrow> u64 \<Rightarrow> string \<Rightarrow> string \<Rightarrow> bytes \<Rightarrow> trust_state \<Rightarrow> (string, u64) result \<times> trust_state"
where
  "begin_trusted_enrollment now session peer_id peer secret st =
     (if is_blank peer_id \<or> peer_id \<noteq> peer
      then (Inl ''trusted peer identity did not match the session'', st)
      else if list_all (\<lambda>b. b = 0) secret
      then (Inl ''trusted credential was malformed'', st)
      else if trusted_secret peer_id st = None \<and> max_trusted_peers \<le> length (ts_trusted st)
      then (Inl ''trusted credential capacity has been reached'', st)
      else
        let pending = filter (\<lambda>(_, e). \<not> expired_enrollment now e) (ts_pending st);
            st = st\<lparr>ts_pending := pending\<rparr>
        in if max_pending_trust_enrollments \<le> length pending
           then (Inl ''too many trusted enrollments are pending'', st)
           else if list_ex (\<lambda>e. pe_peer e = peer_id \<or> pe_session e = session) (bt_values pending)
           then (Inl ''a trusted enrollment for this peer is already pending'', st)
           else let e = \<lparr>pe_session = session, pe_peer = peer_id, pe_secret = secret,
                         pe_created = now, pe_decision = Pending\<rparr>
                in (Inr (ts_next st),
                    st\<lparr>ts_next := ts_next st + 1,
                       ts_pending := bt_insert (ts_next st) e pending\<rparr>))"

definition trusted_enrollment_secret :: "nat \<Rightarrow> u64 \<Rightarrow> trust_state \<Rightarrow> bytes option" where
  "trusted_enrollment_secret now tid st =
     (case bt_get (ts_pending st) tid of
        None \<Rightarrow> None
      | Some e \<Rightarrow> if now - pe_created e < trust_enrollment_timeout then Some (pe_secret e) else None)"

definition set_decision :: "u64 \<Rightarrow> enrollment_decision \<Rightarrow> trust_state \<Rightarrow> trust_state" where
  "set_decision tid d st =
     st\<lparr>ts_pending := bt_modify tid (\<lambda>e. e\<lparr>pe_decision := d\<rparr>) (ts_pending st)\<rparr>"

definition accept_trusted_enrollment ::
    "nat \<Rightarrow> u64 \<Rightarrow> trust_state \<Rightarrow> (relay_error, unit) result \<times> trust_state" where
  "accept_trusted_enrollment now tid st =
     (case bt_get (ts_pending st) tid of
        None \<Rightarrow> (Inl (Relay_Engine ''trusted enrollment expired or is unknown''), st)
      | Some e \<Rightarrow>
          if expired_enrollment now e
          then (Inl (Relay_Engine ''trusted enrollment expired''),
                st\<lparr>ts_pending := bt_remove tid (ts_pending st)\<rparr>)
          else (case pe_decision e of
              Pending \<Rightarrow> (Inr (), set_decision tid Accepted st)
            | Accepted \<Rightarrow> (Inr (), st)
            | Rejected _ \<Rightarrow> (Inl (Relay_Engine ''trusted enrollment was rejected''), st)))"

definition reject_trusted_enrollment ::
    "nat \<Rightarrow> u64 \<Rightarrow> string \<Rightarrow> trust_state \<Rightarrow> (relay_error, unit) result \<times> trust_state" where
  "reject_trusted_enrollment now tid reason st =
     (case bt_get (ts_pending st) tid of
        None \<Rightarrow> (Inl (Relay_Engine ''trusted enrollment expired or is unknown''), st)
      | Some e \<Rightarrow>
          if expired_enrollment now e
          then (Inl (Relay_Engine ''trusted enrollment expired''),
                st\<lparr>ts_pending := bt_remove tid (ts_pending st)\<rparr>)
          else if pe_decision e = Accepted
          then (Inl (Relay_Engine ''trusted enrollment was already accepted''), st)
          else (Inr (), set_decision tid (Rejected (if is_blank reason
                  then ''trusted enrollment rejected'' else reason)) st))"

definition take_trusted_enrollment ::
    "nat \<Rightarrow> u64 \<Rightarrow> trust_state \<Rightarrow> enrollment_resolution option \<times> trust_state" where
  "take_trusted_enrollment now session st =
     (case filter (\<lambda>(_, e). pe_session e = session) (ts_pending st) of
        [] \<Rightarrow> (None, st)
      | mine \<Rightarrow>
          let (tid, e) = arg_min_list (\<lambda>(_, e). pe_created e) mine;
              accepted = (pe_decision e = Accepted);
              reason = (case pe_decision e of
                  Rejected r \<Rightarrow> Some r
                | Pending \<Rightarrow> if expired_enrollment now e
                             then Some ''trusted enrollment timed out'' else None
                | Accepted \<Rightarrow> None)
          in if \<not> accepted \<and> reason = None then (None, st)
             else (Some \<lparr>er_peer = pe_peer e, er_secret = pe_secret e, er_accepted = accepted,
                         er_reason = reason\<rparr>,
                   st\<lparr>ts_pending := bt_remove tid (ts_pending st)\<rparr>))"

subsection \<open>Sessions\<close>

text \<open>
  The session table maps an id to the stable id of its peer; the record behind it is the
  session record of the other theories. The host, the browser and the scanners are stopped
  by their own components.
\<close>

record 'e engine =
  en_events :: "'e relay_event list"
  en_sessions :: "(u64, string) btree"
  en_snapshot :: "string list"
  en_trust :: trust_state
  en_next_session :: u64
  en_running :: bool
  en_max_sessions :: nat

definition engine_new :: "nat \<Rightarrow> (string \<times> bytes) list \<Rightarrow> 'e engine" where
  "engine_new max_sessions peers =
     \<lparr>en_events = [], en_sessions = [], en_snapshot = [], en_trust = trust_new peers,
      en_next_session = 1, en_running = True, en_max_sessions = max_sessions\<rparr>"

text \<open>
  \<^verbatim>\<open>update_config\<close> replaces the configuration and then, under another lock, the trusted
  peers (\<open>update_trusted\<close>); of the configuration the limit on sessions is modelled.
\<close>

definition replace_config :: "nat \<Rightarrow> 'e engine \<Rightarrow> 'e engine" where
  "replace_config max_sessions e = e\<lparr>en_max_sessions := max_sessions\<rparr>"

definition engine_emit :: "'e relay_event \<Rightarrow> 'e engine \<Rightarrow> 'e engine" where
  "engine_emit event e = e\<lparr>en_events := emit_event event (en_events e)\<rparr>"

definition next_session_id :: "'e engine \<Rightarrow> u64 \<times> 'e engine" where
  "next_session_id e = (en_next_session e, e\<lparr>en_next_session := en_next_session e + 1\<rparr>)"

definition publish :: "(u64, string) btree \<Rightarrow> 'e engine \<Rightarrow> 'e engine" where
  "publish sessions e = e\<lparr>en_sessions := sessions, en_snapshot := bt_values sessions\<rparr>"

text \<open>
  The limit of an insertion is read from the configuration before the table is locked, so it
  is an argument: the configuration may have been replaced in between.
\<close>

definition insert_session :: "nat \<Rightarrow> u64 \<Rightarrow> string \<Rightarrow> 'e engine \<Rightarrow> bool \<times> 'e engine" where
  "insert_session limit i peer e =
     (if bt_contains (en_sessions e) i \<or> limit \<le> length (en_sessions e)
      then (False, e)
      else (True, publish (bt_insert i peer (en_sessions e)) e))"

definition session_count :: "'e engine \<Rightarrow> nat" where
  "session_count e = length (en_sessions e)"

definition session_alive :: "u64 \<Rightarrow> 'e engine \<Rightarrow> bool" where
  "session_alive i e = (en_running e \<and> bt_contains (en_sessions e) i)"

definition remove_session :: "u64 \<Rightarrow> 'e engine \<Rightarrow> string option \<times> 'e engine" where
  "remove_session i e =
     (bt_get (en_sessions e) i, publish (bt_remove i (en_sessions e)) e)"

definition teardown :: "u64 \<Rightarrow> string \<Rightarrow> 'e engine \<Rightarrow> 'e engine" where
  "teardown i reason e =
     (case remove_session i e of
        (Some _, e) \<Rightarrow> engine_emit (Session_Lost i reason) e
      | (None, e) \<Rightarrow> e)"

definition fail_attempt :: "u64 \<Rightarrow> string \<Rightarrow> 'e engine \<Rightarrow> 'e engine" where
  "fail_attempt i reason e =
     (let (_, e) = remove_session i e in engine_emit (Session_Lost i reason) e)"

definition remove_trusted_peer :: "string \<Rightarrow> 'e engine \<Rightarrow> bool \<times> 'e engine" where
  "remove_trusted_peer peer e =
     (let removed = (trusted_secret peer (en_trust e) \<noteq> None);
          e = e\<lparr>en_trust := (en_trust e)\<lparr>ts_trusted := bt_remove peer (ts_trusted (en_trust e))\<rparr>\<rparr>;
          ids = map fst (filter (\<lambda>(_, p). p = peer) (en_sessions e));
          e = fold (\<lambda>i. teardown i ''trusted peer was revoked'') ids e;
          e = e\<lparr>en_trust := (en_trust e)
                \<lparr>ts_pending := filter (\<lambda>(_, p). pe_peer p \<noteq> peer) (ts_pending (en_trust e))\<rparr>\<rparr>
      in (removed \<or> ids \<noteq> [], e))"

definition stop_all :: "'e engine \<Rightarrow> 'e engine" where
  "stop_all e =
     (let e = e\<lparr>en_running := False\<rparr>
      in fold (\<lambda>i. teardown i ''engine stopped'') (bt_keys (en_sessions e)) e)"

subsection \<open>Handshake slots\<close>

definition handshake_limit :: "nat \<Rightarrow> u64" where
  "handshake_limit max_pending_handshakes = of_nat (max max_pending_handshakes 1)"

text \<open>
  The loop of \<^verbatim>\<open>claim_handshake\<close> on the shared counter: each round lists what other
  threads do to the counter before the exchange and whether the exchange fails spuriously.
\<close>

fun claim_rounds ::
    "u64 \<Rightarrow> u64 \<Rightarrow> ((u64 \<Rightarrow> u64) \<times> bool) list \<Rightarrow> u64 \<Rightarrow> bool option \<times> u64" where
  "claim_rounds limit current [] counter =
     (if limit \<le> current then (Some False, counter) else (None, counter))"
| "claim_rounds limit current ((others, spurious) # rounds) counter =
     (if limit \<le> current then (Some False, counter)
      else
        let counter = others counter in
        if counter = current \<and> \<not> spurious then (Some True, counter + 1)
        else claim_rounds limit counter rounds counter)"

definition claim_handshake ::
    "nat \<Rightarrow> ((u64 \<Rightarrow> u64) \<times> bool) list \<Rightarrow> u64 \<Rightarrow> bool option \<times> u64" where
  "claim_handshake max_pending_handshakes rounds counter =
     claim_rounds (handshake_limit max_pending_handshakes) counter rounds counter"

definition release_handshake :: "u64 \<Rightarrow> u64" where
  "release_handshake counter = counter - 1"

end
