(* ===== verification/Engine_Props.thy ===== *)
theory Engine_Props
  imports Engine_State
begin

text \<open>
  What the engine's limits give: the rate of pairing guesses from one source, the size of
  every table an untrusted peer can grow, and what the handshake slots bound.
\<close>

subsection \<open>Events\<close>

lemma length_replace_first: "replace_first p x ys = Some zs \<Longrightarrow> length zs = length ys"
  by (induction ys arbitrary: zs) (auto split: if_splits)

lemma length_coalesced: "coalesced event events = Some events' \<Longrightarrow> length events' = length events"
  by (cases event) (auto simp: Let_def dest!: length_replace_first)

lemma emit_event_bounded:
  "length events \<le> max_queued_events \<Longrightarrow> length (emit_event event events) \<le> max_queued_events"
  by (auto simp: emit_event_def Let_def dest: length_coalesced split: option.split)

subsection \<open>Failure tables\<close>

lemma least_recently_seen_in:
  assumes "least_recently_seen m = Some k"
  obtains r where "(k, r) \<in> set m"
proof -
  have "m \<noteq> []" and k: "k = fst (arg_min_list (\<lambda>(_, r). fl_last_seen r) m)"
    using assms by (auto simp: least_recently_seen_def split: if_splits)
  then have "arg_min_list (\<lambda>(_, r). fl_last_seen r) m \<in> set m" by (simp add: arg_min_list_in)
  then show thesis using that k by (metis prod.collapse)
qed

lemma length_bt_remove_less: "(k, r) \<in> set m \<Longrightarrow> length (bt_remove k m) < length m"
  unfolding bt_remove_def by (rule length_filter_less [of "(k, r)"]) auto

lemma make_room_wf: "bt_wf m \<Longrightarrow> bt_wf (make_room cap now k m)"
  by (auto simp: make_room_def Let_def bt_wf_filter split: option.split)

lemma make_room_known: "bt_contains m k \<Longrightarrow> make_room cap now k m = m"
  by (simp add: make_room_def)

lemma make_room_roomy: "length m < cap \<Longrightarrow> make_room cap now k m = m"
  by (simp add: make_room_def)

lemma make_room_unknown:
  assumes "0 < cap" "length m \<le> cap" "\<not> bt_contains m k"
  shows "length (make_room cap now k m) < cap"
proof (cases "cap \<le> length m")
  case False
  then show ?thesis using make_room_roomy [of m cap now k] by simp
next
  case True
  let ?m = "filter (\<lambda>(_, r). now < fl_locked_until r) m"
  have le: "length ?m \<le> cap" using assms(2) by (rule le_trans [OF length_filter_le])
  show ?thesis
  proof (cases "cap \<le> length ?m")
    case False
    then show ?thesis using True assms(3) by (simp add: make_room_def Let_def)
  next
    case full: True
    then have "?m \<noteq> []" using assms(1) by auto
    then obtain k' where k': "least_recently_seen ?m = Some k'"
      by (simp add: least_recently_seen_def del: filter_empty_conv)
    then obtain r where "(k', r) \<in> set ?m" by (rule least_recently_seen_in)
    then have "length (bt_remove k' ?m) < length ?m" by (rule length_bt_remove_less)
    then show ?thesis using True full k' le assms(3) by (simp add: make_room_def Let_def)
  qed
qed

text \<open>Both tables grow by the same insertion.\<close>

lemma insert_with_room_bounded:
  assumes "bt_wf m" "0 < cap" "length m \<le> cap"
  shows "length (bt_insert k r (make_room cap now k m)) \<le> cap"
proof (cases "bt_contains m k")
  case True
  then show ?thesis using assms by (simp add: make_room_known length_bt_insert)
next
  case False
  then have "length (make_room cap now k m) < cap" using assms by (intro make_room_unknown)
  then show ?thesis using make_room_wf [OF assms(1)] by (simp add: length_bt_insert)
qed

definition failures_ok :: "nat \<Rightarrow> 'k::linorder failures \<Rightarrow> bool" where
  "failures_ok cap m = (bt_wf m \<and> length m \<le> cap)"

lemma failures_ok_remove: "failures_ok cap m \<Longrightarrow> failures_ok cap (bt_remove k m)"
  using length_bt_remove_le [of k m] by (simp add: failures_ok_def)

lemma failures_ok_insert:
  "0 < cap \<Longrightarrow> failures_ok cap m \<Longrightarrow> failures_ok cap (bt_insert k r (make_room cap now k m))"
  by (simp add: failures_ok_def insert_with_room_bounded make_room_wf)

lemma failures_ok_pairing:
  "failures_ok max_pairing_failure_records m \<Longrightarrow>
   failures_ok max_pairing_failure_records (note_pairing_failure now addr m)"
  "failures_ok cap m \<Longrightarrow> failures_ok cap (snd (pairing_allowed now addr m))"
  by (auto simp: note_pairing_failure_def Let_def pairing_allowed_def max_pairing_failure_records_def
      failures_ok_remove split: option.split intro: failures_ok_insert)

lemma failures_ok_candidate:
  "failures_ok max_trusted_candidate_failures m \<Longrightarrow>
   failures_ok max_trusted_candidate_failures (note_candidate_failure now key m)"
  "failures_ok cap m \<Longrightarrow> failures_ok cap (snd (candidate_allowed now key m))"
  by (auto simp: note_candidate_failure_def Let_def candidate_allowed_def
      max_trusted_candidate_failures_def failures_ok_remove split: option.split
      intro: failures_ok_insert)

subsection \<open>The pairing game\<close>

text \<open>
  The door of the host (\<^verbatim>\<open>session/host.rs\<close>, \<^verbatim>\<open>session/handshake.rs\<close>): a connection
  that claims one of the handshake slots asks the limiter once, when its thread starts, and
  reports a wrong PIN only after the exchange; connections overlap. \<open>dr_inside\<close> lists the
  sources whose threads have passed the limiter. A slot is given back at the end of the
  thread, here already when the exchange is over, which only admits more.
\<close>

datatype 'a door_event = Arrive 'a | Wrong_Pin 'a | Right_Pin 'a | Hang_Up 'a

record 'a door =
  dr_failures :: "'a failures"
  dr_inside :: "'a list"

fun door_step :: "nat \<Rightarrow> nat \<Rightarrow> 'a::linorder door_event \<Rightarrow> 'a door \<Rightarrow> 'a door" where
  "door_step slots now (Arrive a) d =
     (if slots \<le> length (dr_inside d) then d
      else
        let (allowed, m) = pairing_allowed now a (dr_failures d);
            d = d\<lparr>dr_failures := m\<rparr>
        in if allowed then d\<lparr>dr_inside := a # dr_inside d\<rparr> else d)"
| "door_step slots now (Wrong_Pin a) d =
     (if a \<in> set (dr_inside d)
      then \<lparr>dr_failures = note_pairing_failure now a (dr_failures d),
            dr_inside = remove1 a (dr_inside d)\<rparr>
      else d)"
| "door_step slots now (Right_Pin a) d =
     (if a \<in> set (dr_inside d)
      then \<lparr>dr_failures = clear_pairing_failures a (dr_failures d),
            dr_inside = remove1 a (dr_inside d)\<rparr>
      else d)"
| "door_step slots now (Hang_Up a) d = d\<lparr>dr_inside := remove1 a (dr_inside d)\<rparr>"

text \<open>How many PINs the source \<open>a\<close> gets checked and wrong.\<close>

fun guesses :: "nat \<Rightarrow> 'a::linorder \<Rightarrow> (nat \<times> 'a door_event) list \<Rightarrow> 'a door \<Rightarrow> nat" where
  "guesses slots a [] d = 0"
| "guesses slots a ((now, e) # events) d =
     (if e = Wrong_Pin a \<and> a \<in> set (dr_inside d) then 1 else 0) +
     guesses slots a events (door_step slots now e d)"

fun source :: "'a door_event \<Rightarrow> 'a" where
  "source (Arrive a) = a"
| "source (Wrong_Pin a) = a"
| "source (Right_Pin a) = a"
| "source (Hang_Up a) = a"

text \<open>The guesses a source has left up to the time \<open>stop\<close>, \<open>f\<close> of its threads being inside.\<close>

definition guess_budget :: "nat \<Rightarrow> nat \<Rightarrow> nat \<Rightarrow> failure_record option \<Rightarrow> nat \<Rightarrow> nat" where
  "guess_budget slots now stop r f =
     (case r of
        None \<Rightarrow> (4 + slots) * (1 + (stop - now) div pairing_lockout)
      | Some r \<Rightarrow>
          if pairing_attempt_limit \<le> fl_count r then
            f + (if fl_locked_until r \<le> stop
                 then (4 + slots) * (1 + (stop - max (fl_locked_until r) now) div pairing_lockout)
                 else 0)
          else 5 - unat (fl_count r) + (slots - 1) +
               (4 + slots) * ((stop - now) div pairing_lockout))"

lemma guess_budget_later:
  "now \<le> now' \<Longrightarrow> guess_budget slots now' stop r f \<le> guess_budget slots now stop r f"
  by (auto simp: guess_budget_def max_def intro!: div_le_mono mult_le_mono2 add_mono
      split: option.split)

lemma guess_budget_fewer: "f \<le> f' \<Longrightarrow> guess_budget slots now stop r f \<le> guess_budget slots now stop r f'"
  by (auto simp: guess_budget_def split: option.split)

text \<open>What is known of the record of a source at any time.\<close>

definition record_fits :: "nat \<Rightarrow> nat \<Rightarrow> failure_record option \<Rightarrow> nat \<Rightarrow> bool" where
  "record_fits slots now r f =
     (f \<le> slots \<and>
      (case r of
         None \<Rightarrow> True
       | Some r \<Rightarrow> fl_locked_until r \<le> now + pairing_lockout \<and>
           (pairing_attempt_limit \<le> fl_count r \<longrightarrow> unat (fl_count r) + f \<le> 4 + slots)))"

lemma record_fits_later: "record_fits slots now r f \<Longrightarrow> now \<le> now' \<Longrightarrow> record_fits slots now' r f"
  by (auto simp: record_fits_def split: option.splits)

lemma record_fits_fewer: "record_fits slots now r f \<Longrightarrow> f' \<le> f \<Longrightarrow> record_fits slots now r f'"
  by (auto simp: record_fits_def split: option.splits)

lemma fits_table:
  assumes "bt_wf m" "fst ` set m \<subseteq> S" "finite S" "k \<in> S" "card S \<le> max_pairing_failure_records"
  shows "make_room max_pairing_failure_records now k m = m"
proof (cases "bt_contains m k")
  case True
  then show ?thesis by (rule make_room_known)
next
  case False
  then have "fst ` set m \<subseteq> S - {k}"
    using assms(2) by (force simp: bt_contains_def bt_get_def map_of_eq_None_iff)
  then have "card (fst ` set m) < card S"
    using assms(3,4) by (meson card_Diff1_less card_mono finite_Diff le_less_trans)
  moreover have "card (fst ` set m) = length m"
    using distinct_bt_keys [OF assms(1)] distinct_card [of "bt_keys m"] by (simp add: bt_keys_def)
  ultimately show ?thesis using assms(5) by (intro make_room_roomy) simp
qed

lemma pairing_allowed_other: "b \<noteq> a \<Longrightarrow> bt_get (snd (pairing_allowed now b m)) a = bt_get m a"
  by (auto simp: pairing_allowed_def split: option.split)

lemma pairing_allowed_keys: "fst ` set (snd (pairing_allowed now b m)) \<subseteq> fst ` set m"
  using bt_remove_subset [of b m] by (auto simp: pairing_allowed_def split: option.split)

lemma pairing_allowed_wf: "bt_wf m \<Longrightarrow> bt_wf (snd (pairing_allowed now b m))"
  by (auto simp: pairing_allowed_def split: option.split)

text \<open>The record of a source after its failed guess, when the table has room.\<close>

definition after_guess :: "nat \<Rightarrow> failure_record \<Rightarrow> failure_record" where
  "after_guess now r =
     (let r = r\<lparr>fl_count := fl_count r + 1, fl_last_seen := now\<rparr>
      in if pairing_attempt_limit \<le> fl_count r
         then r\<lparr>fl_locked_until := now + pairing_lockout\<rparr> else r)"

lemma note_pairing_failure_room:
  "make_room max_pairing_failure_records now addr m = m \<Longrightarrow>
   note_pairing_failure now addr m = bt_insert addr (after_guess now (or_insert_failure now addr m)) m"
  by (simp add: note_pairing_failure_def after_guess_def Let_def)

lemma limit_reached: "pairing_attempt_limit \<le> c \<longleftrightarrow> 5 \<le> unat c"
  by (simp add: pairing_attempt_limit_def word_le_nat_alt)

lemma unat_next_count: "unat c + 1 < 2 ^ 32 \<Longrightarrow> unat (c + 1 :: u32) = Suc (unat c)"
  by (simp add: unat_word_ariths)

lemma lockout_div:
  "now + pairing_lockout \<le> stop \<Longrightarrow>
   1 + (stop - (now + pairing_lockout)) div pairing_lockout = (stop - now) div pairing_lockout"
  using le_div_geq [of pairing_lockout "stop - now"] by (simp add: pairing_lockout_def)

text \<open>A wrong PIN spends one guess of the budget.\<close>

lemma after_guess_spends:
  assumes "now \<le> stop" "f < slots" "slots + 5 < 2 ^ 32"
    "record_fits slots now (Some r) (Suc f)"
  shows "1 + guess_budget slots now stop (Some (after_guess now r)) f
      \<le> guess_budget slots now stop (Some r) (Suc f)"
    and "record_fits slots now (Some (after_guess now r)) f"
proof -
  have fit: "5 \<le> unat (fl_count r) \<Longrightarrow> unat (fl_count r) + Suc f \<le> 4 + slots"
    "fl_locked_until r \<le> now + pairing_lockout"
    using assms(4) by (simp_all add: record_fits_def limit_reached)
  then have "unat (fl_count r) + 1 < 2 ^ 32" using assms(3) by (cases "5 \<le> unat (fl_count r)") auto
  then have c: "unat (fl_count r + 1) = Suc (unat (fl_count r))" by (rule unat_next_count)
  show "record_fits slots now (Some (after_guess now r)) f"
    using fit c assms(2)
    by (cases "5 \<le> unat (fl_count r)")
      (auto simp: record_fits_def after_guess_def Let_def limit_reached)
  consider "unat (fl_count r) < 4" | "unat (fl_count r) = 4" | "5 \<le> unat (fl_count r)" by linarith
  then show "1 + guess_budget slots now stop (Some (after_guess now r)) f
      \<le> guess_budget slots now stop (Some r) (Suc f)"
  proof cases
    case 1
    then show ?thesis by (simp add: guess_budget_def after_guess_def Let_def limit_reached c)
  next
    case 2
    then show ?thesis
      using assms(2) by (cases "now + pairing_lockout \<le> stop")
        (simp_all add: guess_budget_def after_guess_def Let_def limit_reached c max_def
          flip: lockout_div)
  next
    case 3
    have "(stop - (now + pairing_lockout)) div pairing_lockout
        \<le> (stop - max (fl_locked_until r) now) div pairing_lockout"
      using fit(2) by (intro div_le_mono diff_le_mono2) simp
    then show ?thesis
      using 3 fit(2) by (auto simp: guess_budget_def after_guess_def Let_def limit_reached c)
  qed
qed

lemma first_guess_spends:
  "0 < slots \<Longrightarrow> 1 + guess_budget slots now stop (Some (after_guess now
      \<lparr>fl_count = 0, fl_locked_until = now, fl_last_seen = now\<rparr>)) f
      \<le> guess_budget slots now stop None f'"
  by (simp add: guess_budget_def after_guess_def Let_def pairing_attempt_limit_def word_le_nat_alt)

subsection \<open>The budget over a run\<close>

definition door_ok :: "'a::linorder set \<Rightarrow> nat \<Rightarrow> nat \<Rightarrow> 'a \<Rightarrow> 'a door \<Rightarrow> bool" where
  "door_ok S slots now a d =
     (bt_wf (dr_failures d) \<and> fst ` set (dr_failures d) \<subseteq> S \<and> length (dr_inside d) \<le> slots \<and>
      record_fits slots now (bt_get (dr_failures d) a) (count_list (dr_inside d) a))"

definition budget :: "nat \<Rightarrow> nat \<Rightarrow> nat \<Rightarrow> 'a \<Rightarrow> 'a door \<Rightarrow> nat" where
  "budget slots now stop a d =
     guess_budget slots now stop (bt_get (dr_failures d) a) (count_list (dr_inside d) a)"

lemma count_list_remove1_self: "a \<in> set xs \<Longrightarrow> Suc (count_list (remove1 a xs) a) = count_list xs a"
  by (induction xs) auto

lemma count_list_remove1_other: "b \<noteq> a \<Longrightarrow> count_list (remove1 b xs) a = count_list xs a"
  by (induction xs) auto

lemma count_list_remove1_le: "count_list (remove1 b xs) a \<le> count_list xs a"
  by (induction xs) auto

lemma count_list_le_length: "count_list xs a \<le> length xs"
  by (induction xs) auto

lemma arrive_spends_nothing:
  assumes "door_ok S slots now a d" "now \<le> stop"
  shows "door_ok S slots now a (door_step slots now (Arrive b) d) \<and>
    budget slots now stop a (door_step slots now (Arrive b) d) \<le> budget slots now stop a d"
proof (cases "slots \<le> length (dr_inside d)")
  case True
  then show ?thesis using assms by simp
next
  case room: False
  obtain ok m where m: "pairing_allowed now b (dr_failures d) = (ok, m)" by fastforce
  note D = assms(1) [unfolded door_ok_def]
  have wf: "bt_wf m" "fst ` set m \<subseteq> S"
    using pairing_allowed_wf [of "dr_failures d" now b] pairing_allowed_keys [of now b "dr_failures d"]
      D by (auto simp: m)
  let ?f = "count_list (dr_inside d) a"
  have few: "count_list (b # dr_inside d) a \<le> slots"
    using room count_list_le_length [of "b # dr_inside d" a] by (simp split: if_splits)
  have key: "record_fits slots now (bt_get m a) f \<and>
      guess_budget slots now stop (bt_get m a) f \<le> budget slots now stop a d"
    if f: "f = (if ok then count_list (b # dr_inside d) a else ?f)" for f
  proof (cases "b = a")
    case False
    then show ?thesis
      using f D pairing_allowed_other [OF False, of now "dr_failures d"] by (simp add: m budget_def)
  next
    case True
    consider "ok" "bt_get m a = None" "bt_get (dr_failures d) a = None"
      | r where "ok" "bt_get m a = None" "bt_get (dr_failures d) a = Some r" "fl_locked_until r \<le> now"
          "pairing_attempt_limit \<le> fl_count r"
      | r where "ok" "bt_get m a = Some r" "bt_get (dr_failures d) a = Some r"
          "\<not> pairing_attempt_limit \<le> fl_count r"
      | "\<not> ok" "m = dr_failures d"
      using m True D
      by (auto simp: pairing_allowed_def split: option.splits if_splits)
    then show ?thesis
    proof cases
      case 1
      then show ?thesis using few f by (simp add: record_fits_def budget_def guess_budget_def)
    next
      case 2
      then show ?thesis
        using few f assms(2) by (simp add: record_fits_def budget_def guess_budget_def max_def)
    next
      case 3
      then show ?thesis using few f D by (simp add: record_fits_def budget_def guess_budget_def)
    next
      case 4
      then show ?thesis using f D by (simp add: budget_def)
    qed
  qed
  show ?thesis
    using key [OF refl] wf D room by (cases ok) (simp_all add: door_ok_def budget_def m Let_def)
qed

lemma wrong_pin_spends:
  assumes ok: "door_ok S slots now a d" and now: "now \<le> stop" and b: "b \<in> S" "b \<in> set (dr_inside d)"
    and S: "finite S" "card S \<le> max_pairing_failure_records" and slots: "slots + 5 < 2 ^ 32"
  shows "door_ok S slots now a (door_step slots now (Wrong_Pin b) d) \<and>
    (if b = a then 1 else 0) + budget slots now stop a (door_step slots now (Wrong_Pin b) d)
      \<le> budget slots now stop a d"
proof -
  note D = ok [unfolded door_ok_def]
  let ?m = "dr_failures d"
  have note_eq: "note_pairing_failure now b ?m =
      bt_insert b (after_guess now (or_insert_failure now b ?m)) ?m"
    using fits_table [of ?m S b now] D b(1) S by (intro note_pairing_failure_room) auto
  have len: "length (remove1 b (dr_inside d)) < slots"
    using conjunct1 [OF conjunct2 [OF conjunct2 [OF D]]] length_pos_if_in_set [OF b(2)] b(2)
    by (simp only: length_remove1 if_True)
  have base: "bt_wf (note_pairing_failure now b ?m)" "fst ` set (note_pairing_failure now b ?m) \<subseteq> S"
    using D b(1) by (simp_all add: note_eq fst_set_bt_insert)
  show ?thesis
  proof (cases "b = a")
    case False
    then show ?thesis
      using D b(2) base len note_eq by (simp add: door_ok_def budget_def count_list_remove1_other)
  next
    case True
    define f where "f = count_list (remove1 a (dr_inside d)) a"
    have f: "count_list (dr_inside d) a = Suc f" "f < slots"
      using count_list_remove1_self [of a "dr_inside d"] b(2) True len
        count_list_le_length [of "remove1 a (dr_inside d)" a] by (simp_all add: f_def)
    have got: "bt_get (note_pairing_failure now a ?m) a = Some (after_guess now (or_insert_failure now a ?m))"
      using note_eq True by simp
    have "record_fits slots now (Some (after_guess now (or_insert_failure now a ?m))) f \<and>
        1 + guess_budget slots now stop (Some (after_guess now (or_insert_failure now a ?m))) f
          \<le> guess_budget slots now stop (bt_get ?m a) (Suc f)"
    proof (cases "bt_get ?m a")
      case None
      then show ?thesis
        using first_guess_spends [of slots now stop f "Suc f"] f(2)
        by (simp add: or_insert_failure_def record_fits_def after_guess_def Let_def limit_reached)
    next
      case (Some r)
      then have "record_fits slots now (Some r) (Suc f)" using D f(1) by simp
      from after_guess_spends [OF now f(2) slots this] show ?thesis
        using Some by (simp add: or_insert_failure_def)
    qed
    then show ?thesis
      using b(2) base len got f(1) True by (simp add: door_ok_def budget_def flip: f_def)
  qed
qed

lemma other_events_spend_nothing:
  assumes ok: "door_ok S slots now a d" and e: "e = Hang_Up b \<or> e = Right_Pin b \<and> b \<noteq> a"
  shows "door_ok S slots now a (door_step slots now e d) \<and>
    budget slots now stop a (door_step slots now e d) \<le> budget slots now stop a d"
proof -
  note D = ok [unfolded door_ok_def]
  have "length (remove1 b (dr_inside d)) \<le> slots"
    using D by (auto simp: length_remove1)
  moreover have "fst ` set (bt_remove b (dr_failures d)) \<subseteq> S"
    using image_mono [OF bt_remove_subset [of b "dr_failures d"], of fst] D by blast
  moreover have "record_fits slots now r (count_list (remove1 b (dr_inside d)) a)"
    "guess_budget slots now stop r (count_list (remove1 b (dr_inside d)) a)
      \<le> guess_budget slots now stop r (count_list (dr_inside d) a)"
    if "record_fits slots now r (count_list (dr_inside d) a)" for r
    using that count_list_remove1_le [of b "dr_inside d" a]
    by (blast intro: record_fits_fewer guess_budget_fewer)+
  moreover have "door_step slots now e d = d \<or>
      dr_inside (door_step slots now e d) = remove1 b (dr_inside d) \<and>
      (dr_failures (door_step slots now e d) = dr_failures d \<or>
       b \<noteq> a \<and> dr_failures (door_step slots now e d) = bt_remove b (dr_failures d))"
    using e by (auto simp: clear_pairing_failures_def)
  ultimately show ?thesis
    using D by (elim disjE conjE) (simp_all add: door_ok_def budget_def)
qed

lemma guesses_budget:
  assumes "sorted (map fst events)" "\<forall>(t, e) \<in> set events. now \<le> t \<and> t \<le> stop \<and> source e \<in> S"
    "\<forall>(t, e) \<in> set events. e \<noteq> Right_Pin a" "door_ok S slots now a d"
    "finite S" "card S \<le> max_pairing_failure_records" "slots + 5 < 2 ^ 32"
  shows "guesses slots a events d \<le> budget slots now stop a d"
  using assms(1-4)
proof (induction events arbitrary: now d)
  case Nil
  then show ?case by simp
next
  case (Cons x events)
  obtain t e where x: "x = (t, e)" by (cases x)
  have t: "now \<le> t" "t \<le> stop" "source e \<in> S" "e \<noteq> Right_Pin a"
    using Cons.prems(2,3) by (auto simp: x)
  have ok: "door_ok S slots t a d"
    using Cons.prems(4) record_fits_later [OF _ t(1)] by (auto simp: door_ok_def)
  let ?d = "door_step slots t e d"
  have step: "door_ok S slots t a ?d \<and>
      (if e = Wrong_Pin a \<and> a \<in> set (dr_inside d) then 1 else 0) + budget slots t stop a ?d
        \<le> budget slots t stop a d"
  proof (cases e)
    case (Arrive b)
    then show ?thesis using arrive_spends_nothing [OF ok t(2)] by simp
  next
    case (Wrong_Pin b)
    then show ?thesis
      using wrong_pin_spends [OF ok t(2) _ _ assms(5-7), of b] t(3) ok by (cases "b \<in> set (dr_inside d)") auto
  next
    case (Right_Pin b)
    then show ?thesis using other_events_spend_nothing [OF ok, of e b] t(4) by simp
  next
    case (Hang_Up b)
    then show ?thesis using other_events_spend_nothing [OF ok, of e b] by simp
  qed
  have "guesses slots a events ?d \<le> budget slots t stop a ?d"
    using Cons.prems(1-3) step by (intro Cons.IH) (fastforce simp: x)+
  moreover have "budget slots t stop a d \<le> budget slots now stop a d"
    unfolding budget_def by (rule guess_budget_later [OF t(1)])
  ultimately show ?case using step by (simp add: x)
qed

text \<open>
  C18: Guessing the pairing PIN is slow. Whatever other sources do, and however the
  connections overlap, as long as no more than 1024 sources appear, a source that never
  pairs successfully gets at most four PINs more than there are handshake slots checked in
  each started minute of the run.
\<close>

theorem pairing_guesses_limited:
  assumes "sorted (map fst events)" and "\<forall>(t, e) \<in> set events. start \<le> t \<and> t \<le> stop"
    and "\<forall>(t, e) \<in> set events. e \<noteq> Right_Pin a"
    and "card ((\<lambda>(t, e). source e) ` set events) \<le> max_pairing_failure_records"
    and "slots + 5 < 2 ^ 32"
  shows "guesses slots a events \<lparr>dr_failures = [], dr_inside = []\<rparr>
    \<le> (4 + slots) * (1 + (stop - start) div pairing_lockout)"
proof -
  let ?S = "(\<lambda>(t, e). source e) ` set events" and ?d = "\<lparr>dr_failures = [], dr_inside = []\<rparr>"
  have "door_ok ?S slots start a ?d" by (simp add: door_ok_def record_fits_def)
  moreover have "\<forall>(t, e) \<in> set events. start \<le> t \<and> t \<le> stop \<and> source e \<in> ?S" using assms(2) by force
  ultimately have "guesses slots a events ?d \<le> budget slots start stop a ?d"
    using guesses_budget [OF assms(1) _ assms(3) _ _ assms(4,5)] by blast
  then show ?thesis by (simp add: budget_def guess_budget_def)
qed

text \<open>The bound is reached: the twelve guesses of a source with eight slots, in one second.\<close>

definition overlapping_guesses :: "(nat \<times> nat door_event) list" where
  "overlapping_guesses =
     [(0, Arrive 7), (1, Wrong_Pin 7), (2, Arrive 7), (3, Wrong_Pin 7),
      (4, Arrive 7), (5, Wrong_Pin 7), (6, Arrive 7), (7, Wrong_Pin 7),
      (8, Arrive 7), (9, Arrive 7), (10, Arrive 7), (11, Arrive 7),
      (12, Arrive 7), (13, Arrive 7), (14, Arrive 7), (15, Arrive 7),
      (16, Wrong_Pin 7), (17, Wrong_Pin 7), (18, Wrong_Pin 7), (19, Wrong_Pin 7),
      (20, Wrong_Pin 7), (21, Wrong_Pin 7), (22, Wrong_Pin 7), (23, Wrong_Pin 7)]"

lemma twelve_guesses: "guesses 8 7 overlapping_guesses \<lparr>dr_failures = [], dr_inside = []\<rparr> = 12"
  by (simp add: overlapping_guesses_def pairing_allowed_def note_pairing_failure_def
      make_room_def max_pairing_failure_records_def or_insert_failure_def bt_get_def
      bt_contains_def limit_reached pairing_lockout_def Let_def)

lemma pairing_guesses_limited_witness:
  "guesses 8 7 overlapping_guesses \<lparr>dr_failures = [], dr_inside = []\<rparr>
    \<le> (4 + 8) * (1 + (23 - 0) div pairing_lockout)"
proof (rule pairing_guesses_limited)
  show "sorted (map fst overlapping_guesses)" by code_simp
  show "\<forall>(t, e) \<in> set overlapping_guesses. 0 \<le> t \<and> t \<le> 23" by code_simp
  show "\<forall>(t, e) \<in> set overlapping_guesses. e \<noteq> Right_Pin 7" by code_simp
  have "(\<lambda>(t, e). source e) ` set overlapping_guesses \<subseteq> {7}" by code_simp
  then have "card ((\<lambda>(t, e). source e) ` set overlapping_guesses) \<le> card {7 :: nat}"
    by (rule card_mono [rotated]) simp
  then show "card ((\<lambda>(t, e). source e) ` set overlapping_guesses) \<le> max_pairing_failure_records"
    by (simp add: max_pairing_failure_records_def)
qed simp

text \<open>
  The table itself can be flushed: when it is full of sources that have not used up their
  budget, one more source discards them all, and each starts with a fresh budget.
\<close>

lemma flood_forgets_failures:
  assumes "max_pairing_failure_records \<le> length m" "\<forall>(b, r) \<in> set m. fl_locked_until r \<le> now"
    "\<not> bt_contains m addr"
  shows "note_pairing_failure now addr m =
     [(addr, \<lparr>fl_count = 1, fl_locked_until = now, fl_last_seen = now\<rparr>)]"
proof -
  have "filter (\<lambda>(_, r). now < fl_locked_until r) m = []"
    using assms(2) by (auto simp: filter_empty_conv)
  then show ?thesis
    using assms(1,3) by (simp add: note_pairing_failure_def make_room_def or_insert_failure_def
        Let_def max_pairing_failure_records_def pairing_attempt_limit_def word_le_nat_alt)
qed

end
