(* ===== verification/Engine_Tables.thy ===== *)
theory Engine_Tables
  imports Engine_Props
begin

text \<open>
  The engine under any sequence of its operations: its tables stay well formed and within
  their limits, also while the configuration is replaced.
\<close>

subsection \<open>Operations on the engine\<close>

text \<open>
  An insertion reads the limit on sessions under the lock of the configuration and inserts
  under the lock of the table: \<open>et_readings\<close> holds the limits the threads have read.
\<close>

record ('a, 'e) engine_tables =
  et_engine :: "'e engine"
  et_pairing :: "'a failures"
  et_candidates :: "(string \<times> 'a) failures"
  et_addresses :: "(string, 'a) btree"
  et_readings :: "nat list"

datatype ('a, 'e) engine_op =
    Emit "'e relay_event"
  | Drain
  | Pairing_Check nat 'a
  | Pairing_Failure nat 'a
  | Pairing_Success 'a
  | Candidate_Check nat string 'a
  | Candidate_Failure nat string 'a
  | Candidate_Success string 'a
  | Allocate
  | Read_Limit
  | Insert_Session nat u64 string
  | Teardown u64 string
  | Fail_Attempt u64 string
  | Revoke string
  | Stop
  | Begin_Enrollment nat u64 string string bytes
  | Accept_Enrollment nat u64
  | Reject_Enrollment nat u64 string
  | Take_Enrollment nat u64
  | Remember string bytes
  | Replace_Config nat
  | Import_Trusted "(string \<times> bytes) list"

definition on_engine ::
    "('e engine \<Rightarrow> 'e engine) \<Rightarrow> ('a, 'e) engine_tables \<Rightarrow> ('a, 'e) engine_tables" where
  "on_engine f t = t\<lparr>et_engine := f (et_engine t)\<rparr>"

definition on_trust ::
    "(trust_state \<Rightarrow> trust_state) \<Rightarrow> ('a, 'e) engine_tables \<Rightarrow> ('a, 'e) engine_tables" where
  "on_trust f = on_engine (\<lambda>e. e\<lparr>en_trust := f (en_trust e)\<rparr>)"

fun engine_apply ::
    "('a::linorder, 'e) engine_op \<Rightarrow> ('a, 'e) engine_tables \<Rightarrow> ('a, 'e) engine_tables" where
  "engine_apply (Emit event) t = on_engine (engine_emit event) t"
| "engine_apply Drain t = on_engine (\<lambda>e. e\<lparr>en_events := snd (drain_events (en_events e))\<rparr>) t"
| "engine_apply (Pairing_Check now a) t =
     t\<lparr>et_pairing := snd (pairing_allowed now a (et_pairing t))\<rparr>"
| "engine_apply (Pairing_Failure now a) t =
     t\<lparr>et_pairing := note_pairing_failure now a (et_pairing t)\<rparr>"
| "engine_apply (Pairing_Success a) t =
     t\<lparr>et_pairing := clear_pairing_failures a (et_pairing t)\<rparr>"
| "engine_apply (Candidate_Check now peer a) t =
     t\<lparr>et_candidates := snd (candidate_allowed now (peer, a) (et_candidates t))\<rparr>"
| "engine_apply (Candidate_Failure now peer a) t =
     t\<lparr>et_candidates := note_candidate_failure now (peer, a) (et_candidates t)\<rparr>"
| "engine_apply (Candidate_Success peer a) t =
     (let (failures, addresses) =
            note_candidate_success peer a (et_candidates t, et_addresses t)
      in t\<lparr>et_candidates := failures, et_addresses := addresses\<rparr>)"
| "engine_apply Allocate t = on_engine (\<lambda>e. snd (next_session_id e)) t"
| "engine_apply Read_Limit t =
     t\<lparr>et_readings := en_max_sessions (et_engine t) # et_readings t\<rparr>"
| "engine_apply (Insert_Session reading i peer) t =
     (if reading < length (et_readings t)
      then on_engine (\<lambda>e. snd (insert_session (et_readings t ! reading) i peer e)) t else t)"
| "engine_apply (Teardown i reason) t = on_engine (teardown i reason) t"
| "engine_apply (Fail_Attempt i reason) t = on_engine (fail_attempt i reason) t"
| "engine_apply (Revoke peer) t = on_engine (\<lambda>e. snd (remove_trusted_peer peer e)) t"
| "engine_apply Stop t = on_engine stop_all t"
| "engine_apply (Begin_Enrollment now s peer_id peer secret) t =
     on_trust (\<lambda>st. snd (begin_trusted_enrollment now s peer_id peer secret st)) t"
| "engine_apply (Accept_Enrollment now tid) t =
     on_trust (\<lambda>st. snd (accept_trusted_enrollment now tid st)) t"
| "engine_apply (Reject_Enrollment now tid reason) t =
     on_trust (\<lambda>st. snd (reject_trusted_enrollment now tid reason st)) t"
| "engine_apply (Take_Enrollment now s) t =
     on_trust (\<lambda>st. snd (take_trusted_enrollment now s st)) t"
| "engine_apply (Remember peer secret) t = on_trust (remember_trusted_peer peer secret) t"
| "engine_apply (Replace_Config n) t =
     on_engine (replace_config n) t"
| "engine_apply (Import_Trusted peers) t = on_trust (update_trusted peers) t"

fun configured_limits :: "('a, 'e) engine_op list \<Rightarrow> nat list" where
  "configured_limits [] = []"
| "configured_limits (Replace_Config n # ops) = n # configured_limits ops"
| "configured_limits (_ # ops) = configured_limits ops"

definition tables_new :: "nat \<Rightarrow> (string \<times> bytes) list \<Rightarrow> ('a, 'e) engine_tables" where
  "tables_new max_sessions peers =
     \<lparr>et_engine = engine_new max_sessions peers, et_pairing = [], et_candidates = [],
      et_addresses = [], et_readings = []\<rparr>"

subsection \<open>The type of the tables\<close>

definition pending_ok :: "trust_state \<Rightarrow> bool" where
  "pending_ok st = (bt_wf (ts_pending st) \<and> length (ts_pending st) \<le> max_pending_trust_enrollments)"

definition engine_ok :: "nat \<Rightarrow> 'e engine \<Rightarrow> bool" where
  "engine_ok N e =
     (length (en_events e) \<le> max_queued_events \<and> bt_wf (en_sessions e) \<and>
      en_max_sessions e \<le> N \<and> length (en_sessions e) \<le> N \<and>
      en_snapshot e = bt_values (en_sessions e) \<and> pending_ok (en_trust e))"

definition tables_ok :: "nat \<Rightarrow> ('a::linorder, 'e) engine_tables \<Rightarrow> bool" where
  "tables_ok N t =
     (engine_ok N (et_engine t) \<and> (\<forall>limit \<in> set (et_readings t). limit \<le> N) \<and>
      failures_ok max_pairing_failure_records (et_pairing t) \<and>
      failures_ok max_trusted_candidate_failures (et_candidates t) \<and>
      bt_wf (et_addresses t) \<and> length (et_addresses t) \<le> max_trusted_successful_addresses)"

lemma engine_emit_ok: "engine_ok N e \<Longrightarrow> engine_ok N (engine_emit event e)"
  by (simp add: engine_ok_def engine_emit_def emit_event_bounded)

lemma remove_session_ok: "engine_ok N e \<Longrightarrow> engine_ok N (snd (remove_session i e))"
  using length_bt_remove_le [of i "en_sessions e"]
  by (simp add: engine_ok_def remove_session_def publish_def)

lemma insert_session_ok:
  "engine_ok N e \<Longrightarrow> limit \<le> N \<Longrightarrow> engine_ok N (snd (insert_session limit i peer e))"
  by (auto simp: engine_ok_def insert_session_def publish_def length_bt_insert)

lemma teardown_ok: "engine_ok N e \<Longrightarrow> engine_ok N (teardown i reason e)"
  using remove_session_ok [of N e i]
  by (auto simp: teardown_def intro: engine_emit_ok split: prod.split option.split)

lemma fail_attempt_ok: "engine_ok N e \<Longrightarrow> engine_ok N (fail_attempt i reason e)"
  using remove_session_ok [of N e i] by (auto simp: fail_attempt_def intro: engine_emit_ok split: prod.split)

lemma fold_teardown_ok: "engine_ok N e \<Longrightarrow> engine_ok N (fold (\<lambda>i. teardown i reason) is e)"
  by (induction "is" arbitrary: e) (simp_all add: teardown_ok)

lemma pending_ok_filter:
  "pending_ok st \<Longrightarrow> pending_ok (st\<lparr>ts_pending := filter p (ts_pending st)\<rparr>)"
  by (auto simp: pending_ok_def bt_wf_filter intro: le_trans [OF length_filter_le])

lemma remove_trusted_peer_ok: "engine_ok N e \<Longrightarrow> engine_ok N (snd (remove_trusted_peer peer e))"
proof -
  assume ok: "engine_ok N e"
  define e1 where "e1 = e\<lparr>en_trust := (en_trust e)\<lparr>ts_trusted := bt_remove peer (ts_trusted (en_trust e))\<rparr>\<rparr>"
  define e2 where "e2 = fold (\<lambda>i. teardown i ''trusted peer was revoked'')
      (map fst (filter (\<lambda>(_, p). p = peer) (en_sessions e1))) e1"
  have "engine_ok N e1" using ok by (simp add: e1_def engine_ok_def pending_ok_def)
  then have "engine_ok N e2" unfolding e2_def by (rule fold_teardown_ok)
  then have "engine_ok N (e2\<lparr>en_trust := (en_trust e2)
      \<lparr>ts_pending := filter (\<lambda>(_, p). pe_peer p \<noteq> peer) (ts_pending (en_trust e2))\<rparr>\<rparr>)"
    using pending_ok_filter by (auto simp: engine_ok_def)
  then show ?thesis
    by (simp add: remove_trusted_peer_def Let_def e2_def e1_def)
qed

lemma stop_all_ok: "engine_ok N e \<Longrightarrow> engine_ok N (stop_all e)"
  unfolding stop_all_def Let_def by (rule fold_teardown_ok) (simp add: engine_ok_def)

lemma begin_enrollment_ok:
  "pending_ok st \<Longrightarrow> pending_ok (snd (begin_trusted_enrollment now s peer_id peer secret st))"
  by (simp add: begin_trusted_enrollment_def Let_def pending_ok_filter)
    (auto simp: pending_ok_def bt_wf_filter length_bt_insert)

lemma decide_enrollment_ok:
  "pending_ok st \<Longrightarrow> pending_ok (snd (accept_trusted_enrollment now tid st))"
  "pending_ok st \<Longrightarrow> pending_ok (snd (reject_trusted_enrollment now tid reason st))"
  "pending_ok st \<Longrightarrow> pending_ok (snd (take_trusted_enrollment now s st))"
  using length_bt_remove_le [of _ "ts_pending st"]
  by (auto simp: accept_trusted_enrollment_def reject_trusted_enrollment_def
      take_trusted_enrollment_def Let_def set_decision_def pending_ok_def
      split: option.split enrollment_decision.split list.split prod.split intro: le_trans)

lemma import_ok:
  "pending_ok st \<Longrightarrow> pending_ok (remember_trusted_peer peer secret st)"
  "pending_ok st \<Longrightarrow> pending_ok (update_trusted peers st)"
  by (simp_all add: pending_ok_def remember_trusted_peer_def update_trusted_def)

lemma on_engine_ok:
  "tables_ok N t \<Longrightarrow> (\<And>e. engine_ok N e \<Longrightarrow> engine_ok N (f e)) \<Longrightarrow> tables_ok N (on_engine f t)"
  by (simp add: tables_ok_def on_engine_def)

lemma on_trust_ok:
  "tables_ok N t \<Longrightarrow> (\<And>st. pending_ok st \<Longrightarrow> pending_ok (f st)) \<Longrightarrow> tables_ok N (on_trust f t)"
  unfolding on_trust_def by (rule on_engine_ok) (auto simp: engine_ok_def)

lemma candidate_success_ok:
  assumes "tables_ok N t"
  shows "tables_ok N (engine_apply (Candidate_Success peer a) t)"
proof -
  define room where "room = (if \<not> bt_contains (et_addresses t) peer \<and>
      max_trusted_successful_addresses \<le> length (et_addresses t)
    then (case bt_keys (et_addresses t) of oldest # _ \<Rightarrow> bt_remove oldest (et_addresses t)
      | [] \<Rightarrow> et_addresses t) else et_addresses t)"
  have cap: "0 < max_trusted_successful_addresses"
    by (simp add: max_trusted_successful_addresses_def)
  have wf: "bt_wf (et_addresses t)" and le: "length (et_addresses t) \<le> max_trusted_successful_addresses"
    using assms by (simp_all add: tables_ok_def)
  have "bt_wf room \<and> (bt_contains room peer \<or> length room < max_trusted_successful_addresses) \<and>
      length room \<le> max_trusted_successful_addresses"
  proof (cases "et_addresses t")
    case Nil
    then show ?thesis using cap by (simp add: room_def)
  next
    case (Cons x xs)
    then have "length (bt_remove (fst x) (et_addresses t)) < length (et_addresses t)"
      using length_bt_remove_less [of "fst x" "snd x" "et_addresses t"] by simp
    then show ?thesis
      using wf le by (simp add: room_def Cons bt_keys_def not_le)
  qed
  then have "bt_wf (bt_insert peer a room) \<and>
      length (bt_insert peer a room) \<le> max_trusted_successful_addresses"
    by (auto simp: length_bt_insert)
  then show ?thesis
    using assms failures_ok_remove [of _ "et_candidates t" "(peer, a)"]
    by (simp add: tables_ok_def note_candidate_success_def room_def Let_def)
qed

lemma simple_engine_ops:
  "engine_ok N e \<Longrightarrow> engine_ok N (e\<lparr>en_events := snd (drain_events (en_events e))\<rparr>)"
  "engine_ok N e \<Longrightarrow> engine_ok N (snd (next_session_id e))"
  by (simp_all add: engine_ok_def drain_events_def next_session_id_def)

lemmas engine_op_ok = simple_engine_ops engine_emit_ok teardown_ok
  fail_attempt_ok remove_trusted_peer_ok stop_all_ok begin_enrollment_ok decide_enrollment_ok import_ok

lemma insertion_ok:
  assumes ok: "tables_ok N t"
  shows "tables_ok N (engine_apply (Insert_Session k i peer) t)"
proof (cases "k < length (et_readings t)")
  case True
  then have "et_readings t ! k \<le> N" using ok by (simp add: tables_ok_def)
  with True show ?thesis by (simp add: on_engine_ok [OF ok] insert_session_ok)
qed (use ok in simp)

lemma reading_ok: "tables_ok N t \<Longrightarrow> tables_ok N (engine_apply Read_Limit t)"
  by (simp add: tables_ok_def engine_ok_def)

lemma replace_config_ok:
  "tables_ok N t \<Longrightarrow> n \<le> N \<Longrightarrow> tables_ok N (engine_apply (Replace_Config n) t)"
  by (simp add: tables_ok_def engine_ok_def on_engine_def replace_config_def)

lemma engine_apply_ok:
  assumes ok: "tables_ok N t" and limit: "\<forall>n \<in> set (configured_limits [op]). n \<le> N"
  shows "tables_ok N (engine_apply op t)"
proof (cases op)
  case (Candidate_Success peer a)
  then show ?thesis by (simp only: candidate_success_ok [OF ok])
next
  case (Insert_Session k i peer)
  then show ?thesis by (simp only: insertion_ok [OF ok])
next
  case Read_Limit
  then show ?thesis by (simp only: reading_ok [OF ok])
next
  case (Replace_Config n)
  then show ?thesis using limit by (simp only: replace_config_ok [OF ok] configured_limits.simps list.set ball_simps)
qed (simp_all only: engine_apply.simps, (rule on_engine_ok [OF ok], erule engine_op_ok |
    rule on_trust_ok [OF ok], erule engine_op_ok |
    (use ok in \<open>simp add: tables_ok_def failures_ok_pairing failures_ok_candidate clear_pairing_failures_def failures_ok_remove\<close>))+)

lemma configured_limits_Cons:
  "set (configured_limits (op # ops)) = set (configured_limits [op]) \<union> set (configured_limits ops)"
  by (cases op) simp_all

lemma foldr_max_bound: "n \<in> set ns \<Longrightarrow> n \<le> foldr max ns (m :: nat)" "m \<le> foldr max ns m"
  by (induction ns) auto

text \<open>
  C26: The engine's tables stay well formed and bounded whatever operations run in whatever
  order, also when the configuration is replaced between the reading of a limit and the
  insertion: 256 events, 1024 pairing records, 1024 candidate records, 1024 remembered
  addresses, 64 pending enrollments and the largest number of sessions ever configured are
  never exceeded, the maps stay ordered maps, and the snapshot the audio callbacks read lists
  exactly the sessions of the table. (Lowering the limit ends no session.)
\<close>

theorem engine_tables_bounded:
  fixes ops :: "('a::linorder, 'e) engine_op list"
  shows "tables_ok (foldr max (configured_limits ops) max_sessions)
    (fold engine_apply ops (tables_new max_sessions peers))"
proof -
  have "tables_ok N t \<Longrightarrow> \<forall>n \<in> set (configured_limits ops). n \<le> N \<Longrightarrow>
      tables_ok N (fold engine_apply ops t)" for N and t :: "('a, 'e) engine_tables"
  proof (induction ops arbitrary: t)
    case (Cons op ops)
    then show ?case
      using engine_apply_ok [of N t op] configured_limits_Cons [of op ops] by simp
  qed simp
  moreover have "max_sessions \<le> N \<Longrightarrow>
      tables_ok N (tables_new max_sessions peers :: ('a, 'e) engine_tables)" for N
    by (simp add: tables_ok_def tables_new_def engine_new_def engine_ok_def pending_ok_def
        trust_new_def failures_ok_def bt_values_def)
  ultimately show ?thesis using foldr_max_bound by blast
qed

subsection \<open>Handshake slots\<close>

text \<open>The loop of a claim never lets the counter past its limit, whatever other threads do.\<close>

lemma claim_rounds_bounded:
  "claim_rounds limit current rounds counter = (Some True, counter') \<Longrightarrow> counter' - 1 < limit"
  by (induction rounds arbitrary: current counter)
    (auto simp: Let_def not_le split: if_splits)

end
