(* ===== verification/Trust_Props.thy ===== *)
theory Trust_Props
  imports Engine_State
begin

text \<open>
  Enrollment of trusted peers as a protocol between the control threads, the embedding
  application and the user: a credential becomes trusted only through an accepted
  transaction. Each table has a lock of its own, so a control thread holds an accepted
  resolution for a while before it imports it.
\<close>

datatype trust_entry =
    Began u64 u64 string bytes
  | Accepted_Entry u64
  | Rejected_Entry u64

record trust_run =
  tr_state :: trust_state
  tr_taken :: "(string \<times> bytes) set"
  tr_configured :: "(string \<times> bytes) set"
  tr_log :: "trust_entry list"

definition log_entry :: "trust_entry \<Rightarrow> trust_state \<Rightarrow> trust_run \<Rightarrow> trust_run" where
  "log_entry x st c = c\<lparr>tr_state := st, tr_log := tr_log c @ [x]\<rparr>"

text \<open>\<open>P\<close> gives the authenticated peer of every session.\<close>

inductive trust_step :: "(u64 \<Rightarrow> string) \<Rightarrow> trust_run \<Rightarrow> trust_run \<Rightarrow> bool" for P where
  begun: "begin_trusted_enrollment now s peer (P s) secret (tr_state c) = (Inr tid, st) \<Longrightarrow>
    trust_step P c (log_entry (Began tid s peer secret) st c)"
| not_begun: "begin_trusted_enrollment now s peer (P s) secret (tr_state c) = (Inl e, st) \<Longrightarrow>
    trust_step P c (c\<lparr>tr_state := st\<rparr>)"
| accepted: "accept_trusted_enrollment now tid (tr_state c) = (Inr (), st) \<Longrightarrow>
    trust_step P c (log_entry (Accepted_Entry tid) st c)"
| not_accepted: "accept_trusted_enrollment now tid (tr_state c) = (Inl e, st) \<Longrightarrow>
    trust_step P c (c\<lparr>tr_state := st\<rparr>)"
| rejected: "reject_trusted_enrollment now tid reason (tr_state c) = (Inr (), st) \<Longrightarrow>
    trust_step P c (log_entry (Rejected_Entry tid) st c)"
| not_rejected: "reject_trusted_enrollment now tid reason (tr_state c) = (Inl e, st) \<Longrightarrow>
    trust_step P c (c\<lparr>tr_state := st\<rparr>)"
| taken: "take_trusted_enrollment now s (tr_state c) = (Some r, st) \<Longrightarrow> er_accepted r \<Longrightarrow>
    trust_step P c (c\<lparr>tr_state := st, tr_taken := insert (er_peer r, er_secret r) (tr_taken c)\<rparr>)"
| turned_down: "take_trusted_enrollment now s (tr_state c) = (Some r, st) \<Longrightarrow> \<not> er_accepted r \<Longrightarrow>
    trust_step P c (c\<lparr>tr_state := st\<rparr>)"
| imported: "(peer, secret) \<in> tr_taken c \<Longrightarrow>
    trust_step P c (c\<lparr>tr_state := remember_trusted_peer peer secret (tr_state c),
                      tr_taken := tr_taken c - {(peer, secret)}\<rparr>)"
| revoked: "trust_step P c (c\<lparr>tr_state := (tr_state c)
      \<lparr>ts_trusted := bt_remove peer (ts_trusted (tr_state c))\<rparr>\<rparr>)"
| withdrawn: "trust_step P c (c\<lparr>tr_state := (tr_state c)
      \<lparr>ts_pending := filter (\<lambda>(_, e). pe_peer e \<noteq> peer) (ts_pending (tr_state c))\<rparr>\<rparr>)"
| configured: "trust_step P c (c\<lparr>tr_state := update_trusted peers (tr_state c),
      tr_configured := tr_configured c \<union> set peers\<rparr>)"

definition trust_start :: "(string \<times> bytes) list \<Rightarrow> trust_run" where
  "trust_start peers =
     \<lparr>tr_state = trust_new peers, tr_taken = {}, tr_configured = set peers, tr_log = []\<rparr>"

inductive trust_reachable :: "(u64 \<Rightarrow> string) \<Rightarrow> (string \<times> bytes) list \<Rightarrow> trust_run \<Rightarrow> bool"
  for P peers where
  start: "trust_reachable P peers (trust_start peers)"
| step: "trust_reachable P peers c \<Longrightarrow> trust_step P c c' \<Longrightarrow> trust_reachable P peers c'"

subsection \<open>The invariant\<close>

definition approved :: "(u64 \<Rightarrow> string) \<Rightarrow> trust_entry list \<Rightarrow> string \<Rightarrow> bytes \<Rightarrow> bool" where
  "approved P log peer secret =
     (\<exists>tid s. Began tid s peer secret \<in> set log \<and> peer = P s \<and>
        Accepted_Entry tid \<in> set log \<and> Rejected_Entry tid \<notin> set log)"

fun decision_logged :: "trust_entry list \<Rightarrow> u64 \<Rightarrow> enrollment_decision \<Rightarrow> bool" where
  "decision_logged log tid Pending =
     (Accepted_Entry tid \<notin> set log \<and> Rejected_Entry tid \<notin> set log)"
| "decision_logged log tid Accepted =
     (Accepted_Entry tid \<in> set log \<and> Rejected_Entry tid \<notin> set log)"
| "decision_logged log tid (Rejected reason) = (Accepted_Entry tid \<notin> set log)"

definition enrollment_logged ::
    "(u64 \<Rightarrow> string) \<Rightarrow> trust_entry list \<Rightarrow> u64 \<Rightarrow> pending_enrollment \<Rightarrow> bool" where
  "enrollment_logged P log tid e =
     (Began tid (pe_session e) (pe_peer e) (pe_secret e) \<in> set log \<and>
      pe_peer e = P (pe_session e) \<and> decision_logged log tid (pe_decision e))"

fun entry_id :: "trust_entry \<Rightarrow> u64" where
  "entry_id (Began tid s peer secret) = tid"
| "entry_id (Accepted_Entry tid) = tid"
| "entry_id (Rejected_Entry tid) = tid"

definition trust_ok :: "(u64 \<Rightarrow> string) \<Rightarrow> trust_run \<Rightarrow> bool" where
  "trust_ok P c =
     ((\<forall>(tid, e) \<in> set (ts_pending (tr_state c)). enrollment_logged P (tr_log c) tid e) \<and>
      (\<forall>(peer, secret) \<in> set (ts_trusted (tr_state c)) \<union> tr_taken c.
         (peer, secret) \<in> tr_configured c \<or> approved P (tr_log c) peer secret) \<and>
      (\<forall>x \<in> set (tr_log c). unat (entry_id x) < unat (ts_next (tr_state c))) \<and>
      unat (ts_next (tr_state c)) \<le> 1 + length (tr_log c))"

lemma trust_okD:
  assumes "trust_ok P c"
  shows "(tid, e) \<in> set (ts_pending (tr_state c)) \<Longrightarrow> enrollment_logged P (tr_log c) tid e"
    "(peer, secret) \<in> set (ts_trusted (tr_state c)) \<or> (peer, secret) \<in> tr_taken c \<Longrightarrow>
       (peer, secret) \<in> tr_configured c \<or> approved P (tr_log c) peer secret"
    "x \<in> set (tr_log c) \<Longrightarrow> unat (entry_id x) < unat (ts_next (tr_state c))"
    "unat (ts_next (tr_state c)) \<le> 1 + length (tr_log c)"
  using assms by (auto simp: trust_ok_def)

text \<open>A step that logs nothing and hands out no transaction id.\<close>

lemma trust_ok_quiet:
  assumes "trust_ok P c" "tr_log c' = tr_log c" "tr_configured c \<subseteq> tr_configured c'"
    "set (ts_pending (tr_state c')) \<subseteq> set (ts_pending (tr_state c))"
    "ts_next (tr_state c') = ts_next (tr_state c)"
    "\<And>peer secret. (peer, secret) \<in> set (ts_trusted (tr_state c')) \<union> tr_taken c' \<Longrightarrow>
       (peer, secret) \<in> set (ts_trusted (tr_state c)) \<union> tr_taken c \<union> tr_configured c' \<or>
       approved P (tr_log c) peer secret"
  shows "trust_ok P c'"
  unfolding trust_ok_def
proof (intro conjI ballI)
  show "case x of (tid, e) \<Rightarrow> enrollment_logged P (tr_log c') tid e"
    if "x \<in> set (ts_pending (tr_state c'))" for x
    using that assms(2,4) trust_okD(1) [OF assms(1)] by auto
  show "case x of (peer, secret) \<Rightarrow>
      (peer, secret) \<in> tr_configured c' \<or> approved P (tr_log c') peer secret"
    if "x \<in> set (ts_trusted (tr_state c')) \<union> tr_taken c'" for x
  proof (cases x)
    case (Pair a b)
    then show ?thesis
      using that assms(2,3) assms(6) [of a b] trust_okD(2) [OF assms(1), of a b] by (simp, blast)
  qed
  show "unat (entry_id x) < unat (ts_next (tr_state c'))" if "x \<in> set (tr_log c')" for x
    using that assms(2,5) trust_okD(3) [OF assms(1)] by simp
  show "unat (ts_next (tr_state c')) \<le> 1 + length (tr_log c')"
    using assms(2,5) trust_okD(4) [OF assms(1)] by simp
qed

lemma set_bt_insert_subset: "set (bt_insert k v m) \<subseteq> insert (k, v) (set m)"
  by (induction k v m rule: bt_insert.induct) auto

lemma import_trusted_subset: "set (import_trusted peers) \<subseteq> set peers"
proof -
  have "set (fold (\<lambda>(peer, secret) m. bt_insert peer secret m) ps m) \<subseteq> set m \<union> set ps"
    for ps and m :: "(string, bytes) btree"
  proof (induction ps arbitrary: m)
    case (Cons x ps)
    then show ?case using set_bt_insert_subset [of "fst x" "snd x" m] by (fastforce simp: split_def)
  qed simp
  then show ?thesis
    unfolding import_trusted_def using set_take_subset [of max_trusted_peers peers] by fastforce
qed

lemma set_bt_modify_subset:
  "(k', v') \<in> set (bt_modify k f m) \<Longrightarrow> \<exists>v. (k', v) \<in> set m \<and> v' = (if k' = k then f v else v)"
  by (auto simp: bt_modify_def)

lemma begin_enrollment_effect:
  assumes "begin_trusted_enrollment now s peer_id peer secret st = (res, st')"
  shows "ts_trusted st' = ts_trusted st"
    "res = Inl e \<Longrightarrow> set (ts_pending st') \<subseteq> set (ts_pending st) \<and> ts_next st' = ts_next st"
    "res = Inr tid \<Longrightarrow> peer_id = peer \<and> tid = ts_next st \<and> ts_next st' = ts_next st + 1 \<and>
       set (ts_pending st') \<subseteq> insert (tid, \<lparr>pe_session = s, pe_peer = peer_id, pe_secret = secret,
          pe_created = now, pe_decision = Pending\<rparr>) (set (ts_pending st))"
  using assms set_bt_insert_subset [of "ts_next st" "\<lparr>pe_session = s, pe_peer = peer_id,
      pe_secret = secret, pe_created = now, pe_decision = Pending\<rparr>"
      "filter (\<lambda>(_, e). \<not> expired_enrollment now e) (ts_pending st)"]
  by (auto simp: begin_trusted_enrollment_def Let_def split: if_splits)

lemma decide_effect:
  assumes "accept_trusted_enrollment now tid st = (res, st') \<or>
      reject_trusted_enrollment now tid reason st = (res, st')"
  shows "ts_trusted st' = ts_trusted st" "ts_next st' = ts_next st"
    "res = Inl e \<Longrightarrow> set (ts_pending st') \<subseteq> set (ts_pending st)"
  using assms bt_remove_subset [of tid "ts_pending st"]
  by (auto simp: accept_trusted_enrollment_def reject_trusted_enrollment_def set_decision_def
      split: option.splits enrollment_decision.splits if_splits)

lemma accept_effect:
  assumes "accept_trusted_enrollment now tid st = (Inr (), st')"
  obtains (again) e where "(tid, e) \<in> set (ts_pending st)" "pe_decision e = Accepted" "st' = st"
    | (first) e where "(tid, e) \<in> set (ts_pending st)" "pe_decision e = Pending"
        "st' = set_decision tid Accepted st"
proof -
  obtain e where e: "bt_get (ts_pending st) tid = Some e" "\<not> expired_enrollment now e"
    using assms by (simp add: accept_trusted_enrollment_def split: option.splits if_splits)
  note mem = bt_get_Some_in [OF e(1)]
  show thesis
  proof (cases "pe_decision e")
    case Pending
    then show thesis using first [OF mem] assms e by (simp add: accept_trusted_enrollment_def)
  next
    case Accepted
    then show thesis using again [OF mem] assms e by (simp add: accept_trusted_enrollment_def)
  next
    case (Rejected r)
    then show thesis using assms e by (simp add: accept_trusted_enrollment_def)
  qed
qed

lemma reject_effect:
  assumes "reject_trusted_enrollment now tid reason st = (Inr (), st')"
  obtains e r where "(tid, e) \<in> set (ts_pending st)" "pe_decision e \<noteq> Accepted"
    "st' = set_decision tid (Rejected r) st"
proof -
  obtain e where e: "bt_get (ts_pending st) tid = Some e" "\<not> expired_enrollment now e"
    "pe_decision e \<noteq> Accepted"
    using assms by (simp add: reject_trusted_enrollment_def split: option.splits if_splits)
  have "st' = set_decision tid (Rejected (if is_blank reason
      then ''trusted enrollment rejected'' else reason)) st"
    using assms e by (simp add: reject_trusted_enrollment_def)
  then show thesis by (rule that [OF bt_get_Some_in [OF e(1)] e(3)])
qed

lemma set_decision_pending:
  "(k, x) \<in> set (ts_pending (set_decision tid d st)) \<Longrightarrow>
   \<exists>y. (k, y) \<in> set (ts_pending st) \<and> x = (if k = tid then y\<lparr>pe_decision := d\<rparr> else y)"
  by (auto simp: set_decision_def dest!: set_bt_modify_subset)

lemma set_decision_parts [simp]:
  "ts_trusted (set_decision tid d st) = ts_trusted st" "ts_next (set_decision tid d st) = ts_next st"
  by (simp_all add: set_decision_def)

lemma take_effect:
  assumes "take_trusted_enrollment now s st = (Some r, st')"
  obtains tid e where "(tid, e) \<in> set (ts_pending st)" "er_peer r = pe_peer e"
    "er_secret r = pe_secret e" "er_accepted r = (pe_decision e = Accepted)"
    "ts_trusted st' = ts_trusted st" "ts_next st' = ts_next st"
    "set (ts_pending st') \<subseteq> set (ts_pending st)"
proof -
  let ?mine = "filter (\<lambda>(_, e). pe_session e = s) (ts_pending st)"
  obtain tid e where first: "arg_min_list (\<lambda>(_, e). pe_created e) ?mine = (tid, e)" by fastforce
  have "?mine \<noteq> []" using assms by (auto simp: take_trusted_enrollment_def split: list.splits)
  then have "(tid, e) \<in> set ?mine" using arg_min_list_in [of ?mine] first by metis
  then have mem: "(tid, e) \<in> set (ts_pending st)" by simp
  have "r = \<lparr>er_peer = pe_peer e, er_secret = pe_secret e, er_accepted = (pe_decision e = Accepted),
        er_reason = er_reason r\<rparr> \<and> st' = st\<lparr>ts_pending := bt_remove tid (ts_pending st)\<rparr>"
    using assms first
    by (auto simp: take_trusted_enrollment_def Let_def split: list.splits if_splits)
  then have "er_peer r = pe_peer e" "er_secret r = pe_secret e"
    "er_accepted r = (pe_decision e = Accepted)" "st' = st\<lparr>ts_pending := bt_remove tid (ts_pending st)\<rparr>"
    by (metis enrollment_resolution.select_convs)+
  then show thesis
    using that [OF mem] bt_remove_subset [of tid "ts_pending st"] by simp
qed

lemma trust_step_begun:
  assumes ok: "trust_ok P c" and small: "length (tr_log c) + 2 < 2 ^ 64"
    and b: "begin_trusted_enrollment now s peer (P s) secret (tr_state c) = (Inr tid, st)"
  shows "trust_ok P (log_entry (Began tid s peer secret) st c)"
proof -
  note D = trust_okD [OF ok] and effect = begin_enrollment_effect(3) [OF b refl]
  have next_id: "unat (ts_next (tr_state c) + 1) = Suc (unat (ts_next (tr_state c)))"
    using D(4) small by (simp add: unat_word_ariths)
  have fresh: "entry_id x \<noteq> tid" if "x \<in> set (tr_log c)" for x
    using D(3) [OF that] effect by auto
  have logged: "enrollment_logged P (tr_log c @ [Began tid s peer secret]) k e"
    if "(k, e) \<in> set (ts_pending st)" for k e
  proof (cases "(k, e) \<in> set (ts_pending (tr_state c))")
    case True
    have "decision_logged (tr_log c @ [Began tid s peer secret]) k (pe_decision e)"
      using D(1) [OF True] by (cases "pe_decision e") (auto simp: enrollment_logged_def)
    then show ?thesis using D(1) [OF True] by (auto simp: enrollment_logged_def)
  next
    case False
    then have "k = tid" "e = \<lparr>pe_session = s, pe_peer = peer, pe_secret = secret,
        pe_created = now, pe_decision = Pending\<rparr>" using that effect by auto
    then show ?thesis
      using effect fresh [of "Accepted_Entry tid"] fresh [of "Rejected_Entry tid"]
      by (auto simp: enrollment_logged_def)
  qed
  have approved_mono: "approved P (tr_log c @ [Began tid s peer secret]) p x"
    if "approved P (tr_log c) p x" for p x using that by (auto simp: approved_def)
  show ?thesis
    unfolding trust_ok_def
    using logged D(2-4) effect next_id approved_mono begin_enrollment_effect(1) [OF b]
    by (auto simp: log_entry_def) (metis less_SucI)+
qed

text \<open>A decision of the application is logged for one transaction.\<close>

lemma trust_step_decided:
  assumes ok: "trust_ok P c" and x: "x = Accepted_Entry tid \<or> x = Rejected_Entry tid"
    and e: "(tid, e) \<in> set (ts_pending (tr_state c))"
    and d: "decision_logged (tr_log c @ [x]) tid d"
    and still: "\<And>p q. approved P (tr_log c) p q \<Longrightarrow> approved P (tr_log c @ [x]) p q"
  shows "trust_ok P (log_entry x (set_decision tid d (tr_state c)) c)"
proof -
  note D = trust_okD [OF ok]
  have logged: "enrollment_logged P (tr_log c @ [x]) k y"
    if y: "(k, y) \<in> set (ts_pending (set_decision tid d (tr_state c)))" for k y
  proof -
    obtain z where z: "(k, z) \<in> set (ts_pending (tr_state c))"
      "y = (if k = tid then z\<lparr>pe_decision := d\<rparr> else z)"
      using set_decision_pending [OF y] by blast
    have "decision_logged (tr_log c @ [x]) k (pe_decision z)" if "k \<noteq> tid"
      using D(1) [OF z(1)] that x by (cases "pe_decision z") (auto simp: enrollment_logged_def)
    then show ?thesis
      using D(1) [OF z(1)] z(2) d by (auto simp: enrollment_logged_def)
  qed
  have "Began tid (pe_session e) (pe_peer e) (pe_secret e) \<in> set (tr_log c)"
    using D(1) [OF e] unfolding enrollment_logged_def by blast
  then have "unat tid < unat (ts_next (tr_state c))" using D(3) by fastforce
  then have ids: "unat (entry_id y) < unat (ts_next (tr_state c))" if "y \<in> set (tr_log c @ [x])" for y
    using that x D(3) by auto
  show ?thesis
    unfolding trust_ok_def
    using logged D(2,4) ids still by (fastforce simp: log_entry_def)
qed

lemma trust_step_accepted:
  assumes ok: "trust_ok P c"
    and a: "accept_trusted_enrollment now tid (tr_state c) = (Inr (), st)"
  shows "trust_ok P (log_entry (Accepted_Entry tid) st c)"
  using a
proof (cases rule: accept_effect)
  case (first e)
  have "decision_logged (tr_log c) tid Pending"
    using trust_okD(1) [OF ok first(1)] first(2) by (simp add: enrollment_logged_def)
  then show ?thesis
    unfolding first(3)
    by (intro trust_step_decided [OF ok _ first(1)]) (auto simp: approved_def)
next
  case (again e)
  have old: "decision_logged (tr_log c) tid Accepted"
    using trust_okD(1) [OF ok again(1)] again(2) by (simp add: enrollment_logged_def)
  have logs: "set (tr_log c @ [Accepted_Entry tid]) = set (tr_log c)" using old by auto
  have "decision_logged (tr_log c @ [Accepted_Entry tid]) k d = decision_logged (tr_log c) k d" for k d
    using logs by (cases d) simp_all
  then show ?thesis
    using ok logs by (auto simp: trust_ok_def log_entry_def again(3) approved_def enrollment_logged_def)
qed

lemma trust_step_rejected:
  assumes ok: "trust_ok P c"
    and a: "reject_trusted_enrollment now tid reason (tr_state c) = (Inr (), st)"
  shows "trust_ok P (log_entry (Rejected_Entry tid) st c)"
  using a
proof (cases rule: reject_effect)
  case (1 e r)
  have "Accepted_Entry tid \<notin> set (tr_log c)"
    using trust_okD(1) [OF ok 1(1)] 1(2) by (cases "pe_decision e") (auto simp: enrollment_logged_def)
  then show ?thesis
    unfolding 1(3)
    by (intro trust_step_decided [OF ok _ 1(1)]) (auto simp: approved_def)
qed

lemma trust_step_ok:
  assumes "trust_step P c c'" "trust_ok P c" "length (tr_log c) + 2 < 2 ^ 64"
  shows "trust_ok P c'"
  using assms
proof (induction rule: trust_step.induct)
  case (begun now s peer secret c tid st)
  then show ?case by (rule trust_step_begun [rotated 2]) 
next
  case (not_begun now s peer secret c e st)
  note effect = begin_enrollment_effect(1,2) [OF not_begun(1)]
  show ?case by (rule trust_ok_quiet [OF not_begun(2)]) (use effect in auto)
next
  case (accepted now tid c st)
  then show ?case by (simp add: trust_step_accepted)
next
  case (not_accepted now tid c e st)
  have "ts_trusted st = ts_trusted (tr_state c)" "ts_next st = ts_next (tr_state c)"
    "set (ts_pending st) \<subseteq> set (ts_pending (tr_state c))"
    using decide_effect [OF disjI1 [OF not_accepted(1)]] by auto
  then show ?case by (intro trust_ok_quiet [OF not_accepted(2)]) auto
next
  case (rejected now tid reason c st)
  then show ?case by (simp add: trust_step_rejected)
next
  case (not_rejected now tid reason c e st)
  have "ts_trusted st = ts_trusted (tr_state c)" "ts_next st = ts_next (tr_state c)"
    "set (ts_pending st) \<subseteq> set (ts_pending (tr_state c))"
    using decide_effect [OF disjI2 [OF not_rejected(1)]] by auto
  then show ?case by (intro trust_ok_quiet [OF not_rejected(2)]) auto
next
  case (taken now s c r st)
  obtain tid e where e: "(tid, e) \<in> set (ts_pending (tr_state c))" "er_peer r = pe_peer e"
    "er_secret r = pe_secret e" "er_accepted r = (pe_decision e = Accepted)"
    and st: "ts_trusted st = ts_trusted (tr_state c)" "ts_next st = ts_next (tr_state c)"
    "set (ts_pending st) \<subseteq> set (ts_pending (tr_state c))"
    by (rule take_effect [OF taken(1)])
  have "enrollment_logged P (tr_log c) tid e" "pe_decision e = Accepted"
    using trust_okD(1) [OF taken(3) e(1)] e(4) taken(2) by simp_all
  then have "approved P (tr_log c) (er_peer r) (er_secret r)"
    unfolding e(2,3) approved_def enrollment_logged_def by force
  then show ?case by (intro trust_ok_quiet [OF taken(3)]) (use st in auto)
next
  case (turned_down now s c r st)
  obtain tid e where "ts_trusted st = ts_trusted (tr_state c)" "ts_next st = ts_next (tr_state c)"
    "set (ts_pending st) \<subseteq> set (ts_pending (tr_state c))"
    by (rule take_effect [OF turned_down(1)])
  then show ?case by (intro trust_ok_quiet [OF turned_down(3)]) auto
next
  case (imported peer secret c)
  show ?case
    by (rule trust_ok_quiet [OF imported(2)])
      (use imported(1) set_bt_insert_subset [of peer secret "ts_trusted (tr_state c)"]
        in \<open>auto simp: remember_trusted_peer_def\<close>)
next
  case (revoked c peer)
  show ?case
    by (rule trust_ok_quiet [OF revoked(1)])
      (use bt_remove_subset [of peer "ts_trusted (tr_state c)"] in auto)
next
  case (withdrawn c peer)
  show ?case by (rule trust_ok_quiet [OF withdrawn(1)]) auto
next
  case (configured c peers)
  show ?case
    using import_trusted_subset [of peers]
    by (intro trust_ok_quiet [OF configured(1)]) (auto simp: update_trusted_def)
qed

text \<open>The log only grows, so a short log at the end was short all along.\<close>

lemma trust_step_log:
  "trust_step P c c' \<Longrightarrow> length (tr_log c) \<le> length (tr_log c')"
  by (induction rule: trust_step.induct) (simp_all add: log_entry_def)

lemma trust_start_ok: "trust_ok P (trust_start peers)"
  by (simp add: trust_ok_def trust_start_def trust_new_def)
   (use import_trusted_subset [of peers] in fastforce)

lemma trust_reachable_ok:
  "trust_reachable P peers c \<Longrightarrow> length (tr_log c) + 2 < 2 ^ 64 \<Longrightarrow> trust_ok P c"
proof (induction rule: trust_reachable.induct)
  case start
  show ?case by (rule trust_start_ok)
next
  case (step c c')
  have "length (tr_log c) + 2 < 2 ^ 64" using trust_step_log [OF step(2)] step(4) by linarith
  then show ?case using trust_step_ok [OF step(2)] step(3) by blast
qed

subsection \<open>The property\<close>

text \<open>
  C13: a credential in the trust table is either one the embedding application configured, or
  one that a session authenticated as that same peer enrolled under some transaction, that
  the application accepted by its id and never rejected; the enrollment of one peer can never
  plant a secret for another, however the steps of the control threads, the application, the
  expiry of transactions and revocation interleave.
\<close>

theorem credential_needs_acceptance:
  assumes "trust_reachable P peers c" "length (tr_log c) + 2 < 2 ^ 64"
    and "trusted_secret peer (tr_state c) = Some secret"
  shows "(peer, secret) \<in> tr_configured c \<or>
    (\<exists>tid s. Began tid s peer secret \<in> set (tr_log c) \<and> P s = peer \<and>
       Accepted_Entry tid \<in> set (tr_log c) \<and> Rejected_Entry tid \<notin> set (tr_log c))"
  using trust_okD(2) [OF trust_reachable_ok [OF assms(1,2)], of peer secret]
    bt_get_Some_in [of "ts_trusted (tr_state c)" peer secret] assms(3)
  unfolding approved_def trusted_secret_def by fastforce

text \<open>A run: peer \<open>b\<close> enrolls on session 7, the user accepts, the control thread takes
  the resolution and imports it.\<close>

definition sample_begun :: trust_run where
  "sample_begun = log_entry (Began 1 7 ''b'' [9])
     (snd (begin_trusted_enrollment 0 7 ''b'' ''b'' [9] (trust_new []))) (trust_start [])"

definition sample_accepted :: trust_run where
  "sample_accepted = log_entry (Accepted_Entry 1)
     (snd (accept_trusted_enrollment 5 1 (tr_state sample_begun))) sample_begun"

definition sample_taken :: trust_run where
  "sample_taken = sample_accepted
     \<lparr>tr_state := snd (take_trusted_enrollment 6 7 (tr_state sample_accepted)),
      tr_taken := {(''b'', [9])}\<rparr>"

definition sample_imported :: trust_run where
  "sample_imported = sample_taken
     \<lparr>tr_state := remember_trusted_peer ''b'' [9] (tr_state sample_taken), tr_taken := {}\<rparr>"

lemma blank_b: "\<not> is_blank ''b''"
  by (rule not_blankI [of "CHR ''b''"]) (simp_all add: whitespace_chars)

lemmas sample_trust_defs = sample_begun_def sample_accepted_def sample_taken_def
  sample_imported_def trust_start_def trust_new_def import_trusted_def log_entry_def
  begin_trusted_enrollment_def accept_trusted_enrollment_def take_trusted_enrollment_def
  remember_trusted_peer_def set_decision_def bt_modify_def expired_enrollment_def trust_enrollment_timeout_def
  max_pending_trust_enrollments_def max_trusted_peers_def trusted_secret_def blank_b Let_def bt_values_def bt_get_def bt_remove_def

lemma sample_reachable: "trust_reachable (\<lambda>s. ''b'') [] sample_imported"
proof -
  let ?P = "\<lambda>s::u64. ''b''"
  have "trust_step ?P (trust_start []) sample_begun"
    unfolding sample_begun_def
    by (rule trust_step.begun [of 0 _ "''b''"]) (simp add: sample_trust_defs)
  then have 1: "trust_reachable ?P [] sample_begun" by (blast intro: trust_reachable.intros)
  have "trust_step ?P sample_begun sample_accepted"
    unfolding sample_accepted_def
    by (rule trust_step.accepted [of 5]) (simp add: sample_trust_defs)
  then have 2: "trust_reachable ?P [] sample_accepted" by (blast intro: 1 trust_reachable.step)
  have "take_trusted_enrollment 6 7 (tr_state sample_accepted) =
      (Some \<lparr>er_peer = ''b'', er_secret = [9], er_accepted = True, er_reason = None\<rparr>,
       tr_state sample_taken)"
    by (simp add: sample_trust_defs)
  from trust_step.taken [of 6 7 sample_accepted, OF this, of ?P]
  have "trust_step ?P sample_accepted sample_taken"
    by (simp add: sample_trust_defs)
  then have 3: "trust_reachable ?P [] sample_taken" by (blast intro: 2 trust_reachable.step)
  have "trust_step ?P sample_taken sample_imported"
    using trust_step.imported [of "''b''" "[9]" sample_taken ?P]
    by (simp add: sample_trust_defs)
  then show ?thesis by (blast intro: 3 trust_reachable.step)
qed

lemma credential_needs_acceptance_witness:
  "\<exists>tid s. Began tid s ''b'' [9] \<in> set (tr_log sample_imported) \<and> ''b'' = ''b'' \<and>
     Accepted_Entry tid \<in> set (tr_log sample_imported) \<and>
     Rejected_Entry tid \<notin> set (tr_log sample_imported)"
proof -
  have "length (tr_log sample_imported) + 2 < 2 ^ 64"
    "trusted_secret ''b'' (tr_state sample_imported) = Some [9]"
    "(''b'', [9]) \<notin> tr_configured sample_imported"
    by (simp_all add: sample_trust_defs)
  then show ?thesis
    using credential_needs_acceptance [OF sample_reachable, of "''b''" "[9]"] by simp
qed

end
