(* ===== verification/Composite_Driver.thy ===== *)
theory Composite_Driver
  imports Driver
begin

text \<open>
  The live backend of the application (\<^verbatim>\<open>crates/pw-graph-app-core/src/composite\<close>): one
  merged graph over two native drivers. A build has an audio and a MIDI child: PipeWire and
  ALSA on Linux with both features, the two Windows drivers on Windows; the arms of the
  code that differ by build are told apart by a \<open>platform\<close>. The children are method tables
  (\<open>'a driver\<close>, \<open>'b driver\<close>), and \<open>cd_clock\<close> is what the next reading of the clock returns,
  in milliseconds.
\<close>

subsection \<open>Routes\<close>

datatype platform = Linux_Build | Windows_Build

datatype composite_route = CR_PipeWire | CR_AlsaMidi | CR_WindowsAudio | CR_WindowsMidi | CR_Demo

fun from_backend :: "backend_kind \<Rightarrow> composite_route" where
  "from_backend BK_PipeWire = CR_PipeWire"
| "from_backend BK_AlsaMidi = CR_AlsaMidi"
| "from_backend BK_WindowsAudio = CR_WindowsAudio"
| "from_backend BK_WindowsMidi = CR_WindowsMidi"
| "from_backend BK_Demo = CR_Demo"

definition route_for_ports :: "port_id \<Rightarrow> port_id \<Rightarrow> (string, composite_route) result" where
  "route_for_ports p q =
     (case backend_for_port p of
        None \<Rightarrow> Inl ''source port has an unknown backend namespace''
      | Some source \<Rightarrow>
        (case backend_for_port q of
           None \<Rightarrow> Inl ''destination port has an unknown backend namespace''
         | Some destination \<Rightarrow>
             if source \<noteq> destination then
               Inl (if (source, destination) \<in>
                         {(BK_PipeWire, BK_AlsaMidi), (BK_AlsaMidi, BK_PipeWire)}
                    then ''connections cannot cross PipeWire and ALSA MIDI backends''
                    else ''connections cannot cross native backends'')
             else Inr (from_backend source)))"

datatype child = Audio_Child | Midi_Child

text \<open>The child of a build that answers a route, or the message of the arm it compiles to.\<close>

fun child_of :: "platform \<Rightarrow> composite_route \<Rightarrow> (string, child) result" where
  "child_of Linux_Build CR_PipeWire = Inr Audio_Child"
| "child_of Linux_Build CR_AlsaMidi = Inr Midi_Child"
| "child_of Linux_Build CR_WindowsAudio = Inl ''Windows audio backend is unavailable''"
| "child_of Linux_Build CR_WindowsMidi = Inl ''Windows MIDI backend is unavailable''"
| "child_of Windows_Build CR_PipeWire = Inl ''PipeWire backend is disabled''"
| "child_of Windows_Build CR_AlsaMidi = Inl ''ALSA MIDI backend is disabled''"
| "child_of Windows_Build CR_WindowsAudio = Inr Audio_Child"
| "child_of Windows_Build CR_WindowsMidi = Inr Midi_Child"
| "child_of _ CR_Demo = Inl ''demo resources are not part of the live composite''"

fun child_missing :: "platform \<Rightarrow> child \<Rightarrow> string" where
  "child_missing Linux_Build Audio_Child = ''PipeWire backend is unavailable''"
| "child_missing Linux_Build Midi_Child = ''ALSA MIDI backend is unavailable''"
| "child_missing Windows_Build Audio_Child = ''Windows audio backend is unavailable''"
| "child_missing Windows_Build Midi_Child = ''Windows MIDI backend is unavailable''"

subsection \<open>State\<close>

record ('a, 'b) composite =
  cd_audio :: "'a option"
  cd_midi :: "'b option"
  cd_graph :: graph
  cd_audio_deadline :: "nat option"
  cd_midi_deadline :: "nat option"
  cd_clock :: nat

record backend_availability =
  av_audio :: bool
  av_midi :: bool
  av_failures :: "string list"

text \<open>Opening the children; the result of each native constructor is an argument.\<close>

definition composite_open ::
  "bool \<Rightarrow> (backend_error, 'a) result \<Rightarrow> (backend_error, 'b) result \<Rightarrow>
    ('a, 'b) composite \<times> backend_availability" where
  "composite_open no_midi audio midi =
     (let c = \<lparr>cd_audio = None, cd_midi = None, cd_graph = empty_graph, cd_audio_deadline = None,
                cd_midi_deadline = None, cd_clock = 0\<rparr>;
          av = \<lparr>av_audio = False, av_midi = False, av_failures = []\<rparr>;
          (c, av) = (case audio of
              Inr d \<Rightarrow> (c\<lparr>cd_audio := Some d\<rparr>, av\<lparr>av_audio := True\<rparr>)
            | Inl e \<Rightarrow> (c, av\<lparr>av_failures := av_failures av @ [show_backend_error e]\<rparr>))
      in if no_midi then (c, av)
         else case midi of
              Inr d \<Rightarrow> (c\<lparr>cd_midi := Some d\<rparr>, av\<lparr>av_midi := True\<rparr>)
            | Inl e \<Rightarrow> (c, av\<lparr>av_failures := av_failures av @ [show_backend_error e]\<rparr>))"

subsection \<open>The merged graph\<close>

fun try_all :: "('x \<Rightarrow> 's \<Rightarrow> ('e, unit) result \<times> 's) \<Rightarrow> 'x list \<Rightarrow> 's \<Rightarrow> ('e, unit) result \<times> 's" where
  "try_all f [] s = (Inr (), s)"
| "try_all f (x # xs) s = and_then (f x s) (\<lambda>_ s. try_all f xs s)"

definition merge_graph_into :: "graph \<Rightarrow> graph \<Rightarrow> (graph_error, unit) result \<times> graph" where
  "merge_graph_into source g =
     and_then (try_all add_node (bt_values (g_nodes source)) g) (\<lambda>_ g.
     and_then (try_all add_port (bt_values (g_ports source)) g) (\<lambda>_ g.
     try_all insert_existing_link (bt_values (g_links source)) g))"

definition rebuild_merged_graph ::
  "'a driver \<Rightarrow> 'b driver \<Rightarrow> ('a, 'b) composite \<Rightarrow>
    (graph_error, unit) result \<times> ('a, 'b) composite" where
  "rebuild_merged_graph A B c =
     (let first = (case cd_audio c of
            Some d \<Rightarrow> merge_graph_into (drv_graph A d) empty_graph | None \<Rightarrow> (Inr (), empty_graph));
          (r, g) = and_then first (\<lambda>_ g. case cd_midi c of
            Some d \<Rightarrow> merge_graph_into (drv_graph B d) g | None \<Rightarrow> (Inr (), g))
      in case r of Inr _ \<Rightarrow> (Inr (), c\<lparr>cd_graph := g\<rparr>) | Inl e \<Rightarrow> (Inl e, c))"

text \<open>The same under \<^verbatim>\<open>?\<close> in an operation that returns a backend error.\<close>

definition rebuild_or_fail ::
  "'a driver \<Rightarrow> 'b driver \<Rightarrow> ('a, 'b) composite \<Rightarrow>
    (backend_error, unit) result \<times> ('a, 'b) composite" where
  "rebuild_or_fail A B c =
     (case rebuild_merged_graph A B c of
        (Inr _, c) \<Rightarrow> (Inr (), c) | (Inl e, c) \<Rightarrow> (Inl (BE_Graph e), c))"

subsection \<open>Refresh clocks\<close>

fun audio_interval :: "platform \<Rightarrow> nat" where
  "audio_interval _ = 5 * 1000"

fun midi_interval :: "platform \<Rightarrow> nat" where
  "midi_interval Linux_Build = 3 * 1000"
| "midi_interval Windows_Build = 2 * 1000"

definition refresh_due :: "nat option \<Rightarrow> bool \<Rightarrow> nat \<Rightarrow> bool" where
  "refresh_due deadline dirty now =
     (dirty \<or> (case deadline of None \<Rightarrow> True | Some t \<Rightarrow> t \<le> now))"

definition run_audio ::
  "('a \<Rightarrow> (backend_error, 'r) result \<times> 'a) \<Rightarrow> nat \<Rightarrow> ('a, 'b) composite \<Rightarrow>
    (backend_error, unit) result \<times> ('a, 'b) composite" where
  "run_audio f deadline c =
     (case cd_audio c of
        None \<Rightarrow> (Inr (), c)
      | Some d \<Rightarrow>
          (case f d of
             (Inl e, d) \<Rightarrow> (Inl e, c\<lparr>cd_audio := Some d\<rparr>)
           | (Inr _, d) \<Rightarrow> (Inr (), c\<lparr>cd_audio := Some d, cd_audio_deadline := Some deadline\<rparr>)))"

definition run_midi ::
  "('b \<Rightarrow> (backend_error, 'r) result \<times> 'b) \<Rightarrow> nat \<Rightarrow> ('a, 'b) composite \<Rightarrow>
    (backend_error, unit) result \<times> ('a, 'b) composite" where
  "run_midi f deadline c =
     (case cd_midi c of
        None \<Rightarrow> (Inr (), c)
      | Some d \<Rightarrow>
          (case f d of
             (Inl e, d) \<Rightarrow> (Inl e, c\<lparr>cd_midi := Some d\<rparr>)
           | (Inr _, d) \<Rightarrow> (Inr (), c\<lparr>cd_midi := Some d, cd_midi_deadline := Some deadline\<rparr>)))"

definition composite_refresh ::
  "platform \<Rightarrow> 'a driver \<Rightarrow> 'b driver \<Rightarrow> ('a, 'b) composite \<Rightarrow>
    (backend_error, node list) result \<times> ('a, 'b) composite" where
  "composite_refresh plat A B c =
     (let now = cd_clock c in
      and_then (run_audio (drv_refresh A) (now + audio_interval plat) c) (\<lambda>_ c.
      and_then (run_midi (drv_refresh B) (now + midi_interval plat) c) (\<lambda>_ c.
      and_then (rebuild_or_fail A B c) (\<lambda>_ c.
      (Inr (bt_values (g_nodes (cd_graph c))), c)))))"

text \<open>What a child says about its own changes.\<close>

record 'd change_source =
  cs_dirty :: "'d \<Rightarrow> bool"
  cs_reports :: "'d \<Rightarrow> bool"
  cs_refresh_if_needed :: "'d \<Rightarrow> (backend_error, node list) result \<times> 'd"

definition audio_due :: "'a change_source \<Rightarrow> nat \<Rightarrow> ('a, 'b) composite \<Rightarrow> bool" where
  "audio_due cs now c =
     (case cd_audio c of
        None \<Rightarrow> False | Some d \<Rightarrow> refresh_due (cd_audio_deadline c) (cs_dirty cs d) now)"

definition midi_due :: "'b change_source \<Rightarrow> nat \<Rightarrow> ('a, 'b) composite \<Rightarrow> bool" where
  "midi_due cs now c =
     (case cd_midi c of
        None \<Rightarrow> False | Some d \<Rightarrow> refresh_due (cd_midi_deadline c) (cs_dirty cs d) now)"

definition refresh_due_children ::
  "platform \<Rightarrow> 'a driver \<Rightarrow> 'b driver \<Rightarrow> 'a change_source \<Rightarrow> 'b change_source \<Rightarrow>
    ('a, 'b) composite \<Rightarrow> (backend_error, node list) result \<times> ('a, 'b) composite" where
  "refresh_due_children plat A B csa csb c =
     (let now = cd_clock c; first = audio_due csa now c; second = midi_due csb now c in
      and_then (if first
                then run_audio (cs_refresh_if_needed csa) (now + audio_interval plat) c
                else (Inr (), c)) (\<lambda>_ c.
      and_then (if second
                then run_midi (cs_refresh_if_needed csb) (now + midi_interval plat) c
                else (Inr (), c)) (\<lambda>_ c.
      and_then (if first \<or> second then rebuild_or_fail A B c else (Inr (), c)) (\<lambda>_ c.
      (Inr (bt_values (g_nodes (cd_graph c))), c)))))"

definition any_child_dirty ::
  "'a change_source \<Rightarrow> 'b change_source \<Rightarrow> ('a, 'b) composite \<Rightarrow> bool" where
  "any_child_dirty csa csb c =
     ((case cd_audio c of None \<Rightarrow> False | Some d \<Rightarrow> cs_dirty csa d) \<or>
      (case cd_midi c of None \<Rightarrow> False | Some d \<Rightarrow> cs_dirty csb d))"

definition children_report_graph_changes ::
  "'a change_source \<Rightarrow> 'b change_source \<Rightarrow> ('a, 'b) composite \<Rightarrow> bool" where
  "children_report_graph_changes csa csb c =
     (let answers = map (cs_reports csa) (case cd_audio c of None \<Rightarrow> [] | Some d \<Rightarrow> [d]) @
                    map (cs_reports csb) (case cd_midi c of None \<Rightarrow> [] | Some d \<Rightarrow> [d])
      in 0 < length answers \<and> length answers = length (filter id answers))"

subsection \<open>Mutations\<close>

definition on_audio ::
  "platform \<Rightarrow> ('a \<Rightarrow> (backend_error, 'r) result \<times> 'a) \<Rightarrow> ('a, 'b) composite \<Rightarrow>
    (backend_error, 'r) result \<times> ('a, 'b) composite" where
  "on_audio plat f c =
     (case cd_audio c of
        None \<Rightarrow> (Inl (BE_Unsupported (child_missing plat Audio_Child)), c)
      | Some d \<Rightarrow> (let (r, d) = f d in (r, c\<lparr>cd_audio := Some d\<rparr>)))"

definition on_midi ::
  "platform \<Rightarrow> ('b \<Rightarrow> (backend_error, 'r) result \<times> 'b) \<Rightarrow> ('a, 'b) composite \<Rightarrow>
    (backend_error, 'r) result \<times> ('a, 'b) composite" where
  "on_midi plat f c =
     (case cd_midi c of
        None \<Rightarrow> (Inl (BE_Unsupported (child_missing plat Midi_Child)), c)
      | Some d \<Rightarrow> (let (r, d) = f d in (r, c\<lparr>cd_midi := Some d\<rparr>)))"

definition on_child ::
  "platform \<Rightarrow> composite_route \<Rightarrow> ('a \<Rightarrow> (backend_error, 'r) result \<times> 'a) \<Rightarrow>
    ('b \<Rightarrow> (backend_error, 'r) result \<times> 'b) \<Rightarrow> ('a, 'b) composite \<Rightarrow>
    (backend_error, 'r) result \<times> ('a, 'b) composite" where
  "on_child plat route f g c =
     (case child_of plat route of
        Inl message \<Rightarrow> (Inl (BE_Unsupported message), c)
      | Inr Audio_Child \<Rightarrow> on_audio plat f c
      | Inr Midi_Child \<Rightarrow> on_midi plat g c)"

definition composite_connect ::
  "platform \<Rightarrow> 'a driver \<Rightarrow> 'b driver \<Rightarrow> port_id \<Rightarrow> port_id \<Rightarrow> ('a, 'b) composite \<Rightarrow>
    (backend_error, link) result \<times> ('a, 'b) composite" where
  "composite_connect plat A B p q c =
     (case route_for_ports p q of
        Inl message \<Rightarrow> (Inl (BE_Unsupported message), c)
      | Inr route \<Rightarrow>
          and_then (on_child plat route (drv_connect A p q) (drv_connect B p q) c) (\<lambda>l c.
          and_then (composite_refresh plat A B c) (\<lambda>_ c. (Inr l, c))))"

definition link_route :: "link \<Rightarrow> link_id \<Rightarrow> composite_route option" where
  "link_route existing l =
     (case backend_for_link l of
        Some k \<Rightarrow> Some (from_backend k)
      | None \<Rightarrow>
          (case route_for_ports (output_port existing) (input_port existing) of
             Inr route \<Rightarrow> Some route | Inl _ \<Rightarrow> None))"

definition composite_disconnect ::
  "platform \<Rightarrow> 'a driver \<Rightarrow> 'b driver \<Rightarrow> link_id \<Rightarrow> ('a, 'b) composite \<Rightarrow>
    (backend_error, link) result \<times> ('a, 'b) composite" where
  "composite_disconnect plat A B l c =
     (case graph_link (cd_graph c) l of
        None \<Rightarrow> (Inl (BE_Graph (MissingLink l)), c)
      | Some existing \<Rightarrow>
        (case link_route existing l of
           None \<Rightarrow> (Inl (BE_Unsupported ''link has an unknown backend namespace''), c)
         | Some route \<Rightarrow>
             and_then (on_child plat route (drv_disconnect A l) (drv_disconnect B l) c) (\<lambda>removed c.
             and_then (composite_refresh plat A B c) (\<lambda>_ c.
             (Inr (if plat = Linux_Build then existing else removed), c)))))"

definition composite_is_link_mutable ::
  "platform \<Rightarrow> 'a driver \<Rightarrow> 'b driver \<Rightarrow> ('a, 'b) composite \<Rightarrow> link_id \<Rightarrow> bool" where
  "composite_is_link_mutable plat A B c l =
     (case graph_link (cd_graph c) l of
        None \<Rightarrow> False
      | Some existing \<Rightarrow>
        (case link_route existing l of
           None \<Rightarrow> False
         | Some route \<Rightarrow>
           (case child_of plat route of
              Inl _ \<Rightarrow> False
            | Inr Audio_Child \<Rightarrow>
                (case cd_audio c of None \<Rightarrow> False | Some d \<Rightarrow> drv_is_link_mutable A d l)
            | Inr Midi_Child \<Rightarrow>
                (case cd_midi c of None \<Rightarrow> False | Some d \<Rightarrow> drv_is_link_mutable B d l))))"

definition composite_set_node_position ::
  "platform \<Rightarrow> 'a driver \<Rightarrow> 'b driver \<Rightarrow> node_id \<Rightarrow> position \<Rightarrow> ('a, 'b) composite \<Rightarrow>
    (backend_error, unit) result \<times> ('a, 'b) composite" where
  "composite_set_node_position plat A B n pos c =
     (case backend_for_node n of
        None \<Rightarrow> (Inl (BE_Unsupported ''node has an unknown backend namespace''), c)
      | Some k \<Rightarrow>
          and_then (on_child plat (from_backend k) (drv_set_node_position A n pos)
              (drv_set_node_position B n pos) c) (\<lambda>_ c.
          (Inr (), c\<lparr>cd_graph := (cd_graph c)
             \<lparr>g_nodes := bt_modify n (\<lambda>nd. nd\<lparr>node_position := pos\<rparr>) (g_nodes (cd_graph c))\<rparr>\<rparr>)))"

subsection \<open>Capabilities\<close>

definition composite_capabilities ::
  "'a driver \<Rightarrow> 'b driver \<Rightarrow> ('a, 'b) composite \<Rightarrow> backend_capabilities" where
  "composite_capabilities A B c =
     (let caps = capabilities_default;
          caps = (case cd_audio c of
              None \<Rightarrow> caps | Some d \<Rightarrow> capabilities_union caps (drv_capabilities A d))
      in case cd_midi c of
           None \<Rightarrow> caps | Some d \<Rightarrow> capabilities_union caps (drv_capabilities B d))"

definition capabilities_for_backend ::
  "platform \<Rightarrow> 'a driver \<Rightarrow> 'b driver \<Rightarrow> ('a, 'b) composite \<Rightarrow> backend_kind \<Rightarrow>
    backend_capabilities" where
  "capabilities_for_backend plat A B c k =
     (case child_of plat (from_backend k) of
        Inl _ \<Rightarrow> capabilities_default
      | Inr Audio_Child \<Rightarrow>
          (case cd_audio c of None \<Rightarrow> capabilities_default | Some d \<Rightarrow> drv_capabilities A d)
      | Inr Midi_Child \<Rightarrow>
          (case cd_midi c of None \<Rightarrow> capabilities_default | Some d \<Rightarrow> drv_capabilities B d))"

definition child_node_supports_routing ::
  "platform \<Rightarrow> 'a driver \<Rightarrow> 'b driver \<Rightarrow> ('a, 'b) composite \<Rightarrow> backend_kind \<Rightarrow> node_id \<Rightarrow> bool" where
  "child_node_supports_routing plat A B c k n =
     (case child_of plat (from_backend k) of
        Inl _ \<Rightarrow> False
      | Inr Audio_Child \<Rightarrow>
          (case cd_audio c of None \<Rightarrow> False | Some d \<Rightarrow> drv_node_supports_routing A d n)
      | Inr Midi_Child \<Rightarrow>
          (case cd_midi c of None \<Rightarrow> False | Some d \<Rightarrow> drv_node_supports_routing B d n))"

definition capabilities_for_node ::
  "platform \<Rightarrow> 'a driver \<Rightarrow> 'b driver \<Rightarrow> ('a, 'b) composite \<Rightarrow> node_id \<Rightarrow> backend_capabilities" where
  "capabilities_for_node plat A B c n =
     (case backend_for_node n of
        None \<Rightarrow> capabilities_default
      | Some k \<Rightarrow>
          let caps = capabilities_for_backend plat A B c k in
          if child_node_supports_routing plat A B c k n then caps
          else caps\<lparr>cap_connect := False, cap_disconnect := False\<rparr>)"

definition composite_node_supports_routing ::
  "platform \<Rightarrow> 'a driver \<Rightarrow> 'b driver \<Rightarrow> ('a, 'b) composite \<Rightarrow> node_id \<Rightarrow> bool" where
  "composite_node_supports_routing plat A B c n =
     (case backend_for_node n of
        None \<Rightarrow> False | Some k \<Rightarrow> child_node_supports_routing plat A B c k n)"

text \<open>Only the audio child is asked; its own answer may differ from the provided method.\<close>

definition composite_connection_support ::
  "platform \<Rightarrow> ('a \<Rightarrow> port_id \<Rightarrow> port_id \<Rightarrow> connection_support) \<Rightarrow> ('a, 'b) composite \<Rightarrow>
    port_id \<Rightarrow> port_id \<Rightarrow> connection_support" where
  "composite_connection_support plat support c p q =
     (case route_for_ports p q of
        Inl _ \<Rightarrow> Unsupported
      | Inr route \<Rightarrow>
          if child_of plat route = Inr Audio_Child
          then (case cd_audio c of None \<Rightarrow> Unsupported | Some d \<Rightarrow> support d p q)
          else Unsupported)"

text \<open>
  The method table. The composite does not override \<^verbatim>\<open>allow_connection\<close> and
  \<^verbatim>\<open>suppress_connection\<close>, whose provided bodies are empty.
\<close>

definition composite_driver ::
  "platform \<Rightarrow> 'a driver \<Rightarrow> 'b driver \<Rightarrow> ('a, 'b) composite driver" where
  "composite_driver plat A B =
     \<lparr>drv_capabilities = composite_capabilities A B,
      drv_refresh = composite_refresh plat A B,
      drv_connect = composite_connect plat A B,
      drv_disconnect = composite_disconnect plat A B,
      drv_is_link_mutable = composite_is_link_mutable plat A B,
      drv_node_supports_routing = composite_node_supports_routing plat A B,
      drv_allow_connection = (\<lambda>_ _ c. c),
      drv_suppress_connection = (\<lambda>_ _ c. c),
      drv_set_node_position = composite_set_node_position plat A B,
      drv_graph = cd_graph\<rparr>"

lemma composite_driver_simps [simp]:
  "drv_capabilities (composite_driver plat A B) = composite_capabilities A B"
  "drv_refresh (composite_driver plat A B) = composite_refresh plat A B"
  "drv_connect (composite_driver plat A B) = composite_connect plat A B"
  "drv_disconnect (composite_driver plat A B) = composite_disconnect plat A B"
  "drv_is_link_mutable (composite_driver plat A B) = composite_is_link_mutable plat A B"
  "drv_node_supports_routing (composite_driver plat A B) = composite_node_supports_routing plat A B"
  "drv_allow_connection (composite_driver plat A B) = (\<lambda>_ _ c. c)"
  "drv_suppress_connection (composite_driver plat A B) = (\<lambda>_ _ c. c)"
  "drv_set_node_position (composite_driver plat A B) = composite_set_node_position plat A B"
  "drv_graph (composite_driver plat A B) = cd_graph"
  by (simp_all add: composite_driver_def)

end
