(* ===== verification/Composite_Props.thy ===== *)
theory Composite_Props
  imports Composite_Driver Demo_Driver
begin

text \<open>
  The composite over two well-behaved children is itself a well-behaved driver: merging is
  total on disjoint namespaces and yields the union, every mutation reaches the child that
  owns it, and the merged graph follows. So everything proved of the commands and of the
  patchbay from the driver contract holds on the live backend.
\<close>

subsection \<open>Union of maps\<close>

definition bt_union :: "('k::linorder, 'v) btree \<Rightarrow> ('k, 'v) btree \<Rightarrow> ('k, 'v) btree" where
  "bt_union m m0 = fold (\<lambda>(k, v). bt_insert k v) m m0"

lemma bt_union_simps [simp]:
  "bt_union [] m0 = m0"
  "bt_union ((k, v) # m) m0 = bt_union m (bt_insert k v m0)"
  by (simp_all add: bt_union_def)

lemma bt_union_wf [simp]: "bt_wf m0 \<Longrightarrow> bt_wf (bt_union m m0)"
  by (induction m arbitrary: m0) auto

lemma bt_get_union:
  "bt_wf m \<Longrightarrow> bt_get (bt_union m m0) k = (case bt_get m k of Some v \<Rightarrow> Some v | None \<Rightarrow> bt_get m0 k)"
proof (induction m arbitrary: m0)
  case (Cons x m)
  obtain a b where x: "x = (a, b)" by (cases x)
  have "bt_get m a = None"
    using Cons.prems by (auto simp: x bt_get_def map_of_eq_None_iff)
  then show ?case using Cons by (auto simp: x bt_get_Cons split: option.split)
qed simp

definition keys_apart :: "('k, 'v) btree \<Rightarrow> ('k, 'v) btree \<Rightarrow> bool" where
  "keys_apart m m' = (\<forall>k. bt_get m k = None \<or> bt_get m' k = None)"

lemma bt_wf_fresh: "bt_wf ((k, v) # m) \<Longrightarrow> bt_get m k = None"
  by (auto simp: bt_get_def map_of_eq_None_iff)

lemma keys_apart_Cons:
  assumes "bt_wf ((k, v) # m)" "keys_apart ((k, v) # m) m0"
  shows "bt_get m0 k = None" "keys_apart m (bt_insert k w m0)"
proof -
  show "bt_get m0 k = None"
    using assms(2) [unfolded keys_apart_def, THEN spec, of k] by (simp add: bt_get_Cons)
  show "keys_apart m (bt_insert k w m0)"
    unfolding keys_apart_def
  proof
    fix x
    show "bt_get m x = None \<or> bt_get (bt_insert k w m0) x = None"
      using assms(2) [unfolded keys_apart_def, THEN spec, of x] bt_wf_fresh [OF assms(1)]
      by (cases "x = k") (simp_all add: bt_get_Cons)
  qed
qed

lemma bt_get_union_Some:
  "bt_wf m \<Longrightarrow> keys_apart m m0 \<Longrightarrow>
   bt_get (bt_union m m0) k = Some v \<longleftrightarrow> bt_get m k = Some v \<or> bt_get m0 k = Some v"
  by (auto simp: bt_get_union keys_apart_def split: option.split) (metis option.distinct(1))

lemma set_values_union:
  assumes "bt_wf m" "bt_wf m0" "keys_apart m m0"
  shows "set (bt_values (bt_union m m0)) = set (bt_values m) \<union> set (bt_values m0)"
  using assms by (auto simp: set_bt_values bt_get_union_Some)

lemma map_bt_insert:
  "map (map_prod id f) (bt_insert k v m) = bt_insert k (f v) (map (map_prod id f) m)"
  by (induction k v m rule: bt_insert.induct) auto

lemma map_bt_union:
  "map (map_prod id f) (bt_union m m0) = bt_union (map (map_prod id f) m) (map (map_prod id f) m0)"
  by (induction m arbitrary: m0) (auto simp: map_bt_insert)

lemma bt_modify_absent: "bt_get m k = None \<Longrightarrow> bt_modify k f m = m"
  by (induction m) (auto simp: bt_modify_def bt_get_Cons split: if_splits)

subsection \<open>Merging\<close>

definition graph_union :: "graph \<Rightarrow> graph \<Rightarrow> graph" where
  "graph_union h g =
     \<lparr>g_nodes = bt_union (g_nodes h) (g_nodes g), g_ports = bt_union (g_ports h) (g_ports g),
      g_links = bt_union (g_links h) (g_links g)\<rparr>"

definition graphs_apart :: "graph \<Rightarrow> graph \<Rightarrow> bool" where
  "graphs_apart h g = (keys_apart (g_nodes h) (g_nodes g) \<and> keys_apart (g_ports h) (g_ports g) \<and>
     keys_apart (g_links h) (g_links g))"

lemma try_all_nodes:
  assumes "bt_wf m" "\<forall>(k, n) \<in> set m. node_ident n = k" "keys_apart m (g_nodes g)"
  shows "try_all add_node (bt_values m) g = (Inr (), g\<lparr>g_nodes := bt_union m (g_nodes g)\<rparr>)"
  using assms
proof (induction m arbitrary: g)
  case Nil
  show ?case by (simp add: bt_values_def)
next
  case (Cons x m)
  obtain k n where x: "x = (k, n)" by (cases x)
  note apart = keys_apart_Cons [OF Cons.prems(1) [unfolded x] Cons.prems(3) [unfolded x]]
  have k: "node_ident n = k" "bt_get (g_nodes g) k = None"
    using Cons.prems(2) apart(1) by (auto simp: x)
  show ?case
    using apart(2) [of n] Cons.IH [of "g\<lparr>g_nodes := bt_insert k n (g_nodes g)\<rparr>"] Cons.prems(1,2) k
    by (simp add: x bt_values_def add_node_def bt_contains_def)
qed

lemma try_all_ports:
  assumes "bt_wf m" "\<forall>(k, p) \<in> set m. port_ident p = k \<and>
      (\<exists>n. bt_get (g_nodes g) (port_node p) = Some n \<and> k \<in> set (node_ports n))"
    "keys_apart m (g_ports g)" "bt_wf (g_nodes g)"
  shows "try_all add_port (bt_values m) g = (Inr (), g\<lparr>g_ports := bt_union m (g_ports g)\<rparr>)"
  using assms
proof (induction m arbitrary: g)
  case Nil
  show ?case by (simp add: bt_values_def)
next
  case (Cons x m)
  obtain k p where x: "x = (k, p)" by (cases x)
  note apart = keys_apart_Cons [OF Cons.prems(1) [unfolded x] Cons.prems(3) [unfolded x]]
  have k: "port_ident p = k" "bt_get (g_ports g) k = None"
    using Cons.prems(2) apart(1) by (auto simp: x)
  obtain n where n: "bt_get (g_nodes g) (port_node p) = Some n" "k \<in> set (node_ports n)"
    using Cons.prems(2) by (auto simp: x)
  have same: "bt_modify (port_node p) (push_port k) (g_nodes g) = g_nodes g"
    using n Cons.prems(4) by (intro bt_eqI) (auto simp: push_port_def)
  show ?case
    using apart(2) [of p] Cons.IH [of "g\<lparr>g_ports := bt_insert k p (g_ports g)\<rparr>"] Cons.prems(1,2,4) k n same
    by (simp add: x bt_values_def add_port_def bt_contains_def)
qed

lemma try_all_links:
  assumes "bt_wf m" "\<forall>(k, l) \<in> set m. link_ident l = k \<and>
      bt_contains (g_ports g) (output_port l) \<and> bt_contains (g_ports g) (input_port l)"
    "keys_apart m (g_links g)"
  shows "try_all insert_existing_link (bt_values m) g = (Inr (), g\<lparr>g_links := bt_union m (g_links g)\<rparr>)"
  using assms
proof (induction m arbitrary: g)
  case Nil
  show ?case by (simp add: bt_values_def)
next
  case (Cons x m)
  obtain k l where x: "x = (k, l)" by (cases x)
  note apart = keys_apart_Cons [OF Cons.prems(1) [unfolded x] Cons.prems(3) [unfolded x]]
  have k: "link_ident l = k" "bt_get (g_links g) k = None"
    using Cons.prems(2) apart(1) by (auto simp: x)
  show ?case
    using apart(2) [of l] Cons.IH [of "g\<lparr>g_links := bt_insert k l (g_links g)\<rparr>"] Cons.prems(1,2) k
    by (simp add: x bt_values_def insert_existing_link_def) (simp add: bt_contains_def)
qed

lemma merge_apart:
  assumes h: "graph_wf h" and g: "graph_wf g" and apart: "graphs_apart h g"
  shows "merge_graph_into h g = (Inr (), graph_union h g)"
proof -
  note H = graph_wfD [OF h] and G = graph_wfD [OF g]
  note A = apart [unfolded graphs_apart_def]
  have nodes: "try_all add_node (bt_values (g_nodes h)) g
      = (Inr (), g\<lparr>g_nodes := bt_union (g_nodes h) (g_nodes g)\<rparr>)"
    using A H(1,4) by (intro try_all_nodes) (auto simp: bt_get_iff)
  let ?g1 = "g\<lparr>g_nodes := bt_union (g_nodes h) (g_nodes g)\<rparr>"
  have listed: "\<exists>n. bt_get (g_nodes ?g1) (port_node p) = Some n \<and> k \<in> set (node_ports n)"
    if "bt_get (g_ports h) k = Some p" for k p
    using graph_wf_listed [OF h that] H(1) by (auto simp: bt_get_union)
  have ports: "try_all add_port (bt_values (g_ports h)) ?g1
      = (Inr (), ?g1\<lparr>g_ports := bt_union (g_ports h) (g_ports g)\<rparr>)"
  proof -
    have "try_all add_port (bt_values (g_ports h)) ?g1
        = (Inr (), ?g1\<lparr>g_ports := bt_union (g_ports h) (g_ports ?g1)\<rparr>)"
      using A H(2) G(1) graph_wfD(6) [OF h] listed
      by (intro try_all_ports) (auto simp: bt_get_iff)
    then show ?thesis by simp
  qed
  let ?g2 = "?g1\<lparr>g_ports := bt_union (g_ports h) (g_ports g)\<rparr>"
  have ends: "link_ident l = k \<and> bt_contains (g_ports ?g2) (output_port l) \<and>
      bt_contains (g_ports ?g2) (input_port l)" if "bt_get (g_links h) k = Some l" for k l
    using graph_wfD(8-10) [OF h that] H(2) by (auto simp: bt_contains_def bt_get_union)
  have "try_all insert_existing_link (bt_values (g_links h)) ?g2
      = (Inr (), ?g2\<lparr>g_links := bt_union (g_links h) (g_links ?g2)\<rparr>)"
    using A H(3) ends by (intro try_all_links) (auto simp: bt_get_iff)
  then show ?thesis by (simp add: merge_graph_into_def nodes ports graph_union_def)
qed

subsection \<open>Properties of the union\<close>

lemma graph_wf_union:
  assumes "graph_wf h" "graph_wf g" "graphs_apart h g"
  shows "graph_wf (graph_union h g)"
proof -
  note W = graph_wfD [OF assms(1)] graph_wfD [OF assms(2)]
  note L = graph_wf_listed [OF assms(1)] graph_wf_listed [OF assms(2)]
  let ?u = "graph_union h g"
  have nodes: "bt_get (g_nodes ?u) i = Some n \<longleftrightarrow>
      bt_get (g_nodes h) i = Some n \<or> bt_get (g_nodes g) i = Some n" for i n
    using W(1) assms(3) by (simp add: graph_union_def graphs_apart_def bt_get_union_Some)
  have ports: "bt_get (g_ports ?u) i = Some n \<longleftrightarrow>
      bt_get (g_ports h) i = Some n \<or> bt_get (g_ports g) i = Some n" for i n
    using W(2) assms(3) by (simp add: graph_union_def graphs_apart_def bt_get_union_Some)
  have links: "bt_get (g_links ?u) i = Some n \<longleftrightarrow>
      bt_get (g_links h) i = Some n \<or> bt_get (g_links g) i = Some n" for i n
    using W(3) assms(3) by (simp add: graph_union_def graphs_apart_def bt_get_union_Some)
  have "bt_wf (g_nodes ?u)" "bt_wf (g_ports ?u)" "bt_wf (g_links ?u)"
    using W(11-13) by (simp_all add: graph_union_def)
  moreover have "node_ident n = i \<and> distinct (node_ports n)" if "bt_get (g_nodes ?u) i = Some n" for i n
    using that W(4,5,14,15) unfolding nodes by blast
  moreover have "port_ident q = i \<and> (\<exists>n. bt_get (g_nodes ?u) (port_node q) = Some n \<and> i \<in> set (node_ports n))"
    if "bt_get (g_ports ?u) i = Some q" for i q
    using that W(6,16) L unfolding nodes ports by blast
  moreover have "link_ident l = i \<and> (\<exists>p. bt_get (g_ports ?u) (output_port l) = Some p) \<and>
      (\<exists>p. bt_get (g_ports ?u) (input_port l) = Some p)"
    if "bt_get (g_links ?u) i = Some l" for i l
    using that W(8-10,18-20) unfolding ports links by blast
  ultimately show ?thesis unfolding graph_wf_def by blast
qed

lemma link_pairs_union:
  assumes "graph_wf h" "graph_wf g" "graphs_apart h g"
  shows "link_pairs (graph_union h g) = link_pairs h \<union> link_pairs g"
  using graph_wfD(3) [OF assms(1)] graph_wfD(3) [OF assms(2)] assms(3)
  by (simp add: link_pairs_def graph_union_def graphs_apart_def set_values_union image_Un)

lemma same_topology_union:
  "same_topology h h' \<Longrightarrow> same_topology g g' \<Longrightarrow> same_topology (graph_union h g) (graph_union h' g')"
  by (simp add: same_topology_def unplaced_nodes_def graph_union_def map_bt_union)

lemma graph_union_empty: "graph_wf h \<Longrightarrow> graph_union h empty_graph = h"
  using graph_wfD(1-3) [of h]
  by (auto simp: graph_union_def empty_graph_def bt_get_union intro!: graph.equality bt_eqI
      split: option.split)

lemma empty_graph_union [simp]: "graph_union empty_graph g = g"
  by (simp add: graph_union_def empty_graph_def)

lemma place_union:
  assumes "graph_wf h" "graph_wf g" "graphs_apart h g"
  shows "graph_node h n \<noteq> None \<Longrightarrow> place_node n pos (graph_union h g) = graph_union (place_node n pos h) g"
    "graph_node g n \<noteq> None \<Longrightarrow> place_node n pos (graph_union h g) = graph_union h (place_node n pos g)"
proof -
  have n: "bt_get (g_nodes h) n = None \<or> bt_get (g_nodes g) n = None"
    using assms(3) by (simp add: graphs_apart_def keys_apart_def)
  note W = graph_wfD(1) [OF assms(1)] graph_wfD(1) [OF assms(2)]
  show "graph_node h n \<noteq> None \<Longrightarrow> place_node n pos (graph_union h g) = graph_union (place_node n pos h) g"
    "graph_node g n \<noteq> None \<Longrightarrow> place_node n pos (graph_union h g) = graph_union h (place_node n pos g)"
    using n W
    by (auto simp: graph_union_def place_node_def graph_node_def bt_get_union
        intro!: bt_eqI split: option.split)
qed

lemma graph_union_comm:
  assumes "graph_wf h" "graph_wf g" "graphs_apart h g"
  shows "graph_union h g = graph_union g h"
  using graph_wfD(1-3) [OF assms(1)] graph_wfD(1-3) [OF assms(2)] assms(3)
  unfolding graph_union_def graphs_apart_def keys_apart_def
  by (auto simp: bt_get_union intro!: bt_eqI split: option.split) (metis option.distinct(1))+

lemma union_after:
  assumes "graph_wf h'" "graph_wf g" "graphs_apart h' g" "same_topology h h'"
  shows "graph_after (graph_union h g) (link_pairs h' \<union> link_pairs g) (graph_union h' g)"
  using assms by (simp add: graph_after_def link_pairs_union same_topology_union)

subsection \<open>Namespaces\<close>

text \<open>Every id of a graph belongs to one backend.\<close>

definition ids_of :: "backend_kind \<Rightarrow> graph \<Rightarrow> bool" where
  "ids_of k g =
     ((\<forall>n. graph_node g n \<noteq> None \<longrightarrow> backend_for_node n = Some k) \<and>
      (\<forall>p. graph_port g p \<noteq> None \<longrightarrow> backend_for_port p = Some k) \<and>
      (\<forall>l. graph_link g l \<noteq> None \<longrightarrow> backend_for_link l = Some k))"

lemma ids_of_empty [simp]: "ids_of k empty_graph"
  by (simp add: ids_of_def graph_node_def graph_port_def graph_link_def empty_graph_def)

lemma ids_apart: "ids_of j h \<Longrightarrow> ids_of k g \<Longrightarrow> j \<noteq> k \<Longrightarrow> graphs_apart h g"
  unfolding ids_of_def graphs_apart_def keys_apart_def graph_node_def graph_port_def graph_link_def
  by (metis option.inject)

lemma ids_of_pair:
  assumes "graph_wf g" "ids_of k g" "(p, q) \<in> link_pairs g"
  shows "backend_for_port p = Some k" "backend_for_port q = Some k"
proof -
  obtain l where l: "l \<in> set (bt_values (g_links g))" "p = output_port l" "q = input_port l"
    using assms(3) by (auto simp: link_pairs_def)
  then obtain i where "bt_get (g_links g) i = Some l"
    using set_bt_values [OF graph_wfD(3) [OF assms(1)]] by blast
  then show "backend_for_port p = Some k" "backend_for_port q = Some k"
    using graph_wfD(9,10) [OF assms(1)] assms(2) l
    by (fastforce simp: ids_of_def graph_port_def)+
qed

text \<open>
  What a child must be: a driver that keeps the contract and numbers its resources in its own
  namespace. Its refresh may fail; then its graph is the one it had.
\<close>

definition well_behaved_child :: "backend_kind \<Rightarrow> 'd driver \<Rightarrow> ('d \<Rightarrow> bool) \<Rightarrow> bool" where
  "well_behaved_child k drv ok =
     (stable_driver drv ok \<and> (\<forall>d. ok d \<longrightarrow> ids_of k (drv_graph drv d)))"

fun kind_of_child :: "platform \<Rightarrow> child \<Rightarrow> backend_kind" where
  "kind_of_child Linux_Build Audio_Child = BK_PipeWire"
| "kind_of_child Linux_Build Midi_Child = BK_AlsaMidi"
| "kind_of_child Windows_Build Audio_Child = BK_WindowsAudio"
| "kind_of_child Windows_Build Midi_Child = BK_WindowsMidi"

lemma child_of_kind: "child_of plat (from_backend k) = Inr ch \<longleftrightarrow> k = kind_of_child plat ch"
  by (cases plat; cases k; cases ch) auto

lemma kinds_differ: "kind_of_child plat Audio_Child \<noteq> kind_of_child plat Midi_Child"
  by (cases plat) auto

lemma route_for_ports_Inr:
  "route_for_ports p q = Inr r \<longleftrightarrow>
     (\<exists>k. backend_for_port p = Some k \<and> backend_for_port q = Some k \<and> r = from_backend k)"
  by (auto simp: route_for_ports_def split: option.split)

subsection \<open>The invariant of the composite\<close>

definition audio_graph :: "'a driver \<Rightarrow> ('a, 'b) composite \<Rightarrow> graph" where
  "audio_graph A c = (case cd_audio c of None \<Rightarrow> empty_graph | Some d \<Rightarrow> drv_graph A d)"

definition midi_graph :: "'b driver \<Rightarrow> ('a, 'b) composite \<Rightarrow> graph" where
  "midi_graph B c = (case cd_midi c of None \<Rightarrow> empty_graph | Some d \<Rightarrow> drv_graph B d)"

definition children_ok :: "('a \<Rightarrow> bool) \<Rightarrow> ('b \<Rightarrow> bool) \<Rightarrow> ('a, 'b) composite \<Rightarrow> bool" where
  "children_ok okA okB c = (pred_option okA (cd_audio c) \<and> pred_option okB (cd_midi c))"

definition composite_ok ::
  "'a driver \<Rightarrow> 'b driver \<Rightarrow> ('a \<Rightarrow> bool) \<Rightarrow> ('b \<Rightarrow> bool) \<Rightarrow> ('a, 'b) composite \<Rightarrow> bool" where
  "composite_ok A B okA okB c =
     (children_ok okA okB c \<and> cd_graph c = graph_union (midi_graph B c) (audio_graph A c))"

lemma child_laws:
  assumes "well_behaved_child k drv ok"
  shows "stable_driver drv ok" "ok d \<Longrightarrow> ids_of k (drv_graph drv d)" "ok d \<Longrightarrow> graph_wf (drv_graph drv d)"
proof -
  show S: "stable_driver drv ok" using assms by (simp add: well_behaved_child_def)
  show "ok d \<Longrightarrow> ids_of k (drv_graph drv d)" using assms by (simp add: well_behaved_child_def)
  show "ok d \<Longrightarrow> graph_wf (drv_graph drv d)" by (rule stable_driver.graph_law [OF S])
qed

text \<open>The two children of a build.\<close>

definition children_behave ::
  "platform \<Rightarrow> 'a driver \<Rightarrow> 'b driver \<Rightarrow> ('a \<Rightarrow> bool) \<Rightarrow> ('b \<Rightarrow> bool) \<Rightarrow> bool" where
  "children_behave plat A B okA okB =
     (well_behaved_child (kind_of_child plat Audio_Child) A okA \<and>
      well_behaved_child (kind_of_child plat Midi_Child) B okB)"

lemma child_graphs:
  assumes W: "children_behave plat A B okA okB" and c: "children_ok okA okB c"
  shows "graph_wf (audio_graph A c)" "graph_wf (midi_graph B c)"
    "ids_of (kind_of_child plat Audio_Child) (audio_graph A c)"
    "ids_of (kind_of_child plat Midi_Child) (midi_graph B c)"
    "graphs_apart (midi_graph B c) (audio_graph A c)" "graphs_apart (audio_graph A c) (midi_graph B c)"
proof -
  note a = child_laws(2,3) [of "kind_of_child plat Audio_Child" A okA]
  note b = child_laws(2,3) [of "kind_of_child plat Midi_Child" B okB]
  show "graph_wf (audio_graph A c)" "graph_wf (midi_graph B c)"
    and ids: "ids_of (kind_of_child plat Audio_Child) (audio_graph A c)"
      "ids_of (kind_of_child plat Midi_Child) (midi_graph B c)"
    using W c a b
    by (auto simp: children_behave_def children_ok_def audio_graph_def midi_graph_def split: option.split)
  show "graphs_apart (midi_graph B c) (audio_graph A c)" "graphs_apart (audio_graph A c) (midi_graph B c)"
    using ids_apart [OF ids(1,2)] ids_apart [OF ids(2,1)] kinds_differ [of plat] by auto
qed

lemma rebuild_total:
  assumes "children_behave plat A B okA okB" "children_ok okA okB c"
  shows "rebuild_merged_graph A B c
    = (Inr (), c\<lparr>cd_graph := graph_union (midi_graph B c) (audio_graph A c)\<rparr>)"
proof -
  note G = child_graphs [OF assms]
  have first: "(case cd_audio c of Some d \<Rightarrow> merge_graph_into (drv_graph A d) empty_graph
      | None \<Rightarrow> (Inr (), empty_graph)) = (Inr (), audio_graph A c)"
    using G(1) merge_apart [of "audio_graph A c" empty_graph] graph_union_empty [OF G(1)]
      ids_apart [OF G(3) ids_of_empty [of "kind_of_child plat Midi_Child"]] kinds_differ [of plat]
    by (auto simp: audio_graph_def split: option.splits)
  have "(case cd_midi c of Some d \<Rightarrow> merge_graph_into (drv_graph B d) (audio_graph A c)
      | None \<Rightarrow> (Inr (), audio_graph A c)) = (Inr (), graph_union (midi_graph B c) (audio_graph A c))"
    using merge_apart [OF G(2,1,5)] by (auto simp: midi_graph_def split: option.splits)
  then show ?thesis by (simp add: rebuild_merged_graph_def first)
qed

text \<open>The errors with which the refresh of a child can fail.\<close>

definition refresh_error ::
  "'a driver \<Rightarrow> 'b driver \<Rightarrow> ('a \<Rightarrow> bool) \<Rightarrow> ('b \<Rightarrow> bool) \<Rightarrow> backend_error \<Rightarrow> bool" where
  "refresh_error A B okA okB e =
     ((\<exists>d. okA d \<and> fst (drv_refresh A d) = Inl e) \<or> (\<exists>d. okB d \<and> fst (drv_refresh B d) = Inl e))"

lemma run_audio_outcome:
  assumes S: "stable_driver A okA" and c: "children_ok okA okB c"
    and run: "run_audio (drv_refresh A) t c = (r, c')"
  shows "children_ok okA okB c' \<and> audio_graph A c' = audio_graph A c \<and>
    midi_graph B c' = midi_graph B c \<and> cd_graph c' = cd_graph c \<and>
    (\<forall>e. r = Inl e \<longrightarrow> refresh_error A B okA okB e)"
proof (cases "cd_audio c")
  case None
  then show ?thesis using run c by (auto simp: run_audio_def)
next
  case (Some d)
  obtain x d' where ref: "drv_refresh A d = (x, d')" by fastforce
  have d: "okA d" using c Some by (simp add: children_ok_def)
  then show ?thesis
    using run Some ref c stable_driver.refresh_law [OF S d ref]
    by (cases x) (force simp: run_audio_def children_ok_def audio_graph_def midi_graph_def refresh_error_def)+
qed

lemma run_midi_outcome:
  assumes S: "stable_driver B okB" and c: "children_ok okA okB c"
    and run: "run_midi (drv_refresh B) t c = (r, c')"
  shows "children_ok okA okB c' \<and> audio_graph A c' = audio_graph A c \<and>
    midi_graph B c' = midi_graph B c \<and> cd_graph c' = cd_graph c \<and>
    (\<forall>e. r = Inl e \<longrightarrow> refresh_error A B okA okB e)"
proof (cases "cd_midi c")
  case None
  then show ?thesis using run c by (auto simp: run_midi_def)
next
  case (Some d)
  obtain x d' where ref: "drv_refresh B d = (x, d')" by fastforce
  have d: "okB d" using c Some by (simp add: children_ok_def)
  then show ?thesis
    using run Some ref c stable_driver.refresh_law [OF S d ref]
    by (cases x) (force simp: run_midi_def children_ok_def audio_graph_def midi_graph_def refresh_error_def)+
qed

text \<open>A refresh merges the children again, or fails with the error of one of them.\<close>

definition refreshed ::
  "'a driver \<Rightarrow> 'b driver \<Rightarrow> ('a \<Rightarrow> bool) \<Rightarrow> ('b \<Rightarrow> bool) \<Rightarrow> ('a, 'b) composite \<Rightarrow>
    (backend_error, 'r) result \<Rightarrow> ('a, 'b) composite \<Rightarrow> bool" where
  "refreshed A B okA okB c r c' =
     (children_ok okA okB c' \<and> audio_graph A c' = audio_graph A c \<and> midi_graph B c' = midi_graph B c \<and>
      (case r of Inr _ \<Rightarrow> composite_ok A B okA okB c'
       | Inl e \<Rightarrow> cd_graph c' = cd_graph c \<and> refresh_error A B okA okB e))"

lemma refresh_outcome:
  assumes W: "children_behave plat A B okA okB" and c: "children_ok okA okB c"
    and run: "composite_refresh plat A B c = (r, c')"
  shows "refreshed A B okA okB c r c'"
proof -
  have SA: "stable_driver A okA" and SB: "stable_driver B okB"
    using W child_laws(1) unfolding children_behave_def by blast+
  obtain r1 c1 where 1: "run_audio (drv_refresh A) (cd_clock c + audio_interval plat) c = (r1, c1)"
    by fastforce
  note one = run_audio_outcome [OF SA c 1, of B]
  obtain r2 c2 where 2: "run_midi (drv_refresh B) (cd_clock c + midi_interval plat) c1 = (r2, c2)"
    by fastforce
  note two = run_midi_outcome [OF SB conjunct1 [OF one] 2, of A]
  note merge = rebuild_total [OF W conjunct1 [OF two]]
  show ?thesis
  proof (cases r1)
    case (Inl e)
    then have "r = Inl e" "c' = c1" using run
      by (simp_all add: composite_refresh_def 1 Let_def del: audio_interval.simps midi_interval.simps)
    then show ?thesis using one Inl by (simp add: refreshed_def)
  next
    case r1: (Inr u)
    show ?thesis
    proof (cases r2)
      case (Inl e)
      then have "r = Inl e" "c' = c2" using run r1
        by (simp_all add: composite_refresh_def 1 2 Let_def del: audio_interval.simps midi_interval.simps)
      then show ?thesis using one two Inl by (simp add: refreshed_def)
    next
      case (Inr v)
      let ?g = "graph_union (midi_graph B c2) (audio_graph A c2)"
      have "\<exists>ns. r = Inr ns" and "c' = c2\<lparr>cd_graph := ?g\<rparr>"
        using run r1 Inr
        by (auto simp: composite_refresh_def 1 2 rebuild_or_fail_def merge Let_def
            simp del: audio_interval.simps midi_interval.simps)
      moreover have "audio_graph A (c2\<lparr>cd_graph := ?g\<rparr>) = audio_graph A c2"
        "midi_graph B (c2\<lparr>cd_graph := ?g\<rparr>) = midi_graph B c2"
        by (simp_all add: audio_graph_def midi_graph_def)
      ultimately show ?thesis
        using one two by (auto simp: refreshed_def composite_ok_def children_ok_def)
    qed
  qed
qed

subsection \<open>The contract\<close>

lemma on_child_cases:
  assumes "on_child plat (from_backend k) f g c = (r, c')"
  obtains (refused) m where "r = Inl (BE_Unsupported m)" "c' = c"
    | (audio) d d' where "k = kind_of_child plat Audio_Child" "cd_audio c = Some d" "f d = (r, d')"
        "c' = c\<lparr>cd_audio := Some d'\<rparr>"
    | (midi) d d' where "k = kind_of_child plat Midi_Child" "cd_midi c = Some d" "g d = (r, d')"
        "c' = c\<lparr>cd_midi := Some d'\<rparr>"
proof (cases "child_of plat (from_backend k)")
  case (Inl m)
  then show thesis using refused [of m] assms by (auto simp: on_child_def)
next
  case (Inr ch)
  note kind = Inr [unfolded child_of_kind]
  show thesis
  proof (cases ch)
    case Audio_Child
    then show thesis
      using assms Inr kind refused audio
      by (auto simp: on_child_def on_audio_def split: option.splits prod.splits)
  next
    case Midi_Child
    then show thesis
      using assms Inr kind refused midi
      by (auto simp: on_child_def on_midi_def split: option.splits prod.splits)
  qed
qed

lemma composite_pairs:
  assumes W: "children_behave plat A B okA okB" and c: "composite_ok A B okA okB c"
  shows "link_pairs (cd_graph c) = link_pairs (audio_graph A c) \<union> link_pairs (midi_graph B c)"
    "graph_wf (cd_graph c)"
proof -
  have ok: "children_ok okA okB c" and g: "cd_graph c = graph_union (midi_graph B c) (audio_graph A c)"
    using c by (simp_all add: composite_ok_def)
  note G = child_graphs [OF W ok]
  show "link_pairs (cd_graph c) = link_pairs (audio_graph A c) \<union> link_pairs (midi_graph B c)"
    "graph_wf (cd_graph c)"
    using link_pairs_union [OF G(2,1,5)] graph_wf_union [OF G(2,1,5)] g by auto
qed

lemma composite_after:
  assumes W: "children_behave plat A B okA okB"
    and c: "composite_ok A B okA okB c" "composite_ok A B okA okB c'"
    and "same_topology (audio_graph A c) (audio_graph A c')"
    and "same_topology (midi_graph B c) (midi_graph B c')"
    and "link_pairs (audio_graph A c') \<union> link_pairs (midi_graph B c') = X"
  shows "graph_after (cd_graph c) X (cd_graph c')"
  using assms composite_pairs(1) [OF W c(2)]
  by (simp add: graph_after_def composite_ok_def same_topology_union)

lemmas child_update_simps = children_ok_def audio_graph_def midi_graph_def

text \<open>
  What the children have connected, and the outcomes of a mutation after which they should
  have connected \<open>X\<close>: it succeeds and the merged graph shows just that, or it fails. A failure
  leaves the merged graph; either it still shows what the children have, or they have made
  the change and the refresh that followed failed.
\<close>

definition child_pairs :: "'a driver \<Rightarrow> 'b driver \<Rightarrow> ('a, 'b) composite \<Rightarrow> (port_id \<times> port_id) set" where
  "child_pairs A B c = link_pairs (audio_graph A c) \<union> link_pairs (midi_graph B c)"

definition mutation_outcome ::
  "'a driver \<Rightarrow> 'b driver \<Rightarrow> ('a \<Rightarrow> bool) \<Rightarrow> ('b \<Rightarrow> bool) \<Rightarrow> ('a, 'b) composite \<Rightarrow>
    (port_id \<times> port_id) set \<Rightarrow> (backend_error, 'r) result \<Rightarrow> ('a, 'b) composite \<Rightarrow> bool" where
  "mutation_outcome A B okA okB c X r c' =
     (children_ok okA okB c' \<and>
      (case r of
         Inr _ \<Rightarrow> composite_ok A B okA okB c' \<and> same_topology (cd_graph c) (cd_graph c') \<and>
           link_pairs (cd_graph c') = X \<and> child_pairs A B c' = X
       | Inl e \<Rightarrow> cd_graph c' = cd_graph c \<and>
           (composite_ok A B okA okB c' \<or> child_pairs A B c' = X \<and> refresh_error A B okA okB e)))"

text \<open>After the owning child has made the change, the refresh decides.\<close>

lemma made_then_refreshed:
  assumes W: "children_behave plat A B okA okB" and c: "composite_ok A B okA okB c"
    and made: "children_ok okA okB c1" "same_topology (audio_graph A c) (audio_graph A c1)"
      "same_topology (midi_graph B c) (midi_graph B c1)" "child_pairs A B c1 = X"
      "cd_graph c1 = cd_graph c"
    and run: "and_then (composite_refresh plat A B c1) (\<lambda>_ c. (Inr x, c)) = (r, c')"
  shows "mutation_outcome A B okA okB c X r c'"
proof -
  obtain r2 c2 where ref: "composite_refresh plat A B c1 = (r2, c2)" by fastforce
  note out = refresh_outcome [OF W made(1) ref, unfolded refreshed_def]
  show ?thesis
  proof (cases r2)
    case (Inl e)
    then show ?thesis
      using run ref out made by (auto simp: mutation_outcome_def child_pairs_def)
  next
    case (Inr ns)
    then have ok: "composite_ok A B okA okB c2" "c' = c2" "r = Inr x" using run ref out by auto
    have "graph_after (cd_graph c) X (cd_graph c2)"
      using composite_after [OF W c ok(1)] out made by (simp add: child_pairs_def)
    then show ?thesis
      using ok out made by (simp add: mutation_outcome_def graph_after_def child_pairs_def)
  qed
qed

text \<open>A refused operation of a child leaves the composite as it was.\<close>

lemma composite_refused:
  assumes W: "children_behave plat A B okA okB" and c: "composite_ok A B okA okB c"
    and own: "on_child plat (from_backend k) f g c = (Inl e, c')"
    and f: "\<And>d d'. okA d \<Longrightarrow> f d = (Inl e, d') \<Longrightarrow> okA d' \<and> drv_graph A d' = drv_graph A d"
    and g: "\<And>d d'. okB d \<Longrightarrow> g d = (Inl e, d') \<Longrightarrow> okB d' \<and> drv_graph B d' = drv_graph B d"
  shows "composite_ok A B okA okB c' \<and> cd_graph c' = cd_graph c"
  using own
proof (cases rule: on_child_cases)
  case (refused m)
  then show ?thesis using c by simp
next
  case (audio d d')
  then show ?thesis using c f [of d d'] by (simp add: composite_ok_def child_update_simps)
next
  case (midi d d')
  then show ?thesis using c g [of d d'] by (simp add: composite_ok_def child_update_simps)
qed

lemma composite_connect_outcome:
  assumes W: "children_behave plat A B okA okB" and c: "composite_ok A B okA okB c"
    and con: "composite_connect plat A B p q c = (r, c')"
  shows "mutation_outcome A B okA okB c (insert (p, q) (link_pairs (cd_graph c))) r c' \<and>
    (is_ok r \<longrightarrow> (p, q) \<notin> link_pairs (cd_graph c))"
proof (cases "route_for_ports p q")
  case (Inl m)
  then show ?thesis
    using con c by (auto simp: composite_connect_def mutation_outcome_def composite_ok_def)
next
  case (Inr route)
  have ok: "children_ok okA okB c" using c by (simp add: composite_ok_def)
  note G = child_graphs [OF W ok] and pairs = composite_pairs(1) [OF W c]
  obtain k where k: "backend_for_port p = Some k" "backend_for_port q = Some k"
    and route: "route = from_backend k"
    using Inr by (auto simp: route_for_ports_Inr)
  obtain r1 c1 where own: "on_child plat (from_backend k) (drv_connect A p q) (drv_connect B p q) c = (r1, c1)"
    by fastforce
  have SA: "stable_driver A okA" and SB: "stable_driver B okB"
    using W child_laws(1) unfolding children_behave_def by blast+
  show ?thesis
  proof (cases r1)
    case (Inl e)
    have "composite_ok A B okA okB c1 \<and> cd_graph c1 = cd_graph c"
      using composite_refused [OF W c own [unfolded Inl]] stable_driver.connect_err_law [OF SA]
        stable_driver.connect_err_law [OF SB] by blast
    then show ?thesis
      using con own Inl \<open>route_for_ports p q = Inr route\<close>
      by (auto simp: composite_connect_def route mutation_outcome_def composite_ok_def)
  next
    case (Inr l)
    have step: "children_ok okA okB c1 \<and> (p, q) \<notin> link_pairs (cd_graph c) \<and>
        same_topology (audio_graph A c) (audio_graph A c1) \<and> same_topology (midi_graph B c) (midi_graph B c1) \<and>
        child_pairs A B c1 = insert (p, q) (link_pairs (cd_graph c)) \<and> cd_graph c1 = cd_graph c"
      using own [unfolded Inr]
    proof (cases rule: on_child_cases)
      case (audio d d')
      have d: "okA d" "audio_graph A c = drv_graph A d" using ok audio by (simp_all add: child_update_simps)
      have "(p, q) \<notin> link_pairs (midi_graph B c)"
        using ids_of_pair(1) [OF G(2,4)] k(1) audio(1) kinds_differ [of plat] by auto
      then show ?thesis
        using stable_driver.connect_ok_law [OF SA d(1) audio(3)] ok audio d pairs
        by (auto simp: child_update_simps graph_after_def child_pairs_def)
    next
      case (midi d d')
      have d: "okB d" "midi_graph B c = drv_graph B d" using ok midi by (simp_all add: child_update_simps)
      have "(p, q) \<notin> link_pairs (audio_graph A c)"
        using ids_of_pair(1) [OF G(1,3)] k(1) midi(1) kinds_differ [of plat] by auto
      then show ?thesis
        using stable_driver.connect_ok_law [OF SB d(1) midi(3)] ok midi d pairs
        by (auto simp: child_update_simps graph_after_def child_pairs_def)
    qed simp
    have run: "and_then (composite_refresh plat A B c1) (\<lambda>_ c. (Inr l, c)) = (r, c')"
      using con own Inr \<open>route_for_ports p q = Inr route\<close> by (simp add: composite_connect_def route)
    show ?thesis
      using step by (simp add: made_then_refreshed [OF W c _ _ _ _ _ run])
  qed
qed

lemma composite_link_owner:
  assumes W: "children_behave plat A B okA okB" and c: "composite_ok A B okA okB c"
    and l: "graph_link (cd_graph c) i = Some l"
  obtains (audio) "graph_link (audio_graph A c) i = Some l"
      "backend_for_link i = Some (kind_of_child plat Audio_Child)"
    | (midi) "graph_link (midi_graph B c) i = Some l"
      "backend_for_link i = Some (kind_of_child plat Midi_Child)"
proof -
  have ok: "children_ok okA okB c" using c by (simp add: composite_ok_def)
  note G = child_graphs [OF W ok]
  have "bt_get (g_links (midi_graph B c)) i = Some l \<or> bt_get (g_links (audio_graph A c)) i = Some l"
    using l c G(5) bt_get_union_Some [OF graph_wfD(3) [OF G(2)]]
    by (simp add: composite_ok_def graph_link_def graph_union_def graphs_apart_def)
  then show thesis
    using that G(3,4) by (auto simp: ids_of_def graph_link_def)
qed

text \<open>The child that owns a link has it, and its graph is sound.\<close>

lemma owned_link:
  assumes W: "children_behave plat A B okA okB" and c: "composite_ok A B okA okB c"
    and l: "graph_link (cd_graph c) i = Some l"
  shows "backend_for_link i = Some (kind_of_child plat Audio_Child) \<Longrightarrow> cd_audio c = Some a \<Longrightarrow>
      okA a \<and> l \<in> set (bt_values (g_links (drv_graph A a)))"
    and "backend_for_link i = Some (kind_of_child plat Midi_Child) \<Longrightarrow> cd_midi c = Some b \<Longrightarrow>
      okB b \<and> l \<in> set (bt_values (g_links (drv_graph B b)))"
    and "link_ident l = i"
proof -
  have ok: "children_ok okA okB c" using c by (simp add: composite_ok_def)
  show "link_ident l = i"
    using l graph_wfD(8) [OF composite_pairs(2) [OF W c]] by (simp add: graph_link_def)
  show "okA a \<and> l \<in> set (bt_values (g_links (drv_graph A a)))"
    if "backend_for_link i = Some (kind_of_child plat Audio_Child)" "cd_audio c = Some a"
    using composite_link_owner [OF W c l] that ok kinds_differ [of plat]
    by (cases rule: composite_link_owner [OF W c l])
      (auto simp: child_update_simps graph_link_def intro: in_bt_values)
  show "okB b \<and> l \<in> set (bt_values (g_links (drv_graph B b)))"
    if "backend_for_link i = Some (kind_of_child plat Midi_Child)" "cd_midi c = Some b"
    using that ok kinds_differ [of plat]
    by (cases rule: composite_link_owner [OF W c l])
      (auto simp: child_update_simps graph_link_def intro: in_bt_values)
qed

lemma composite_disconnect_route:
  assumes W: "children_behave plat A B okA okB" and c: "composite_ok A B okA okB c"
    and l: "graph_link (cd_graph c) i = Some l"
  obtains k r c1 where "backend_for_link i = Some k"
    "on_child plat (from_backend k) (drv_disconnect A i) (drv_disconnect B i) c = (r, c1)"
    "composite_disconnect plat A B i c =
      (case r of Inl e \<Rightarrow> (Inl e, c1)
       | Inr removed \<Rightarrow> and_then (composite_refresh plat A B c1) (\<lambda>_ c.
           (Inr (if plat = Linux_Build then l else removed), c)))"
proof -
  obtain k where k: "backend_for_link i = Some k"
    by (rule composite_link_owner [OF W c l]) blast+
  obtain r c1 where own: "on_child plat (from_backend k) (drv_disconnect A i) (drv_disconnect B i) c = (r, c1)"
    by fastforce
  show thesis
    by (rule that [OF k own])
      (simp add: composite_disconnect_def l link_route_def k own split: sum.split)
qed

lemma composite_disconnect_outcome:
  assumes W: "children_behave plat A B okA okB" and c: "composite_ok A B okA okB c"
    and l: "l \<in> set (bt_values (g_links (cd_graph c)))"
    and dis: "composite_disconnect plat A B (link_ident l) c = (r, c')"
  shows "mutation_outcome A B okA okB c
      (link_pairs (cd_graph c) - {(output_port l, input_port l)}) r c' \<and>
    (\<forall>i. r = Inl (BE_Graph (MissingLink i)) \<longrightarrow> refresh_error A B okA okB (BE_Graph (MissingLink i)))"
proof -
  have ok: "children_ok okA okB c" using c by (simp add: composite_ok_def)
  note G = child_graphs [OF W ok] and pairs = composite_pairs [OF W c]
  let ?pq = "(output_port l, input_port l)"
  have get: "graph_link (cd_graph c) (link_ident l) = Some l"
    using l graph_wfD(3,8) [OF pairs(2)] by (auto simp: graph_link_def set_bt_values)
  note owned = owned_link(1,2) [OF W c get]
  obtain k r1 c1 where k: "backend_for_link (link_ident l) = Some k"
    and own: "on_child plat (from_backend k) (drv_disconnect A (link_ident l))
      (drv_disconnect B (link_ident l)) c = (r1, c1)"
    and run: "composite_disconnect plat A B (link_ident l) c =
      (case r1 of Inl e \<Rightarrow> (Inl e, c1)
       | Inr removed \<Rightarrow> and_then (composite_refresh plat A B c1) (\<lambda>_ c.
           (Inr (if plat = Linux_Build then l else removed), c)))"
    by (rule composite_disconnect_route [OF W c get])
  have SA: "stable_driver A okA" and SB: "stable_driver B okB"
    using W child_laws(1) unfolding children_behave_def by blast+
  have apart: "?pq \<notin> link_pairs (midi_graph B c) \<or> ?pq \<notin> link_pairs (audio_graph A c)"
    using ids_of_pair(1) [OF G(1,3)] ids_of_pair(1) [OF G(2,4)] kinds_differ [of plat] by fastforce
  have in_pairs: "?pq \<in> link_pairs h" if "l \<in> set (bt_values (g_links h))" for h
    using that by (auto simp: link_pairs_def)
  show ?thesis
  proof (cases r1)
    case (Inl e)
    have "composite_ok A B okA okB c1 \<and> cd_graph c1 = cd_graph c"
      using composite_refused [OF W c own [unfolded Inl]] stable_driver.disconnect_err_law [OF SA]
        stable_driver.disconnect_err_law [OF SB] by blast
    moreover have "e \<noteq> BE_Graph (MissingLink i)" for i
      using own [unfolded Inl]
    proof (cases rule: on_child_cases)
      case (audio d d')
      note mine = owned(1) [OF k [unfolded audio(1)] audio(2)]
      show ?thesis
        using audio(3) stable_driver.no_missing_link_law [OF SA conjunct1 [OF mine] conjunct2 [OF mine]]
        by auto
    next
      case (midi d d')
      note mine = owned(2) [OF k [unfolded midi(1)] midi(2)]
      show ?thesis
        using midi(3) stable_driver.no_missing_link_law [OF SB conjunct1 [OF mine] conjunct2 [OF mine]]
        by auto
    qed simp
    ultimately show ?thesis
      using dis run Inl by (auto simp: mutation_outcome_def composite_ok_def)
  next
    case (Inr x)
    have step: "children_ok okA okB c1 \<and>
        same_topology (audio_graph A c) (audio_graph A c1) \<and> same_topology (midi_graph B c) (midi_graph B c1) \<and>
        child_pairs A B c1 = link_pairs (cd_graph c) - {?pq} \<and> cd_graph c1 = cd_graph c"
      using own [unfolded Inr]
    proof (cases rule: on_child_cases)
      case (audio d d')
      note mine = owned(1) [OF k [unfolded audio(1)] audio(2)]
      note law = stable_driver.disconnect_ok_law [OF SA conjunct1 [OF mine] conjunct2 [OF mine] audio(3)]
      have "?pq \<in> link_pairs (audio_graph A c)"
        using in_pairs [OF conjunct2 [OF mine]] audio(2) by (simp add: audio_graph_def)
      then show ?thesis
        using law ok audio(2,4) pairs(1) apart
        by (auto simp: child_update_simps graph_after_def child_pairs_def)
    next
      case (midi d d')
      note mine = owned(2) [OF k [unfolded midi(1)] midi(2)]
      note law = stable_driver.disconnect_ok_law [OF SB conjunct1 [OF mine] conjunct2 [OF mine] midi(3)]
      have "?pq \<in> link_pairs (midi_graph B c)"
        using in_pairs [OF conjunct2 [OF mine]] midi(2) by (simp add: midi_graph_def)
      then show ?thesis
        using law ok midi(2,4) pairs(1) apart
        by (auto simp: child_update_simps graph_after_def child_pairs_def)
    qed simp
    have run': "and_then (composite_refresh plat A B c1) (\<lambda>_ c.
        (Inr (if plat = Linux_Build then l else x), c)) = (r, c')"
      using dis run Inr by simp
    have "refresh_error A B okA okB e" if "r = Inl e" for e
      using run' that refresh_outcome [OF W conjunct1 [OF step]]
      by (cases "composite_refresh plat A B c1") (auto simp: and_then_def refreshed_def split: sum.splits)
    then show ?thesis
      using step by (auto simp: made_then_refreshed [OF W c _ _ _ _ _ run'])
  qed
qed

text \<open>A disconnection of a link that the merged graph does not hold changes nothing.\<close>

lemma composite_disconnect_missing:
  "graph_link (cd_graph c) i = None \<Longrightarrow>
    composite_disconnect plat A B i c = (Inl (BE_Graph (MissingLink i)), c)"
  by (simp add: composite_disconnect_def)

text \<open>Placing a node: the child first, then the merged graph, without a refresh.\<close>

lemma composite_place_ok:
  assumes W: "children_behave plat A B okA okB" and c: "composite_ok A B okA okB c"
    and run: "composite_set_node_position plat A B n pos c = (Inr u, c')"
  shows "composite_ok A B okA okB c' \<and> graph_node (cd_graph c) n \<noteq> None \<and>
    cd_graph c' = place_node n pos (cd_graph c)"
proof -
  have ok: "children_ok okA okB c" and g: "cd_graph c = graph_union (midi_graph B c) (audio_graph A c)"
    using c by (simp_all add: composite_ok_def)
  note G = child_graphs [OF W ok]
  have SA: "stable_driver A okA" and SB: "stable_driver B okB"
    using W child_laws(1) unfolding children_behave_def by blast+
  obtain k where k: "backend_for_node n = Some k"
    using run by (auto simp: composite_set_node_position_def split: option.splits)
  obtain r c1 where own: "on_child plat (from_backend k) (drv_set_node_position A n pos)
      (drv_set_node_position B n pos) c = (r, c1)" by fastforce
  then obtain x where r: "r = Inr x" and c': "c' = c1\<lparr>cd_graph := place_node n pos (cd_graph c1)\<rparr>"
    using run by (cases r) (auto simp: composite_set_node_position_def k place_node_def)
  have found: "graph_node (cd_graph c) n \<noteq> None"
    if "graph_node (audio_graph A c) n \<noteq> None \<or> graph_node (midi_graph B c) n \<noteq> None"
    using that graph_wfD(1) [OF G(2)]
    by (auto simp: g graph_union_def graph_node_def bt_get_union split: option.split)
  from own [unfolded r] show ?thesis
  proof (cases rule: on_child_cases)
    case (audio d d')
    have d: "okA d" "audio_graph A c = drv_graph A d" using ok audio by (simp_all add: child_update_simps)
    note law = stable_driver.place_ok_law [OF SA d(1) audio(3)]
    then have "place_node n pos (cd_graph c) = graph_union (midi_graph B c) (drv_graph A d')"
      using place_union(2) [OF G(2,1,5)] d(2) by (simp add: g)
    then show ?thesis
      using law found ok audio d by (simp add: c' composite_ok_def child_update_simps)
  next
    case (midi d d')
    have d: "okB d" "midi_graph B c = drv_graph B d" using ok midi by (simp_all add: child_update_simps)
    note law = stable_driver.place_ok_law [OF SB d(1) midi(3)]
    then have "place_node n pos (cd_graph c) = graph_union (drv_graph B d') (audio_graph A c)"
      using place_union(1) [OF G(2,1,5)] d(2) by (simp add: g)
    then show ?thesis
      using law found ok midi d by (simp add: c' composite_ok_def child_update_simps)
  qed simp
qed

lemma composite_place_err:
  assumes W: "children_behave plat A B okA okB" and c: "composite_ok A B okA okB c"
    and run: "composite_set_node_position plat A B n pos c = (Inl e, c')"
  shows "composite_ok A B okA okB c' \<and> cd_graph c' = cd_graph c"
proof (cases "backend_for_node n")
  case None
  then show ?thesis using run c by (simp add: composite_set_node_position_def)
next
  case (Some k)
  have SA: "stable_driver A okA" and SB: "stable_driver B okB"
    using W child_laws(1) unfolding children_behave_def by blast+
  obtain r c1 where own: "on_child plat (from_backend k) (drv_set_node_position A n pos)
      (drv_set_node_position B n pos) c = (r, c1)" by fastforce
  then have r: "r = Inl e" "c1 = c'"
    using run by (cases r; auto simp: composite_set_node_position_def Some)+
  show ?thesis
    using composite_refused [OF W c own [unfolded r]] stable_driver.place_err_law [OF SA]
      stable_driver.place_err_law [OF SB] by blast
qed

text \<open>
  When no refresh of a child fails, a mutation succeeds or changes nothing, and the composite
  keeps the contract the commands, the undo stack and the patchbay are proved from.
\<close>

lemma composite_stable:
  assumes W: "children_behave plat A B okA okB" and R: "\<And>e. \<not> refresh_error A B okA okB e"
  shows "stable_driver (composite_driver plat A B) (composite_ok A B okA okB)"
proof -
  have err: "mutation_outcome A B okA okB c X (Inl e) c' \<Longrightarrow>
      composite_ok A B okA okB c' \<and> cd_graph c' = cd_graph c" for c X e c'
    using R by (simp add: mutation_outcome_def)
  have finished: "mutation_outcome A B okA okB c X (Inr x) c' \<Longrightarrow>
      composite_ok A B okA okB c' \<and> graph_after (cd_graph c) X (cd_graph c')" for c X x c'
    using composite_pairs(2) [OF W] by (auto simp: mutation_outcome_def graph_after_def)
  note con = composite_connect_outcome [OF W] and dis = composite_disconnect_outcome [OF W]
  show ?thesis
  proof (unfold_locales, unfold composite_driver_simps, goal_cases)
    case (1 c r c')
    have ok: "children_ok okA okB c" and g: "cd_graph c = graph_union (midi_graph B c) (audio_graph A c)"
      using 1(1) by (simp_all add: composite_ok_def)
    from refresh_outcome [OF W ok 1(2)] g R show ?case
      by (cases r) (auto simp: refreshed_def composite_ok_def)
  next
    case (2 c p q l c')
    from con [OF this] show ?case
      using finished [of c "insert (p, q) (link_pairs (cd_graph c))" l c'] by simp
  next
    case (3 c p q e c')
    from con [OF this] show ?case
      using err [of c "insert (p, q) (link_pairs (cd_graph c))" e c'] by simp
  next
    case (4 c l l' c')
    from dis [OF this] show ?case
      using finished [of c "link_pairs (cd_graph c) - {(output_port l, input_port l)}" l' c'] by simp
  next
    case (5 c i e c')
    show ?case
    proof (cases "graph_link (cd_graph c) i")
      case None
      then show ?thesis using 5 by (simp add: composite_disconnect_missing)
    next
      case (Some l)
      have "link_ident l = i" using owned_link(3) [OF W 5(1) Some] .
      moreover have "l \<in> set (bt_values (g_links (cd_graph c)))"
        using Some by (auto simp: graph_link_def intro: in_bt_values)
      ultimately have "mutation_outcome A B okA okB c
          (link_pairs (cd_graph c) - {(output_port l, input_port l)}) (Inl e :: (_, link) result) c'"
        using dis [OF 5(1)] 5(2) by simp
      then show ?thesis by (rule err)
    qed
  next
    case (6 c l i c')
    from dis [OF this(1,2)] show ?case using R by auto
  next
    case (9 c)
    then show ?case by (rule composite_pairs(2) [OF W])
  next
    case (10 c n pos u c')
    then show ?case by (rule composite_place_ok [OF W])
  next
    case (11 c n pos e c')
    then show ?case by (rule composite_place_err [OF W])
  qed simp_all
qed


text \<open>
  An instance: two in-memory drivers, each refusing a connection once its next link id would
  leave its namespace.
\<close>

definition fenced_connect ::
  "backend_kind \<Rightarrow> port_id \<Rightarrow> port_id \<Rightarrow> demo \<Rightarrow> (backend_error, link) result \<times> demo" where
  "fenced_connect k p q d =
     (if backend_for_link (LinkId (demo_next_link_id d)) = Some k then demo_connect p q d
      else (Inl (BE_Native ''link ids are exhausted''), d))"

definition fenced_driver :: "backend_kind \<Rightarrow> demo driver" where
  "fenced_driver k = demo_driver\<lparr>drv_connect := fenced_connect k\<rparr>"

lemma fenced_driver_simps [simp]:
  "drv_refresh (fenced_driver k) = demo_refresh"
  "drv_connect (fenced_driver k) = fenced_connect k"
  "drv_disconnect (fenced_driver k) = demo_disconnect"
  "drv_allow_connection (fenced_driver k) = demo_allow_connection"
  "drv_suppress_connection (fenced_driver k) = demo_suppress_connection"
  "drv_set_node_position (fenced_driver k) = demo_set_node_position"
  "drv_graph (fenced_driver k) = demo_graph"
  by (simp_all add: fenced_driver_def)

definition fenced_ok :: "backend_kind \<Rightarrow> demo \<Rightarrow> bool" where
  "fenced_ok k d = (demo_ok d \<and> ids_of k (demo_graph d))"

lemma demo_connect_ids:
  assumes "demo_connect p q d = (Inr l, d')" "ids_of k (demo_graph d)"
    "backend_for_link (LinkId (demo_next_link_id d)) = Some k"
  shows "ids_of k (demo_graph d')"
  using assms
  by (auto simp: demo_connect_def allocate_link_id_def add_link_def Let_def ids_of_def graph_node_def
      graph_port_def graph_link_def split: if_splits option.splits prod.splits sum.splits)

lemma demo_disconnect_ids:
  assumes "demo_disconnect i d = (Inr l, d')" "ids_of k (demo_graph d)"
  shows "ids_of k (demo_graph d')"
  using assms
  by (auto simp: demo_disconnect_def remove_link_def ids_of_def graph_node_def graph_port_def
      graph_link_def split: if_splits option.splits)

lemma place_node_ids: "ids_of k g \<Longrightarrow> ids_of k (place_node n pos g)"
  by (simp add: ids_of_def graph_node_def graph_port_def graph_link_def place_node_def)

lemma fenced_well_behaved: "well_behaved_child k (fenced_driver k) (fenced_ok k)"
proof -
  have same: "fenced_ok k d'" if "fenced_ok k d" "demo_ok d'" "demo_graph d' = demo_graph d" for d d'
    using that by (simp add: fenced_ok_def)
  have "stable_driver (fenced_driver k) (fenced_ok k)"
  proof (unfold_locales, unfold fenced_driver_simps, goal_cases)
    case (1 d r d')
    then show ?case by (auto simp: demo_refresh_def)
  next
    case (2 d p q l d')
    then have run: "demo_connect p q d = (Inr l, d')"
      "backend_for_link (LinkId (demo_next_link_id d)) = Some k"
      by (auto simp: fenced_connect_def split: if_splits)
    then show ?case
      using demo_connect_ok [OF _ run(1)] demo_connect_ids [OF run(1) _ run(2)] 2(1)
      by (simp add: fenced_ok_def)
  next
    case (3 d p q e d')
    then show ?case
      using demo_connect_err [of p q d e d'] by (auto simp: fenced_connect_def fenced_ok_def demo_ok_def split: if_splits)
  next
    case (4 d l l' d')
    then show ?case
      using demo_disconnect_ok [OF _ 4(2,3)] demo_disconnect_ids [OF 4(3)] by (simp add: fenced_ok_def)
  next
    case (5 d i e d')
    then show ?case using demo_disconnect_err [OF 5(2)] by (simp add: fenced_ok_def demo_ok_def)
  next
    case (6 d l i d')
    then show ?case using demo.no_missing_link_law [of d l i d'] by (simp add: fenced_ok_def)
  next
    case (7 d out inp)
    then show ?case by (simp add: demo_allow_connection_def fenced_ok_def demo_ok_def)
  next
    case (8 d out inp)
    then show ?case by (simp add: demo_suppress_connection_def fenced_ok_def demo_ok_def)
  next
    case (9 d)
    then show ?case by (simp add: fenced_ok_def demo_ok_def)
  next
    case (10 d n pos u d')
    then show ?case
      using demo.place_ok_law [of d n pos u d'] by (auto simp: fenced_ok_def place_node_ids)
  next
    case (11 d n pos e d')
    then show ?case
      using demo.place_err_law [of d n pos e d'] by (auto simp: fenced_ok_def)
  qed
  then show ?thesis by (simp add: well_behaved_child_def fenced_ok_def)
qed

lemma fenced_children: "children_behave plat (fenced_driver (kind_of_child plat Audio_Child))
    (fenced_driver (kind_of_child plat Midi_Child)) (fenced_ok (kind_of_child plat Audio_Child))
    (fenced_ok (kind_of_child plat Midi_Child))"
  by (simp add: children_behave_def fenced_well_behaved)










subsection \<open>Refreshing on a schedule\<close>

lemma and_then_Inr:
  assumes "and_then r f = (Inr x, s)"
  obtains y s' where "r = (Inr y, s')" "f y s' = (Inr x, s)"
  using assms by (auto simp: and_then_def split: prod.splits sum.splits)

lemma run_audio_effect:
  "run_audio f t c = (Inr u, c') \<Longrightarrow> \<exists>d. c' = c\<lparr>cd_audio := d, cd_audio_deadline :=
     (if cd_audio c = None then cd_audio_deadline c else Some t)\<rparr> \<and> (d = None \<longleftrightarrow> cd_audio c = None)"
  by (cases "cd_audio c") (auto simp: run_audio_def split: prod.splits sum.splits)

lemma run_midi_effect:
  "run_midi f t c = (Inr u, c') \<Longrightarrow> \<exists>d. c' = c\<lparr>cd_midi := d, cd_midi_deadline :=
     (if cd_midi c = None then cd_midi_deadline c else Some t)\<rparr> \<and> (d = None \<longleftrightarrow> cd_midi c = None)"
  by (cases "cd_midi c") (auto simp: run_midi_def split: prod.splits sum.splits)

lemma rebuild_effect: "rebuild_or_fail A B c = (Inr u, c') \<Longrightarrow> \<exists>g. c' = c\<lparr>cd_graph := g\<rparr>"
  by (auto simp: rebuild_or_fail_def rebuild_merged_graph_def Let_def split: prod.splits sum.splits)

text \<open>
  After a scheduled refresh that succeeds every child has a deadline in the future, one
  interval away or the one it already had; a child that is neither dirty nor due is not
  touched, and without a due child the composite stays as it is.
\<close>

lemma refresh_schedule:
  assumes run: "refresh_due_children plat A B csa csb c = (Inr ns, c')"
  shows "cd_audio c \<noteq> None \<Longrightarrow> \<exists>t. cd_audio_deadline c' = Some t \<and> cd_clock c < t \<and>
      (t = cd_clock c + audio_interval plat \<or> cd_audio_deadline c = Some t)"
    and "cd_midi c \<noteq> None \<Longrightarrow> \<exists>t. cd_midi_deadline c' = Some t \<and> cd_clock c < t \<and>
      (t = cd_clock c + midi_interval plat \<or> cd_midi_deadline c = Some t)"
    and "\<not> audio_due csa (cd_clock c) c \<Longrightarrow> cd_audio c' = cd_audio c"
    and "\<not> midi_due csb (cd_clock c) c \<Longrightarrow> cd_midi c' = cd_midi c"
    and "\<not> audio_due csa (cd_clock c) c \<Longrightarrow> \<not> midi_due csb (cd_clock c) c \<Longrightarrow> c' = c"
proof -
  let ?a = "audio_due csa (cd_clock c) c" and ?m = "midi_due csb (cd_clock c) c"
  obtain c1 c2 u1 u2 u3 where
    1: "(if ?a then run_audio (cs_refresh_if_needed csa) (cd_clock c + audio_interval plat) c
         else (Inr (), c)) = (Inr u1, c1)" and
    2: "(if ?m then run_midi (cs_refresh_if_needed csb) (cd_clock c + midi_interval plat) c1
         else (Inr (), c1)) = (Inr u2, c2)" and
    3: "(if ?a \<or> ?m then rebuild_or_fail A B c2 else (Inr (), c2)) = (Inr u3, c')"
    using run unfolding refresh_due_children_def Let_def
    by (elim and_then_Inr) (auto elim!: and_then_Inr)
  have first: "(?a \<longrightarrow> cd_audio_deadline c1 = Some (cd_clock c + audio_interval plat)) \<and> (\<not> ?a \<longrightarrow> c1 = c) \<and>
      cd_midi c1 = cd_midi c \<and> cd_midi_deadline c1 = cd_midi_deadline c"
  proof (cases ?a)
    case True
    then have "cd_audio c \<noteq> None" by (auto simp: audio_due_def split: option.splits)
    then show ?thesis
      using 1 True run_audio_effect [of "cs_refresh_if_needed csa" "cd_clock c + audio_interval plat" c u1 c1]
      by auto
  qed (use 1 in simp)
  have second: "(?m \<longrightarrow> cd_midi_deadline c2 = Some (cd_clock c + midi_interval plat)) \<and> (\<not> ?m \<longrightarrow> c2 = c1) \<and>
      cd_audio c2 = cd_audio c1 \<and> cd_audio_deadline c2 = cd_audio_deadline c1"
  proof (cases ?m)
    case True
    then have "cd_midi c1 \<noteq> None" using first by (auto simp: midi_due_def split: option.splits)
    then show ?thesis
      using 2 True run_midi_effect [of "cs_refresh_if_needed csb" "cd_clock c + midi_interval plat" c1 u2 c2]
      by auto
  qed (use 2 in simp)
  have third: "cd_audio c' = cd_audio c2 \<and> cd_audio_deadline c' = cd_audio_deadline c2 \<and>
      cd_midi c' = cd_midi c2 \<and> cd_midi_deadline c' = cd_midi_deadline c2 \<and> (\<not> ?a \<longrightarrow> \<not> ?m \<longrightarrow> c' = c2)"
  proof (cases "?a \<or> ?m")
    case True
    then show ?thesis using 3 rebuild_effect [of A B c2 u3 c'] by auto
  qed (use 3 in simp)
  have pos: "0 < audio_interval plat" "0 < midi_interval plat" by (cases plat; simp)+
  show "\<exists>t. cd_audio_deadline c' = Some t \<and> cd_clock c < t \<and>
      (t = cd_clock c + audio_interval plat \<or> cd_audio_deadline c = Some t)" if "cd_audio c \<noteq> None"
    using that first second third pos
    by (cases ?a) (auto simp: audio_due_def refresh_due_def split: option.splits)
  show "\<exists>t. cd_midi_deadline c' = Some t \<and> cd_clock c < t \<and>
      (t = cd_clock c + midi_interval plat \<or> cd_midi_deadline c = Some t)" if "cd_midi c \<noteq> None"
    using that first second third pos
    by (cases ?m) (auto simp: midi_due_def refresh_due_def split: option.splits)
  show "\<not> ?a \<Longrightarrow> cd_audio c' = cd_audio c" "\<not> ?m \<Longrightarrow> cd_midi c' = cd_midi c" "\<not> ?a \<Longrightarrow> \<not> ?m \<Longrightarrow> c' = c"
    using first second third by auto
qed

end
