(* ===== verification/Live_Backend.thy ===== *)
theory Live_Backend
  imports Composite_Props Stack_Props
begin

text \<open>
  The undo stack on the live backend. While no refresh of a child fails, the composite of two
  drivers that keep the contract keeps it too, and what the contract gives to commands holds
  of a session on the merged graph; an instance is the composite of two in-memory drivers.
  With a refresh that fails it does not: see \<^verbatim>\<open>composite_mutation_outcomes\<close>.
\<close>

lemma live_session_undone:
  assumes "children_behave plat A B okA okB" and "\<And>e. \<not> refresh_error A B okA okB e"
    and "composite_ok A B okA okB start"
    and "stack_run (composite_driver plat A B) start s c" and "\<not> can_undo s"
  shows "composite_ok A B okA okB c \<and> same_topology (cd_graph start) (cd_graph c) \<and>
    link_pairs (cd_graph c) = link_pairs (cd_graph start)"
  using stable_driver.stack_run_unwound [OF composite_stable [OF assms(1,2)] assms(4,3,5)]
  by (simp add: graph_after_def)

interpretation live: stable_driver
  "composite_driver Linux_Build (fenced_driver BK_PipeWire) (fenced_driver BK_AlsaMidi)"
  "composite_ok (fenced_driver BK_PipeWire) (fenced_driver BK_AlsaMidi) (fenced_ok BK_PipeWire)
     (fenced_ok BK_AlsaMidi)"
  by (rule composite_stable [OF fenced_children [of Linux_Build, simplified]])
    (simp add: refresh_error_def demo_refresh_def)

end
