(* ===== verification/Simulation.thy ===== *)
theory Simulation
  imports Prelude
begin

text \<open>
  Forward simulation, stated once: a labelled step relation that keeps an invariant and
  whose every step an abstract step function answers. It carries whole runs of the
  concrete system to runs of the abstract one. The components with interleaved steps
  (the audio block ring, the effect preparation pool) interpret it.
\<close>

subsection \<open>Runs of a labelled step relation\<close>

inductive labelled_run :: "('s \<Rightarrow> 'e \<Rightarrow> 's \<Rightarrow> bool) \<Rightarrow> 's \<Rightarrow> 'e list \<Rightarrow> 's \<Rightarrow> bool"
  for step where
  run_nil: "labelled_run step s [] s"
| run_snoc: "labelled_run step s es t \<Longrightarrow> step t e u \<Longrightarrow> labelled_run step s (es @ [e]) u"

lemma run_step: "step s e t \<Longrightarrow> labelled_run step t es u \<Longrightarrow> labelled_run step s (e # es) u"
proof (rotate_tac, induction rule: labelled_run.induct)
  case (run_nil t)
  have "labelled_run step s ([] @ [e]) t"
    by (rule labelled_run.run_snoc, rule labelled_run.run_nil, rule run_nil)
  then show ?case by simp
next
  case (run_snoc t es v f u)
  from labelled_run.run_snoc [OF run_snoc.IH [OF run_snoc.prems] run_snoc.hyps(2)] show ?case by simp
qed

lemma run_trans:
  assumes "labelled_run step t fs u" and "labelled_run step s es t"
  shows "labelled_run step s (es @ fs) u"
  using assms
proof (induction rule: labelled_run.induct)
  case (run_nil t)
  then show ?case by simp
next
  case (run_snoc t fs v f u)
  from labelled_run.run_snoc [OF run_snoc.IH [OF run_snoc.prems] run_snoc.hyps(2)] show ?case by simp
qed

text \<open>The abstract runs; \<open>None\<close> is an event the abstract system does not allow.\<close>

fun abstract_run :: "('a \<Rightarrow> 'e \<Rightarrow> 'a option) \<Rightarrow> 'a \<Rightarrow> 'e list \<Rightarrow> 'a option" where
  "abstract_run astep a [] = Some a"
| "abstract_run astep a (e # es) = (case astep a e of None \<Rightarrow> None | Some b \<Rightarrow> abstract_run astep b es)"

lemma abstract_run_append:
  "abstract_run astep a (es @ fs) =
     (case abstract_run astep a es of None \<Rightarrow> None | Some b \<Rightarrow> abstract_run astep b fs)"
  by (induction es arbitrary: a) (auto split: option.split)

lemma labelled_run_invariant:
  assumes "labelled_run step s es t" and "I s"
    and "\<And>s e t. I s \<Longrightarrow> step s e t \<Longrightarrow> I t"
  shows "I t"
  using assms by (induction rule: labelled_run.induct) auto

subsection \<open>Forward simulation\<close>

locale forward_simulation =
  fixes step :: "'s \<Rightarrow> 'e \<Rightarrow> 's \<Rightarrow> bool"
    and astep :: "'a \<Rightarrow> 'e \<Rightarrow> 'a option"
    and good :: "'s \<Rightarrow> bool"
    and view :: "'s \<Rightarrow> 'a"
  assumes step_keeps: "good s \<Longrightarrow> step s e t \<Longrightarrow> good t"
    and step_answered: "good s \<Longrightarrow> step s e t \<Longrightarrow> astep (view s) e = Some (view t)"
begin

lemma run_keeps: "labelled_run step s es t \<Longrightarrow> good s \<Longrightarrow> good t"
  by (induction rule: labelled_run.induct) (auto dest: step_keeps)

lemma run_answered:
  "labelled_run step s es t \<Longrightarrow> good s \<Longrightarrow> abstract_run astep (view s) es = Some (view t)"
proof (induction rule: labelled_run.induct)
  case (run_nil s)
  show ?case by simp
next
  case (run_snoc s es t e u)
  with step_answered [OF run_keeps [OF run_snoc.hyps(1)]]
  show ?case by (simp add: abstract_run_append)
qed

end

end
