(* ===== verification/Block_Queue.thy ===== *)
theory Block_Queue
  imports Simulation
begin

text \<open>
  The ring of audio blocks between a realtime callback and the Hush worker
  (\<^verbatim>\<open>pw-graph-effects/src/hush_queue.rs\<close>): one producer, one consumer, two indices that
  only wrap. Each operation is given once as the code computes it alone and once as the
  steps it takes on the shared ring, so that the two sides interleave. An acquire load that
  reads a release store sees the writes before it, and each index has one writer; the steps
  are therefore interleaved on one memory. A sample is only moved, its type is a parameter;
  a \<^verbatim>\<open>usize\<close> index has 64 bits.
\<close>

subsection \<open>Blocks and the ring\<close>

definition hush_queue_capacity :: nat where
  "hush_queue_capacity = 128"

record 'f audio_block =
  ab_generation :: u64
  ab_wet_epoch :: u64
  ab_start_frame :: u64
  ab_frames :: u32
  ab_channels :: "16 word"
  ab_channel_mask :: "16 word"
  ab_samples :: "'f list"

definition audio_block_new :: "'f \<Rightarrow> nat \<Rightarrow> 'f audio_block" where
  "audio_block_new silence max_samples =
     \<lparr>ab_generation = 0, ab_wet_epoch = 0, ab_start_frame = 0, ab_frames = 0, ab_channels = 0,
      ab_channel_mask = 0, ab_samples = replicate max_samples silence\<rparr>"

record 'f block_queue =
  bq_slots :: "'f audio_block list"
  bq_capacity :: nat
  bq_max_samples :: nat
  bq_write :: u64
  bq_read :: u64

fun power_of_two :: "nat \<Rightarrow> nat \<Rightarrow> bool" where
  "power_of_two 0 n = (n = 1)"
| "power_of_two (Suc bits) n = (n = 1 \<or> even n \<and> power_of_two bits (n div 2))"

text \<open>\<^verbatim>\<open>new\<close> asserts that the capacity is a power of two; \<open>None\<close> is the failed assertion.\<close>

definition block_queue_new :: "'f \<Rightarrow> nat \<Rightarrow> nat \<Rightarrow> 'f block_queue option" where
  "block_queue_new silence capacity max_samples =
     (if power_of_two 63 capacity then
        Some \<lparr>bq_slots = replicate capacity (audio_block_new silence max_samples),
              bq_capacity = capacity, bq_max_samples = max_samples, bq_write = 0, bq_read = 0\<rparr>
      else None)"

text \<open>What a push is asked for; \<open>pr_fill\<close> is the closure that writes the samples in place.\<close>

record 'f push_request =
  pr_generation :: u64
  pr_wet_epoch :: u64
  pr_start_frame :: u64
  pr_frames :: u32
  pr_channels :: "16 word"
  pr_channel_mask :: "16 word"
  pr_fill :: "'f list \<Rightarrow> 'f list"

definition request_fits :: "'f block_queue \<Rightarrow> 'f push_request \<Rightarrow> bool" where
  "request_fits q r = (unat (pr_frames r) * unat (pr_channels r) \<le> bq_max_samples q)"

definition bq_slot :: "'f block_queue \<Rightarrow> u64 \<Rightarrow> nat" where
  "bq_slot q i = unat i mod bq_capacity q"

definition bq_used :: "'f block_queue \<Rightarrow> nat" where
  "bq_used q = unat (bq_write q - bq_read q)"

text \<open>The three writes of a push: the metadata, the samples, the index.\<close>

definition mark_slot :: "u64 \<Rightarrow> 'f push_request \<Rightarrow> 'f block_queue \<Rightarrow> 'f block_queue" where
  "mark_slot w r q =
     q\<lparr>bq_slots := (bq_slots q)[bq_slot q w := (bq_slots q ! bq_slot q w)
         \<lparr>ab_generation := pr_generation r, ab_wet_epoch := pr_wet_epoch r,
          ab_start_frame := pr_start_frame r, ab_frames := pr_frames r,
          ab_channels := pr_channels r, ab_channel_mask := pr_channel_mask r\<rparr>]\<rparr>"

definition fill_slot :: "u64 \<Rightarrow> 'f push_request \<Rightarrow> 'f block_queue \<Rightarrow> 'f block_queue" where
  "fill_slot w r q =
     q\<lparr>bq_slots := (bq_slots q)[bq_slot q w := (bq_slots q ! bq_slot q w)
         \<lparr>ab_samples := pr_fill r (ab_samples (bq_slots q ! bq_slot q w))\<rparr>]\<rparr>"

definition try_push_with :: "'f push_request \<Rightarrow> 'f block_queue \<Rightarrow> bool \<times> 'f block_queue" where
  "try_push_with r q =
     (if \<not> request_fits q r then (False, q)
      else let w = bq_write q in
           if unat (w - bq_read q) \<ge> bq_capacity q then (False, q)
           else (True, (fill_slot w r (mark_slot w r q))\<lparr>bq_write := w + 1\<rparr>))"

definition peek_with :: "('f audio_block \<Rightarrow> 'r) \<Rightarrow> 'f block_queue \<Rightarrow> 'r option" where
  "peek_with f q =
     (if bq_read q = bq_write q then None else Some (f (bq_slots q ! bq_slot q (bq_read q))))"

definition pop_with :: "('f audio_block \<Rightarrow> 'r) \<Rightarrow> 'f block_queue \<Rightarrow> 'r option \<times> 'f block_queue" where
  "pop_with f q =
     (let i = bq_read q in
      if i = bq_write q then (None, q)
      else (Some (f (bq_slots q ! bq_slot q i)), q\<lparr>bq_read := i + 1\<rparr>))"

definition bq_depth :: "'f block_queue \<Rightarrow> nat" where
  "bq_depth q = min (bq_used q) (bq_capacity q)"

subsection \<open>The steps of the two sides\<close>

datatype 'f producer =
    P_Idle
  | P_Loaded "'f push_request" u64
  | P_Claimed "'f push_request" u64
  | P_Marked "'f push_request" u64
  | P_Filled "'f push_request" u64

text \<open>The flag of a busy consumer tells \<open>pop_with\<close> from \<open>peek_with\<close>.\<close>

datatype 'f consumer =
    C_Idle
  | C_Loaded bool u64
  | C_Owning bool u64
  | C_Read bool u64 "'f audio_block"

record 'f ring =
  rg_queue :: "'f block_queue"
  rg_producer :: "'f producer"
  rg_consumer :: "'f consumer"

datatype 'f ring_event =
    Silent
  | Pushed "'f push_request" "'f audio_block"
  | Refused "'f push_request"
  | Popped "'f audio_block"
  | Peeked "'f audio_block"
  | Found_Empty

text \<open>A closure over a slice cannot change its length.\<close>

definition fills_in_place :: "'f push_request \<Rightarrow> bool" where
  "fills_in_place r = (\<forall>xs. length (pr_fill r xs) = length xs)"

inductive ring_step :: "'f ring \<Rightarrow> 'f ring_event \<Rightarrow> 'f ring \<Rightarrow> bool" where
  p_too_big: "rg_producer s = P_Idle \<Longrightarrow> \<not> request_fits (rg_queue s) r \<Longrightarrow>
    ring_step s (Refused r) s"
| p_load: "rg_producer s = P_Idle \<Longrightarrow> request_fits (rg_queue s) r \<Longrightarrow> fills_in_place r \<Longrightarrow>
    ring_step s Silent (s\<lparr>rg_producer := P_Loaded r (bq_write (rg_queue s))\<rparr>)"
| p_full: "rg_producer s = P_Loaded r w \<Longrightarrow>
    unat (w - bq_read (rg_queue s)) \<ge> bq_capacity (rg_queue s) \<Longrightarrow>
    ring_step s (Refused r) (s\<lparr>rg_producer := P_Idle\<rparr>)"
| p_claim: "rg_producer s = P_Loaded r w \<Longrightarrow>
    \<not> unat (w - bq_read (rg_queue s)) \<ge> bq_capacity (rg_queue s) \<Longrightarrow>
    ring_step s Silent (s\<lparr>rg_producer := P_Claimed r w\<rparr>)"
| p_mark: "rg_producer s = P_Claimed r w \<Longrightarrow>
    ring_step s Silent (s\<lparr>rg_producer := P_Marked r w, rg_queue := mark_slot w r (rg_queue s)\<rparr>)"
| p_fill: "rg_producer s = P_Marked r w \<Longrightarrow>
    ring_step s Silent (s\<lparr>rg_producer := P_Filled r w, rg_queue := fill_slot w r (rg_queue s)\<rparr>)"
| p_publish: "rg_producer s = P_Filled r w \<Longrightarrow>
    ring_step s (Pushed r (bq_slots (rg_queue s) ! bq_slot (rg_queue s) w))
      (s\<lparr>rg_producer := P_Idle, rg_queue := (rg_queue s)\<lparr>bq_write := w + 1\<rparr>\<rparr>)"
| c_load: "rg_consumer s = C_Idle \<Longrightarrow>
    ring_step s Silent (s\<lparr>rg_consumer := C_Loaded pop (bq_read (rg_queue s))\<rparr>)"
| c_empty: "rg_consumer s = C_Loaded pop i \<Longrightarrow> i = bq_write (rg_queue s) \<Longrightarrow>
    ring_step s Found_Empty (s\<lparr>rg_consumer := C_Idle\<rparr>)"
| c_own: "rg_consumer s = C_Loaded pop i \<Longrightarrow> i \<noteq> bq_write (rg_queue s) \<Longrightarrow>
    ring_step s Silent (s\<lparr>rg_consumer := C_Owning pop i\<rparr>)"
| c_read: "rg_consumer s = C_Owning pop i \<Longrightarrow>
    ring_step s Silent
      (s\<lparr>rg_consumer := C_Read pop i (bq_slots (rg_queue s) ! bq_slot (rg_queue s) i)\<rparr>)"
| c_release: "rg_consumer s = C_Read True i b \<Longrightarrow>
    ring_step s (Popped b)
      (s\<lparr>rg_consumer := C_Idle, rg_queue := (rg_queue s)\<lparr>bq_read := i + 1\<rparr>\<rparr>)"
| c_keep: "rg_consumer s = C_Read False i b \<Longrightarrow>
    ring_step s (Peeked b) (s\<lparr>rg_consumer := C_Idle\<rparr>)"

inductive_cases ring_stepE: "ring_step s e t"

definition ring_start :: "'f block_queue \<Rightarrow> 'f ring" where
  "ring_start q = \<lparr>rg_queue = q, rg_producer = P_Idle, rg_consumer = C_Idle\<rparr>"

text \<open>The slot a side may be touching: from its claim on to its index store.\<close>

fun producer_slot :: "'f ring \<Rightarrow> nat option" where
  "producer_slot s =
     (case rg_producer s of
        P_Claimed r w \<Rightarrow> Some (bq_slot (rg_queue s) w)
      | P_Marked r w \<Rightarrow> Some (bq_slot (rg_queue s) w)
      | P_Filled r w \<Rightarrow> Some (bq_slot (rg_queue s) w)
      | _ \<Rightarrow> None)"

fun consumer_slot :: "'f ring \<Rightarrow> nat option" where
  "consumer_slot s =
     (case rg_consumer s of
        C_Owning pop i \<Rightarrow> Some (bq_slot (rg_queue s) i)
      | C_Read pop i b \<Rightarrow> Some (bq_slot (rg_queue s) i)
      | _ \<Rightarrow> None)"

subsection \<open>The bounded queue it stands for\<close>

definition block_carries :: "'f push_request \<Rightarrow> nat \<Rightarrow> 'f audio_block \<Rightarrow> bool" where
  "block_carries r n b =
     (ab_generation b = pr_generation r \<and> ab_wet_epoch b = pr_wet_epoch r \<and>
      ab_start_frame b = pr_start_frame r \<and> ab_frames b = pr_frames r \<and>
      ab_channels b = pr_channels r \<and> ab_channel_mask b = pr_channel_mask r \<and>
      (\<exists>xs. length xs = n \<and> ab_samples b = pr_fill r xs))"

fun fifo_step :: "nat \<Rightarrow> nat \<Rightarrow> 'f audio_block list \<Rightarrow> 'f ring_event \<Rightarrow> 'f audio_block list option" where
  "fifo_step cap n xs Silent = Some xs"
| "fifo_step cap n xs (Pushed r b) =
     (if length xs < cap \<and> unat (pr_frames r) * unat (pr_channels r) \<le> n \<and> block_carries r n b
      then Some (xs @ [b]) else None)"
| "fifo_step cap n xs (Refused r) =
     (if length xs = cap \<or> n < unat (pr_frames r) * unat (pr_channels r) then Some xs else None)"
| "fifo_step cap n (x # xs) (Popped b) = (if b = x then Some xs else None)"
| "fifo_step cap n (x # xs) (Peeked b) = (if b = x then Some (x # xs) else None)"
| "fifo_step cap n [] Found_Empty = Some []"
| "fifo_step cap n _ _ = None"

definition ring_contents :: "'f block_queue \<Rightarrow> 'f audio_block list" where
  "ring_contents q =
     map (\<lambda>i. bq_slots q ! ((unat (bq_read q) + i) mod bq_capacity q)) [0..<bq_used q]"

subsection \<open>Indices that wrap\<close>

lemma power_of_two_iff: "power_of_two bits n \<longleftrightarrow> (\<exists>k\<le>bits. n = 2 ^ k)"
proof (induction bits arbitrary: n)
  case 0
  show ?case by auto
next
  case (Suc bits)
  have "even n \<and> n div 2 = 2 ^ k \<longleftrightarrow> n = 2 ^ Suc k" for k by auto
  moreover have "(\<exists>k\<le>Suc bits. n = 2 ^ k) \<longleftrightarrow> n = 1 \<or> (\<exists>k\<le>bits. n = 2 ^ Suc k)"
    by (metis Suc_le_mono le0 not0_implies_Suc power_0)
  ultimately show ?case by (auto simp: Suc.IH)
qed

lemma capacity_divides:
  assumes "power_of_two 63 c"
  shows "0 < c" "c dvd 2 ^ 64" "c \<le> 2 ^ 63"
proof -
  obtain k where k: "k \<le> 63" "c = 2 ^ k" using assms by (auto simp: power_of_two_iff)
  show "0 < c" unfolding k(2) by simp
  show "c dvd 2 ^ 64" unfolding k(2) using k(1) by (intro le_imp_power_dvd) simp
  show "c \<le> 2 ^ 63" unfolding k(2) using k(1) by (intro power_increasing) simp_all
qed

lemma slot_add:
  fixes a b :: u64
  assumes "c dvd 2 ^ 64"
  shows "unat (a + b) mod c = (unat a + unat b) mod c"
  using assms by (simp add: unat_word_ariths mod_mod_cancel)

lemma slot_distinct:
  fixes r :: nat
  assumes "i < n" "n < c"
  shows "(r + i) mod c \<noteq> (r + n) mod c"
proof
  assume "(r + i) mod c = (r + n) mod c"
  then have "(r + n) - (r + i) = 0 \<or> c dvd (r + n) - (r + i)"
    using mod_eq_dvd_iff_nat [of "r + i" "r + n" c] assms by auto
  with assms show False using nat_dvd_not_less [of "n - i" c] by auto
qed

lemma used_after_push:
  assumes "unat (w - r) < c" "c \<le> 2 ^ 63"
  shows "unat (w + 1 - r :: u64) = Suc (unat (w - r))"
proof -
  have "unat (w - r) + 1 < 2 ^ 64" using assms by simp
  then have "unat ((w - r) + 1) = unat (w - r) + unat (1 :: u64)"
    by (subst unat_plus_simple [symmetric]) (simp add: no_olen_add_nat)
  moreover have "w + 1 - r = (w - r) + 1" by simp
  ultimately show ?thesis by (metis Suc_eq_plus1 unat_1)
qed

lemma used_after_pop:
  assumes "w \<noteq> r"
  shows "unat (w - r :: u64) = Suc (unat (w - (r + 1)))"
proof -
  have "w - r \<noteq> 0" using assms by simp
  then have "unat (w - r) = Suc (unat (w - r - 1))"
    by (metis Suc_diff_1 unat_gt_0 unat_minus_one)
  moreover have "w - (r + 1) = w - r - 1" by simp
  ultimately show ?thesis by metis
qed

subsection \<open>The invariant of the interleaving\<close>

definition bq_ok :: "'f block_queue \<Rightarrow> bool" where
  "bq_ok q \<longleftrightarrow> power_of_two 63 (bq_capacity q) \<and> length (bq_slots q) = bq_capacity q \<and>
     (\<forall>b \<in> set (bq_slots q). length (ab_samples b) = bq_max_samples q) \<and>
     bq_used q \<le> bq_capacity q"

definition claims :: "'f block_queue \<Rightarrow> 'f push_request \<Rightarrow> u64 \<Rightarrow> bool" where
  "claims q r w \<longleftrightarrow> w = bq_write q \<and> bq_used q < bq_capacity q \<and> request_fits q r \<and> fills_in_place r"

definition meta_carries :: "'f push_request \<Rightarrow> 'f audio_block \<Rightarrow> bool" where
  "meta_carries r b \<longleftrightarrow>
     ab_generation b = pr_generation r \<and> ab_wet_epoch b = pr_wet_epoch r \<and>
     ab_start_frame b = pr_start_frame r \<and> ab_frames b = pr_frames r \<and>
     ab_channels b = pr_channels r \<and> ab_channel_mask b = pr_channel_mask r"

fun producer_ok :: "'f block_queue \<Rightarrow> 'f producer \<Rightarrow> bool" where
  "producer_ok q P_Idle \<longleftrightarrow> True"
| "producer_ok q (P_Loaded r w) \<longleftrightarrow> w = bq_write q \<and> request_fits q r \<and> fills_in_place r"
| "producer_ok q (P_Claimed r w) \<longleftrightarrow> claims q r w"
| "producer_ok q (P_Marked r w) \<longleftrightarrow> claims q r w \<and> meta_carries r (bq_slots q ! bq_slot q w)"
| "producer_ok q (P_Filled r w) \<longleftrightarrow>
     claims q r w \<and> block_carries r (bq_max_samples q) (bq_slots q ! bq_slot q w)"

fun consumer_ok :: "'f block_queue \<Rightarrow> 'f consumer \<Rightarrow> bool" where
  "consumer_ok q C_Idle \<longleftrightarrow> True"
| "consumer_ok q (C_Loaded pop i) \<longleftrightarrow> i = bq_read q"
| "consumer_ok q (C_Owning pop i) \<longleftrightarrow> i = bq_read q \<and> i \<noteq> bq_write q"
| "consumer_ok q (C_Read pop i b) \<longleftrightarrow>
     i = bq_read q \<and> i \<noteq> bq_write q \<and> b = bq_slots q ! bq_slot q i"

definition ring_ok :: "'f ring \<Rightarrow> bool" where
  "ring_ok s \<longleftrightarrow> bq_ok (rg_queue s) \<and> producer_ok (rg_queue s) (rg_producer s) \<and>
     consumer_ok (rg_queue s) (rg_consumer s)"

lemma bq_ok_capacity:
  assumes "bq_ok q"
  shows "0 < bq_capacity q" "bq_capacity q dvd 2 ^ 64" "bq_capacity q \<le> 2 ^ 63"
  using capacity_divides assms by (auto simp only: bq_ok_def)

lemma write_slot:
  assumes "bq_ok q"
  shows "bq_slot q (bq_write q) = (unat (bq_read q) + bq_used q) mod bq_capacity q"
  using slot_add [OF bq_ok_capacity(2) [OF assms], of "bq_read q" "bq_write q - bq_read q"]
  by (simp add: bq_slot_def bq_used_def)

lemma write_slot_free:
  assumes "bq_ok q" "bq_used q < bq_capacity q" "i < bq_used q"
  shows "(unat (bq_read q) + i) mod bq_capacity q \<noteq> bq_slot q (bq_write q)"
  unfolding write_slot [OF assms(1)] by (rule slot_distinct [OF assms(3,2)])

lemma read_slot_not_written:
  assumes "bq_ok q" "bq_used q < bq_capacity q" "bq_read q \<noteq> bq_write q"
  shows "bq_slot q (bq_read q) \<noteq> bq_slot q (bq_write q)"
proof -
  have "0 < bq_used q" using assms(3) by (auto simp: bq_used_def unat_gt_0)
  from write_slot_free [OF assms(1,2) this] show ?thesis by (simp add: bq_slot_def)
qed

lemma bq_slot_bound: "bq_ok q \<Longrightarrow> bq_slot q i < length (bq_slots q)"
  using bq_ok_capacity(1) [of q] by (simp add: bq_slot_def bq_ok_def)

lemma contents_length [simp]: "length (ring_contents q) = bq_used q"
  by (simp add: ring_contents_def)

text \<open>Writing the free slot changes nothing that is queued.\<close>

lemma contents_write_free:
  assumes "bq_ok q" "bq_used q < bq_capacity q"
  shows "ring_contents (q\<lparr>bq_slots := (bq_slots q)[bq_slot q (bq_write q) := b]\<rparr>) = ring_contents q"
  using write_slot_free [OF assms, THEN not_sym]
  by (simp add: ring_contents_def bq_used_def)

lemma contents_publish:
  assumes "bq_ok q" "bq_used q < bq_capacity q"
  shows "bq_used (q\<lparr>bq_write := bq_write q + 1\<rparr>) = Suc (bq_used q)"
    and "ring_contents (q\<lparr>bq_write := bq_write q + 1\<rparr>) =
           ring_contents q @ [bq_slots q ! bq_slot q (bq_write q)]"
proof -
  show u: "bq_used (q\<lparr>bq_write := bq_write q + 1\<rparr>) = Suc (bq_used q)"
    using used_after_push [OF assms(2) [unfolded bq_used_def] bq_ok_capacity(3) [OF assms(1)]]
    by (simp add: bq_used_def)
  show "ring_contents (q\<lparr>bq_write := bq_write q + 1\<rparr>) =
      ring_contents q @ [bq_slots q ! bq_slot q (bq_write q)]"
    using u by (simp add: ring_contents_def write_slot [OF assms(1)])
qed

lemma contents_release:
  assumes "bq_ok q" "bq_read q \<noteq> bq_write q"
  shows "bq_used q = Suc (bq_used (q\<lparr>bq_read := bq_read q + 1\<rparr>))"
    and "ring_contents q =
           bq_slots q ! bq_slot q (bq_read q) # ring_contents (q\<lparr>bq_read := bq_read q + 1\<rparr>)"
proof -
  let ?q = "q\<lparr>bq_read := bq_read q + 1\<rparr>"
  show u: "bq_used q = Suc (bq_used ?q)"
    using used_after_pop [of "bq_write q" "bq_read q"] assms(2) by (auto simp: bq_used_def)
  have "(unat (bq_read q + 1) + i) mod bq_capacity q = (unat (bq_read q) + Suc i) mod bq_capacity q" for i
    using slot_add [OF bq_ok_capacity(2) [OF assms(1)], of "bq_read q" 1]
    by (metis (no_types, lifting) add.assoc mod_add_left_eq plus_1_eq_Suc unat_1)
  then show "ring_contents q = bq_slots q ! bq_slot q (bq_read q) # ring_contents ?q"
    unfolding ring_contents_def u by (simp add: bq_slot_def upt_conv_Cons map_Suc_upt [symmetric] del: upt_Suc)
qed

subsection \<open>Every interleaving is a bounded queue\<close>

lemma slot_simps [simp]:
  "bq_slot (q\<lparr>bq_slots := xs\<rparr>) = bq_slot q" "bq_slot (q\<lparr>bq_write := w\<rparr>) = bq_slot q"
  "bq_slot (q\<lparr>bq_read := w\<rparr>) = bq_slot q"
  "bq_used (q\<lparr>bq_slots := xs\<rparr>) = bq_used q"
  "request_fits (q\<lparr>bq_slots := xs\<rparr>) = request_fits q"
  "request_fits (q\<lparr>bq_write := w\<rparr>) = request_fits q"
  "request_fits (q\<lparr>bq_read := w\<rparr>) = request_fits q"
  by (auto simp: fun_eq_iff bq_slot_def bq_used_def request_fits_def)

text \<open>A write into a slot, seen through the invariant.\<close>

definition put_slot :: "u64 \<Rightarrow> 'f audio_block \<Rightarrow> 'f block_queue \<Rightarrow> 'f block_queue" where
  "put_slot w b q = q\<lparr>bq_slots := (bq_slots q)[bq_slot q w := b]\<rparr>"

lemma put_slot_ok:
  assumes "bq_ok q" "length (ab_samples b) = bq_max_samples q"
  shows "bq_ok (put_slot w b q)"
  using assms set_update_subset_insert [of "bq_slots q" "bq_slot q w" b]
  by (auto simp: bq_ok_def put_slot_def)

lemma put_slot_simps [simp]:
  "bq_write (put_slot w b q) = bq_write q" "bq_read (put_slot w b q) = bq_read q"
  "bq_capacity (put_slot w b q) = bq_capacity q"
  "bq_max_samples (put_slot w b q) = bq_max_samples q"
  "bq_slot (put_slot w b q) = bq_slot q" "bq_used (put_slot w b q) = bq_used q"
  "request_fits (put_slot w b q) = request_fits q" "claims (put_slot w b q) = claims q"
  by (simp_all add: put_slot_def claims_def fun_eq_iff)

lemma put_slot_same: "bq_ok q \<Longrightarrow> bq_slots (put_slot w b q) ! bq_slot q w = b"
  using bq_slot_bound [of q w] by (simp add: put_slot_def)

lemma put_slot_consumer:
  assumes "bq_ok q" "claims q r w"
  shows "consumer_ok (put_slot w b q) c = consumer_ok q c"
  using assms read_slot_not_written [OF assms(1)]
  by (cases c) (auto simp: put_slot_def claims_def)

lemma put_slot_contents:
  assumes "bq_ok q" "claims q r w"
  shows "ring_contents (put_slot w b q) = ring_contents q"
  using assms contents_write_free [OF assms(1)] by (simp add: put_slot_def claims_def)

lemma slot_samples:
  assumes "bq_ok q"
  shows "length (ab_samples (bq_slots q ! bq_slot q w)) = bq_max_samples q"
  using assms bq_slot_bound [OF assms, of w] by (simp add: bq_ok_def)

lemma mark_slot_put:
  "mark_slot w r q = put_slot w ((bq_slots q ! bq_slot q w)
     \<lparr>ab_generation := pr_generation r, ab_wet_epoch := pr_wet_epoch r,
      ab_start_frame := pr_start_frame r, ab_frames := pr_frames r,
      ab_channels := pr_channels r, ab_channel_mask := pr_channel_mask r\<rparr>) q"
  by (simp add: mark_slot_def put_slot_def)

lemma fill_slot_put:
  "fill_slot w r q = put_slot w ((bq_slots q ! bq_slot q w)
     \<lparr>ab_samples := pr_fill r (ab_samples (bq_slots q ! bq_slot q w))\<rparr>) q"
  by (simp add: fill_slot_def put_slot_def)

lemma publish_consumer:
  assumes "bq_ok q" "bq_used q < bq_capacity q" "consumer_ok q c"
  shows "consumer_ok (q\<lparr>bq_write := bq_write q + 1\<rparr>) c"
proof -
  have "bq_read q \<noteq> bq_write q + 1"
    using contents_publish(1) [OF assms(1,2)] by (auto simp: bq_used_def)
  with assms(3) show ?thesis by (cases c) auto
qed

lemma release_producer:
  assumes "bq_ok q" "bq_read q \<noteq> bq_write q" "producer_ok q p"
  shows "producer_ok (q\<lparr>bq_read := bq_read q + 1\<rparr>) p"
  using assms(3) contents_release(1) [OF assms(1,2)]
  by (cases p) (auto simp: claims_def)

lemma ring_step_sizes:
  "ring_step s e t \<Longrightarrow> bq_capacity (rg_queue t) = bq_capacity (rg_queue s)
    \<and> bq_max_samples (rg_queue t) = bq_max_samples (rg_queue s)"
  by (erule ring_step.cases) (simp_all add: mark_slot_def fill_slot_def)

abbreviation fifo_of :: "'f ring \<Rightarrow> 'f ring_event \<Rightarrow> 'f audio_block list option" where
  "fifo_of s \<equiv> fifo_step (bq_capacity (rg_queue s)) (bq_max_samples (rg_queue s))
     (ring_contents (rg_queue s))"

lemma producer_step_simulates:
  assumes ok: "ring_ok s" and p: "rg_producer s = p"
  shows "p = P_Claimed r w \<Longrightarrow>
      ring_ok (s\<lparr>rg_producer := P_Marked r w, rg_queue := mark_slot w r (rg_queue s)\<rparr>)
      \<and> ring_contents (mark_slot w r (rg_queue s)) = ring_contents (rg_queue s)" (is "_ \<Longrightarrow> ?mark")
    and "p = P_Marked r w \<Longrightarrow>
      ring_ok (s\<lparr>rg_producer := P_Filled r w, rg_queue := fill_slot w r (rg_queue s)\<rparr>)
      \<and> ring_contents (fill_slot w r (rg_queue s)) = ring_contents (rg_queue s)" (is "_ \<Longrightarrow> ?fill")
    and "p = P_Filled r w \<Longrightarrow>
      ring_ok (s\<lparr>rg_producer := P_Idle, rg_queue := (rg_queue s)\<lparr>bq_write := w + 1\<rparr>\<rparr>)
      \<and> fifo_of s (Pushed r (bq_slots (rg_queue s) ! bq_slot (rg_queue s) w))
          = Some (ring_contents ((rg_queue s)\<lparr>bq_write := w + 1\<rparr>))" (is "_ \<Longrightarrow> ?publish")
proof -
  let ?q = "rg_queue s"
  have q: "bq_ok ?q" and c: "consumer_ok ?q (rg_consumer s)" and po: "producer_ok ?q p"
    using ok p by (simp_all add: ring_ok_def)
  { assume "p = P_Claimed r w"
    with po have w: "claims ?q r w" by simp
    show ?mark
      using w c put_slot_ok [OF q] slot_samples [OF q, of w] put_slot_same [OF q]
      by (simp add: ring_ok_def mark_slot_put put_slot_consumer [OF q w] put_slot_contents [OF q w]
          meta_carries_def) }
  { assume "p = P_Marked r w"
    with po have w: "claims ?q r w" "meta_carries r (bq_slots ?q ! bq_slot ?q w)" by auto
    then have f: "\<forall>xs. length (pr_fill r xs) = length xs" by (simp add: claims_def fills_in_place_def)
    show ?fill
      using w c f put_slot_ok [OF q] slot_samples [OF q, of w] put_slot_same [OF q]
      by (auto simp: ring_ok_def fill_slot_put put_slot_consumer [OF q w(1)]
          put_slot_contents [OF q w(1)] meta_carries_def block_carries_def) }
  { assume "p = P_Filled r w"
    with po have w: "claims ?q r w"
      "block_carries r (bq_max_samples ?q) (bq_slots ?q ! bq_slot ?q w)" by auto
    then show ?publish
      using q c publish_consumer [OF q] contents_publish [OF q]
      by (auto simp: ring_ok_def bq_ok_def request_fits_def claims_def) }
qed

lemma consumer_step_simulates:
  assumes ok: "ring_ok s" and c: "rg_consumer s = C_Read pop i b"
  shows "ring_ok (s\<lparr>rg_consumer := C_Idle, rg_queue := (rg_queue s)\<lparr>bq_read := i + 1\<rparr>\<rparr>)"
    and "fifo_of s (Popped b) = Some (ring_contents ((rg_queue s)\<lparr>bq_read := i + 1\<rparr>))"
    and "fifo_of s (Peeked b) = Some (ring_contents (rg_queue s))"
proof -
  let ?q = "rg_queue s"
  have q: "bq_ok ?q" and i: "i = bq_read ?q" "bq_read ?q \<noteq> bq_write ?q"
    and b: "b = bq_slots ?q ! bq_slot ?q i" and po: "producer_ok ?q (rg_producer s)"
    using ok c by (auto simp: ring_ok_def)
  from contents_release [OF q i(2)] release_producer [OF q i(2) po] q
  show "ring_ok (s\<lparr>rg_consumer := C_Idle, rg_queue := ?q\<lparr>bq_read := i + 1\<rparr>\<rparr>)"
    by (simp add: ring_ok_def bq_ok_def i)
  from contents_release [OF q i(2)]
  show "fifo_of s (Popped b) = Some (ring_contents (?q\<lparr>bq_read := i + 1\<rparr>))"
    and "fifo_of s (Peeked b) = Some (ring_contents ?q)"
    by (simp_all add: b i)
qed

lemma ring_step_simulates:
  assumes "ring_ok s" "ring_step s e t"
  shows "ring_ok t \<and> fifo_of s e = Some (ring_contents (rg_queue t))"
  using assms(2)
proof cases
  case (p_full r w)
  with assms(1) show ?thesis by (auto simp: ring_ok_def bq_ok_def bq_used_def)
next
  case (p_publish r w)
  with producer_step_simulates(3) [OF assms(1) refl] show ?thesis by simp
next
  case (c_release i b)
  with consumer_step_simulates(1,2) [OF assms(1)] show ?thesis by simp
next
  case (c_keep i b)
  with assms(1) consumer_step_simulates(3) [OF assms(1) c_keep(3)] show ?thesis
    by (simp add: ring_ok_def)
next
  case (p_mark r w)
  with producer_step_simulates(1) [OF assms(1) refl] show ?thesis by simp
next
  case (p_fill r w)
  with producer_step_simulates(2) [OF assms(1) refl] show ?thesis by simp
next
  case (c_empty pop i)
  with assms(1) show ?thesis
    by (auto simp: ring_ok_def ring_contents_def bq_used_def)
qed (use assms(1) in \<open>auto simp: ring_ok_def request_fits_def bq_used_def claims_def\<close>)

text \<open>The initial ring is empty, so its runs are runs of the empty bounded queue.\<close>

lemma new_queue_ok:
  assumes "block_queue_new silence cap n = Some q"
  shows "ring_ok (ring_start q)" "ring_contents q = []" "bq_capacity q = cap" "bq_max_samples q = n"
  using assms by (auto simp: block_queue_new_def ring_ok_def ring_start_def bq_ok_def bq_used_def
      ring_contents_def audio_block_new_def split: if_splits)

definition ring_sized :: "nat \<Rightarrow> nat \<Rightarrow> 'f ring \<Rightarrow> bool" where
  "ring_sized cap n s \<longleftrightarrow>
     ring_ok s \<and> bq_capacity (rg_queue s) = cap \<and> bq_max_samples (rg_queue s) = n"

interpretation ring: forward_simulation ring_step "fifo_step cap n" "ring_sized cap n"
  "\<lambda>s. ring_contents (rg_queue s)"
  for cap n
  by unfold_locales
    (auto simp: ring_sized_def dest: ring_step_simulates ring_step_sizes)

subsection \<open>An operation on its own\<close>

text \<open>The operations of the code are the steps of one side with the other at rest.\<close>

lemma at_rest [simp]:
  "rg_producer s = P_Idle \<Longrightarrow> s\<lparr>rg_producer := P_Idle, rg_queue := q\<rparr> = s\<lparr>rg_queue := q\<rparr>"
  "rg_consumer s = C_Idle \<Longrightarrow> s\<lparr>rg_queue := q, rg_consumer := C_Idle\<rparr> = s\<lparr>rg_queue := q\<rparr>"
  "rg_consumer s = C_Idle \<Longrightarrow> s\<lparr>rg_consumer := C_Idle, rg_queue := q\<rparr> = s\<lparr>rg_queue := q\<rparr>"
  "rg_producer s = P_Idle \<Longrightarrow> s\<lparr>rg_queue := q, rg_producer := P_Idle\<rparr> = s\<lparr>rg_queue := q\<rparr>"
  by (cases s; simp)+

lemma push_alone:
  assumes idle: "rg_producer s = P_Idle" and f: "fills_in_place r"
    and push: "try_push_with r (rg_queue s) = (True, q)"
  shows "labelled_run ring_step s
      [Silent, Silent, Silent, Silent, Pushed r (bq_slots q ! bq_slot q (bq_write (rg_queue s)))]
      (s\<lparr>rg_queue := q\<rparr>)"
proof -
  let ?w = "bq_write (rg_queue s)"
  have fits: "request_fits (rg_queue s) r"
    and room: "\<not> unat (?w - bq_read (rg_queue s)) \<ge> bq_capacity (rg_queue s)"
    and q: "q = (fill_slot ?w r (mark_slot ?w r (rg_queue s)))\<lparr>bq_write := ?w + 1\<rparr>"
    using push by (auto simp: try_push_with_def Let_def split: if_splits)
  let ?m = "mark_slot ?w r (rg_queue s)"
  have "ring_step s Silent (s\<lparr>rg_producer := P_Loaded r ?w\<rparr>)"
    using p_load [OF idle fits f] .
  moreover have "ring_step (s\<lparr>rg_producer := P_Loaded r ?w\<rparr>) Silent (s\<lparr>rg_producer := P_Claimed r ?w\<rparr>)"
    using p_claim [of "s\<lparr>rg_producer := P_Loaded r ?w\<rparr>" r ?w] room by simp
  moreover have "ring_step (s\<lparr>rg_producer := P_Claimed r ?w\<rparr>) Silent
      (s\<lparr>rg_producer := P_Marked r ?w, rg_queue := ?m\<rparr>)"
    using p_mark [of "s\<lparr>rg_producer := P_Claimed r ?w\<rparr>" r ?w] by simp
  moreover have "ring_step (s\<lparr>rg_producer := P_Marked r ?w, rg_queue := ?m\<rparr>) Silent
      (s\<lparr>rg_producer := P_Filled r ?w, rg_queue := fill_slot ?w r ?m\<rparr>)"
    using p_fill [of "s\<lparr>rg_producer := P_Marked r ?w, rg_queue := ?m\<rparr>" r ?w] by simp
  moreover have "ring_step (s\<lparr>rg_producer := P_Filled r ?w, rg_queue := fill_slot ?w r ?m\<rparr>)
      (Pushed r (bq_slots q ! bq_slot q ?w)) (s\<lparr>rg_queue := q\<rparr>)"
    using p_publish [of "s\<lparr>rg_producer := P_Filled r ?w, rg_queue := fill_slot ?w r ?m\<rparr>" r ?w] idle
    by (simp add: q)
  ultimately show ?thesis by (blast intro: run_step labelled_run.run_nil)
qed

lemma pop_alone:
  assumes idle: "rg_consumer s = C_Idle" and pop: "pop_with id (rg_queue s) = (Some b, q)"
  shows "labelled_run ring_step s [Silent, Silent, Silent, Popped b] (s\<lparr>rg_queue := q\<rparr>)"
proof -
  let ?i = "bq_read (rg_queue s)"
  have some: "?i \<noteq> bq_write (rg_queue s)"
    and b: "b = bq_slots (rg_queue s) ! bq_slot (rg_queue s) ?i"
    and q: "q = (rg_queue s)\<lparr>bq_read := ?i + 1\<rparr>"
    using pop by (auto simp: pop_with_def Let_def split: if_splits)
  have "ring_step s Silent (s\<lparr>rg_consumer := C_Loaded True ?i\<rparr>)" using c_load [OF idle] .
  moreover have "ring_step (s\<lparr>rg_consumer := C_Loaded True ?i\<rparr>) Silent (s\<lparr>rg_consumer := C_Owning True ?i\<rparr>)"
    using c_own [of "s\<lparr>rg_consumer := C_Loaded True ?i\<rparr>" True ?i] some by simp
  moreover have "ring_step (s\<lparr>rg_consumer := C_Owning True ?i\<rparr>) Silent (s\<lparr>rg_consumer := C_Read True ?i b\<rparr>)"
    using c_read [of "s\<lparr>rg_consumer := C_Owning True ?i\<rparr>" True ?i] b by simp
  moreover have "ring_step (s\<lparr>rg_consumer := C_Read True ?i b\<rparr>) (Popped b) (s\<lparr>rg_queue := q\<rparr>)"
    using c_release [of "s\<lparr>rg_consumer := C_Read True ?i b\<rparr>" ?i b] idle q by simp
  ultimately show ?thesis by (blast intro: run_step labelled_run.run_nil)
qed

subsection \<open>Properties\<close>

text \<open>
  C8: however the producer and the consumer of the block ring interleave, the ring behaves
  as a bounded first-in first-out queue of the given capacity: each push, refusal, pop, peek
  and empty answer is one the queue allows at that moment, a delivered block carries the
  fields and samples of its own request, and nothing is lost, repeated, torn or reordered,
  although the indices wrap.
\<close>

theorem ring_is_bounded_fifo:
  assumes "block_queue_new silence cap n = Some q"
    and "labelled_run ring_step (ring_start q) es s"
  shows "abstract_run (fifo_step cap n) [] es = Some (ring_contents (rg_queue s))"
proof -
  have "ring_sized cap n (ring_start q)" "ring_contents (rg_queue (ring_start q)) = []"
    using new_queue_ok [OF assms(1)] by (simp_all add: ring_sized_def ring_start_def)
  with ring.run_answered [OF assms(2), of cap n] show ?thesis by simp
qed

definition sample_request :: "nat push_request" where
  "sample_request =
     \<lparr>pr_generation = 1, pr_wet_epoch = 2, pr_start_frame = 480, pr_frames = 2, pr_channels = 1,
      pr_channel_mask = 1, pr_fill = map (\<lambda>_. 7)\<rparr>"

definition sample_ring :: "nat block_queue" where
  "sample_ring = the (block_queue_new 0 2 3)"

lemma sample_ring_new: "block_queue_new 0 2 3 = Some sample_ring"
  by code_simp

definition pushed_ring :: "nat block_queue" where
  "pushed_ring = snd (try_push_with sample_request sample_ring)"

definition sample_block :: "nat audio_block" where
  "sample_block = bq_slots pushed_ring ! bq_slot pushed_ring (bq_write sample_ring)"

lemma sample_push:
  "labelled_run ring_step (ring_start sample_ring)
     [Silent, Silent, Silent, Silent, Pushed sample_request sample_block] (ring_start pushed_ring)"
proof -
  have "fst (try_push_with sample_request sample_ring)" by code_simp
  then have push: "try_push_with sample_request (rg_queue (ring_start sample_ring)) = (True, pushed_ring)"
    by (simp add: ring_start_def prod_eq_iff pushed_ring_def)
  have "fills_in_place sample_request" by (simp add: fills_in_place_def sample_request_def)
  from push_alone [OF _ this push] show ?thesis by (simp add: ring_start_def sample_block_def)
qed

lemma sample_pop:
  "\<exists>s. labelled_run ring_step (ring_start pushed_ring) [Silent, Silent, Silent, Popped sample_block] s"
proof -
  have "fst (pop_with id pushed_ring) = Some sample_block" by code_simp
  then have "pop_with id (rg_queue (ring_start pushed_ring)) = (Some sample_block, snd (pop_with id pushed_ring))"
    by (simp add: ring_start_def prod_eq_iff)
  from pop_alone [OF _ this] show ?thesis by (auto simp: ring_start_def)
qed

theorem ring_is_bounded_fifo_witness:
  "\<exists>s :: nat ring. abstract_run (fifo_step 2 3) []
      [Silent, Silent, Silent, Silent, Pushed sample_request sample_block,
       Silent, Silent, Silent, Popped sample_block] = Some (ring_contents (rg_queue s))
    \<and> ab_samples sample_block = [7, 7, 7]"
proof -
  obtain s where "labelled_run ring_step (ring_start pushed_ring)
      [Silent, Silent, Silent, Popped sample_block] s" using sample_pop by blast
  from ring_is_bounded_fifo [OF sample_ring_new run_trans [OF this sample_push]]
  have "abstract_run (fifo_step 2 3) []
      [Silent, Silent, Silent, Silent, Pushed sample_request sample_block,
       Silent, Silent, Silent, Popped sample_block] = Some (ring_contents (rg_queue s))" by simp
  moreover have "ab_samples sample_block = [7, 7, 7]" by code_simp
  ultimately show ?thesis by blast
qed

text \<open>
  C22: at no moment of any interleaving do the producer and the consumer of the block ring
  touch the same slot, so the accesses the code makes through \<^verbatim>\<open>UnsafeCell\<close> never race.
\<close>

theorem sides_never_share_a_slot:
  assumes "block_queue_new silence cap n = Some q"
    and "labelled_run ring_step (ring_start q) es s"
    and "producer_slot s = Some i" and "consumer_slot s = Some j"
  shows "i \<noteq> j"
proof -
  have "ring_sized cap n (ring_start q)"
    using new_queue_ok [OF assms(1)] by (simp add: ring_sized_def ring_start_def)
  with ring.run_keeps [OF assms(2), of cap n]
  have ok: "ring_ok s" by (simp add: ring_sized_def)
  with assms(3,4) read_slot_not_written [of "rg_queue s"] show ?thesis
    by (auto simp: ring_ok_def claims_def split: producer.splits consumer.splits)
qed

text \<open>One block is queued; the producer has claimed the next slot, the consumer owns the first.\<close>

definition busy_ring :: "nat ring" where
  "busy_ring = \<lparr>rg_queue = pushed_ring, rg_producer = P_Claimed sample_request 1,
     rg_consumer = C_Owning False 0\<rparr>"

lemma busy_run:
  "labelled_run ring_step (ring_start sample_ring)
     [Silent, Silent, Silent, Silent, Pushed sample_request sample_block,
      Silent, Silent, Silent, Silent] busy_ring"
proof -
  let ?s = "ring_start pushed_ring"
  let ?w = "bq_write pushed_ring" and ?i = "bq_read pushed_ring"
  have room: "\<not> unat (?w - ?i) \<ge> bq_capacity pushed_ring" "?i \<noteq> ?w" and at: "?w = 1" "?i = 0"
    by code_simp+
  have fits: "request_fits (rg_queue ?s) sample_request" by code_simp
  have fills: "fills_in_place sample_request" by (simp add: fills_in_place_def sample_request_def)
  have "ring_step ?s Silent (?s\<lparr>rg_producer := P_Loaded sample_request ?w\<rparr>)"
    using p_load [OF _ fits fills] by (simp add: ring_start_def)
  moreover have "ring_step (?s\<lparr>rg_producer := P_Loaded sample_request ?w\<rparr>) Silent
      (?s\<lparr>rg_producer := P_Claimed sample_request ?w\<rparr>)"
    using p_claim [of "?s\<lparr>rg_producer := P_Loaded sample_request ?w\<rparr>"] room
    by (simp add: ring_start_def)
  moreover have "ring_step (?s\<lparr>rg_producer := P_Claimed sample_request ?w\<rparr>) Silent
      (?s\<lparr>rg_producer := P_Claimed sample_request ?w, rg_consumer := C_Loaded False ?i\<rparr>)"
    using c_load [of "?s\<lparr>rg_producer := P_Claimed sample_request ?w\<rparr>" False]
    by (simp add: ring_start_def)
  moreover have "ring_step (?s\<lparr>rg_producer := P_Claimed sample_request ?w, rg_consumer := C_Loaded False ?i\<rparr>)
      Silent busy_ring"
    using c_own [of "?s\<lparr>rg_producer := P_Claimed sample_request ?w, rg_consumer := C_Loaded False ?i\<rparr>" False ?i] room(2)
    by (simp add: ring_start_def busy_ring_def at)
  ultimately have "labelled_run ring_step ?s [Silent, Silent, Silent, Silent] busy_ring"
    by (blast intro: run_step labelled_run.run_nil)
  from run_trans [OF this sample_push] show ?thesis by simp
qed

theorem sides_never_share_a_slot_witness:
  "producer_slot busy_ring = Some 1 \<and> consumer_slot busy_ring = Some 0 \<and> (1::nat) \<noteq> 0"
proof -
  have "producer_slot busy_ring = Some 1" "consumer_slot busy_ring = Some 0" by code_simp+
  with sides_never_share_a_slot [OF sample_ring_new busy_run this] show ?thesis by blast
qed

end
