(* ===== verification/Wet_Timeline.thy ===== *)
theory Wet_Timeline
  imports Block_Queue
begin

text \<open>
  Matching the denoised blocks of the ring with the interval a callback asks for
  (\<^verbatim>\<open>read_timeline\<close> of \<^verbatim>\<open>pw-graph-effects/src/hush_queue.rs\<close>), with the counters of
  dropped blocks. \<open>None\<close> is a panic: a slice copy out of bounds.
\<close>

subsection \<open>Counters and saturating frames\<close>

definition saturating_add :: "u64 \<Rightarrow> u64 \<Rightarrow> u64" where
  "saturating_add a b = (if a \<le> a + b then a + b else - 1)"

definition saturating_sub :: "u64 \<Rightarrow> u64 \<Rightarrow> u64" where
  "saturating_sub a b = (if b \<le> a then a - b else 0)"

record hush_drops =
  hd_stale_output_blocks_dropped :: u64
  hd_wet_frames_dropped :: u64
  hd_wet_drop_wrong_generation :: u64
  hd_stale_wet_frames_dropped :: u64
  hd_wet_drop_wrong_sequence :: u64
  hd_wet_frames_dropped_epoch :: u64
  hd_wet_drop_wrong_frame_count :: u64
  hd_wet_drop_wrong_channel_count :: u64
  hd_wet_drop_too_old :: u64
  hd_wet_drop_other :: u64

definition no_drops :: hush_drops where
  "no_drops = \<lparr>hd_stale_output_blocks_dropped = 0, hd_wet_frames_dropped = 0,
     hd_wet_drop_wrong_generation = 0, hd_stale_wet_frames_dropped = 0,
     hd_wet_drop_wrong_sequence = 0, hd_wet_frames_dropped_epoch = 0,
     hd_wet_drop_wrong_frame_count = 0, hd_wet_drop_wrong_channel_count = 0,
     hd_wet_drop_too_old = 0, hd_wet_drop_other = 0\<rparr>"

definition block_end :: "'f audio_block \<Rightarrow> u64" where
  "block_end b = saturating_add (ab_start_frame b) (ucast (ab_frames b))"

definition block_fits :: "'f audio_block \<Rightarrow> bool" where
  "block_fits b = (unat (ab_frames b) * unat (ab_channels b) \<le> length (ab_samples b))"

definition drop_reason :: "u64 \<Rightarrow> u64 \<Rightarrow> u64 \<Rightarrow> 16 word \<Rightarrow> 'f audio_block \<Rightarrow> nat option" where
  "drop_reason generation wet_epoch start channels b =
     (if ab_generation b \<noteq> generation then Some 0
      else if ab_wet_epoch b \<noteq> wet_epoch then Some 1
      else if ab_frames b = 0 \<or> \<not> block_fits b then Some 2
      else if ab_channels b \<noteq> channels then Some 3
      else if block_end b \<le> start then Some 4
      else None)"

definition count_drop :: "nat \<Rightarrow> u64 \<Rightarrow> hush_drops \<Rightarrow> hush_drops" where
  "count_drop reason frames d =
     (let d = d\<lparr>hd_stale_output_blocks_dropped := hd_stale_output_blocks_dropped d + 1,
                hd_wet_frames_dropped := hd_wet_frames_dropped d + frames\<rparr>
      in if reason = 0 then
           d\<lparr>hd_wet_drop_wrong_generation := hd_wet_drop_wrong_generation d + 1,
             hd_stale_wet_frames_dropped := hd_stale_wet_frames_dropped d + frames\<rparr>
         else if reason = 1 then
           d\<lparr>hd_wet_drop_wrong_sequence := hd_wet_drop_wrong_sequence d + 1,
             hd_wet_frames_dropped_epoch := hd_wet_frames_dropped_epoch d + frames\<rparr>
         else if reason = 2 then
           d\<lparr>hd_wet_drop_wrong_frame_count := hd_wet_drop_wrong_frame_count d + 1\<rparr>
         else if reason = 3 then
           d\<lparr>hd_wet_drop_wrong_channel_count := hd_wet_drop_wrong_channel_count d + 1\<rparr>
         else if reason = 4 then
           d\<lparr>hd_wet_drop_too_old := hd_wet_drop_too_old d + 1,
             hd_stale_wet_frames_dropped := hd_stale_wet_frames_dropped d + frames\<rparr>
         else d\<lparr>hd_wet_drop_other := hd_wet_drop_other d + 1\<rparr>)"

subsection \<open>Copying the overlap\<close>

definition copy_from_slice :: "nat \<Rightarrow> nat \<Rightarrow> nat \<Rightarrow> 'f list \<Rightarrow> 'f list \<Rightarrow> 'f list option" where
  "copy_from_slice dst src len source destination =
     (if dst + len \<le> length destination \<and> src + len \<le> length source
      then Some (take dst destination @ take len (drop src source) @ drop (dst + len) destination)
      else None)"

text \<open>The overlap of a block with the interval: the samples written and the frames counted.\<close>

definition copy_overlap ::
  "u64 \<Rightarrow> u64 \<Rightarrow> 16 word \<Rightarrow> 'f audio_block \<Rightarrow> 'f list \<Rightarrow> ('f list \<times> nat) option" where
  "copy_overlap start end_frame channels b destination =
     (let first = ab_start_frame b; last = block_end b;
          from = max first start; to = min last end_frame; c = unat channels
      in map_option (\<lambda>d. (d, unat (to - from)))
           (copy_from_slice (unat (from - start) * c) (unat (from - first) * c)
              (unat (to - from) * c) (ab_samples b) destination))"

fun timeline_loop ::
  "nat \<Rightarrow> u64 \<Rightarrow> u64 \<Rightarrow> u64 \<Rightarrow> u64 \<Rightarrow> 16 word \<Rightarrow> 'f block_queue \<Rightarrow> hush_drops option \<Rightarrow>
    'f list \<Rightarrow> nat \<Rightarrow> (nat \<times> 'f list \<times> 'f block_queue \<times> hush_drops option) option" where
  "timeline_loop 0 generation epoch start end_frame channels q diag dest copied =
     Some (copied, dest, q, diag)"
| "timeline_loop (Suc k) generation epoch start end_frame channels q diag dest copied =
     (case peek_with id q of
        None \<Rightarrow> Some (copied, dest, q, diag)
      | Some b \<Rightarrow>
        (case drop_reason generation epoch start channels b of
           Some reason \<Rightarrow>
             timeline_loop k generation epoch start end_frame channels (snd (pop_with (\<lambda>_. ()) q))
               (map_option (count_drop reason (saturating_sub (block_end b) (ab_start_frame b))) diag)
               dest copied
         | None \<Rightarrow>
             if ab_start_frame b \<ge> end_frame then Some (copied, dest, q, diag)
             else
               (case copy_overlap start end_frame channels b dest of
                  None \<Rightarrow> None
                | Some (dest, n) \<Rightarrow>
                    if block_end b \<le> end_frame then
                      timeline_loop k generation epoch start end_frame channels
                        (snd (pop_with (\<lambda>_. ()) q)) diag dest (copied + n)
                    else Some (copied + n, dest, q, diag))))"

definition read_timeline ::
  "'f block_queue \<Rightarrow> u64 \<Rightarrow> u64 \<Rightarrow> u64 \<Rightarrow> u32 \<Rightarrow> 16 word \<Rightarrow> hush_drops option \<Rightarrow> 'f list \<Rightarrow>
    (nat \<times> 'f list \<times> 'f block_queue \<times> hush_drops option) option" where
  "read_timeline q generation epoch start frames channels diag dest =
     (if channels = 0 \<or> length dest < unat frames * unat channels then
        Some (0, dest, q, map_option (\<lambda>d. d\<lparr>hd_wet_drop_other := hd_wet_drop_other d + 1\<rparr>) diag)
      else
        timeline_loop hush_queue_capacity generation epoch start (saturating_add start (ucast frames))
          channels q diag dest 0)"

subsection \<open>Frames as numbers\<close>

lemma unat_saturating_add: "unat (saturating_add a b) = min (unat a + unat b) (2 ^ 64 - 1)"
proof (cases "a \<le> a + b")
  case True
  then have "unat (a + b) = unat a + unat b" by (simp add: unat_plus_simple)
  moreover have "unat (a + b) < 2 ^ 64" using unsigned_less [of "a + b"] by simp
  ultimately show ?thesis using True by (simp add: saturating_add_def)
next
  case False
  then have "2 ^ 64 \<le> unat a + unat b" by (simp add: no_olen_add_nat)
  moreover have "unat (- 1 :: u64) = 2 ^ 64 - 1" by (simp add: unsigned_minus_1_eq_mask mask_eq_exp_minus_1)
  ultimately show ?thesis using False by (simp add: saturating_add_def)
qed

lemma unat_bound: "unat (w :: u64) < 18446744073709551616"
  using unsigned_less [of w] by simp

lemma unat_ucast_u32 [simp]: "unat (ucast (w :: u32) :: u64) = unat w"
proof -
  have "unat w < 2 ^ 32" using unsigned_less [of w] by simp
  then have "unat w < 2 ^ 64" by simp
  then show ?thesis by (simp add: unsigned_ucast_eq take_bit_nat_eq_self)
qed

lemma unat_block_end:
  "unat (block_end b) = min (unat (ab_start_frame b) + unat (ab_frames b)) (2 ^ 64 - 1)"
  by (simp add: block_end_def unat_saturating_add)

lemma block_end_ge: "ab_start_frame b \<le> block_end b"
  using unat_bound [of "ab_start_frame b"] by (simp add: word_le_nat_alt unat_block_end)

lemma unat_max_word: "unat (max a b) = max (unat a) (unat b)"
  and unat_min_word: "unat (min a b) = min (unat a) (unat b)"
  by (auto simp: max_def min_def word_le_nat_alt)

text \<open>
  A block that is not dropped wants the frame \<open>j\<close> of the interval when it holds it; then the
  sample of channel \<open>i mod c\<close> of that frame is \<open>wet_sample\<close>.
\<close>

definition wants :: "u64 \<Rightarrow> u64 \<Rightarrow> 'f audio_block \<Rightarrow> nat \<Rightarrow> bool" where
  "wants start end_frame b j \<longleftrightarrow> unat (ab_start_frame b) \<le> unat start + j \<and>
     unat start + j < unat (block_end b) \<and> unat start + j < unat end_frame"

definition wet_sample :: "u64 \<Rightarrow> nat \<Rightarrow> 'f audio_block \<Rightarrow> nat \<Rightarrow> 'f" where
  "wet_sample start c b i =
     ab_samples b ! ((unat start + i div c - unat (ab_start_frame b)) * c + i mod c)"

lemma nth_splice:
  assumes "dst + len \<le> length d" "src + len \<le> length s" "i < length d"
  shows "(take dst d @ take len (drop src s) @ drop (dst + len) d) ! i =
     (if dst \<le> i \<and> i < dst + len then s ! (src + (i - dst)) else d ! i)"
proof -
  have "length (take len (drop src s)) = len" "length (take dst d) = dst" using assms by simp_all
  then show ?thesis using assms by (auto simp: nth_append)
qed

lemma length_splice:
  assumes "dst + len \<le> length d" "src + len \<le> length s"
  shows "length (take dst d @ take len (drop src s) @ drop (dst + len) d) = length d"
  using assms by simp

lemma frame_range:
  assumes "0 < (c::nat)"
  shows "a * c \<le> i \<longleftrightarrow> a \<le> i div c" and "i < a * c \<longleftrightarrow> i div c < a"
  using assms by (simp_all add: less_eq_div_iff_mult_less_eq div_less_iff_less_mult)

lemma copy_overlap_spec:
  assumes keep: "drop_reason generation epoch start channels b = None"
    and before: "\<not> ab_start_frame b \<ge> end_frame" and c: "channels \<noteq> 0"
    and "end": "start \<le> end_frame"
    and fits: "(unat end_frame - unat start) * unat channels \<le> length dest"
  obtains d n where "copy_overlap start end_frame channels b dest = Some (d, n)"
    and "length d = length dest"
    and "\<And>i. i < length dest \<Longrightarrow> d ! i =
        (if wants start end_frame b (i div unat channels) then wet_sample start (unat channels) b i
         else dest ! i)"
    and "n = card {j. wants start end_frame b j}"
proof -
  define F S L E c where "F = unat (ab_start_frame b)" and "S = unat start"
    and "L = unat (block_end b)" and "E = unat end_frame" and "c = unat channels"
  note names = F_def [symmetric] S_def [symmetric] L_def [symmetric] E_def [symmetric] c_def [symmetric]
  have c0: "0 < c" using c by (simp add: c_def unat_gt_0)
  have sl: "S < L" using keep
    by (auto simp: drop_reason_def S_def L_def word_le_nat_alt split: if_splits)
  have fe: "F < E" using before by (simp add: F_def E_def word_le_nat_alt)
  have se: "S \<le> E" using "end" by (simp add: S_def E_def word_le_nat_alt)
  have fl: "F \<le> L" using block_end_ge [of b] by (simp add: F_def L_def word_le_nat_alt)
  have room: "(L - F) * c \<le> length (ab_samples b)"
  proof -
    have "unat (ab_frames b) * c \<le> length (ab_samples b)"
      using keep by (auto simp: drop_reason_def block_fits_def c_def split: if_splits)
    moreover have "L - F \<le> unat (ab_frames b)" by (simp add: L_def F_def unat_block_end)
    ultimately show ?thesis by (meson le_trans mult_le_mono1)
  qed
  let ?from = "max F S" and ?to = "min L E"
  have ft: "?from \<le> ?to" using sl fe se fl by auto
  have u1: "unat (max (ab_start_frame b) start - start) = ?from - S"
    and u2: "unat (max (ab_start_frame b) start - ab_start_frame b) = ?from - F"
    by (simp_all add: unat_sub unat_max_word names)
  have u3: "unat (min (block_end b) end_frame - max (ab_start_frame b) start) = ?to - ?from"
    using ft by (subst unat_sub) (simp_all add: word_le_nat_alt unat_max_word unat_min_word names)
  have dst: "(?from - S) * c + (?to - ?from) * c = (?to - S) * c"
    and src: "(?from - F) * c + (?to - ?from) * c = (?to - F) * c"
    using ft by (simp_all add: add_mult_distrib [symmetric])
  have dlen: "(?to - S) * c \<le> length dest"
    using fits [folded E_def S_def c_def] by (meson diff_le_mono le_trans min.cobounded2 mult_le_mono1)
  have slen: "(?to - F) * c \<le> length (ab_samples b)"
    using room by (meson diff_le_mono le_trans min.cobounded1 mult_le_mono1)
  let ?dst = "(?from - S) * c" and ?src = "(?from - F) * c" and ?len = "(?to - ?from) * c"
  have A: "?dst + ?len \<le> length dest" and B: "?src + ?len \<le> length (ab_samples b)"
    unfolding dst src by (fact dlen, fact slen)
  let ?d = "take ?dst dest @ take ?len (drop ?src (ab_samples b)) @ drop (?dst + ?len) dest"
  have wants: "wants start end_frame b j \<longleftrightarrow> ?from - S \<le> j \<and> j < ?to - S" for j
    by (auto simp: wants_def names)
  have copy: "copy_overlap start end_frame channels b dest = Some (?d, ?to - ?from)"
    unfolding copy_overlap_def copy_from_slice_def Let_def u1 u2 u3 names using A B by simp
  have index: "?src + (i - ?dst) = (S + i div c - F) * c + i mod c" if "?from - S \<le> i div c" for i
  proof -
    have "i - ?dst = (i div c - (?from - S)) * c + i mod c"
      using that by (metis add.commute diff_add_assoc diff_mult_distrib div_mult_mod_eq mult_le_mono1)
    then have "?src + (i - ?dst) = ((?from - F) + (i div c - (?from - S))) * c + i mod c"
      by (simp only: add_mult_distrib add.assoc)
    moreover have "(?from - F) + (i div c - (?from - S)) = S + i div c - F" using that by auto
    ultimately show ?thesis by simp
  qed
  show ?thesis
  proof (rule that [OF copy])
    show "length ?d = length dest" using A B by (rule length_splice)
    fix i assume i: "i < length dest"
    have "?d ! i = (if ?dst \<le> i \<and> i < ?dst + ?len then ab_samples b ! (?src + (i - ?dst)) else dest ! i)"
      using A B i by (rule nth_splice)
    moreover have "?dst \<le> i \<and> i < ?dst + ?len \<longleftrightarrow> wants start end_frame b (i div c)"
      unfolding dst frame_range [OF c0] wants ..
    moreover have "ab_samples b ! (?src + (i - ?dst)) = wet_sample start c b i"
      if "wants start end_frame b (i div c)"
      using index [of i] that unfolding wants wet_sample_def names by simp
    ultimately show "?d ! i = (if wants start end_frame b (i div unat channels)
        then wet_sample start (unat channels) b i else dest ! i)"
      unfolding names by presburger
  next
    have "{j. wants start end_frame b j} = {?from - S ..< ?to - S}" by (auto simp: wants)
    then show "?to - ?from = card {j. wants start end_frame b j}" using ft by simp
  qed
qed

subsection \<open>The whole read\<close>

lemma peek_contents:
  "bq_ok q \<Longrightarrow> peek_with id q = (case ring_contents q of [] \<Rightarrow> None | b # bs \<Rightarrow> Some b)"
  using contents_release(2) [of q] by (auto simp: peek_with_def ring_contents_def bq_used_def)

lemma pop_contents:
  assumes "bq_ok q" "ring_contents q = b # bs"
  shows "bq_ok (snd (pop_with f q))" "ring_contents (snd (pop_with f q)) = bs"
    "bq_max_samples (snd (pop_with f q)) = bq_max_samples q"
proof -
  have ne: "bq_read q \<noteq> bq_write q" using assms(2) by (auto simp: ring_contents_def bq_used_def)
  from contents_release [OF assms(1) ne] assms ne
  show "bq_ok (snd (pop_with f q))" "ring_contents (snd (pop_with f q)) = bs"
    "bq_max_samples (snd (pop_with f q)) = bq_max_samples q"
    by (auto simp: pop_with_def bq_ok_def Let_def)
qed

text \<open>The blocks the interval can use, and those the read removes from the ring.\<close>

definition usable :: "u64 \<Rightarrow> u64 \<Rightarrow> u64 \<Rightarrow> 16 word \<Rightarrow> 'f audio_block \<Rightarrow> bool" where
  "usable generation epoch start channels b \<longleftrightarrow> drop_reason generation epoch start channels b = None"

definition spent :: "u64 \<Rightarrow> u64 \<Rightarrow> u64 \<Rightarrow> u64 \<Rightarrow> 16 word \<Rightarrow> 'f audio_block \<Rightarrow> bool" where
  "spent generation epoch start end_frame channels b \<longleftrightarrow>
     (usable generation epoch start channels b \<longrightarrow>
        ab_start_frame b < end_frame \<and> block_end b \<le> end_frame)"

definition in_order :: "'f audio_block list \<Rightarrow> bool" where
  "in_order bs \<longleftrightarrow> sorted_wrt (\<lambda>a b. block_end a \<le> ab_start_frame b) bs"

definition source_block ::
  "u64 \<Rightarrow> u64 \<Rightarrow> 'f audio_block list \<Rightarrow> nat \<Rightarrow> 'f audio_block option" where
  "source_block start end_frame bs j = find (\<lambda>b. wants start end_frame b j) bs"

lemma later_block_wants:
  assumes "block_end a \<le> ab_start_frame b" "wants start end_frame b j"
  shows "\<not> wants start end_frame a j" "ab_start_frame a < end_frame" "block_end a < end_frame"
  using assms block_end_ge [of a] by (auto simp: wants_def word_le_nat_alt word_less_nat_alt)

lemma source_block_simps [simp]:
  "source_block start end_frame [] j = None"
  "source_block start end_frame (b # bs) j =
     (if wants start end_frame b j then Some b else source_block start end_frame bs j)"
  by (simp_all add: source_block_def)

lemma source_block_Some:
  "source_block start end_frame bs j = Some b \<Longrightarrow> b \<in> set bs \<and> wants start end_frame b j"
  by (induction bs) (auto split: if_splits)

lemma finite_wanted: "finite {j. source_block start end_frame bs j \<noteq> None}"
proof (rule finite_subset)
  show "{j. source_block start end_frame bs j \<noteq> None} \<subseteq> {..<unat end_frame}"
    by (auto dest!: source_block_Some simp: wants_def)
qed simp

text \<open>In an ordered list the blocks after the first want none of its frames.\<close>

lemma source_block_disjoint:
  assumes "in_order (b # bs)" "wants start end_frame b j"
  shows "source_block start end_frame bs j = None"
proof (rule ccontr)
  assume "source_block start end_frame bs j \<noteq> None"
  then obtain b' where "b' \<in> set bs" "wants start end_frame b' j" by (auto dest: source_block_Some)
  with assms later_block_wants(1) show False by (fastforce simp: in_order_def)
qed

lemma source_block_past:
  assumes "in_order (b # bs)" "end_frame \<le> ab_start_frame b \<or> end_frame < block_end b"
  shows "source_block start end_frame bs j = None"
proof (rule ccontr)
  assume "source_block start end_frame bs j \<noteq> None"
  then obtain b' where b': "b' \<in> set bs" "wants start end_frame b' j" by (auto dest: source_block_Some)
  with assms(1) have "block_end b \<le> ab_start_frame b'" by (simp add: in_order_def)
  from later_block_wants(2,3) [OF this b'(2)] assms(2) show False by auto
qed

lemma card_source_block:
  assumes "in_order (b # bs)"
  shows "card {j. source_block start end_frame (b # bs) j \<noteq> None} =
     card {j. wants start end_frame b j} + card {j. source_block start end_frame bs j \<noteq> None}"
proof -
  have "{j. source_block start end_frame (b # bs) j \<noteq> None} =
      {j. wants start end_frame b j} \<union> {j. source_block start end_frame bs j \<noteq> None}" by auto
  moreover have "finite {j. wants start end_frame b j}"
    using finite_wanted [of start end_frame "[b]"] by (simp cong: conj_cong split: if_splits)
  ultimately show ?thesis
    using source_block_disjoint [OF assms] finite_wanted [of start end_frame bs]
    by (subst card_Un_disjoint [symmetric]) auto
qed

lemma timeline_loop_spec:
  fixes generation epoch start end_frame :: u64 and channels :: "16 word"
  defines "ok \<equiv> usable generation epoch start channels"
  assumes "bq_ok q" and "length (ring_contents q) \<le> k"
    and "in_order (filter ok (ring_contents q))"
    and c: "channels \<noteq> 0" and "end": "start \<le> end_frame"
    and "(unat end_frame - unat start) * unat channels \<le> length dest"
  shows "\<exists>copied' dest' q' diag'. timeline_loop k generation epoch start end_frame channels q diag dest copied
      = Some (copied', dest', q', diag')
    \<and> copied' = copied + card {j. source_block start end_frame (filter ok (ring_contents q)) j \<noteq> None}
    \<and> length dest' = length dest
    \<and> (\<forall>i < length dest. dest' ! i =
         (case source_block start end_frame (filter ok (ring_contents q)) (i div unat channels) of
            None \<Rightarrow> dest ! i | Some b \<Rightarrow> wet_sample start (unat channels) b i))
    \<and> bq_ok q' \<and> ring_contents q' = dropWhile (spent generation epoch start end_frame channels) (ring_contents q)"
  using assms(2-4,7)
proof (induction k arbitrary: q dest copied diag)
  case 0
  then have "ring_contents q = []" by (metis le_zero_eq length_0_conv)
  with 0 show ?case by simp
next
  case (Suc k)
  show ?case
  proof (cases "ring_contents q")
    case Nil
    with Suc.prems(1) show ?thesis by (simp add: peek_contents source_block_def)
  next
    case (Cons b bs)
    note peek = peek_contents [OF Suc.prems(1), unfolded Cons list.case]
    note pop = pop_contents [OF Suc.prems(1) Cons, where f = "\<lambda>_. ()"]
    show ?thesis
    proof (cases "ok b")
      case False
      then obtain reason where r: "drop_reason generation epoch start channels b = Some reason"
        by (auto simp: ok_def usable_def)
      have "spent generation epoch start end_frame channels b"
        using False by (simp add: spent_def ok_def)
      with Suc.IH [of "snd (pop_with (\<lambda>_. ()) q)" dest] pop Suc.prems False peek r Cons show ?thesis
        by simp
    next
      case ok: True
      then have keep: "drop_reason generation epoch start channels b = None"
        by (simp add: ok_def usable_def)
      have ord: "in_order (b # filter ok bs)" using Suc.prems(3) Cons ok by simp
      show ?thesis
      proof (cases "ab_start_frame b \<ge> end_frame")
        case past: True
        then have "\<not> wants start end_frame b j" for j by (auto simp: wants_def word_le_nat_alt)
        moreover have "source_block start end_frame (filter ok bs) j = None" for j
          using source_block_past [OF ord] past by simp
        moreover have "\<not> spent generation epoch start end_frame channels b"
          using ok past by (auto simp: spent_def ok_def)
        ultimately show ?thesis using Suc.prems(1) peek keep past Cons ok by simp
      next
        case before: False
        obtain d n where copy: "copy_overlap start end_frame channels b dest = Some (d, n)"
          and len: "length d = length dest"
          and d: "\<And>i. i < length dest \<Longrightarrow> d ! i =
              (if wants start end_frame b (i div unat channels) then wet_sample start (unat channels) b i
               else dest ! i)"
          and n: "n = card {j. wants start end_frame b j}"
          using copy_overlap_spec [OF keep before c "end" Suc.prems(4)] by metis
        show ?thesis
        proof (cases "block_end b \<le> end_frame")
          case True
          then have spent: "spent generation epoch start end_frame channels b"
            using before by (auto simp: spent_def)
          have rest: "in_order (filter ok bs)" using ord by (simp add: in_order_def)
          let ?q = "snd (pop_with (\<lambda>_. ()) q)"
          have "timeline_loop (Suc k) generation epoch start end_frame channels q diag dest copied
              = timeline_loop k generation epoch start end_frame channels ?q diag d (copied + n)"
            using peek keep before copy True by simp
          moreover obtain copied' d' q' diag'
            where "timeline_loop k generation epoch start end_frame channels ?q diag d (copied + n)
                = Some (copied', d', q', diag')"
              and "copied' = copied + n + card {j. source_block start end_frame (filter ok bs) j \<noteq> None}"
              and "length d' = length d" and "bq_ok q'"
              and "ring_contents q' = dropWhile (spent generation epoch start end_frame channels) bs"
              and d': "\<And>i. i < length d \<Longrightarrow> d' ! i =
                (case source_block start end_frame (filter ok bs) (i div unat channels) of
                   None \<Rightarrow> d ! i | Some b \<Rightarrow> wet_sample start (unat channels) b i)"
            using Suc.IH [of ?q d diag "copied + n"] pop Suc.prems(2,4) rest len Cons by auto
          moreover have "d' ! i =
              (case source_block start end_frame (b # filter ok bs) (i div unat channels) of
                 None \<Rightarrow> dest ! i | Some b \<Rightarrow> wet_sample start (unat channels) b i)"
            if "i < length dest" for i
            using d' [of i] d [OF that] that len source_block_disjoint [OF ord, of start end_frame "i div unat channels"]
            by (auto split: option.splits)
          ultimately show ?thesis
            using Cons ok spent n len card_source_block [OF ord, of start end_frame] by simp
        next
          case False
          then have none: "source_block start end_frame (filter ok bs) j = None" for j
            by (intro source_block_past [OF ord]) (simp add: not_le)
          have "\<not> spent generation epoch start end_frame channels b"
            using ok False by (simp add: spent_def ok_def)
          moreover have "card {j. source_block start end_frame (b # filter ok bs) j \<noteq> None} = n"
            using card_source_block [OF ord, of start end_frame] none n by simp
          ultimately show ?thesis
            using Suc.prems(1) peek keep before copy False Cons ok len d none
            by (auto split: option.splits)
        qed
      qed
    qed
  qed
qed

text \<open>
  C15: when the usable blocks of the ring follow one another in time, a read of the wet
  timeline never copies out of bounds; every sample of the interval that a usable block
  holds is delivered at its own frame and channel, every other sample of the destination
  keeps the dry value it had, the frames reported are those delivered, and exactly the
  unusable and the used-up blocks at the front leave the ring.
\<close>

theorem wet_timeline_exact:
  fixes generation epoch start :: u64 and frames :: u32 and channels :: "16 word"
    and q :: "'f block_queue"
  defines "bs \<equiv> filter (usable generation epoch start channels) (ring_contents q)"
    and "e \<equiv> saturating_add start (ucast frames)"
  assumes "bq_ok q" and "bq_capacity q \<le> hush_queue_capacity" and "in_order bs"
    and "channels \<noteq> 0" and "unat frames * unat channels \<le> length dest"
  shows "\<exists>copied dest' q' diag'. read_timeline q generation epoch start frames channels diag dest
      = Some (copied, dest', q', diag')
    \<and> copied = card {j. source_block start e bs j \<noteq> None}
    \<and> length dest' = length dest
    \<and> (\<forall>i < length dest. dest' ! i =
         (case source_block start e bs (i div unat channels) of
            None \<Rightarrow> dest ! i | Some b \<Rightarrow> wet_sample start (unat channels) b i))
    \<and> bq_ok q' \<and> ring_contents q' = dropWhile (spent generation epoch start e channels) (ring_contents q)"
proof -
  have le: "length (ring_contents q) \<le> hush_queue_capacity"
    using assms(3,4) by (simp add: bq_ok_def)
  have e: "unat e = min (unat start + unat frames) (2 ^ 64 - 1)"
    by (simp add: e_def unat_saturating_add)
  have "start \<le> e" using e unat_bound [of start] by (simp add: word_le_nat_alt)
  moreover have "(unat e - unat start) * unat channels \<le> length dest"
  proof -
    have "unat e - unat start \<le> unat frames" using e by simp
    then have "(unat e - unat start) * unat channels \<le> unat frames * unat channels"
      by (rule mult_le_mono1)
    with assms(7) show ?thesis by linarith
  qed
  ultimately show ?thesis
    using timeline_loop_spec [OF assms(3) le assms(5) [unfolded bs_def] assms(6), of e dest diag 0] assms(6,7)
    by (simp add: read_timeline_def e_def bs_def)
qed

text \<open>The block of frames 480 and 481, read by a callback that wants 481 and 482.\<close>

theorem wet_timeline_exact_witness:
  "\<exists>dest' q' diag'. read_timeline pushed_ring 1 2 481 2 1 (Some no_drops) [0, 0]
      = Some (1, dest', q', diag') \<and> dest' ! 0 = 7 \<and> dest' ! 1 = 0 \<and> ring_contents q' = []"
proof -
  let ?e = "saturating_add 481 2"
  let ?bs = "filter (usable 1 2 481 1) (ring_contents pushed_ring)"
  have ok: "bq_ok pushed_ring" "bq_capacity pushed_ring \<le> hush_queue_capacity" "in_order ?bs"
    by code_simp+
  have bs: "?bs = [sample_block]" by code_simp
  have w: "wants 481 ?e sample_block j \<longleftrightarrow> j = 0" for j
  proof -
    have "unat (ab_start_frame sample_block) = 480" "unat (block_end sample_block) = 482"
      "unat ?e = 483" by code_simp+
    then show ?thesis by (auto simp: wants_def)
  qed
  have card: "card {j. source_block 481 ?e ?bs j \<noteq> None} = 1" by (simp add: bs w)
  have wet: "wet_sample 481 1 sample_block 0 = 7" by code_simp
  have rest: "dropWhile (spent 1 2 481 ?e 1) (ring_contents pushed_ring) = []" by code_simp
  show ?thesis
    using wet_timeline_exact [OF ok, of 2 "[0, 0]" "Some no_drops"] card rest wet
    by (auto simp: bs w nth_Cons split: nat.splits)
qed

end
