(* ===== verification/Dry_Delay.thy ===== *)
theory Dry_Delay
  imports Prelude
begin

text \<open>
  The dry path of the denoiser (\<^verbatim>\<open>pw-graph-effects/src/hush_delay.rs\<close>): a ring that delays
  the untreated signal by the latency of the denoised one. A sample is only moved; its type
  and the silent sample are parameters. \<open>None\<close> is a panic.
\<close>

subsection \<open>The ring\<close>

record 'f dry_delay =
  dd_samples :: "'f list"
  dd_position :: nat
  dd_delay :: nat

definition dry_delay_new :: "'f \<Rightarrow> nat \<Rightarrow> 'f dry_delay" where
  "dry_delay_new silence samples =
     \<lparr>dd_samples = replicate (max samples 1) silence, dd_position = 0, dd_delay = 0\<rparr>"

definition dry_reset :: "'f \<Rightarrow> 'f dry_delay \<Rightarrow> 'f dry_delay" where
  "dry_reset silence d =
     d\<lparr>dd_samples := replicate (length (dd_samples d)) silence, dd_position := 0\<rparr>"

definition set_delay :: "'f \<Rightarrow> nat \<Rightarrow> 'f dry_delay \<Rightarrow> 'f dry_delay" where
  "set_delay silence delay d =
     (let delay = min delay (length (dd_samples d)) in
      if dd_delay d \<noteq> delay then (dry_reset silence d)\<lparr>dd_delay := delay\<rparr> else d)"

definition set_delay_preserve :: "nat \<Rightarrow> 'f dry_delay \<Rightarrow> 'f dry_delay" where
  "set_delay_preserve delay d =
     (let d = d\<lparr>dd_delay := min delay (length (dd_samples d))\<rparr> in
      if dd_delay d > 0 then d\<lparr>dd_position := dd_position d mod length (dd_samples d)\<rparr>
      else d\<lparr>dd_position := 0\<rparr>)"

fun delay_loop :: "'f dry_delay \<Rightarrow> 'f list \<Rightarrow> 'f list \<Rightarrow> 'f list \<times> 'f dry_delay" where
  "delay_loop d (sample # input) (y # dst) =
     (let capacity = length (dd_samples d);
          read = (dd_position d + capacity - dd_delay d mod capacity) mod capacity;
          delayed = dd_samples d ! read;
          d = d\<lparr>dd_samples := (dd_samples d)[dd_position d := sample],
                dd_position := (dd_position d + 1) mod capacity\<rparr>;
          (dst, d) = delay_loop d input dst
      in (delayed # dst, d))"
| "delay_loop d [] dst = (dst, d)"
| "delay_loop d input [] = ([], d)"

definition delay_process ::
  "'f list \<Rightarrow> 'f list \<Rightarrow> 'f dry_delay \<Rightarrow> ('f list \<times> 'f dry_delay) option" where
  "delay_process input dst d =
     (if dd_delay d = 0 then
        (if length dst = length input then Some (input, d) else None)
      else Some (delay_loop d input dst))"

subsection \<open>A delay line over the whole history\<close>

text \<open>The sample \<open>k\<close> places before the end of the history.\<close>

definition past :: "'f \<Rightarrow> 'f list \<Rightarrow> nat \<Rightarrow> 'f" where
  "past silence h k = (if k < length h then h ! (length h - 1 - k) else silence)"

lemma past_snoc [simp]:
  "past silence (h @ [x]) 0 = x" "past silence (h @ [x]) (Suc j) = past silence h j"
  by (auto simp: past_def nth_append)

definition remembers :: "'f \<Rightarrow> 'f dry_delay \<Rightarrow> 'f list \<Rightarrow> bool" where
  "remembers silence d h \<longleftrightarrow>
     dd_position d < length (dd_samples d) \<and> dd_delay d \<le> length (dd_samples d) \<and>
     (\<forall>k < length (dd_samples d).
        dd_samples d ! ((dd_position d + length (dd_samples d) - 1 - k) mod length (dd_samples d))
          = past silence h k)"

text \<open>The reference: the input stream behind \<open>delay\<close> silent samples.\<close>

definition delayed_by :: "'f \<Rightarrow> nat \<Rightarrow> 'f list \<Rightarrow> 'f list \<Rightarrow> 'f list" where
  "delayed_by silence delay h xs =
     take (length xs) (drop (length h) (replicate delay silence @ h @ xs))"

lemma delayed_by_Cons:
  assumes "0 < delay"
  shows "delayed_by silence delay h (x # xs) =
     past silence h (delay - 1) # delayed_by silence delay (h @ [x]) xs"
proof -
  let ?s = "replicate delay silence @ h @ x # xs"
  have "drop (length h) ?s = ?s ! length h # drop (Suc (length h)) ?s"
    using assms by (intro Cons_nth_drop_Suc [symmetric]) simp
  moreover have "?s ! length h = past silence h (delay - 1)"
    using assms by (auto simp: nth_append past_def)
  ultimately show ?thesis by (simp add: delayed_by_def)
qed

lemma remembers_step:
  assumes r: "remembers silence d h" and pos: "0 < dd_delay d"
  shows "dd_samples d ! ((dd_position d + length (dd_samples d) - dd_delay d mod length (dd_samples d))
           mod length (dd_samples d)) = past silence h (dd_delay d - 1)"
    and "remembers silence (d\<lparr>dd_samples := (dd_samples d)[dd_position d := x],
           dd_position := (dd_position d + 1) mod length (dd_samples d)\<rparr>) (h @ [x])"
proof -
  let ?c = "length (dd_samples d)" and ?p = "dd_position d"
  have p: "?p < ?c" and dc: "dd_delay d \<le> ?c"
    and past: "\<And>k. k < ?c \<Longrightarrow> dd_samples d ! ((?p + ?c - 1 - k) mod ?c) = past silence h k"
    using r by (auto simp: remembers_def)
  have "(?p + ?c - dd_delay d mod ?c) mod ?c = (?p + ?c - 1 - (dd_delay d - 1)) mod ?c"
    using p pos dc by (cases "dd_delay d = ?c") auto
  with past [of "dd_delay d - 1"] pos dc
  show "dd_samples d ! ((?p + ?c - dd_delay d mod ?c) mod ?c) = past silence h (dd_delay d - 1)"
    by simp
  have "(dd_samples d)[?p := x] ! (((?p + 1) mod ?c + ?c - 1 - k) mod ?c) = past silence (h @ [x]) k"
    if k: "k < ?c" for k
  proof -
    have at: "((?p + 1) mod ?c + ?c - 1 - k) mod ?c = (?p + ?c - k) mod ?c"
    proof (cases "?p + 1 = ?c")
      case True
      with k have "?p + ?c - k = (?c - 1 - k) + ?c" "(?p + 1) mod ?c + ?c - 1 - k = ?c - 1 - k" by auto
      then show ?thesis by (metis mod_add_self2)
    next
      case False
      with p show ?thesis by simp
    qed
    show ?thesis
    proof (cases k)
      case 0
      with p show ?thesis unfolding at by simp
    next
      case (Suc j)
      have eq: "?p + ?c - k = ?p + ?c - 1 - j" using Suc by simp
      have "(?p + ?c - k) mod ?c \<noteq> ?p" using p k Suc
        by (cases "k \<le> ?p") (auto simp: le_mod_geq mod_if)
      then have "(dd_samples d)[?p := x] ! ((?p + ?c - k) mod ?c) = past silence h j"
        using past [of j] k Suc eq by simp
      then show ?thesis unfolding at by (simp add: Suc)
    qed
  qed
  moreover have "(?p + 1) mod ?c < ?c" using p by (intro mod_less_divisor) linarith
  ultimately show "remembers silence (d\<lparr>dd_samples := (dd_samples d)[?p := x],
      dd_position := (?p + 1) mod ?c\<rparr>) (h @ [x])"
    using dc by (simp add: remembers_def)
qed

lemma delay_loop_spec:
  assumes "remembers silence d h" "0 < dd_delay d" "length dst = length input"
  shows "\<exists>d'. delay_loop d input dst = (delayed_by silence (dd_delay d) h input, d')
    \<and> remembers silence d' (h @ input) \<and> dd_delay d' = dd_delay d
    \<and> length (dd_samples d') = length (dd_samples d)"
  using assms
proof (induction input arbitrary: d h dst)
  case Nil
  then show ?case by (simp add: delayed_by_def)
next
  case (Cons x xs)
  then obtain y ys where out: "dst = y # ys" "length ys = length xs" by (cases dst) auto
  let ?d = "d\<lparr>dd_samples := (dd_samples d)[dd_position d := x],
    dd_position := (dd_position d + 1) mod length (dd_samples d)\<rparr>"
  from Cons.IH [of ?d "h @ [x]" ys] remembers_step [OF Cons.prems(1,2)] Cons.prems(2) out
  obtain d' where "delay_loop ?d xs ys = (delayed_by silence (dd_delay d) (h @ [x]) xs, d')"
    "remembers silence d' (h @ x # xs)" "dd_delay d' = dd_delay d"
    "length (dd_samples d') = length (dd_samples d)" by auto
  with remembers_step(1) [OF Cons.prems(1,2)] Cons.prems(2) out show ?case
    by (simp add: Let_def delayed_by_Cons)
qed

subsection \<open>A whole session\<close>

text \<open>The callback's operations; the reference keeps all that was ever played.\<close>

datatype 'f delay_op = Process "'f list" | Preserve nat

fun dry_run :: "'f delay_op list \<Rightarrow> 'f dry_delay \<Rightarrow> 'f list list option" where
  "dry_run [] d = Some []"
| "dry_run (Preserve n # ops) d = dry_run ops (set_delay_preserve n d)"
| "dry_run (Process xs # ops) d =
     (case delay_process xs xs d of
        None \<Rightarrow> None
      | Some (ys, d) \<Rightarrow> map_option (\<lambda>yss. ys # yss) (dry_run ops d))"

fun reference_run :: "'f \<Rightarrow> nat \<Rightarrow> 'f delay_op list \<Rightarrow> nat \<Rightarrow> 'f list \<Rightarrow> 'f list list" where
  "reference_run silence cap [] delay h = []"
| "reference_run silence cap (Preserve n # ops) delay h =
     reference_run silence cap ops (min n cap) h"
| "reference_run silence cap (Process xs # ops) delay h =
     delayed_by silence delay h xs # reference_run silence cap ops delay (h @ xs)"

definition keeps_delay :: "'f delay_op \<Rightarrow> bool" where
  "keeps_delay op = (case op of Process xs \<Rightarrow> True | Preserve n \<Rightarrow> 0 < n)"

lemma dry_run_reference:
  assumes "remembers silence d h" "0 < dd_delay d" "\<forall>op \<in> set ops. keeps_delay op"
  shows "dry_run ops d = Some (reference_run silence (length (dd_samples d)) ops (dd_delay d) h)"
  using assms
proof (induction ops arbitrary: d h)
  case Nil
  then show ?case by simp
next
  case (Cons op ops)
  show ?case
  proof (cases op)
    case (Process xs)
    from delay_loop_spec [OF Cons.prems(1,2) refl, of xs] obtain d' where
      "delay_loop d xs xs = (delayed_by silence (dd_delay d) h xs, d')"
      "remembers silence d' (h @ xs)" "dd_delay d' = dd_delay d"
      "length (dd_samples d') = length (dd_samples d)" by auto
    with Cons.IH [of d' "h @ xs"] Cons.prems(2,3) Process show ?thesis
      by (simp add: delay_process_def)
  next
    case (Preserve n)
    then have "0 < min n (length (dd_samples d))"
      using Cons.prems by (auto simp: keeps_delay_def remembers_def)
    then have "remembers silence (set_delay_preserve n d) h" "0 < dd_delay (set_delay_preserve n d)"
      and "dd_delay (set_delay_preserve n d) = min n (length (dd_samples d))"
      and "length (dd_samples (set_delay_preserve n d)) = length (dd_samples d)"
      using Cons.prems(1) by (auto simp: set_delay_preserve_def remembers_def Let_def)
    with Cons.IH [of "set_delay_preserve n d" h] Cons.prems(3) Preserve show ?thesis by simp
  qed
qed

text \<open>
  C25: from the delay set on the empty ring on, the dry path is the played signal delayed by
  exactly the current delay, over all buffers of the session; a delay changed while playing
  reads the true history, in the growing direction too, as long as it stays positive and
  within the ring.
\<close>

theorem dry_path_delays_the_signal:
  assumes "0 < delay" and "delay \<le> max samples 1" and "\<forall>op \<in> set ops. keeps_delay op"
  shows "dry_run ops (set_delay silence delay (dry_delay_new silence samples)) =
     Some (reference_run silence (max samples 1) ops delay [])"
proof -
  let ?d = "set_delay silence delay (dry_delay_new silence samples)"
  have "length (dd_samples ?d) = max samples 1" "dd_delay ?d = delay"
    and "remembers silence ?d []"
    using assms(1,2)
    by (auto simp: set_delay_def dry_delay_new_def dry_reset_def remembers_def past_def Let_def)
  with dry_run_reference [of silence ?d "[]" ops] assms(1,3) show ?thesis by simp
qed

theorem dry_path_delays_the_signal_witness:
  "dry_run [Process [1, 2, 3], Preserve 4, Process [4, 5]]
      (set_delay 0 (2::nat) (dry_delay_new (0::int) 4)) = Some [[0, 0, 1], [0, 1]]"
proof -
  have "\<forall>op \<in> set [Process [1, 2, 3 :: int], Preserve 4, Process [4, 5]]. keeps_delay op"
    by (simp add: keeps_delay_def)
  from dry_path_delays_the_signal [OF _ _ this, of 2 4 0] show ?thesis
    by (simp add: delayed_by_def)
qed

end
