(* ===== verification/Effect_Host.thy ===== *)
theory Effect_Host
  imports Ordered_Map
begin

text \<open>
  The effect host (\<^verbatim>\<open>pw-graph-effects/src/lib.rs\<close>): errors, channel policies and their
  negotiation, the registry of providers, and the preparation of one instance. A processor
  is a record of the operations a preparation calls; parameter values are bit patterns.
\<close>

datatype effect_error =
    InvalidAudioSpec u32 "16 word" u32
  | NotPrepared
  | InvalidBufferLength nat nat
  | FrameLimitExceeded u32 u32
  | UnsupportedParameter string
  | UnknownEffect string
  | InvalidParameter string f32
  | InternalBufferOverflow
  | UnsupportedSampleRate u32 u32 u32
  | MissingWasmExport string
  | InvalidWasmManifest string
  | InvalidWasmModule string
  | WasmUnavailable string
  | ModelUnavailable string
  | WorkerUnavailable string
  | InvalidIoCapabilities "16 word" "16 word"
  | UnsupportedChannelCount "16 word" "16 word" "16 word"
  | PreparationQueueFull
  | PreparationCancelled

subsection \<open>Channels\<close>

datatype channel_policy = Policy_Auto | Policy_Fixed "16 word"

fun requested_channels :: "channel_policy \<Rightarrow> 16 word option" where
  "requested_channels Policy_Auto = None"
| "requested_channels (Policy_Fixed n) = Some n"

record io_capabilities =
  io_min_channels :: "16 word"
  io_max_channels :: "16 word"
  io_independent_channels :: bool
  io_preferred_channels :: "16 word"

definition io_stereo :: io_capabilities where
  "io_stereo = \<lparr>io_min_channels = 1, io_max_channels = 2, io_independent_channels = False,
     io_preferred_channels = 2\<rparr>"

definition io_independent :: "16 word \<Rightarrow> 16 word \<Rightarrow> io_capabilities" where
  "io_independent lo hi = \<lparr>io_min_channels = lo, io_max_channels = hi,
     io_independent_channels = True, io_preferred_channels = lo\<rparr>"

definition io_validate :: "io_capabilities \<Rightarrow> (effect_error, unit) result" where
  "io_validate c =
     (if io_min_channels c = 0 \<or> io_min_channels c > io_max_channels c
         \<or> io_preferred_channels c < io_min_channels c
         \<or> io_preferred_channels c > io_max_channels c
      then Inl (InvalidIoCapabilities (io_min_channels c) (io_max_channels c)) else Inr ())"

definition within_capabilities ::
  "io_capabilities \<Rightarrow> 16 word \<Rightarrow> (effect_error, 16 word) result" where
  "within_capabilities c n =
     (if n < io_min_channels c \<or> n > io_max_channels c
      then Inl (UnsupportedChannelCount n (io_min_channels c) (io_max_channels c)) else Inr n)"

definition negotiate_channels ::
  "channel_policy \<Rightarrow> io_capabilities \<Rightarrow> 16 word option \<Rightarrow> (effect_error, 16 word) result" where
  "negotiate_channels policy c topology =
     (case io_validate c of
        Inl e \<Rightarrow> Inl e
      | Inr _ \<Rightarrow>
          within_capabilities c
            (case policy of
               Policy_Fixed n \<Rightarrow> n
             | Policy_Auto \<Rightarrow> (case topology of Some n \<Rightarrow> n | None \<Rightarrow> io_preferred_channels c)))"

definition physical_channels ::
  "channel_policy \<Rightarrow> io_capabilities \<Rightarrow> 16 word option \<Rightarrow> (effect_error, 16 word) result" where
  "physical_channels policy c topology =
     (case io_validate c of
        Inl e \<Rightarrow> Inl e
      | Inr _ \<Rightarrow>
        (case negotiate_channels policy c topology of
           Inl e \<Rightarrow> Inl e
         | Inr negotiated \<Rightarrow>
             within_capabilities c
               (case policy of
                  Policy_Fixed _ \<Rightarrow> negotiated
                | Policy_Auto \<Rightarrow>
                    if io_independent_channels c then io_max_channels c else negotiated)))"

subsection \<open>Preparing an instance\<close>

record audio_spec =
  as_sample_rate :: u32
  as_channels :: "16 word"
  as_max_frames :: u32

definition spec_validate :: "audio_spec \<Rightarrow> (effect_error, unit) result" where
  "spec_validate s =
     (if as_sample_rate s = 0 \<or> as_channels s = 0 \<or> as_max_frames s = 0
      then Inl (InvalidAudioSpec (as_sample_rate s) (as_channels s) (as_max_frames s))
      else Inr ())"

record 'p provider =
  pv_id :: string
  pv_create :: 'p
  pv_prepare :: "audio_spec \<Rightarrow> 'p \<Rightarrow> (effect_error, 'p) result"
  pv_set_parameter :: "string \<Rightarrow> f32 \<Rightarrow> 'p \<Rightarrow> (effect_error, 'p) result"
  pv_io_capabilities :: io_capabilities

fun apply_parameters ::
  "'p provider \<Rightarrow> (string \<times> f32) list \<Rightarrow> 'p \<Rightarrow> (effect_error, 'p) result" where
  "apply_parameters v [] p = Inr p"
| "apply_parameters v ((k, x) # ps) p =
     (case pv_set_parameter v k x p of Inl e \<Rightarrow> Inl e | Inr p \<Rightarrow> apply_parameters v ps p)"

text \<open>The three reads of the cancellation flag are arguments.\<close>

definition prepare_instance ::
  "bool \<times> bool \<times> bool \<Rightarrow> 'p provider \<Rightarrow> audio_spec \<Rightarrow> (string \<times> f32) list \<Rightarrow>
    (effect_error, 'p) result" where
  "prepare_instance flags v spec parameters =
     (case flags of (first, second, third) \<Rightarrow>
      if first then Inl PreparationCancelled
      else case pv_prepare v spec (pv_create v) of
          Inl e \<Rightarrow> Inl e
        | Inr p \<Rightarrow>
            if second then Inl PreparationCancelled
            else (case apply_parameters v parameters p of
                Inl e \<Rightarrow> Inl e
              | Inr p \<Rightarrow> if third then Inl PreparationCancelled else Inr p))"

subsection \<open>The registry\<close>

type_synonym 'p effect_host = "(string \<times> 'p provider) list"

text \<open>
  A \<^verbatim>\<open>BTreeMap\<close> by effect id; only lookups are used, so it is kept by insertion.
  A request that names a module is answered by the WASM provider of builds with that
  feature, the argument \<open>wasm\<close>.
\<close>

definition host_register :: "'p provider \<Rightarrow> 'p effect_host \<Rightarrow> 'p effect_host" where
  "host_register v h = (pv_id v, v) # filter (\<lambda>e. fst e \<noteq> pv_id v) h"

definition host_provider :: "'p effect_host \<Rightarrow> string \<Rightarrow> (effect_error, 'p provider) result" where
  "host_provider h i = (case map_of h i of Some v \<Rightarrow> Inr v | None \<Rightarrow> Inl (UnknownEffect i))"

definition provider_for_request ::
  "(string \<Rightarrow> string \<Rightarrow> 'p provider) option \<Rightarrow> 'p effect_host \<Rightarrow> string \<Rightarrow> string option \<Rightarrow>
    (effect_error, 'p provider) result" where
  "provider_for_request wasm h i module_path =
     (case module_path of
        None \<Rightarrow> host_provider h i
      | Some path \<Rightarrow>
        (case wasm of
           Some w \<Rightarrow> Inr (w path i)
         | None \<Rightarrow>
             Inl (WasmUnavailable ''rebuild pw-graph-effects with the `wasm` feature'')))"

definition physical_channels_for_request ::
  "(string \<Rightarrow> string \<Rightarrow> 'p provider) option \<Rightarrow> 'p effect_host \<Rightarrow> string \<Rightarrow> string option \<Rightarrow>
    channel_policy \<Rightarrow> 16 word option \<Rightarrow> (effect_error, 16 word) result" where
  "physical_channels_for_request wasm h i module_path policy topology =
     (case provider_for_request wasm h i module_path of
        Inl e \<Rightarrow> Inl e
      | Inr v \<Rightarrow> physical_channels policy (pv_io_capabilities v) topology)"

lemma host_provider_register:
  "host_provider (host_register v h) i = (if i = pv_id v then Inr v else host_provider h i)"
proof -
  have "map_of (filter (\<lambda>e. fst e \<noteq> pv_id v) h) i = map_of h i" if "i \<noteq> pv_id v"
    using that by (induction h) auto
  then show ?thesis by (simp add: host_provider_def host_register_def)
qed

subsection \<open>The ports of an effect\<close>

lemma within_capabilities_iff:
  "within_capabilities c n = Inr m \<longleftrightarrow> m = n \<and> io_min_channels c \<le> n \<and> n \<le> io_max_channels c"
  by (auto simp: within_capabilities_def)

lemma negotiated_iff:
  "negotiate_channels policy c topology = Inr n \<longleftrightarrow> io_validate c = Inr () \<and>
     n = (case policy of Policy_Fixed k \<Rightarrow> k
          | Policy_Auto \<Rightarrow> (case topology of Some k \<Rightarrow> k | None \<Rightarrow> io_preferred_channels c)) \<and>
     io_min_channels c \<le> n \<and> n \<le> io_max_channels c"
  by (auto simp: negotiate_channels_def within_capabilities_iff split: sum.split)

text \<open>
  C27: the ports an effect instance exposes always suffice for the channels negotiated with
  the graph and stay within what its provider supports; a fixed layout gets exactly its
  count, an instance without a fixed layout and with independent channels exposes its full
  capacity whatever the topology, so a later route of another width within the provider's
  range needs no new instance.
\<close>

theorem physical_channels_suffice:
  assumes "physical_channels policy c topology = Inr n"
  shows "\<exists>m. negotiate_channels policy c topology = Inr m \<and> m \<le> n \<and> 0 < m
    \<and> io_min_channels c \<le> n \<and> n \<le> io_max_channels c
    \<and> (\<forall>k. policy = Policy_Fixed k \<longrightarrow> n = k)
    \<and> (policy = Policy_Auto \<and> io_independent_channels c \<longrightarrow>
         (\<forall>t. io_min_channels c \<le> t \<and> t \<le> io_max_channels c \<longrightarrow>
            physical_channels policy c (Some t) = Inr n))"
proof -
  obtain m where m: "negotiate_channels policy c topology = Inr m" and v: "io_validate c = Inr ()"
    and n: "within_capabilities c (case policy of Policy_Fixed _ \<Rightarrow> m
      | Policy_Auto \<Rightarrow> if io_independent_channels c then io_max_channels c else m) = Inr n"
    using assms by (auto simp: physical_channels_def split: sum.splits)
  have "0 < io_min_channels c" using v
    by (auto simp: io_validate_def word_gt_0 split: if_splits)
  moreover have "physical_channels policy c (Some t) = Inr (io_max_channels c)"
    if "policy = Policy_Auto" "io_independent_channels c" "io_min_channels c \<le> t" "t \<le> io_max_channels c" for t
    using that v by (auto simp: physical_channels_def negotiate_channels_def within_capabilities_def)
  ultimately show ?thesis
    using m n by (cases policy) (auto simp: negotiated_iff within_capabilities_iff split: if_splits)
qed

theorem physical_channels_suffice_witness:
  "\<exists>m. negotiate_channels Policy_Auto (io_independent 1 2) (Some 1) = Inr m \<and> m \<le> 2
    \<and> physical_channels Policy_Auto (io_independent 1 2) (Some 2) = Inr 2"
proof -
  have "physical_channels Policy_Auto (io_independent 1 2) (Some 1) = Inr 2" by code_simp
  from physical_channels_suffice [OF this] show ?thesis by (auto simp: io_independent_def)
qed

end
