(* ===== verification/Effect_Pool.thy ===== *)
theory Effect_Pool
  imports Effect_Host Simulation
begin

text \<open>
  Asynchronous preparation of effects (\<^verbatim>\<open>pw-graph-effects/src/lifecycle.rs\<close>): a control
  thread queues requests, cancels and polls; up to eight loader threads take jobs and report
  through a channel. A cancellation token is a shared flag; the flags are a store and a
  token is an index into it. The calls of the control thread take \<^verbatim>\<open>&mut self\<close>, or run on
  the thread that owns the manager, and are single steps; a loader takes one step per
  access to shared state, so that a cancellation can fall between any two of them.

  The payload of a prepared effect is a type parameter. What a provider returns is an
  argument of the step; a panic of the provider is turned into an error by the code.
\<close>

subsection \<open>State\<close>

datatype load_stage = Stage_Queued | Stage_LoadingDependencies | Stage_Preparing

datatype 'p preparation_event =
    Ev_Loading u64 load_stage
  | Ev_Ready u64 'p
  | Ev_Failed u64 effect_error
  | Ev_Cancelled u64

fun event_ticket :: "'p preparation_event \<Rightarrow> u64" where
  "event_ticket (Ev_Loading t s) = t"
| "event_ticket (Ev_Ready t p) = t"
| "event_ticket (Ev_Failed t e) = t"
| "event_ticket (Ev_Cancelled t) = t"

fun is_loading :: "'p preparation_event \<Rightarrow> bool" where
  "is_loading (Ev_Loading t s) = True"
| "is_loading _ = False"

text \<open>A job is its ticket and its token. A phase is where \<^verbatim>\<open>run_job\<close> stands.\<close>

type_synonym load_job = "u64 \<times> nat"

datatype 'p phase =
    Ph_Queued
  | Ph_First_Check
  | Ph_Loading
  | Ph_Second_Check
  | Ph_Preparing
  | Ph_Running
  | Ph_Last_Check "(effect_error, 'p) result"
  | Ph_Send "'p preparation_event"

record 'p pool =
  pl_jobs :: "load_job list"
  pl_capacity :: nat
  pl_workers :: "(load_job \<times> 'p phase) option list"
  pl_channel :: "'p preparation_event list"
  pl_flags :: "bool list"
  pl_cancellations :: "(u64, nat) btree"
  pl_next_ticket :: u64

definition pool_new :: "nat \<Rightarrow> nat \<Rightarrow> 'p pool" where
  "pool_new worker_count queue_capacity =
     \<lparr>pl_jobs = [], pl_capacity = max queue_capacity 1,
      pl_workers = replicate (max 1 (min worker_count 8)) None, pl_channel = [],
      pl_flags = [], pl_cancellations = [], pl_next_ticket = 1\<rparr>"

definition is_cancelled :: "'p pool \<Rightarrow> nat \<Rightarrow> bool" where
  "is_cancelled s token = (pl_flags s ! token)"

subsection \<open>The control thread\<close>

text \<open>
  \<open>checked\<close> is the outcome of validating the specification and finding the provider. The
  ticket is consumed before the queue is tried.
\<close>

definition begin_prepare ::
  "(effect_error, unit) result \<Rightarrow> 'p pool \<Rightarrow> (effect_error, u64) result \<times> 'p pool" where
  "begin_prepare checked s =
     (case checked of
        Inl e \<Rightarrow> (Inl e, s)
      | Inr _ \<Rightarrow>
          (let ticket = pl_next_ticket s;
               s = s\<lparr>pl_next_ticket := (let n = ticket + 1 in if n = 0 then 1 else n)\<rparr>;
               token = length (pl_flags s);
               s = s\<lparr>pl_flags := pl_flags s @ [False]\<rparr>
           in if length (pl_jobs s) < pl_capacity s then
                (Inr ticket, s\<lparr>pl_jobs := pl_jobs s @ [(ticket, token)],
                   pl_cancellations := bt_insert ticket token (pl_cancellations s)\<rparr>)
              else (Inl PreparationQueueFull, s)))"

definition pool_cancel :: "u64 \<Rightarrow> 'p pool \<Rightarrow> bool \<times> 'p pool" where
  "pool_cancel ticket s =
     (case bt_get (pl_cancellations s) ticket of
        None \<Rightarrow> (False, s)
      | Some token \<Rightarrow> (True, s\<lparr>pl_flags := (pl_flags s)[token := True]\<rparr>))"

definition ticket_cancelled :: "'p pool \<Rightarrow> u64 \<Rightarrow> bool" where
  "ticket_cancelled s ticket =
     (case bt_get (pl_cancellations s) ticket of None \<Rightarrow> False | Some token \<Rightarrow> is_cancelled s token)"

fun poll_loop ::
  "(u64 \<Rightarrow> bool) \<Rightarrow> u64 list \<Rightarrow> 'p preparation_event list \<Rightarrow> 'p preparation_event list" where
  "poll_loop cancelled cancelled_terminals [] = []"
| "poll_loop cancelled cancelled_terminals (event # events) =
     (let ticket = event_ticket event in
      if cancelled ticket then
        if is_loading event then poll_loop cancelled cancelled_terminals events
        else if ticket \<notin> set cancelled_terminals then
          Ev_Cancelled ticket # poll_loop cancelled (ticket # cancelled_terminals) events
        else poll_loop cancelled cancelled_terminals events
      else event # poll_loop cancelled cancelled_terminals events)"

fun remove_terminals :: "'p preparation_event list \<Rightarrow> (u64, nat) btree \<Rightarrow> (u64, nat) btree" where
  "remove_terminals [] m = m"
| "remove_terminals (event # events) m =
     remove_terminals events (if is_loading event then m else bt_remove (event_ticket event) m)"

definition poll_events :: "'p pool \<Rightarrow> 'p preparation_event list \<times> 'p pool" where
  "poll_events s =
     (let events = poll_loop (ticket_cancelled s) [] (pl_channel s)
      in (events, s\<lparr>pl_channel := [],
            pl_cancellations := remove_terminals events (pl_cancellations s)\<rparr>))"

definition pending_count :: "'p pool \<Rightarrow> nat" where
  "pending_count s = length (pl_cancellations s)"

subsection \<open>The loaders\<close>

text \<open>
  One step of \<^verbatim>\<open>run_job\<close> at a phase, with the flag it reads and what the provider returns:
  the event sent, if any, and the next phase, \<open>None\<close> at the end of the job.
\<close>

fun run_job ::
  "u64 \<Rightarrow> bool \<Rightarrow> (effect_error, 'p) result \<Rightarrow> 'p phase \<Rightarrow>
    'p preparation_event option \<times> 'p phase option" where
  "run_job t cancelled prepared Ph_Queued = (Some (Ev_Loading t Stage_Queued), Some Ph_First_Check)"
| "run_job t cancelled prepared Ph_First_Check =
     (None, Some (if cancelled then Ph_Send (Ev_Cancelled t) else Ph_Loading))"
| "run_job t cancelled prepared Ph_Loading =
     (Some (Ev_Loading t Stage_LoadingDependencies), Some Ph_Second_Check)"
| "run_job t cancelled prepared Ph_Second_Check =
     (None, Some (if cancelled then Ph_Send (Ev_Cancelled t) else Ph_Preparing))"
| "run_job t cancelled prepared Ph_Preparing =
     (Some (Ev_Loading t Stage_Preparing), Some Ph_Running)"
| "run_job t cancelled prepared Ph_Running = (None, Some (Ph_Last_Check prepared))"
| "run_job t cancelled prepared (Ph_Last_Check r) =
     (None, Some (Ph_Send (if cancelled then Ev_Cancelled t
        else case r of Inr p \<Rightarrow> Ev_Ready t p | Inl e \<Rightarrow> Ev_Failed t e)))"
| "run_job t cancelled prepared (Ph_Send event) = (Some event, None)"

definition worker_step :: "nat \<Rightarrow> (effect_error, 'p) result \<Rightarrow> 'p pool \<Rightarrow> 'p pool" where
  "worker_step i prepared s =
     (case pl_workers s ! i of
        None \<Rightarrow>
          (case pl_jobs s of
             [] \<Rightarrow> s
           | job # jobs \<Rightarrow>
               s\<lparr>pl_jobs := jobs, pl_workers := (pl_workers s)[i := Some (job, Ph_Queued)]\<rparr>)
      | Some ((ticket, token), phase) \<Rightarrow>
          (let (sent, next) = run_job ticket (is_cancelled s token) prepared phase in
           s\<lparr>pl_channel := pl_channel s @ (case sent of None \<Rightarrow> [] | Some e \<Rightarrow> [e]),
             pl_workers := (pl_workers s)[i := map_option (Pair (ticket, token)) next]\<rparr>))"

definition worker_busy :: "nat \<Rightarrow> 'p pool \<Rightarrow> bool" where
  "worker_busy i s = (i < length (pl_workers s) \<and> (pl_workers s ! i \<noteq> None \<or> pl_jobs s \<noteq> []))"

subsection \<open>Steps\<close>

datatype 'p pool_label =
    Lb_Begin u64 "(effect_error, u64) result"
  | Lb_Rejected effect_error
  | Lb_Cancel u64 bool
  | Lb_Poll "'p preparation_event list"
  | Lb_Work

text \<open>
  Requests stop before the 64-bit ticket counter wraps: at one request each nanosecond that
  is after five centuries.
\<close>

inductive pool_step :: "'p pool \<Rightarrow> 'p pool_label \<Rightarrow> 'p pool \<Rightarrow> bool" where
  st_reject: "begin_prepare (Inl e) s = (r, t) \<Longrightarrow> pool_step s (Lb_Rejected e) t"
| st_begin: "pl_next_ticket s \<noteq> - 1 \<Longrightarrow> begin_prepare (Inr ()) s = (r, t) \<Longrightarrow>
    pool_step s (Lb_Begin (pl_next_ticket s) r) t"
| st_cancel: "pool_cancel ticket s = (b, t) \<Longrightarrow> pool_step s (Lb_Cancel ticket b) t"
| st_poll: "poll_events s = (events, t) \<Longrightarrow> pool_step s (Lb_Poll events) t"
| st_work: "worker_busy i s \<Longrightarrow> pool_step s Lb_Work (worker_step i prepared s)"

subsection \<open>What the control thread may see\<close>

text \<open>
  The contract: tickets are numbered consecutively; an accepted one is pending until its one
  terminal event; only a cancelled ticket ends in \<open>Ev_Cancelled\<close>, and a cancelled ticket
  ends in nothing else and shows no further progress. The numbers stop before they wrap.
\<close>

record pool_view =
  vw_next :: u64
  vw_pending :: "u64 \<Rightarrow> bool option"

fun event_allowed :: "pool_view \<Rightarrow> 'p preparation_event \<Rightarrow> pool_view option" where
  "event_allowed v (Ev_Loading t s) = (if vw_pending v t = Some False then Some v else None)"
| "event_allowed v (Ev_Ready t p) =
     (if vw_pending v t = Some False then Some (v\<lparr>vw_pending := (vw_pending v)(t := None)\<rparr>) else None)"
| "event_allowed v (Ev_Failed t e) =
     (if vw_pending v t = Some False then Some (v\<lparr>vw_pending := (vw_pending v)(t := None)\<rparr>) else None)"
| "event_allowed v (Ev_Cancelled t) =
     (if vw_pending v t = Some True then Some (v\<lparr>vw_pending := (vw_pending v)(t := None)\<rparr>) else None)"

fun pool_contract :: "pool_view \<Rightarrow> 'p pool_label \<Rightarrow> pool_view option" where
  "pool_contract v (Lb_Begin t r) =
     (if t \<noteq> vw_next v \<or> t = - 1 then None
      else case r of
          Inl e \<Rightarrow> (if e = PreparationQueueFull then Some (v\<lparr>vw_next := t + 1\<rparr>) else None)
        | Inr t' \<Rightarrow>
            (if t' = t \<and> vw_pending v t = None
             then Some \<lparr>vw_next = t + 1, vw_pending = (vw_pending v)(t := Some False)\<rparr> else None))"
| "pool_contract v (Lb_Rejected e) = Some v"
| "pool_contract v (Lb_Cancel t b) =
     (if b then (if vw_pending v t \<noteq> None
                 then Some (v\<lparr>vw_pending := (vw_pending v)(t := Some True)\<rparr>) else None)
      else if vw_pending v t = None then Some v else None)"
| "pool_contract v (Lb_Poll events) = abstract_run event_allowed v events"
| "pool_contract v Lb_Work = Some v"

definition pool_viewed :: "'p pool \<Rightarrow> pool_view" where
  "pool_viewed s =
     \<lparr>vw_next = pl_next_ticket s,
      vw_pending = (\<lambda>t. map_option (is_cancelled s) (bt_get (pl_cancellations s) t))\<rparr>"

end
