(* ===== verification/Effect_Pool_Props.thy ===== *)
theory Effect_Pool_Props
  imports Effect_Pool
begin

text \<open>
  The preparation pool keeps its contract under every interleaving of the control thread
  and the loaders, and every accepted ticket is answered.
\<close>

subsection \<open>Events in the channel\<close>

text \<open>
  The channel is sound for the tickets pending when it is read: each event belongs to a
  ticket that is still pending there, and only a cancelled one is reported cancelled.
\<close>

type_synonym pending = "u64 \<Rightarrow> bool option"

definition settled :: "'p preparation_event \<Rightarrow> pending \<Rightarrow> pending" where
  "settled ev p = (if is_loading ev then p else p(event_ticket ev := None))"

fun channel_ok :: "pending \<Rightarrow> 'p preparation_event list \<Rightarrow> bool" where
  "channel_ok p [] \<longleftrightarrow> True"
| "channel_ok p (ev # evs) \<longleftrightarrow> p (event_ticket ev) \<noteq> None \<and>
     (ev = Ev_Cancelled (event_ticket ev) \<longrightarrow> p (event_ticket ev) = Some True) \<and>
     channel_ok (settled ev p) evs"

fun after_events :: "pending \<Rightarrow> 'p preparation_event list \<Rightarrow> pending" where
  "after_events p [] = p"
| "after_events p (ev # evs) = after_events (settled ev p) evs"

definition raise :: "u64 \<Rightarrow> pending \<Rightarrow> pending" where
  "raise t p = (\<lambda>x. if x = t then map_option (\<lambda>_. True) (p x) else p x)"

lemma channel_ok_snoc:
  "channel_ok p (evs @ [ev]) \<longleftrightarrow> channel_ok p evs \<and> after_events p evs (event_ticket ev) \<noteq> None \<and>
     (ev = Ev_Cancelled (event_ticket ev) \<longrightarrow> after_events p evs (event_ticket ev) = Some True)"
  by (induction evs arbitrary: p) auto

lemma after_events_snoc [simp]: "after_events p (evs @ [ev]) = settled ev (after_events p evs)"
  by (induction evs arbitrary: p) auto

lemma after_events_le: "after_events p evs t = None \<or> after_events p evs t = p t"
proof (induction evs arbitrary: p)
  case Nil
  show ?case by simp
next
  case (Cons ev evs)
  from Cons [of "settled ev p"] show ?case by (auto simp: settled_def split: if_splits)
qed

lemma after_events_terminal:
  "after_events p evs t =
     (if \<exists>ev \<in> set evs. \<not> is_loading ev \<and> event_ticket ev = t then None else p t)"
  by (induction evs arbitrary: p) (auto simp: settled_def)

lemma channel_ok_fresh:
  "channel_ok p evs \<Longrightarrow> p t = None \<Longrightarrow> channel_ok (p(t := x)) evs"
  "channel_ok p evs \<Longrightarrow> p t = None \<Longrightarrow> after_events (p(t := x)) evs = (after_events p evs)(t := x)"
proof (induction evs arbitrary: p)
  case (Cons ev evs)
  { case 1
    then have "event_ticket ev \<noteq> t" by auto
    then have "settled ev (p(t := x)) = (settled ev p)(t := x)" "settled ev p t = None"
      using 1 by (simp_all add: settled_def fun_upd_twist)
    moreover from this have "channel_ok ((settled ev p)(t := x)) evs"
      using 1 by (intro Cons.IH(1)) simp_all
    moreover have "(p(t := x)) (event_ticket ev) = p (event_ticket ev)"
      using \<open>event_ticket ev \<noteq> t\<close> by simp
    ultimately show ?case using 1 by (simp del: fun_upd_apply) }
  { case 2
    then have "event_ticket ev \<noteq> t" by auto
    then have "settled ev (p(t := x)) = (settled ev p)(t := x)" "settled ev p t = None"
      using 2 by (simp_all add: settled_def fun_upd_twist)
    moreover from this 2 have "after_events ((settled ev p)(t := x)) evs = (after_events (settled ev p) evs)(t := x)"
      by (intro Cons.IH(2)) simp_all
    ultimately show ?case by (simp del: fun_upd_apply) }
qed simp_all

lemma settled_raise: "settled ev (raise t p) = raise t (settled ev p)"
  by (auto simp: settled_def raise_def fun_eq_iff)

lemma channel_ok_raise:
  "channel_ok p evs \<Longrightarrow> channel_ok (raise t p) evs"
  "after_events (raise t p) evs = raise t (after_events p evs)"
proof (induction evs arbitrary: p)
  case (Cons ev evs)
  { case 1
    then show ?case using Cons.IH(1) [of "settled ev p"]
      by (auto simp: settled_raise) (auto simp: raise_def) }
  { case 2
    show ?case by (simp add: settled_raise Cons.IH(2)) }
qed simp_all

subsection \<open>Polling\<close>

lemma poll_loop_allowed:
  assumes "channel_ok p evs" and "\<And>t b. p t = Some b \<Longrightarrow> b = c t"
    and "\<And>t. t \<in> set seen \<Longrightarrow> p t = None"
  shows "abstract_run event_allowed \<lparr>vw_next = n, vw_pending = p\<rparr> (poll_loop c seen evs)
    = Some \<lparr>vw_next = n, vw_pending = after_events p evs\<rparr>"
  using assms
proof (induction evs arbitrary: p seen)
  case Nil
  show ?case by simp
next
  case (Cons ev evs)
  let ?t = "event_ticket ev"
  have pend: "p ?t = Some (c ?t)" using Cons.prems(1,2) by auto
  have unseen: "?t \<notin> set seen" using pend Cons.prems(3) by force
  have rest: "channel_ok (settled ev p) evs"
    and agree: "\<And>t b. settled ev p t = Some b \<Longrightarrow> b = c t"
    using Cons.prems(1,2) by (auto simp: settled_def split: if_splits)
  show ?case
  proof (cases "c ?t")
    case True
    show ?thesis
    proof (cases "is_loading ev")
      case load: True
      with True Cons.IH [of p seen] Cons.prems show ?thesis by (simp add: settled_def)
    next
      case False
      have "\<And>t. t \<in> set (?t # seen) \<Longrightarrow> settled ev p t = None"
        using Cons.prems(3) False by (auto simp: settled_def)
      with Cons.IH [OF rest agree, of "?t # seen"]
      have IH: "abstract_run event_allowed \<lparr>vw_next = n, vw_pending = settled ev p\<rparr>
          (poll_loop c (?t # seen) evs) = Some \<lparr>vw_next = n, vw_pending = after_events (settled ev p) evs\<rparr>"
        by blast
      have "settled ev p = p(?t := None)" using False by (simp add: settled_def)
      with IH True False unseen pend show ?thesis by (simp add: Let_def)
    qed
  next
    case False
    have "\<And>t. t \<in> set seen \<Longrightarrow> settled ev p t = None"
      using Cons.prems(3) by (auto simp: settled_def)
    with Cons.IH [OF rest agree, of seen]
    have IH: "abstract_run event_allowed \<lparr>vw_next = n, vw_pending = settled ev p\<rparr>
        (poll_loop c seen evs) = Some \<lparr>vw_next = n, vw_pending = after_events (settled ev p) evs\<rparr>"
      by blast
    have "settled ev p = (if is_loading ev then p else p(?t := None))" by (simp add: settled_def)
    with IH False pend Cons.prems(1) show ?thesis
      by (cases ev) (simp_all add: Let_def)
  qed
qed

lemma poll_loop_terminals:
  assumes "channel_ok p evs" and "\<And>t. t \<in> set seen \<Longrightarrow> p t = None"
  shows "(\<exists>ev \<in> set (poll_loop c seen evs). \<not> is_loading ev \<and> event_ticket ev = t) \<longleftrightarrow>
    (\<exists>ev \<in> set evs. \<not> is_loading ev \<and> event_ticket ev = t)"
  using assms
proof (induction evs arbitrary: p seen)
  case Nil
  show ?case by simp
next
  case (Cons ev evs)
  have unseen: "event_ticket ev \<notin> set seen" using Cons.prems by force
  have rest: "channel_ok (settled ev p) evs" using Cons.prems(1) by simp
  have "\<And>t. t \<in> set (event_ticket ev # seen) \<Longrightarrow> settled ev p t = None" if "\<not> is_loading ev"
    using that Cons.prems(2) by (auto simp: settled_def)
  moreover have "\<And>t. t \<in> set seen \<Longrightarrow> settled ev p t = None"
    using Cons.prems(2) by (auto simp: settled_def)
  ultimately show ?case
    using Cons.IH [OF rest, of "event_ticket ev # seen"] Cons.IH [OF rest, of seen] unseen
    by (cases "is_loading ev") (auto simp: Let_def)
qed

lemma bt_get_remove_terminals:
  "bt_get (remove_terminals evs m) t =
     (if \<exists>ev \<in> set evs. \<not> is_loading ev \<and> event_ticket ev = t then None else bt_get m t)"
  by (induction evs m rule: remove_terminals.induct) auto

lemma bt_wf_remove_terminals [simp]: "bt_wf m \<Longrightarrow> bt_wf (remove_terminals evs m)"
  by (induction evs m rule: remove_terminals.induct) auto

subsection \<open>The invariant of the pool\<close>

abbreviation pends :: "'p pool \<Rightarrow> pending" where
  "pends s \<equiv> vw_pending (pool_viewed s)"

text \<open>What is pending and not yet answered in the channel.\<close>

definition unanswered :: "'p pool \<Rightarrow> pending" where
  "unanswered s = after_events (pends s) (pl_channel s)"

definition at_worker :: "'p pool \<Rightarrow> nat \<Rightarrow> u64 \<Rightarrow> nat \<Rightarrow> 'p phase \<Rightarrow> bool" where
  "at_worker s i t a ph \<longleftrightarrow> i < length (pl_workers s) \<and> pl_workers s ! i = Some ((t, a), ph)"

fun phase_ok :: "u64 \<Rightarrow> bool \<Rightarrow> 'p phase \<Rightarrow> bool" where
  "phase_ok t cancelled (Ph_Send ev) \<longleftrightarrow>
     event_ticket ev = t \<and> \<not> is_loading ev \<and> (ev = Ev_Cancelled t \<longrightarrow> cancelled)"
| "phase_ok t cancelled _ \<longleftrightarrow> True"

definition tokens_ok :: "'p pool \<Rightarrow> bool" where
  "tokens_ok s \<longleftrightarrow> bt_wf (pl_cancellations s) \<and>
     (\<forall>t a. bt_get (pl_cancellations s) t = Some a \<longrightarrow> a < length (pl_flags s) \<and> t < pl_next_ticket s) \<and>
     (\<forall>t u a. bt_get (pl_cancellations s) t = Some a \<and> bt_get (pl_cancellations s) u = Some a \<longrightarrow> t = u)"

definition jobs_ok :: "'p pool \<Rightarrow> bool" where
  "jobs_ok s \<longleftrightarrow> distinct (map fst (pl_jobs s)) \<and>
     (\<forall>t a. (t, a) \<in> set (pl_jobs s) \<longrightarrow> bt_get (pl_cancellations s) t = Some a \<and>
        unanswered s t \<noteq> None \<and> (\<forall>i b ph. \<not> at_worker s i t b ph))"

definition workers_ok :: "'p pool \<Rightarrow> bool" where
  "workers_ok s \<longleftrightarrow>
     (\<forall>i t a ph. at_worker s i t a ph \<longrightarrow> bt_get (pl_cancellations s) t = Some a \<and>
        unanswered s t \<noteq> None \<and> phase_ok t (is_cancelled s a) ph) \<and>
     (\<forall>i j t a b ph ph'. at_worker s i t a ph \<and> at_worker s j t b ph' \<longrightarrow> i = j)"

definition held :: "'p pool \<Rightarrow> u64 set" where
  "held s = fst ` set (pl_jobs s) \<union> {t. \<exists>i a ph. at_worker s i t a ph}"

definition pool_ok :: "'p pool \<Rightarrow> bool" where
  "pool_ok s \<longleftrightarrow> 0 < length (pl_workers s) \<and> tokens_ok s \<and> channel_ok (pends s) (pl_channel s) \<and>
     jobs_ok s \<and> workers_ok s \<and> (\<forall>t. unanswered s t \<noteq> None \<longrightarrow> t \<in> held s)"

lemma pends_eq: "pends s t = map_option (is_cancelled s) (bt_get (pl_cancellations s) t)"
  by (simp add: pool_viewed_def)

lemma unanswered_pends: "unanswered s t \<noteq> None \<Longrightarrow> unanswered s t = pends s t"
  unfolding unanswered_def by (metis after_events_le)

lemma new_pool_ok: "pool_ok (pool_new workers capacity)"
  by (auto simp: pool_ok_def pool_new_def tokens_ok_def jobs_ok_def workers_ok_def at_worker_def
      unanswered_def pends_eq split: if_splits)

subsection \<open>A step of a loader\<close>

lemma run_job_spec:
  assumes "run_job t c r ph = (sent, next)" "phase_ok t c ph"
  shows "\<And>ph'. next = Some ph' \<Longrightarrow> phase_ok t c ph' \<and> (\<forall>ev. sent = Some ev \<longrightarrow> is_loading ev)"
    and "next = None \<Longrightarrow> \<exists>ev. sent = Some ev \<and> \<not> is_loading ev"
    and "\<And>ev. sent = Some ev \<Longrightarrow> event_ticket ev = t \<and> (ev = Ev_Cancelled t \<longrightarrow> c)"
  using assms by (cases ph; auto split: sum.splits if_splits)+

lemma worker_fields [simp]:
  "pl_next_ticket (worker_step i r s) = pl_next_ticket s"
  "pl_flags (worker_step i r s) = pl_flags s"
  "pl_cancellations (worker_step i r s) = pl_cancellations s"
  "length (pl_workers (worker_step i r s)) = length (pl_workers s)"
  by (auto simp: worker_step_def Let_def split: option.splits list.splits prod.splits)

lemma worker_cancelled [simp]: "is_cancelled (worker_step i r s) = is_cancelled s"
  by (simp add: is_cancelled_def fun_eq_iff)

lemma worker_view [simp]: "pool_viewed (worker_step i r s) = pool_viewed s"
  by (simp add: pool_viewed_def)

lemma take_job_ok:
  assumes ok: "pool_ok s" and i: "i < length (pl_workers s)" and idle: "pl_workers s ! i = None"
    and jobs: "pl_jobs s = (t, a) # jobs"
  shows "pool_ok (worker_step i r s)"
proof -
  let ?s = "worker_step i r s"
  have s': "?s = s\<lparr>pl_jobs := jobs, pl_workers := (pl_workers s)[i := Some ((t, a), Ph_Queued)]\<rparr>"
    by (simp add: worker_step_def idle jobs)
  have un: "unanswered ?s = unanswered s" by (simp add: unanswered_def) (simp add: s')
  have at: "at_worker ?s j u b ph \<longleftrightarrow>
      (if j = i then u = t \<and> b = a \<and> ph = Ph_Queued else at_worker s j u b ph)" for j u b ph
    using i by (auto simp: at_worker_def s' nth_list_update)
  have none: "\<not> at_worker s i u b ph" for u b ph using idle by (simp add: at_worker_def)
  have jo: "jobs_ok s" and wo: "workers_ok s" using ok by (simp_all add: pool_ok_def)
  have t: "t \<notin> fst ` set jobs" "distinct (map fst jobs)"
    using jo jobs by (auto simp: jobs_ok_def)
  have first: "bt_get (pl_cancellations s) t = Some a" "unanswered s t \<noteq> None"
    "\<And>j b ph. \<not> at_worker s j t b ph"
    using jo jobs by (auto simp: jobs_ok_def)
  have rest: "bt_get (pl_cancellations s) u = Some b" "unanswered s u \<noteq> None"
    "\<And>j c ph. \<not> at_worker s j u c ph" "u \<noteq> t" if "(u, b) \<in> set jobs" for u b
    using jo jobs that t by (auto simp: jobs_ok_def image_iff)
  have "jobs_ok ?s"
    unfolding jobs_ok_def un at using rest t(2) by (simp add: s') blast
  moreover have "workers_ok ?s"
    unfolding workers_ok_def un at using wo first
    by (simp add: workers_ok_def) blast
  moreover have "held ?s = held s"
  proof -
    have "{u. \<exists>j b ph. at_worker ?s j u b ph} = insert t {u. \<exists>j b ph. at_worker s j u b ph}"
      unfolding at using none by auto (metis none)
    then show ?thesis using jobs by (simp add: held_def s')
  qed
  ultimately show ?thesis using ok
    unfolding pool_ok_def un by (simp add: tokens_ok_def) (simp add: s')
qed

lemma run_step_ok:
  assumes ok: "pool_ok s" and at_i: "at_worker s i t a ph"
  shows "pool_ok (worker_step i r s)"
proof -
  let ?s = "worker_step i r s" and ?c = "is_cancelled s a"
  obtain sent "next" where run: "run_job t ?c r ph = (sent, next)" by fastforce
  let ?evs = "case sent of None \<Rightarrow> [] | Some e \<Rightarrow> [e]"
  have i: "i < length (pl_workers s)" "pl_workers s ! i = Some ((t, a), ph)"
    using at_i by (auto simp: at_worker_def)
  have s': "?s = s\<lparr>pl_channel := pl_channel s @ ?evs,
      pl_workers := (pl_workers s)[i := map_option (Pair (t, a)) next]\<rparr>"
    by (simp add: worker_step_def i run)
  have at: "at_worker ?s j u b q \<longleftrightarrow>
      (if j = i then next = Some q \<and> u = t \<and> b = a else at_worker s j u b q)" for j u b q
    using i(1) by (auto simp: at_worker_def s' nth_list_update)
  have jo: "jobs_ok s" and wo: "workers_ok s" and co: "channel_ok (pends s) (pl_channel s)"
    and he: "\<And>u. unanswered s u \<noteq> None \<Longrightarrow> u \<in> held s"
    using ok by (auto simp: pool_ok_def)
  have mine: "bt_get (pl_cancellations s) t = Some a" "unanswered s t \<noteq> None" "phase_ok t ?c ph"
    using wo at_i by (auto simp: workers_ok_def)
  have unique: "\<And>j b q. at_worker s j t b q \<Longrightarrow> j = i"
    using wo at_i unfolding workers_ok_def by blast
  note spec = run_job_spec [OF run mine(3)]
  have un_t: "unanswered s t = Some ?c"
    using unanswered_pends [OF mine(2)] mine(1) by (simp add: pends_eq)
  have chan': "pl_channel ?s = pl_channel s @ ?evs" by (simp add: s')
  have un: "unanswered ?s = (if next = None then (unanswered s)(t := None) else unanswered s)"
    unfolding unanswered_def worker_view chan'
    using spec by (auto simp: settled_def split: option.splits)
  have chan: "channel_ok (pends ?s) (pl_channel ?s)"
    unfolding worker_view chan'
    using co un_t spec(3) by (auto simp: channel_ok_snoc unanswered_def split: option.splits)
  have job: "bt_get (pl_cancellations s) u = Some b" "unanswered s u \<noteq> None"
    "\<And>j c q. \<not> at_worker s j u c q" "u \<noteq> t" if "(u, b) \<in> set (pl_jobs s)" for u b
    using jo that at_i by (auto simp: jobs_ok_def)
  have not_mine: "(t, b) \<notin> set (pl_jobs s)" for b using job(4) by blast
  have jobs: "pl_jobs ?s = pl_jobs s" by (simp add: s')
  have "jobs_ok ?s"
    unfolding jobs_ok_def un at jobs using job(1-3) not_mine jo by (auto simp: jobs_ok_def)
  moreover have "workers_ok ?s"
  proof -
    have was: "\<exists>c p. at_worker s j u c p" if "at_worker ?s j u b q" for j u b q
      using that at_i by (auto simp: at split: if_splits)
    have apart: "\<And>j k u b c q q'. at_worker s j u b q \<Longrightarrow> at_worker s k u c q' \<Longrightarrow> j = k"
      using wo unfolding workers_ok_def by blast
    have each: "\<And>j u b q. at_worker s j u b q \<Longrightarrow> bt_get (pl_cancellations s) u = Some b \<and>
        unanswered s u \<noteq> None \<and> phase_ok u (is_cancelled s b) q"
      using wo unfolding workers_ok_def by blast
    have "bt_get (pl_cancellations ?s) u = Some b \<and> unanswered ?s u \<noteq> None \<and>
        phase_ok u (is_cancelled ?s b) q" if w: "at_worker ?s j u b q" for j u b q
    proof (cases "j = i")
      case True
      with w mine spec(1) [of q] show ?thesis by (auto simp: at un)
    next
      case False
      with w have old: "at_worker s j u b q" by (simp add: at)
      with False unique have "u \<noteq> t" by blast
      with each [OF old] show ?thesis by (simp add: un)
    qed
    moreover have "j = k" if "at_worker ?s j u b q" "at_worker ?s k u c q'" for j k u b c q q'
      using was [OF that(1)] was [OF that(2)] apart by blast
    ultimately show ?thesis unfolding workers_ok_def by blast
  qed
  moreover have "u \<in> held ?s" if u: "unanswered ?s u \<noteq> None" for u
  proof -
    have old: "unanswered s u \<noteq> None" using u by (auto simp: un split: if_splits)
    show ?thesis
    proof (cases "u = t")
      case True
      with u obtain q where "next = Some q" by (auto simp: un split: if_splits)
      then have "at_worker ?s i t a q" by (simp add: at)
      with True show ?thesis by (auto simp: held_def)
    next
      case False
      then have "j \<noteq> i" if "at_worker s j u b q" for j b q
        using at_i that by (auto simp: at_worker_def)
      then have "at_worker ?s j u b q" if "at_worker s j u b q" for j b q
        using that by (simp add: at)
      with he [OF old] show ?thesis unfolding held_def jobs by blast
    qed
  qed
  ultimately show ?thesis using ok chan
    unfolding pool_ok_def by (simp add: tokens_ok_def)
qed

lemma work_ok:
  assumes ok: "pool_ok s" and busy: "worker_busy i s"
  shows "pool_ok (worker_step i r s)"
proof (cases "pl_workers s ! i")
  case None
  with busy obtain t a jobs where "pl_jobs s = (t, a) # jobs" "i < length (pl_workers s)"
    by (cases "pl_jobs s") (auto simp: worker_busy_def)
  with take_job_ok [OF ok] None show ?thesis by blast
next
  case (Some w)
  then obtain t a ph where "at_worker s i t a ph"
    using busy by (cases w) (auto simp: at_worker_def worker_busy_def)
  from run_step_ok [OF ok this] show ?thesis .
qed

subsection \<open>The steps of the control thread\<close>

lemma next_ticket_step:
  assumes "n \<noteq> (- 1 :: u64)"
  shows "n + 1 \<noteq> 0" "n < n + 1"
proof -
  show "n + 1 \<noteq> 0" using assms by (simp add: eq_neg_iff_add_eq_0)
  then have "unat (n + 1) = Suc (unat n)" by (metis add.commute unatSuc)
  then show "n < n + 1" by (simp add: word_less_nat_alt)
qed

text \<open>A step that leaves the jobs and the loaders alone.\<close>

lemma pool_ok_frame:
  assumes ok: "pool_ok s"
    and same: "pl_jobs s' = pl_jobs s" "pl_workers s' = pl_workers s"
    and tok: "tokens_ok s'" and chan: "channel_ok (pends s') (pl_channel s')"
    and un: "\<And>u. unanswered s' u = None \<longleftrightarrow> unanswered s u = None"
    and get: "\<And>u a. unanswered s u \<noteq> None \<Longrightarrow> bt_get (pl_cancellations s) u = Some a \<Longrightarrow>
        bt_get (pl_cancellations s') u = Some a"
    and flag: "\<And>a. a < length (pl_flags s) \<Longrightarrow> is_cancelled s a \<Longrightarrow> is_cancelled s' a"
  shows "pool_ok s'"
proof -
  have at: "at_worker s' = at_worker s" by (simp add: at_worker_def fun_eq_iff same)
  have held: "held s' = held s" by (simp add: held_def at same)
  have phase: "phase_ok u (is_cancelled s' a) ph"
    if "phase_ok u (is_cancelled s a) ph" "bt_get (pl_cancellations s) u = Some a" for u a ph
    using that flag ok by (cases ph) (auto simp: pool_ok_def tokens_ok_def)
  have "jobs_ok s'" using ok get unfolding pool_ok_def jobs_ok_def at un same by blast
  moreover have "workers_ok s'"
    using ok get phase unfolding pool_ok_def workers_ok_def at un same by blast
  ultimately show ?thesis
    using ok tok chan unfolding pool_ok_def held same by (simp add: un)
qed

lemma is_cancelled_extended:
  "a < length (pl_flags s) \<Longrightarrow> pl_flags s' = pl_flags s @ [b] \<Longrightarrow> is_cancelled s' a = is_cancelled s a"
  by (simp add: is_cancelled_def nth_append)

lemma cancel_ok:
  assumes ok: "pool_ok s" and c: "pool_cancel t s = (b, s')"
  shows "pool_ok s' \<and> pool_contract (pool_viewed s) (Lb_Cancel t b) = Some (pool_viewed s')"
proof (cases "bt_get (pl_cancellations s) t")
  case None
  with c ok show ?thesis by (auto simp: pool_cancel_def pends_eq)
next
  case (Some a)
  with c have s': "s' = s\<lparr>pl_flags := (pl_flags s)[a := True]\<rparr>" and b by (auto simp: pool_cancel_def)
  have tok: "\<And>u b. bt_get (pl_cancellations s) u = Some b \<Longrightarrow> b < length (pl_flags s)"
    "\<And>u. bt_get (pl_cancellations s) u = Some a \<Longrightarrow> u = t"
    using ok Some unfolding pool_ok_def tokens_ok_def by blast+
  have pend: "pends s' = raise t (pends s)"
  proof
    fix u
    show "pends s' u = raise t (pends s) u"
      using Some tok(1) [of t a] tok(2) [of u]
      by (cases "bt_get (pl_cancellations s) u")
        (auto simp: raise_def pends_eq s' is_cancelled_def nth_list_update)
  qed
  have un: "unanswered s' = raise t (unanswered s)"
    unfolding unanswered_def pend channel_ok_raise(2) by (simp add: s')
  have "pool_ok s'"
  proof (rule pool_ok_frame [OF ok])
    show "tokens_ok s'" using ok by (simp add: pool_ok_def tokens_ok_def s')
    show "channel_ok (pends s') (pl_channel s')"
      unfolding pend using ok channel_ok_raise(1) by (auto simp: pool_ok_def s')
    show "unanswered s' u = None \<longleftrightarrow> unanswered s u = None" for u by (simp add: un raise_def)
    show "is_cancelled s' x" if "x < length (pl_flags s)" "is_cancelled s x" for x
      using that by (cases "x = a") (simp_all add: s' is_cancelled_def)
  qed (simp_all add: s')
  moreover have "pends s' = (pends s)(t := Some True)"
    unfolding pend using Some by (auto simp: raise_def pends_eq fun_eq_iff)
  then have "pool_viewed s' = (pool_viewed s)\<lparr>vw_pending := (pends s)(t := Some True)\<rparr>"
    by (simp add: pool_viewed_def s')
  ultimately show ?thesis using Some \<open>b\<close> by (simp add: pends_eq)
qed

lemma poll_ok:
  assumes ok: "pool_ok s" and c: "poll_events s = (evs, s')"
  shows "pool_ok s' \<and> pool_contract (pool_viewed s) (Lb_Poll evs) = Some (pool_viewed s')"
proof -
  have chan: "channel_ok (pends s) (pl_channel s)" using ok by (simp add: pool_ok_def)
  have evs: "evs = poll_loop (ticket_cancelled s) [] (pl_channel s)"
    and s': "s' = s\<lparr>pl_channel := [], pl_cancellations := remove_terminals evs (pl_cancellations s)\<rparr>"
    using c by (auto simp: poll_events_def Let_def)
  have get: "bt_get (pl_cancellations s') u =
      (if \<exists>ev \<in> set (pl_channel s). \<not> is_loading ev \<and> event_ticket ev = u then None
       else bt_get (pl_cancellations s) u)" for u
    using poll_loop_terminals [OF chan, of "[]"] by (simp add: s' evs bt_get_remove_terminals)
  have can: "is_cancelled s' = is_cancelled s" by (simp add: s' is_cancelled_def fun_eq_iff)
  have pend: "pends s' = unanswered s"
    unfolding unanswered_def using get
    by (auto simp: fun_eq_iff after_events_terminal pends_eq can)
  have "pends s u = Some b \<Longrightarrow> b = ticket_cancelled s u" for u b
    by (auto simp: pends_eq ticket_cancelled_def split: option.splits)
  from poll_loop_allowed [OF chan this, where seen = "[]" and n = "pl_next_ticket s"]
  have "abstract_run event_allowed \<lparr>vw_next = pl_next_ticket s, vw_pending = pends s\<rparr> evs
      = Some \<lparr>vw_next = pl_next_ticket s, vw_pending = unanswered s\<rparr>"
    by (simp add: evs unanswered_def)
  moreover have "pool_viewed s = \<lparr>vw_next = pl_next_ticket s, vw_pending = pends s\<rparr>"
    "pool_viewed s' = \<lparr>vw_next = pl_next_ticket s, vw_pending = unanswered s\<rparr>"
    using pend by (simp_all add: pool_viewed_def s')
  moreover have "pool_ok s'"
  proof (rule pool_ok_frame [OF ok])
    have "bt_wf (pl_cancellations s)" using ok by (simp add: pool_ok_def tokens_ok_def)
    then have "bt_wf (pl_cancellations s')" by (simp add: s')
    moreover have "bt_get (pl_cancellations s') u = Some a \<Longrightarrow> bt_get (pl_cancellations s) u = Some a" for u a
      by (simp add: get split: if_splits)
    ultimately show "tokens_ok s'"
      using ok unfolding pool_ok_def tokens_ok_def by (simp add: s') blast
    show "channel_ok (pends s') (pl_channel s')" by (simp add: s')
    show "unanswered s' u = None \<longleftrightarrow> unanswered s u = None" for u
      using pend by (simp add: unanswered_def [of s']) (simp add: s')
    show "bt_get (pl_cancellations s') u = Some a"
      if "unanswered s u \<noteq> None" "bt_get (pl_cancellations s) u = Some a" for u a
      using that by (auto simp: get unanswered_def after_events_terminal split: if_splits)
  qed (simp_all add: s' is_cancelled_def)
  ultimately show ?thesis by simp
qed

lemma begin_ok:
  assumes ok: "pool_ok s" and last: "pl_next_ticket s \<noteq> - 1" and b: "begin_prepare (Inr ()) s = (r, s')"
  shows "pool_ok s' \<and> pool_contract (pool_viewed s) (Lb_Begin (pl_next_ticket s) r) = Some (pool_viewed s')"
proof -
  let ?t = "pl_next_ticket s" and ?a = "length (pl_flags s)" and ?m = "pl_cancellations s"
  note nt = next_ticket_step [OF last]
  have wf: "bt_wf ?m"
    and tok: "\<And>t a. bt_get ?m t = Some a \<Longrightarrow> a < ?a \<and> t < ?t"
    and inj: "\<And>t u a. bt_get ?m t = Some a \<Longrightarrow> bt_get ?m u = Some a \<Longrightarrow> t = u"
    using ok unfolding pool_ok_def tokens_ok_def by blast+
  have fresh: "bt_get ?m ?t = None" using tok [of ?t] by (cases "bt_get ?m ?t") auto
  have chan: "channel_ok (pends s) (pl_channel s)" using ok by (simp add: pool_ok_def)
  have can: "is_cancelled s' x = is_cancelled s x" if "x < ?a" "pl_flags s' = pl_flags s @ [False]" for x
    using is_cancelled_extended that by blast
  show ?thesis
  proof (cases "length (pl_jobs s) < pl_capacity s")
    case False
    then have s': "s' = s\<lparr>pl_next_ticket := ?t + 1, pl_flags := pl_flags s @ [False]\<rparr>"
      and r: "r = Inl PreparationQueueFull"
      using b nt(1) by (auto simp: begin_prepare_def Let_def)
    have pend: "pends s' = pends s"
    proof
      fix u show "pends s' u = pends s u"
        using can tok by (cases "bt_get ?m u") (auto simp: pends_eq s')
    qed
    have "pool_ok s'"
    proof (rule pool_ok_frame [OF ok])
      show "tokens_ok s'"
        unfolding tokens_ok_def using wf tok inj nt(2) by (auto simp: s' intro: less_trans)
      show "channel_ok (pends s') (pl_channel s')" unfolding pend using chan by (simp add: s')
      show "unanswered s' u = None \<longleftrightarrow> unanswered s u = None" for u
        unfolding unanswered_def pend by (simp add: s')
      show "is_cancelled s' x" if "x < length (pl_flags s)" "is_cancelled s x" for x
        using that can by (simp add: s')
    qed (simp_all add: s')
    moreover have "pool_viewed s' = (pool_viewed s)\<lparr>vw_next := ?t + 1\<rparr>"
      using pend by (simp add: pool_viewed_def s')
    ultimately show ?thesis using last by (simp add: r) (simp add: pool_viewed_def)
  next
    case True
    then have s': "s' = s\<lparr>pl_next_ticket := ?t + 1, pl_flags := pl_flags s @ [False],
        pl_jobs := pl_jobs s @ [(?t, ?a)], pl_cancellations := bt_insert ?t ?a ?m\<rparr>"
      and r: "r = Inr ?t"
      using b nt(1) by (auto simp: begin_prepare_def Let_def)
    have none: "pends s ?t = None" by (simp add: pends_eq fresh)
    have pend: "pends s' = (pends s)(?t := Some False)"
    proof
      fix u show "pends s' u = ((pends s)(?t := Some False)) u"
      proof (cases "u = ?t")
        case True
        then show ?thesis by (simp add: pends_eq s' is_cancelled_def)
      next
        case False
        then show ?thesis using can tok by (cases "bt_get ?m u") (auto simp: pends_eq s')
      qed
    qed
    have ch: "pl_channel s' = pl_channel s" by (simp add: s')
    have un: "unanswered s' = (unanswered s)(?t := Some False)"
      unfolding unanswered_def pend ch by (rule channel_ok_fresh(2) [where p = "pends s", OF chan none])
    have un_t: "unanswered s ?t = None"
      using unanswered_pends [of s ?t] none by (cases "unanswered s ?t") auto
    have at: "at_worker s' = at_worker s" by (simp add: at_worker_def fun_eq_iff s')
    have jo: "jobs_ok s" and wo: "workers_ok s" using ok by (simp_all add: pool_ok_def)
    have old: "u \<noteq> ?t" if "bt_get ?m u = Some x" for u x using that fresh by auto
    have not_at: "\<not> at_worker s i ?t x ph" for i x ph using wo fresh by (auto simp: workers_ok_def)
    have not_job: "(?t, x) \<notin> set (pl_jobs s)" for x using jo fresh by (auto simp: jobs_ok_def)
    have "jobs_ok s'"
      unfolding jobs_ok_def at un using jo not_at not_job
      by (auto simp: jobs_ok_def s' image_iff)
    moreover have "workers_ok s'"
    proof -
      have "bt_get (pl_cancellations s') u = Some x \<and> unanswered s' u \<noteq> None \<and>
          phase_ok u (is_cancelled s' x) ph" if w: "at_worker s i u x ph" for i u x ph
      proof -
        have "bt_get ?m u = Some x \<and> unanswered s u \<noteq> None \<and> phase_ok u (is_cancelled s x) ph"
          using wo w unfolding workers_ok_def by blast
        with old [of u x] tok [of u x] can [of x] show ?thesis by (simp add: un) (simp add: s')
      qed
      moreover have "\<And>i j u x y ph ph'. at_worker s i u x ph \<Longrightarrow> at_worker s j u y ph' \<Longrightarrow> i = j"
        using wo unfolding workers_ok_def by blast
      ultimately show ?thesis unfolding workers_ok_def at by blast
    qed
    moreover have "channel_ok (pends s') (pl_channel s')"
      unfolding pend ch by (rule channel_ok_fresh(1) [where p = "pends s", OF chan none])
    moreover have "tokens_ok s'"
    proof -
      have "y = u" if "bt_get (bt_insert ?t ?a ?m) u = Some x" "bt_get (bt_insert ?t ?a ?m) y = Some x" for u y x
        using that tok [of u x] tok [of y x] inj [of u x y] by (auto split: if_splits)
      moreover have "x < Suc ?a \<and> u < ?t + 1" if "bt_get (bt_insert ?t ?a ?m) u = Some x" for u x
        using that tok [of u x] nt(2) by (auto split: if_splits intro: less_trans)
      moreover have "pl_cancellations s' = bt_insert ?t ?a ?m" "length (pl_flags s') = Suc ?a"
        "pl_next_ticket s' = ?t + 1" by (simp_all add: s')
      ultimately show ?thesis unfolding tokens_ok_def using bt_wf_insert [OF wf] by (metis (no_types))
    qed
    moreover have "u \<in> held s'" if "unanswered s' u \<noteq> None" for u
    proof -
      have "pl_jobs s' = pl_jobs s @ [(?t, ?a)]" by (simp add: s')
      then have "held s' = insert ?t (held s)" unfolding held_def at by auto
      moreover have "u = ?t \<or> u \<in> held s" using that ok by (auto simp: un pool_ok_def split: if_splits)
      ultimately show ?thesis by auto
    qed
    moreover have "0 < length (pl_workers s')" using ok by (simp add: pool_ok_def s')
    ultimately have "pool_ok s'" by (simp add: pool_ok_def)
    moreover have "pool_viewed s' = \<lparr>vw_next = ?t + 1, vw_pending = (pends s)(?t := Some False)\<rparr>"
      using pend by (simp add: pool_viewed_def s')
    ultimately show ?thesis using none last by (simp add: r) (simp add: pool_viewed_def)
  qed
qed

subsection \<open>Every interleaving keeps the contract\<close>

lemma pool_step_ok:
  assumes "pool_ok s" "pool_step s l t"
  shows "pool_ok t \<and> pool_contract (pool_viewed s) l = Some (pool_viewed t)"
  using assms(2)
proof cases
  case (st_reject e r)
  with assms(1) show ?thesis by (simp add: begin_prepare_def)
next
  case (st_begin r)
  with begin_ok [OF assms(1)] show ?thesis by simp
next
  case (st_cancel ticket b)
  with cancel_ok [OF assms(1)] show ?thesis by simp
next
  case (st_poll events)
  with poll_ok [OF assms(1)] show ?thesis by simp
next
  case (st_work i prepared)
  with work_ok [OF assms(1)] show ?thesis by simp
qed

interpretation pool: forward_simulation pool_step pool_contract pool_ok pool_viewed
  by unfold_locales (auto dest: pool_step_ok)

definition nothing_pending :: pool_view where
  "nothing_pending = \<lparr>vw_next = 1, vw_pending = (\<lambda>_. None)\<rparr>"

lemma new_pool_view: "pool_viewed (pool_new w c) = nothing_pending"
  by (simp add: pool_viewed_def pool_new_def nothing_pending_def)

lemma pool_run_contract:
  "labelled_run pool_step (pool_new w c) ls s \<Longrightarrow>
     abstract_run pool_contract nothing_pending ls = Some (pool_viewed s)"
  using pool.run_answered [OF _ new_pool_ok] by (simp add: new_pool_view)

text \<open>A ticket that is done with, or cancelled, stays so.\<close>

definition numbered :: "pool_view \<Rightarrow> bool" where
  "numbered v \<longleftrightarrow> (\<forall>t. vw_pending v t \<noteq> None \<longrightarrow> t < vw_next v)"

definition given_up :: "u64 \<Rightarrow> pool_view \<Rightarrow> bool" where
  "given_up t v \<longleftrightarrow> t < vw_next v \<and> vw_pending v t \<noteq> Some False"

lemma event_allowed_keeps:
  assumes "event_allowed v ev = Some v'"
  shows "vw_next v' = vw_next v" "vw_pending v' u = None \<or> vw_pending v' u = vw_pending v u"
    "given_up (event_ticket ev) v \<Longrightarrow> ev = Ev_Cancelled (event_ticket ev)"
  using assms by (cases ev; auto simp: given_up_def split: if_splits)+

lemma events_allowed_keep:
  assumes "abstract_run event_allowed v evs = Some v'"
  shows "vw_next v' = vw_next v \<and> (vw_pending v' u = None \<or> vw_pending v' u = vw_pending v u)
    \<and> (given_up t v \<longrightarrow> (\<forall>ev \<in> set evs. event_ticket ev = t \<longrightarrow> ev = Ev_Cancelled t))"
  using assms
proof (induction evs arbitrary: v)
  case Nil
  then show ?case by simp
next
  case (Cons ev evs)
  then obtain w where w: "event_allowed v ev = Some w" "abstract_run event_allowed w evs = Some v'"
    by (auto split: option.splits)
  note keeps = event_allowed_keeps [OF w(1)]
  have "given_up t v \<Longrightarrow> given_up t w" using keeps(1) keeps(2) [of t] by (auto simp: given_up_def)
  with Cons.IH [OF w(2)] keeps(1) keeps(2) [of u] keeps(3) show ?case by auto
qed

lemma contract_moves:
  assumes "pool_contract v l = Some v'"
  shows "vw_next v \<le> vw_next v'"
    and "vw_pending v' u = Some b \<Longrightarrow> vw_pending v u = Some b \<or> b \<and> vw_pending v u \<noteq> None
      \<or> u = vw_next v \<and> u < vw_next v'"
proof (atomize (full), cases l)
  case (Lb_Begin t r)
  then have "vw_next v \<noteq> - 1" "t = vw_next v" using assms by (auto split: if_splits)
  with Lb_Begin assms next_ticket_step(2) [of "vw_next v"]
  show "vw_next v \<le> vw_next v' \<and> (vw_pending v' u = Some b \<longrightarrow> vw_pending v u = Some b \<or>
      b \<and> vw_pending v u \<noteq> None \<or> u = vw_next v \<and> u < vw_next v')"
    by (auto split: sum.splits if_splits)
next
  case (Lb_Poll evs)
  with assms events_allowed_keep [of v evs v' u]
  show "vw_next v \<le> vw_next v' \<and> (vw_pending v' u = Some b \<longrightarrow> vw_pending v u = Some b \<or>
      b \<and> vw_pending v u \<noteq> None \<or> u = vw_next v \<and> u < vw_next v')" by auto
qed (use assms in \<open>auto split: if_splits\<close>)

lemma contract_keeps:
  assumes "numbered v" "pool_contract v l = Some v'"
  shows "numbered v'" "given_up t v \<Longrightarrow> given_up t v'"
    "given_up t v \<Longrightarrow> l = Lb_Poll evs \<Longrightarrow> ev \<in> set evs \<Longrightarrow> event_ticket ev = t \<Longrightarrow> ev = Ev_Cancelled t"
proof -
  note moves = contract_moves [OF assms(2)]
  show "numbered v'" unfolding numbered_def
  proof (intro allI impI)
    fix u assume "vw_pending v' u \<noteq> None"
    with moves(2) [of u] assms(1) moves(1) show "u < vw_next v'"
      by (auto simp: numbered_def intro: less_le_trans)
  qed
  show "given_up t v'" if "given_up t v"
    using that moves(1) moves(2) [of t False] by (auto simp: given_up_def intro: less_le_trans)
  show "ev = Ev_Cancelled t" if "given_up t v" "l = Lb_Poll evs" "ev \<in> set evs" "event_ticket ev = t"
    using that assms events_allowed_keep [of v evs v' t t] by auto
qed

lemma given_up_forever:
  assumes "abstract_run pool_contract v ls = Some v'" "numbered v" "given_up t v"
    and "Lb_Poll evs \<in> set ls" "ev \<in> set evs" "event_ticket ev = t"
  shows "ev = Ev_Cancelled t"
  using assms
proof (induction ls arbitrary: v)
  case Nil
  then show ?case by simp
next
  case (Cons l ls)
  then obtain w where w: "pool_contract v l = Some w" "abstract_run pool_contract w ls = Some v'"
    by (auto split: option.splits)
  from contract_keeps [OF Cons.prems(2) w(1)] Cons.IH [OF w(2)] Cons.prems show ?case by auto
qed

lemma numbered_run:
  "abstract_run pool_contract v ls = Some v' \<Longrightarrow> numbered v \<Longrightarrow> numbered v'"
proof (induction ls arbitrary: v)
  case Nil
  then show ?case by simp
next
  case (Cons l ls)
  then show ?case using contract_keeps(1) by (fastforce split: option.splits)
qed

lemma numbered_start: "numbered nothing_pending"
  by (simp add: numbered_def nothing_pending_def)

text \<open>
  C7: however the control thread and the loaders interleave, the preparation pool keeps its
  contract: tickets are numbered in order, every event the control thread sees belongs to
  an accepted ticket that is still pending, each ticket has at most one final event, a
  cancellation succeeds exactly while the ticket is pending, and only a cancelled ticket
  ends as cancelled.
\<close>

theorem preparation_keeps_its_contract:
  assumes "labelled_run pool_step (pool_new workers capacity) ls s"
  shows "abstract_run pool_contract nothing_pending ls = Some (pool_viewed s)"
  using assms by (rule pool_run_contract)

text \<open>
  C14: once a cancellation has been accepted, no poll ever hands out a processor, a failure
  or further progress for that ticket, also when the loader had finished or was about to
  report at that moment; the ticket ends as cancelled.
\<close>

theorem cancelled_effect_is_never_activated:
  assumes "labelled_run pool_step (pool_new workers capacity) (ls @ Lb_Cancel t True # ls') s"
    and "Lb_Poll evs \<in> set ls'" and "ev \<in> set evs" and "event_ticket ev = t"
  shows "ev = Ev_Cancelled t"
proof -
  have "abstract_run pool_contract nothing_pending (ls @ Lb_Cancel t True # ls') \<noteq> None"
    using pool_run_contract [OF assms(1)] by simp
  then obtain v w v' where v: "abstract_run pool_contract nothing_pending ls = Some v"
    and w: "pool_contract v (Lb_Cancel t True) = Some w" "abstract_run pool_contract w ls' = Some v'"
    unfolding abstract_run_append by (auto split: option.splits)
  have nv: "numbered v" using numbered_run [OF v numbered_start] .
  have "vw_pending v t \<noteq> None" "w = v\<lparr>vw_pending := (vw_pending v)(t := Some True)\<rparr>"
    using w(1) by (auto split: if_splits)
  then have "given_up t w" using nv by (auto simp: given_up_def numbered_def)
  from given_up_forever [OF w(2) contract_keeps(1) [OF nv w(1)] this assms(2-4)] show ?thesis .
qed

subsection \<open>Every ticket is answered\<close>

fun phase_work :: "'p phase \<Rightarrow> nat" where
  "phase_work Ph_Queued = 8"
| "phase_work Ph_First_Check = 7"
| "phase_work Ph_Loading = 6"
| "phase_work Ph_Second_Check = 5"
| "phase_work Ph_Preparing = 4"
| "phase_work Ph_Running = 3"
| "phase_work (Ph_Last_Check r) = 2"
| "phase_work (Ph_Send ev) = 1"

definition worker_work :: "(load_job \<times> 'p phase) option \<Rightarrow> nat" where
  "worker_work w = (case w of None \<Rightarrow> 0 | Some (job, ph) \<Rightarrow> phase_work ph)"

definition pool_work :: "'p pool \<Rightarrow> nat" where
  "pool_work s = 9 * length (pl_jobs s) + sum_list (map worker_work (pl_workers s))"

lemma sum_list_update_less:
  fixes f :: "'a \<Rightarrow> nat"
  assumes "i < length xs"
  shows "sum_list (map f (xs[i := x])) + f (xs ! i) = sum_list (map f xs) + f x"
  using assms
proof (induction xs arbitrary: i)
  case Nil
  then show ?case by simp
next
  case (Cons y ys)
  then show ?case by (cases i) auto
qed

lemma run_job_work:
  assumes "run_job t c r ph = (sent, next)"
  shows "(case next of None \<Rightarrow> 0 | Some ph' \<Rightarrow> phase_work ph') < phase_work ph"
  using assms by (cases ph) auto

lemma worker_step_work:
  assumes "worker_busy i s"
  shows "pool_work (worker_step i r s) < pool_work s"
proof (cases "pl_workers s ! i")
  case None
  with assms obtain t a jobs where j: "pl_jobs s = (t, a) # jobs" "i < length (pl_workers s)"
    by (cases "pl_jobs s") (auto simp: worker_busy_def)
  with None sum_list_update_less [OF j(2), of worker_work "Some ((t, a), Ph_Queued)"]
  show ?thesis by (simp add: worker_step_def pool_work_def worker_work_def)
next
  case (Some w)
  then obtain t a ph where at: "pl_workers s ! i = Some ((t, a), ph)" "i < length (pl_workers s)"
    using assms by (cases w) (auto simp: worker_busy_def)
  obtain sent "next" where run: "run_job t (is_cancelled s a) r ph = (sent, next)" by fastforce
  from run_job_work [OF run] sum_list_update_less [OF at(2), of worker_work "map_option (Pair (t, a)) next"] at run
  show ?thesis by (auto simp: worker_step_def pool_work_def worker_work_def split: option.splits)
qed

lemma loaders_only:
  assumes "labelled_run pool_step s (replicate n Lb_Work) t"
  shows "n + pool_work t \<le> pool_work s"
proof -
  have "ls = replicate (length ls) Lb_Work \<Longrightarrow> length ls + pool_work t \<le> pool_work s"
    if "labelled_run pool_step s ls t" for ls :: "'a pool_label list"
    using that
  proof (induction rule: labelled_run.induct)
    case (run_nil s)
    show ?case by simp
  next
    case (run_snoc s ls t l u)
    then have "\<forall>x \<in> set (ls @ [l]). x = Lb_Work" by (metis in_set_replicate)
    then have l: "l = Lb_Work" and ls: "ls = replicate (length ls) Lb_Work"
      by (auto simp: replicate_length_same)
    from run_snoc.hyps(2) l obtain i r where "worker_busy i t" "u = worker_step i r t"
      by (auto elim: pool_step.cases)
    with worker_step_work [of i t r] run_snoc.IH [OF ls] show ?case by simp
  qed
  from this [OF assms] show ?thesis by simp
qed

lemma idle_pool_answers:
  assumes ok: "pool_ok s" and idle: "\<forall>i. \<not> worker_busy i s"
  shows "pending_count (snd (poll_events s)) = 0"
    and "bt_get (pl_cancellations s) t \<noteq> None \<Longrightarrow>
      \<exists>ev \<in> set (fst (poll_events s)). event_ticket ev = t \<and> \<not> is_loading ev"
proof -
  have "\<not> worker_busy 0 s" using idle by blast
  then have "pl_jobs s = []" using ok by (auto simp: worker_busy_def pool_ok_def)
  moreover have "\<not> at_worker s i u a ph" for i u a ph
    using idle by (auto simp: worker_busy_def at_worker_def)
  ultimately have "held s = {}" by (simp add: held_def)
  then have un: "unanswered s u = None" for u using ok by (auto simp: pool_ok_def)
  have chan: "channel_ok (pends s) (pl_channel s)" using ok by (simp add: pool_ok_def)
  have answered: "\<exists>ev \<in> set (fst (poll_events s)). event_ticket ev = u \<and> \<not> is_loading ev"
    if "bt_get (pl_cancellations s) u \<noteq> None" for u
  proof -
    have "pends s u \<noteq> None" using that by (simp add: pends_eq)
    with un [of u] have "\<exists>ev \<in> set (pl_channel s). \<not> is_loading ev \<and> event_ticket ev = u"
      unfolding unanswered_def after_events_terminal by (auto split: if_splits)
    with poll_loop_terminals [OF chan, of "[]" "ticket_cancelled s" u] show ?thesis
      unfolding poll_events_def Let_def fst_conv by auto
  qed
  then show "bt_get (pl_cancellations s) t \<noteq> None \<Longrightarrow>
      \<exists>ev \<in> set (fst (poll_events s)). event_ticket ev = t \<and> \<not> is_loading ev" .
  have "bt_get (pl_cancellations (snd (poll_events s))) u = None" for u
    using answered [of u] by (cases "bt_get (pl_cancellations s) u")
      (auto simp: poll_events_def Let_def bt_get_remove_terminals)
  then have "set (bt_keys (pl_cancellations (snd (poll_events s)))) = {}" by (simp add: set_bt_keys)
  then show "pending_count (snd (poll_events s)) = 0" by (simp add: pending_count_def bt_keys_def)
qed

text \<open>
  C20: no accepted ticket is lost. From any reachable state the loaders take at most
  \<open>pool_work\<close> further steps, nine for each queued job; as long as a step is
  left a loader can take it; and when none is left, one poll delivers a final event for
  every pending ticket and nothing stays pending.
\<close>

theorem every_ticket_is_answered:
  assumes "labelled_run pool_step (pool_new workers capacity) ls s"
    and "labelled_run pool_step s (replicate n Lb_Work) s'"
  shows "n \<le> pool_work s \<and>
    ((\<exists>i. worker_busy i s') \<or>
      pending_count (snd (poll_events s')) = 0 \<and>
      (\<forall>t. bt_get (pl_cancellations s') t = None \<or>
         (\<exists>ev \<in> set (fst (poll_events s')). event_ticket ev = t \<and> \<not> is_loading ev)))"
proof (rule conjI)
  show "n \<le> pool_work s" using loaders_only [OF assms(2)] by simp
  have "pool_ok s'" using pool.run_keeps [OF assms(2) pool.run_keeps [OF assms(1) new_pool_ok]] .
  from idle_pool_answers [OF this] show "(\<exists>i. worker_busy i s') \<or>
      pending_count (snd (poll_events s')) = 0 \<and>
      (\<forall>t. bt_get (pl_cancellations s') t = None \<or>
         (\<exists>ev \<in> set (fst (poll_events s')). event_ticket ev = t \<and> \<not> is_loading ev))"
    by blast
qed

subsection \<open>A concrete run\<close>

text \<open>One loader and one request; the cancellation falls after the loader's last check.\<close>

definition demo_pool :: "nat pool" where
  "demo_pool = snd (begin_prepare (Inr ()) (pool_new 1 4))"

fun loader_steps :: "nat \<Rightarrow> nat pool \<Rightarrow> nat pool" where
  "loader_steps 0 s = s"
| "loader_steps (Suc n) s = worker_step 0 (Inr 5) (loader_steps n s)"

lemma demo_begin: "labelled_run pool_step (pool_new 1 4) [Lb_Begin 1 (Inr 1)] demo_pool"
proof -
  have "fst (begin_prepare (Inr ()) (pool_new 1 4 :: nat pool)) = Inr 1" by code_simp
  then have "begin_prepare (Inr ()) (pool_new 1 4) = (Inr 1, demo_pool)"
    by (simp add: demo_pool_def prod_eq_iff)
  moreover have "pl_next_ticket (pool_new 1 4 :: nat pool) = 1" by (simp add: pool_new_def)
  moreover have "(1 :: u64) \<noteq> - 1" by simp
  ultimately have "pool_step (pool_new 1 4) (Lb_Begin 1 (Inr 1)) demo_pool"
    using st_begin [of "pool_new 1 4" "Inr 1" demo_pool] by simp
  then show ?thesis by (blast intro: run_step labelled_run.run_nil)
qed

lemma loader_run:
  "(\<And>k. k < n \<Longrightarrow> worker_busy 0 (loader_steps k s)) \<Longrightarrow>
     labelled_run pool_step s (replicate n Lb_Work) (loader_steps n s)"
proof (induction n)
  case 0
  show ?case by (simp add: labelled_run.run_nil)
next
  case (Suc n)
  then have "labelled_run pool_step s (replicate n Lb_Work) (loader_steps n s)" by simp
  moreover have "pool_step (loader_steps n s) Lb_Work (loader_steps (Suc n) s)"
    using Suc.prems [of n] st_work [of 0 "loader_steps n s"] by simp
  ultimately have "labelled_run pool_step s (replicate n Lb_Work @ [Lb_Work]) (loader_steps (Suc n) s)"
    by (rule labelled_run.run_snoc)
  then show ?case by (simp add: replicate_append_same)
qed

lemma demo_busy: "k < 9 \<Longrightarrow> worker_busy 0 (loader_steps k demo_pool)"
proof -
  have "\<forall>k \<in> set [0..<9]. worker_busy 0 (loader_steps k demo_pool)" by code_simp
  then show "k < 9 \<Longrightarrow> worker_busy 0 (loader_steps k demo_pool)" by simp
qed

theorem every_ticket_is_answered_witness:
  "9 \<le> pool_work demo_pool
   \<and> (\<exists>ev \<in> set (fst (poll_events (loader_steps 9 demo_pool))). event_ticket ev = 1 \<and> \<not> is_loading ev)"
proof -
  let ?s = "loader_steps 9 demo_pool"
  have run: "labelled_run pool_step demo_pool (replicate 9 Lb_Work) ?s"
    using loader_run demo_busy by blast
  have "length (pl_workers ?s) = 1" "\<not> worker_busy 0 ?s" by code_simp+
  then have "\<not> worker_busy i ?s" for i by (cases i) (auto simp: worker_busy_def)
  moreover have "bt_get (pl_cancellations ?s) 1 \<noteq> None" by code_simp
  ultimately show ?thesis
    using every_ticket_is_answered [OF demo_begin run] by metis
qed

definition cancelled_late :: "nat pool" where
  "cancelled_late = snd (pool_cancel 1 (loader_steps 8 demo_pool))"

lemma demo_cancel:
  "labelled_run pool_step (pool_new 1 4)
     ((Lb_Begin 1 (Inr 1) # replicate 8 Lb_Work) @ Lb_Cancel 1 True #
      [Lb_Work, Lb_Poll (fst (poll_events (worker_step 0 (Inr 5) cancelled_late)))])
     (snd (poll_events (worker_step 0 (Inr 5) cancelled_late)))"
proof -
  let ?ls = "Lb_Begin 1 (Inr 1) # replicate 8 Lb_Work" and ?s = "loader_steps 8 demo_pool"
  have "labelled_run pool_step demo_pool (replicate 8 Lb_Work) ?s"
    using demo_busy by (intro loader_run) simp
  from run_trans [OF this demo_begin]
  have "labelled_run pool_step (pool_new 1 4) ?ls ?s" by simp
  moreover have "fst (pool_cancel 1 ?s)" by code_simp
  then have "pool_step ?s (Lb_Cancel 1 True) cancelled_late"
    by (intro st_cancel) (simp add: cancelled_late_def prod_eq_iff)
  moreover have "worker_busy 0 cancelled_late" by code_simp
  then have "pool_step cancelled_late Lb_Work (worker_step 0 (Inr 5) cancelled_late)" by (rule st_work)
  moreover have "pool_step t (Lb_Poll (fst (poll_events t))) (snd (poll_events t))" for t :: "nat pool"
    by (intro st_poll) simp
  ultimately have "labelled_run pool_step (pool_new 1 4)
      (((?ls @ [Lb_Cancel 1 True]) @ [Lb_Work]) @ [Lb_Poll (fst (poll_events (worker_step 0 (Inr 5) cancelled_late)))])
      (snd (poll_events (worker_step 0 (Inr 5) cancelled_late)))"
    by (blast intro: labelled_run.run_snoc)
  then show ?thesis by simp
qed

theorem cancelled_effect_is_never_activated_witness:
  "fst (poll_events (worker_step 0 (Inr 5) cancelled_late)) = [Ev_Cancelled 1]"
proof -
  let ?evs = "fst (poll_events (worker_step 0 (Inr 5) cancelled_late))"
  have one: "length ?evs = 1" "event_ticket (hd ?evs) = 1" by code_simp+
  then have "hd ?evs \<in> set ?evs" by (cases ?evs) auto
  from cancelled_effect_is_never_activated [OF demo_cancel _ this one(2)]
  have "hd ?evs = Ev_Cancelled 1" by simp
  with one(1) show ?thesis by (cases ?evs) auto
qed

theorem preparation_keeps_its_contract_witness:
  "abstract_run pool_contract nothing_pending [Lb_Begin 1 (Inr 1) :: nat pool_label]
     = Some (pool_viewed demo_pool)"
  using preparation_keeps_its_contract [OF demo_begin] .

end
