(* ===== verification/App_Routes.thy ===== *)
theory App_Routes
  imports Endpoint Effect_Host
begin

text \<open>
  Persisted per-application routes on Windows and the reconciler that decides, for one
  snapshot of the system, what each of them may do
  (\<^verbatim>\<open>pw-graph-config/src/windows.rs\<close>,
  \<^verbatim>\<open>pw-graph-backend/src/windows/app_route_reconciler.rs\<close>).
\<close>

subsection \<open>Selectors\<close>

record app_selector =
  ws_executable_path_hash :: "string option"
  ws_executable_name :: "string option"
  ws_package_family_name :: "string option"
  ws_app_user_model_id :: "string option"
  ws_display_name :: "string option"

definition selector_is_stable :: "app_selector \<Rightarrow> bool" where
  "selector_is_stable s =
     (ws_executable_path_hash s \<noteq> None \<or> ws_app_user_model_id s \<noteq> None \<or>
      (ws_package_family_name s \<noteq> None \<and> ws_executable_name s \<noteq> None))"

definition or_option :: "'a option \<Rightarrow> 'a option \<Rightarrow> 'a option" where
  "or_option a b = (case a of None \<Rightarrow> b | Some x \<Rightarrow> Some x)"

definition selector_stable_key :: "app_selector \<Rightarrow> string option" where
  "selector_stable_key s =
     or_option (ws_app_user_model_id s)
       (or_option (ws_package_family_name s) (ws_executable_path_hash s))"

definition selector_runtime_key :: "app_selector \<Rightarrow> string option" where
  "selector_runtime_key s =
     (case ws_app_user_model_id s of
        Some aumid \<Rightarrow> Some aumid
      | None \<Rightarrow>
        (case ws_package_family_name s of
           Some package \<Rightarrow>
             map_option (\<lambda>executable. ''package-family:'' @ package @ ''|executable:'' @ executable)
               (or_option (ws_executable_name s) (ws_executable_path_hash s))
         | None \<Rightarrow> ws_executable_path_hash s))"

definition same_text :: "string \<Rightarrow> string option \<Rightarrow> bool" where
  "same_text expected actual =
     (case actual of None \<Rightarrow> False | Some a \<Rightarrow> eq_ignore_ascii_case expected a)"

definition selector_matches :: "app_selector \<Rightarrow> app_selector \<Rightarrow> bool" where
  "selector_matches s candidate =
     (if \<not> selector_is_stable s then False
      else case ws_app_user_model_id s of
        Some expected \<Rightarrow> same_text expected (ws_app_user_model_id candidate)
      | None \<Rightarrow>
        (case (ws_package_family_name s, ws_executable_name s) of
           (Some package, Some name) \<Rightarrow>
             same_text package (ws_package_family_name candidate) \<and>
             same_text name (ws_executable_name candidate)
         | _ \<Rightarrow>
           (case ws_executable_path_hash s of
              None \<Rightarrow> False
            | Some expected \<Rightarrow> same_text expected (ws_executable_path_hash candidate))))"

definition selector_specificity :: "app_selector \<Rightarrow> nat" where
  "selector_specificity s =
     length (filter (\<lambda>field. field \<noteq> None)
       [ws_executable_path_hash s, ws_executable_name s, ws_package_family_name s,
        ws_app_user_model_id s, ws_display_name s])"

subsection \<open>Persisted routes\<close>

record effect_instance_config =
  ec_instance_id :: string
  ec_effect_id :: string
  ec_module_path :: "string option"
  ec_enabled :: bool
  ec_parameters :: "(string \<times> f32) list"
  ec_channel_policy :: channel_policy

record app_route =
  ar_application :: app_selector
  ar_destination_stable_id :: "string option"
  ar_destination_mmdevice_id :: "string option"
  ar_destination_endpoint_id :: "string option"
  ar_destination_name :: "string option"
  ar_virtualization_required :: bool
  ar_effect_chain :: "string list"
  ar_effect_instances :: "effect_instance_config list"
  ar_gain :: f32
  ar_enabled :: bool

definition matches_application :: "app_route \<Rightarrow> app_selector \<Rightarrow> bool" where
  "matches_application r candidate = (ar_enabled r \<and> selector_matches (ar_application r) candidate)"

definition restorable_effect_instances ::
  "app_route \<Rightarrow> (string, effect_instance_config list) result" where
  "restorable_effect_instances r =
     (if ar_effect_instances r = [] then
        (if ar_effect_chain r = [] then Inr []
         else Inl ''saved route contains legacy effect IDs without instance configuration'')
      else if ar_effect_chain r \<noteq> [] \<and>
          (length (ar_effect_chain r) \<noteq> length (ar_effect_instances r) \<or>
           list_ex (\<lambda>(i, c). i \<noteq> ec_effect_id c) (zip (ar_effect_chain r) (ar_effect_instances r)))
      then Inl ''saved route effect ID list does not match its instance configuration''
      else Inr (ar_effect_instances r))"

subsection \<open>Endpoints\<close>

datatype audio_flow = Flow_Render | Flow_Capture

record windows_endpoint =
  es_stable_id :: "string option"
  es_current_mmdevice_id :: "string option"
  es_friendly_name :: "string option"
  es_data_flow :: audio_flow

definition render_matches ::
  "(windows_endpoint \<Rightarrow> bool) \<Rightarrow> windows_endpoint list \<Rightarrow> windows_endpoint list" where
  "render_matches P endpoints = filter (\<lambda>e. es_data_flow e = Flow_Render \<and> P e) endpoints"

definition single_match ::
  "windows_endpoint list \<Rightarrow> (string, windows_endpoint option) result \<Rightarrow> string \<Rightarrow>
    (string, windows_endpoint option) result" where
  "single_match matches otherwise ambiguous =
     (case matches of [] \<Rightarrow> otherwise | [e] \<Rightarrow> Inr (Some e) | _ \<Rightarrow> Inl ambiguous)"

definition resolve_by_name ::
  "string option \<Rightarrow> windows_endpoint list \<Rightarrow> (string, windows_endpoint option) result" where
  "resolve_by_name name endpoints =
     (case name of
        None \<Rightarrow> Inr None
      | Some name \<Rightarrow>
          single_match
            (render_matches (\<lambda>e. case es_friendly_name e of
               None \<Rightarrow> False | Some candidate \<Rightarrow> eq_ignore_ascii_case candidate name) endpoints)
            (Inr None) ''saved destination name matches more than one render endpoint'')"

definition resolve_by_current ::
  "string option \<Rightarrow> string option \<Rightarrow> windows_endpoint list \<Rightarrow>
    (string, windows_endpoint option) result" where
  "resolve_by_current current name endpoints =
     (case current of
        None \<Rightarrow> resolve_by_name name endpoints
      | Some c \<Rightarrow>
          single_match
            (render_matches (\<lambda>e. es_current_mmdevice_id e = Some c \<or> es_stable_id e = Some c) endpoints)
            (resolve_by_name name endpoints)
            ''saved current destination ID matches more than one render endpoint'')"

definition resolve_destination ::
  "app_route \<Rightarrow> windows_endpoint list \<Rightarrow> (string, windows_endpoint option) result" where
  "resolve_destination r endpoints =
     (let current = or_option (ar_destination_mmdevice_id r) (ar_destination_endpoint_id r);
          otherwise = resolve_by_current current (ar_destination_name r) endpoints
      in case ar_destination_stable_id r of
           None \<Rightarrow> otherwise
         | Some s \<Rightarrow>
             single_match (render_matches (\<lambda>e. es_stable_id e = Some s) endpoints) otherwise
               ''saved stable destination ID matches more than one render endpoint'')"

subsection \<open>Plans\<close>

datatype route_state =
    RS_Disabled | RS_WaitingForApplication | RS_WaitingForIsolation | RS_ActivatingCapture
  | RS_ResolvingDestination | RS_PreparingEffects | RS_Active | RS_UnsupportedOs
  | RS_IdentityMismatch | RS_VirtualDriverMissing | RS_VirtualOutputNotSelected
  | RS_DestinationMissing | RS_ProcessCaptureFailed | RS_EffectRestoreFailed | RS_Degraded

datatype capture_readiness =
  Capture_NotRequested | Capture_Starting | Capture_Ready | Capture_Failed string

record route_candidate =
  rc_selector :: app_selector
  rc_pid :: u32
  rc_isolated :: bool

record route_activation =
  ra_rule_index :: nat
  ra_selector :: app_selector
  ra_pid :: u32
  ra_destination :: windows_endpoint
  ra_effect_chain :: "string list"
  ra_effect_instances :: "effect_instance_config list"
  ra_gain :: f32

record route_plan =
  rp_rule_index :: nat
  rp_state :: route_state
  rp_reason :: "string option"
  rp_application :: "route_candidate option"
  rp_destination :: "windows_endpoint option"
  rp_activation :: "route_activation option"

record route_environment =
  re_os_supported :: bool
  re_virtual_driver_ready :: bool
  re_effects_available :: bool
  re_applications :: "route_candidate list"
  re_endpoints :: "windows_endpoint list"
  re_captures :: "((string \<times> u32) \<times> capture_readiness) list"

record route_reconciler =
  rr_rules :: "app_route list"
  rr_plans :: "(nat, route_plan) btree"

definition route_reconciler_new :: "app_route list \<Rightarrow> route_reconciler" where
  "route_reconciler_new rules = \<lparr>rr_rules = rules, rr_plans = []\<rparr>"

definition set_rules :: "app_route list \<Rightarrow> route_reconciler \<Rightarrow> route_reconciler" where
  "set_rules rules r = r\<lparr>rr_rules := rules, rr_plans := []\<rparr>"

definition mark_degraded :: "nat \<Rightarrow> string \<Rightarrow> route_reconciler \<Rightarrow> route_reconciler" where
  "mark_degraded i reason r = r\<lparr>rr_plans := bt_modify i (\<lambda>p. p\<lparr>rp_state := RS_Degraded,
     rp_reason := Some reason, rp_activation := None\<rparr>) (rr_plans r)\<rparr>"

definition mark_effect_restore_failed :: "nat \<Rightarrow> string \<Rightarrow> route_reconciler \<Rightarrow> route_reconciler" where
  "mark_effect_restore_failed i reason r = r\<lparr>rr_plans := bt_modify i
     (\<lambda>p. p\<lparr>rp_state := RS_EffectRestoreFailed, rp_reason := Some reason, rp_activation := None\<rparr>)
     (rr_plans r)\<rparr>"

definition mark_effects_preparing :: "nat \<Rightarrow> string \<Rightarrow> route_reconciler \<Rightarrow> route_reconciler" where
  "mark_effects_preparing i reason r = r\<lparr>rr_plans := bt_modify i
     (\<lambda>p. p\<lparr>rp_state := RS_PreparingEffects, rp_reason := Some reason\<rparr>) (rr_plans r)\<rparr>"

definition mark_effects_active :: "nat \<Rightarrow> route_reconciler \<Rightarrow> route_reconciler" where
  "mark_effects_active i r = r\<lparr>rr_plans := bt_modify i
     (\<lambda>p. p\<lparr>rp_state := RS_Active, rp_reason := None\<rparr>) (rr_plans r)\<rparr>"

subsection \<open>Reconciliation\<close>

definition plan_base :: "nat \<Rightarrow> route_state \<Rightarrow> string \<Rightarrow> route_plan" where
  "plan_base i state reason = \<lparr>rp_rule_index = i, rp_state = state, rp_reason = Some reason,
     rp_application = None, rp_destination = None, rp_activation = None\<rparr>"

text \<open>
  \<^verbatim>\<open>min_by\<close> over the matching rules: the most specific, the first of equals.
\<close>

fun better_rule :: "nat \<times> app_route \<Rightarrow> nat \<times> app_route \<Rightarrow> nat \<times> app_route" where
  "better_rule a b =
     (if selector_specificity (ar_application (snd a)) < selector_specificity (ar_application (snd b)) \<or>
         selector_specificity (ar_application (snd a)) = selector_specificity (ar_application (snd b)) \<and>
         fst b < fst a
      then b else a)"

definition winning_rule :: "app_route list \<Rightarrow> app_selector \<Rightarrow> nat option" where
  "winning_rule rules candidate =
     (case filter (\<lambda>(_, r). ar_enabled r \<and> matches_application r candidate)
         (zip [0..<length rules] rules) of
        [] \<Rightarrow> None
      | x # xs \<Rightarrow> Some (fst (foldl better_rule x xs)))"

definition capture_state :: "route_environment \<Rightarrow> route_candidate \<Rightarrow> capture_readiness" where
  "capture_state env application =
     (case selector_runtime_key (rc_selector application) of
        None \<Rightarrow> Capture_NotRequested
      | Some key \<Rightarrow>
        (case map_of (re_captures env) (key, rc_pid application) of
           None \<Rightarrow> Capture_NotRequested | Some c \<Rightarrow> c))"

text \<open>The early returns up to the isolation of the application, then the rest.\<close>

definition route_gates ::
  "app_route list \<Rightarrow> nat \<Rightarrow> app_route \<Rightarrow> route_environment \<Rightarrow> (route_plan, route_candidate) result" where
  "route_gates rules i rule env =
     (let base = plan_base i in
      if \<not> ar_enabled rule then Inl (base RS_Disabled ''route is disabled'')
      else if \<not> re_os_supported env then
        Inl (base RS_UnsupportedOs
          ''process capture or local application routing is unsupported on this Windows build'')
      else case filter (\<lambda>c. selector_matches (ar_application rule) (rc_selector c))
          (re_applications env) of
        [] \<Rightarrow> Inl (base RS_WaitingForApplication
            ''no live render session matches the stable application selector'')
      | [application] \<Rightarrow>
          (if rc_pid application = 0 \<or> \<not> selector_is_stable (rc_selector application) then
             Inl ((base RS_IdentityMismatch ''live session has no verified stable identity'')
               \<lparr>rp_application := Some application\<rparr>)
           else if winning_rule rules (rc_selector application) \<notin> {None, Some i} then
             Inl ((base RS_Degraded ''a more specific persisted route owns this application'')
               \<lparr>rp_application := Some application\<rparr>)
           else if \<not> re_virtual_driver_ready env then
             Inl ((base RS_VirtualDriverMissing ''the optional virtual endpoint is not ready'')
               \<lparr>rp_application := Some application\<rparr>)
           else if \<not> rc_isolated application then
             Inl ((base RS_VirtualOutputNotSelected
                ''the application is not isolated on QPWGraph Virtual Output'')
               \<lparr>rp_application := Some application\<rparr>)
           else Inr application)
      | _ \<Rightarrow> Inl (base RS_Degraded
          ''stable application selector matches multiple live processes; refusing to choose a PID''))"

definition route_decision ::
  "nat \<Rightarrow> app_route \<Rightarrow> route_environment \<Rightarrow> route_candidate \<Rightarrow> route_plan" where
  "route_decision i rule env application =
     (let with_app = (\<lambda>state reason. (plan_base i state reason)\<lparr>rp_application := Some application\<rparr>)
      in case capture_state env application of
           Capture_Failed reason \<Rightarrow> with_app RS_ProcessCaptureFailed reason
         | Capture_Ready \<Rightarrow>
             (case resolve_destination rule (re_endpoints env) of
                Inl reason \<Rightarrow> with_app RS_DestinationMissing reason
              | Inr None \<Rightarrow>
                  with_app RS_DestinationMissing ''saved destination is not currently available''
              | Inr (Some destination) \<Rightarrow>
                (case restorable_effect_instances rule of
                   Inl reason \<Rightarrow>
                     (with_app RS_EffectRestoreFailed reason)\<lparr>rp_destination := Some destination\<rparr>
                 | Inr instances \<Rightarrow>
                     if \<not> re_effects_available env \<and> instances \<noteq> [] then
                       (with_app RS_EffectRestoreFailed ''the Windows effect host is unavailable'')
                         \<lparr>rp_destination := Some destination\<rparr>
                     else
                       \<lparr>rp_rule_index = i, rp_state = RS_Active, rp_reason = None,
                        rp_application = Some application, rp_destination = Some destination,
                        rp_activation = Some
                          \<lparr>ra_rule_index = i, ra_selector = rc_selector application,
                           ra_pid = rc_pid application, ra_destination = destination,
                           ra_effect_chain = ar_effect_chain rule,
                           ra_effect_instances = instances, ra_gain = ar_gain rule\<rparr>\<rparr>))
         | _ \<Rightarrow> with_app RS_ActivatingCapture ''waiting for process-loopback capture'')"

definition reconcile_app_rule ::
  "app_route list \<Rightarrow> nat \<Rightarrow> app_route \<Rightarrow> route_environment \<Rightarrow> route_plan" where
  "reconcile_app_rule rules i rule env =
     (case route_gates rules i rule env of
        Inl plan \<Rightarrow> plan
      | Inr application \<Rightarrow> route_decision i rule env application)"

definition reconcile_routes :: "route_environment \<Rightarrow> route_reconciler \<Rightarrow> route_reconciler" where
  "reconcile_routes env r =
     r\<lparr>rr_plans := foldl (\<lambda>m (i, rule). bt_insert i (reconcile_app_rule (rr_rules r) i rule env) m)
         [] (zip [0..<length (rr_rules r)] (rr_rules r))\<rparr>"

definition capture_requests :: "route_reconciler \<Rightarrow> (nat \<times> app_selector \<times> u32) list" where
  "capture_requests r =
     filter_map (\<lambda>plan.
         if rp_state plan \<in> {RS_ActivatingCapture, RS_PreparingEffects, RS_Active} then
           map_option (\<lambda>a. (rp_rule_index plan, rc_selector a, rc_pid a)) (rp_application plan)
         else None)
       (bt_values (rr_plans r))"

definition migrate_destination :: "windows_endpoint list \<Rightarrow> app_route \<Rightarrow> app_route" where
  "migrate_destination endpoints rule =
     (case resolve_destination rule endpoints of
        Inr (Some e) \<Rightarrow>
          rule\<lparr>ar_destination_stable_id := or_option (ar_destination_stable_id rule) (es_stable_id e),
               ar_destination_mmdevice_id :=
                 or_option (ar_destination_mmdevice_id rule) (es_current_mmdevice_id e),
               ar_destination_name := or_option (ar_destination_name rule) (es_friendly_name e)\<rparr>
      | _ \<Rightarrow> rule)"

definition migrate_destination_selectors ::
  "windows_endpoint list \<Rightarrow> route_reconciler \<Rightarrow> route_reconciler" where
  "migrate_destination_selectors endpoints r =
     r\<lparr>rr_rules := map (migrate_destination endpoints) (rr_rules r)\<rparr>"

end
