(* ===== verification/App_Route_Props.thy ===== *)
theory App_Route_Props
  imports App_Routes
begin

text \<open>
  What the reconciler of application routes guarantees: a route becomes active only behind
  every safety gate, one application is never routed or captured twice, and the migration
  of old endpoint fields keeps the destination.
\<close>

subsection \<open>The plans of a pass\<close>

lemma plans_of_pass:
  "bt_get (foldl (\<lambda>m (i, rule). bt_insert i (f i rule) m) m (zip [n..<n + length rules] rules)) i =
     (if n \<le> i \<and> i < n + length rules then Some (f i (rules ! (i - n))) else bt_get m i)"
proof (induction rules arbitrary: n m)
  case Nil
  show ?case by auto
next
  case (Cons r rules)
  have upt: "[n..<n + length (r # rules)] = n # [Suc n..<Suc n + length rules]"
    using upt_conv_Cons [of n "n + length (r # rules)"] by (simp del: upt_Suc)
  show ?case
    unfolding upt using Cons.IH [of "bt_insert n (f n r) m" "Suc n"]
    by (auto simp: nth_Cons')
qed

lemma reconciled_plan:
  "bt_get (rr_plans (reconcile_routes env r)) i =
     (if i < length (rr_rules r)
      then Some (reconcile_app_rule (rr_rules r) i (rr_rules r ! i) env) else None)"
  using plans_of_pass [of "\<lambda>i rule. reconcile_app_rule (rr_rules r) i rule env" "[]" 0 "rr_rules r" i]
  by (simp add: reconcile_routes_def)

lemma plans_of_pass_wf:
  "bt_wf m \<Longrightarrow> bt_wf (foldl (\<lambda>m (i, rule). bt_insert i (f i rule) m) m xs)"
  by (induction xs arbitrary: m) auto

lemma reconciled_wf: "bt_wf (rr_plans (reconcile_routes env r))"
  by (simp add: reconcile_routes_def plans_of_pass_wf)

text \<open>The gates, in the order of the code.\<close>

definition route_candidate_for ::
  "app_route list \<Rightarrow> nat \<Rightarrow> route_environment \<Rightarrow> route_candidate \<Rightarrow> bool" where
  "route_candidate_for rules i env a \<longleftrightarrow>
     ar_enabled (rules ! i) \<and> re_os_supported env \<and>
     filter (\<lambda>c. selector_matches (ar_application (rules ! i)) (rc_selector c)) (re_applications env) = [a] \<and>
     rc_pid a \<noteq> 0 \<and> selector_is_stable (rc_selector a) \<and>
     winning_rule rules (rc_selector a) \<in> {None, Some i} \<and>
     re_virtual_driver_ready env \<and> rc_isolated a"

definition route_ready ::
  "app_route list \<Rightarrow> nat \<Rightarrow> route_environment \<Rightarrow> route_candidate \<Rightarrow> windows_endpoint \<Rightarrow>
    effect_instance_config list \<Rightarrow> bool" where
  "route_ready rules i env a d instances \<longleftrightarrow>
     route_candidate_for rules i env a \<and> capture_state env a = Capture_Ready \<and>
     resolve_destination (rules ! i) (re_endpoints env) = Inr (Some d) \<and>
     restorable_effect_instances (rules ! i) = Inr instances \<and>
     (re_effects_available env \<or> instances = [])"

lemma gates_passed: "route_gates rules i (rules ! i) env = Inr a \<longleftrightarrow> route_candidate_for rules i env a"
  by (auto simp: route_gates_def route_candidate_for_def Let_def split: list.splits if_splits)

lemma gates_closed:
  "route_gates rules i rule env = Inl p \<Longrightarrow> rp_activation p = None
     \<and> rp_state p \<notin> {RS_ActivatingCapture, RS_PreparingEffects, RS_Active} \<and> rp_rule_index p = i"
  by (auto simp: route_gates_def plan_base_def Let_def split: list.splits if_splits)

lemma decision_fields [simp]:
  "rp_application (route_decision i rule env a) = Some a" "rp_rule_index (route_decision i rule env a) = i"
  by (auto simp: route_decision_def plan_base_def Let_def
      split: capture_readiness.splits sum.splits option.splits)

lemma decision_active:
  "rp_activation (route_decision i rule env a) = Some x \<longleftrightarrow>
     (\<exists>d instances. capture_state env a = Capture_Ready \<and>
        resolve_destination rule (re_endpoints env) = Inr (Some d) \<and>
        restorable_effect_instances rule = Inr instances \<and>
        (re_effects_available env \<or> instances = []) \<and>
        x = \<lparr>ra_rule_index = i, ra_selector = rc_selector a, ra_pid = rc_pid a, ra_destination = d,
             ra_effect_chain = ar_effect_chain rule, ra_effect_instances = instances,
             ra_gain = ar_gain rule\<rparr>)"
  by (auto simp: route_decision_def plan_base_def Let_def
      split: capture_readiness.splits sum.splits option.splits)

lemma decision_state:
  "rp_state (route_decision i rule env a) = RS_Active \<longleftrightarrow> rp_activation (route_decision i rule env a) \<noteq> None"
  by (auto simp: route_decision_def plan_base_def Let_def
      split: capture_readiness.splits sum.splits option.splits)

lemma rule_active_iff:
  "rp_activation (reconcile_app_rule rules i (rules ! i) env) = Some x \<longleftrightarrow>
     (\<exists>a d instances. route_ready rules i env a d instances \<and>
        x = \<lparr>ra_rule_index = i, ra_selector = rc_selector a, ra_pid = rc_pid a, ra_destination = d,
             ra_effect_chain = ar_effect_chain (rules ! i), ra_effect_instances = instances,
             ra_gain = ar_gain (rules ! i)\<rparr>)"
proof (cases "route_gates rules i (rules ! i) env")
  case (Inl p)
  then have "\<not> route_candidate_for rules i env a" for a using gates_passed [of rules i env a] by simp
  with Inl gates_closed [OF Inl] show ?thesis by (simp add: reconcile_app_rule_def route_ready_def)
next
  case (Inr a)
  then have "route_candidate_for rules i env b \<longleftrightarrow> b = a" for b
    using gates_passed [of rules i env b] by auto
  with Inr show ?thesis
    by (simp add: reconcile_app_rule_def route_ready_def decision_active)
qed

lemma rule_state_active_iff:
  "rp_state (reconcile_app_rule rules i rule env) = RS_Active \<longleftrightarrow>
     rp_activation (reconcile_app_rule rules i rule env) \<noteq> None"
  using gates_closed [of rules i rule env]
  by (auto simp: reconcile_app_rule_def decision_state split: sum.splits)

lemma rule_capture:
  assumes "rp_state (reconcile_app_rule rules i (rules ! i) env)
      \<in> {RS_ActivatingCapture, RS_PreparingEffects, RS_Active}"
  obtains a where "rp_application (reconcile_app_rule rules i (rules ! i) env) = Some a"
    and "route_candidate_for rules i env a"
proof (cases "route_gates rules i (rules ! i) env")
  case (Inl p)
  with gates_closed [OF Inl] assms show ?thesis by (simp add: reconcile_app_rule_def)
next
  case (Inr a)
  with gates_passed [of rules i env a] that [of a] show ?thesis by (simp add: reconcile_app_rule_def)
qed

lemma rule_index_kept [simp]: "rp_rule_index (reconcile_app_rule rules i rule env) = i"
  using gates_closed [of rules i rule env]
  by (auto simp: reconcile_app_rule_def split: sum.splits)

subsection \<open>One route for one application\<close>

lemma candidate_is_live:
  assumes "route_candidate_for rules i env a"
  shows "a \<in> set (re_applications env)"
    and "selector_matches (ar_application (rules ! i)) (rc_selector a)"
proof -
  have "a \<in> set (filter (\<lambda>c. selector_matches (ar_application (rules ! i)) (rc_selector c)) (re_applications env))"
    using assms by (simp add: route_candidate_for_def)
  then show "a \<in> set (re_applications env)"
    and "selector_matches (ar_application (rules ! i)) (rc_selector a)" by auto
qed

lemma candidate_rule_wins:
  assumes "route_candidate_for rules i env a" "i < length rules"
  shows "winning_rule rules (rc_selector a) = Some i"
proof -
  have "matches_application (rules ! i) (rc_selector a)"
    using assms(1) candidate_is_live(2) [OF assms(1)]
    by (simp add: matches_application_def route_candidate_for_def)
  moreover have "(i, rules ! i) \<in> set (zip [0..<length rules] rules)"
    using assms(2) by (force simp: set_zip)
  ultimately have "filter (\<lambda>(_, r). ar_enabled r \<and> matches_application r (rc_selector a))
      (zip [0..<length rules] rules) \<noteq> []"
    using assms(1) by (auto simp: filter_empty_conv route_candidate_for_def)
  then have "winning_rule rules (rc_selector a) \<noteq> None"
    by (auto simp: winning_rule_def split: list.splits)
  with assms(1) show ?thesis by (auto simp: route_candidate_for_def)
qed

lemma one_rule_per_application:
  assumes "route_candidate_for rules i env a" "route_candidate_for rules j env b"
    and "i < length rules" "j < length rules" "rc_selector a = rc_selector b"
  shows "i = j"
  using candidate_rule_wins [OF assms(1,3)] candidate_rule_wins [OF assms(2,4)] assms(5) by simp

definition captured_pid :: "route_plan \<Rightarrow> u32 option" where
  "captured_pid p =
     (if rp_state p \<in> {RS_ActivatingCapture, RS_PreparingEffects, RS_Active}
      then map_option rc_pid (rp_application p) else None)"

lemma captured_plan:
  assumes "bt_get (rr_plans (reconcile_routes env r)) i = Some p" "captured_pid p = Some pid"
  obtains a where "rc_pid a = pid" "route_candidate_for (rr_rules r) i env a" "i < length (rr_rules r)"
proof -
  have i: "i < length (rr_rules r)" and p: "p = reconcile_app_rule (rr_rules r) i (rr_rules r ! i) env"
    using assms(1) by (auto simp: reconciled_plan split: if_splits)
  have "rp_state p \<in> {RS_ActivatingCapture, RS_PreparingEffects, RS_Active}"
    using assms(2) by (auto simp: captured_pid_def split: if_splits)
  then obtain a where "rp_application p = Some a" "route_candidate_for (rr_rules r) i env a"
    unfolding p by (rule rule_capture)
  with that i assms(2) show ?thesis by (auto simp: captured_pid_def split: if_splits)
qed

lemma bt_values_nth: "bt_wf m \<Longrightarrow> k < length m \<Longrightarrow> bt_get m (fst (m ! k)) = Some (snd (m ! k))"
  by (simp add: bt_get_iff)

lemma distinct_filter_map_by:
  assumes "\<And>i j y. i < length xs \<Longrightarrow> j < length xs \<Longrightarrow> f (xs ! i) = Some y \<Longrightarrow> f (xs ! j) = Some y \<Longrightarrow> i = j"
  shows "distinct (filter_map f xs)"
  using assms
proof (induction xs)
  case Nil
  show ?case by simp
next
  case (Cons x xs)
  have "distinct (filter_map f xs)"
  proof (rule Cons.IH)
    fix i j y
    assume "i < length xs" "j < length xs" "f (xs ! i) = Some y" "f (xs ! j) = Some y"
    then show "i = j" using Cons.prems [of "Suc i" "Suc j" y] by simp
  qed
  moreover have "y \<notin> set (filter_map f xs)" if "f x = Some y" for y
  proof
    assume "y \<in> set (filter_map f xs)"
    then obtain k where "k < length xs" "f (xs ! k) = Some y"
      by (auto simp: set_filter_map in_set_conv_nth)
    with that Cons.prems [of 0 "Suc k" y] show False by simp
  qed
  ultimately show ?case by (auto split: option.split)
qed

lemma map_filter_map: "map g (filter_map f xs) = filter_map (\<lambda>x. map_option g (f x)) xs"
  by (induction xs) (auto split: option.split)

subsection \<open>Properties\<close>

text \<open>
  What the gates ask for, said without the functions that decide it. A rule owns an
  application when no other enabled rule that matches it is more specific, nor equally
  specific and earlier. A destination is found by the first configured identifier (stable id,
  current or old device id, name) that any render endpoint answers to, and only one does.
\<close>

definition rule_owns :: "app_route list \<Rightarrow> nat \<Rightarrow> app_selector \<Rightarrow> bool" where
  "rule_owns rules i s \<longleftrightarrow>
     (\<forall>j < length rules. j \<noteq> i \<and> ar_enabled (rules ! j) \<and>
        selector_matches (ar_application (rules ! j)) s \<longrightarrow>
        selector_specificity (ar_application (rules ! j)) < selector_specificity (ar_application (rules ! i)) \<or>
        selector_specificity (ar_application (rules ! j)) = selector_specificity (ar_application (rules ! i)) \<and>
        i < j)"

definition destination_tests :: "app_route \<Rightarrow> (windows_endpoint \<Rightarrow> bool) list" where
  "destination_tests r =
     map (\<lambda>s e. es_stable_id e = Some s) (case ar_destination_stable_id r of None \<Rightarrow> [] | Some s \<Rightarrow> [s]) @
     map (\<lambda>c e. es_current_mmdevice_id e = Some c \<or> es_stable_id e = Some c)
       (case (ar_destination_mmdevice_id r, ar_destination_endpoint_id r) of
          (Some c, _) \<Rightarrow> [c] | (None, Some c) \<Rightarrow> [c] | _ \<Rightarrow> []) @
     map (\<lambda>n e. \<exists>name. es_friendly_name e = Some name \<and> eq_ignore_ascii_case name n)
       (case ar_destination_name r of None \<Rightarrow> [] | Some n \<Rightarrow> [n])"

definition destination_found :: "app_route \<Rightarrow> windows_endpoint list \<Rightarrow> windows_endpoint \<Rightarrow> bool" where
  "destination_found r endpoints d \<longleftrightarrow>
     (\<exists>before test after. destination_tests r = before @ test # after \<and>
        (\<forall>t \<in> set before. \<forall>e \<in> set endpoints. es_data_flow e = Flow_Render \<longrightarrow> \<not> t e) \<and>
        filter (\<lambda>e. es_data_flow e = Flow_Render \<and> test e) endpoints = [d])"

definition beats :: "nat \<times> app_route \<Rightarrow> nat \<times> app_route \<Rightarrow> bool" where
  "beats a b \<longleftrightarrow>
     selector_specificity (ar_application (snd b)) < selector_specificity (ar_application (snd a)) \<or>
     selector_specificity (ar_application (snd b)) = selector_specificity (ar_application (snd a)) \<and>
     fst a \<le> fst b"

lemma best_rule:
  "foldl better_rule x xs \<in> set (x # xs) \<and> (\<forall>y \<in> set (x # xs). beats (foldl better_rule x xs) y)"
proof (induction xs arbitrary: x)
  case Nil
  show ?case by (simp add: beats_def)
next
  case (Cons z xs)
  have "better_rule x z \<in> {x, z} \<and> beats (better_rule x z) x \<and> beats (better_rule x z) z"
    by (auto simp: beats_def)
  moreover have trans: "beats a b \<Longrightarrow> beats b c \<Longrightarrow> beats a c" for a b c
    by (auto simp: beats_def)
  ultimately show ?case
    using Cons.IH [of "better_rule x z"] by (auto simp del: better_rule.simps) (metis trans)+
qed

lemma winning_rule_owns:
  assumes "i < length rules" "ar_enabled (rules ! i)" "selector_matches (ar_application (rules ! i)) s"
  shows "winning_rule rules s = Some i \<longleftrightarrow> rule_owns rules i s"
proof -
  let ?ms = "filter (\<lambda>(_, r). ar_enabled r \<and> matches_application r s) (zip [0..<length rules] rules)"
  have mem: "(j, r) \<in> set ?ms \<longleftrightarrow> j < length rules \<and> r = rules ! j \<and> ar_enabled r \<and>
      selector_matches (ar_application r) s" for j r
    by (force simp: set_zip matches_application_def)
  have i: "(i, rules ! i) \<in> set ?ms" unfolding mem using assms by simp
  then obtain x xs where ms: "?ms = x # xs" by (cases ?ms) auto
  obtain w r where w: "foldl better_rule x xs = (w, r)" by fastforce
  have won: "winning_rule rules s = Some w" by (simp add: winning_rule_def ms w)
  have best: "(w, r) \<in> set ?ms" "\<And>y. y \<in> set ?ms \<Longrightarrow> beats (w, r) y"
    using best_rule [of x xs] w ms by auto
  then have r: "w < length rules" "r = rules ! w" "ar_enabled (rules ! w)"
    "selector_matches (ar_application (rules ! w)) s" using mem [of w r] by auto
  show ?thesis
  proof
    assume "winning_rule rules s = Some i"
    with won have "w = i" by simp
    then show "rule_owns rules i s"
      using best(2) mem r(2) by (force simp: rule_owns_def beats_def)
  next
    assume owns: "rule_owns rules i s"
    have "w = i"
    proof (rule ccontr)
      assume "w \<noteq> i"
      with owns r best(2) [OF i] show False by (auto simp: rule_owns_def beats_def)
    qed
    with won show "winning_rule rules s = Some i" by simp
  qed
qed

lemma restorable_iff:
  "restorable_effect_instances r = Inr instances \<longleftrightarrow>
     instances = ar_effect_instances r \<and>
     (ar_effect_chain r = [] \<or> ar_effect_chain r = map ec_effect_id (ar_effect_instances r))"
proof -
  have "length xs = length ys \<and> \<not> list_ex (\<lambda>(i, c). i \<noteq> ec_effect_id c) (zip xs ys) \<longleftrightarrow>
      xs = map ec_effect_id ys" for xs ys
    by (induction xs ys rule: list_induct2') auto
  then show ?thesis by (auto simp: restorable_effect_instances_def)
qed

lemma single_match_iff:
  "single_match ms other m = Inr (Some e) \<longleftrightarrow> ms = [e] \<or> ms = [] \<and> other = Inr (Some e)"
  by (auto simp: single_match_def split: list.splits)

fun found_by :: "(windows_endpoint \<Rightarrow> bool) list \<Rightarrow> windows_endpoint list \<Rightarrow> windows_endpoint \<Rightarrow> bool" where
  "found_by [] es d = False"
| "found_by (t # ts) es d =
     (render_matches t es = [d] \<or> render_matches t es = [] \<and> found_by ts es d)"

lemma found_by_iff:
  "found_by ts es d \<longleftrightarrow> (\<exists>before test after. ts = before @ test # after \<and>
     (\<forall>t \<in> set before. render_matches t es = []) \<and> render_matches test es = [d])"
proof (induction ts)
  case Nil
  show ?case by simp
next
  case (Cons t ts)
  show ?case (is "_ \<longleftrightarrow> (\<exists>before test after. ?split before test after)")
  proof
    assume "found_by (t # ts) es d"
    then consider "render_matches t es = [d]" | "render_matches t es = []" "found_by ts es d" by auto
    then show "\<exists>before test after. ?split before test after"
    proof cases
      case 1
      then show ?thesis by (intro exI [of _ "[]"]) auto
    next
      case 2
      then obtain before test after where "ts = before @ test # after"
        "\<forall>t \<in> set before. render_matches t es = []" "render_matches test es = [d]"
        using Cons.IH by auto
      then show ?thesis using 2 by (intro exI [of _ "t # before"]) auto
    qed
  next
    assume "\<exists>before test after. ?split before test after"
    then obtain before test after where "?split before test after" by blast
    then show "found_by (t # ts) es d" using Cons.IH by (cases before) auto
  qed
qed

lemma resolve_destination_found:
  "resolve_destination r endpoints = Inr (Some d) \<longleftrightarrow> destination_found r endpoints d"
proof -
  have "destination_found r endpoints d \<longleftrightarrow> found_by (destination_tests r) endpoints d"
    unfolding found_by_iff destination_found_def render_matches_def by (simp add: filter_empty_conv)
  moreover have named: "(\<lambda>e. case es_friendly_name e of None \<Rightarrow> False
        | Some candidate \<Rightarrow> eq_ignore_ascii_case candidate name)
      = (\<lambda>e. \<exists>n. es_friendly_name e = Some n \<and> eq_ignore_ascii_case n name)" for name
    by (auto simp: fun_eq_iff split: option.split)
  moreover have "resolve_by_name name endpoints = Inr (Some d) \<longleftrightarrow>
      (\<exists>n. name = Some n \<and> render_matches (\<lambda>e. \<exists>m. es_friendly_name e = Some m \<and>
         eq_ignore_ascii_case m n) endpoints = [d])" for name
    unfolding resolve_by_name_def named by (cases name) (simp_all add: single_match_iff)
  ultimately show ?thesis
    by (simp add: destination_tests_def resolve_destination_def resolve_by_current_def
        single_match_iff or_option_def Let_def split: option.split)
qed

text \<open>
  C9: a pass makes a persisted route active exactly when every gate is open: the rule is
  enabled on a supported system, exactly one live session matches it, that session has a
  process and a stable identity, no more specific rule nor an earlier one of equal specificity
  matches it, it is isolated on the ready virtual output, the capture of its own process is
  ready, its first configured destination that is present is one endpoint, and its complete
  effect chain can be restored.
\<close>

theorem route_active_iff_every_gate_open:
  "(\<exists>p. bt_get (rr_plans (reconcile_routes env r)) i = Some p \<and> rp_state p = RS_Active) \<longleftrightarrow>
     i < length (rr_rules r) \<and> ar_enabled (rr_rules r ! i) \<and> re_os_supported env \<and>
     re_virtual_driver_ready env \<and>
     (\<exists>a d key.
        filter (\<lambda>c. selector_matches (ar_application (rr_rules r ! i)) (rc_selector c))
          (re_applications env) = [a] \<and>
        rc_pid a \<noteq> 0 \<and> selector_is_stable (rc_selector a) \<and> rc_isolated a \<and>
        rule_owns (rr_rules r) i (rc_selector a) \<and>
        selector_runtime_key (rc_selector a) = Some key \<and>
        map_of (re_captures env) (key, rc_pid a) = Some Capture_Ready \<and>
        destination_found (rr_rules r ! i) (re_endpoints env) d) \<and>
     (ar_effect_chain (rr_rules r ! i) = [] \<or>
      ar_effect_chain (rr_rules r ! i) = map ec_effect_id (ar_effect_instances (rr_rules r ! i))) \<and>
     (re_effects_available env \<or> ar_effect_instances (rr_rules r ! i) = [])"
    (is "?active = ?gates")
proof -
  let ?rules = "rr_rules r" and ?rule = "rr_rules r ! i"
  have "?active \<longleftrightarrow> i < length ?rules \<and> (\<exists>a d instances. route_ready ?rules i env a d instances)"
    using rule_active_iff [of ?rules i env]
    by (auto simp: reconciled_plan rule_state_active_iff)
  also have "\<dots> \<longleftrightarrow> i < length ?rules \<and> (\<exists>a d. route_candidate_for ?rules i env a \<and>
      winning_rule ?rules (rc_selector a) = Some i \<and> capture_state env a = Capture_Ready \<and>
      destination_found ?rule (re_endpoints env) d) \<and>
     (ar_effect_chain ?rule = [] \<or> ar_effect_chain ?rule = map ec_effect_id (ar_effect_instances ?rule)) \<and>
     (re_effects_available env \<or> ar_effect_instances ?rule = [])"
    using candidate_rule_wins [of ?rules i env]
    by (auto simp: route_ready_def restorable_iff resolve_destination_found)
  also have "\<dots> \<longleftrightarrow> ?gates"
  proof -
    have "route_candidate_for ?rules i env a \<and> winning_rule ?rules (rc_selector a) = Some i \<longleftrightarrow>
        ar_enabled ?rule \<and> re_os_supported env \<and> re_virtual_driver_ready env \<and>
        filter (\<lambda>c. selector_matches (ar_application ?rule) (rc_selector c)) (re_applications env) = [a] \<and>
        rc_pid a \<noteq> 0 \<and> selector_is_stable (rc_selector a) \<and> rc_isolated a \<and>
        rule_owns ?rules i (rc_selector a)" if "i < length ?rules" for a
    proof -
      have "selector_matches (ar_application ?rule) (rc_selector a)"
        if "filter (\<lambda>c. selector_matches (ar_application ?rule) (rc_selector c)) (re_applications env) = [a]"
        using arg_cong [OF that, of set] by auto
      then show ?thesis
        using winning_rule_owns [OF that, of "rc_selector a"] by (auto simp: route_candidate_for_def)
    qed
    moreover have "capture_state env a = Capture_Ready \<longleftrightarrow>
        (\<exists>key. selector_runtime_key (rc_selector a) = Some key \<and>
           map_of (re_captures env) (key, rc_pid a) = Some Capture_Ready)" for a
      by (auto simp: capture_state_def split: option.split)
    ultimately show ?thesis by blast
  qed
  finally show ?thesis .
qed

text \<open>
  C21: when the snapshot knows each process under one identity, a pass never asks for two
  captures of one process, so no application is captured and rendered twice, whatever
  rules the configuration holds.
\<close>

theorem no_process_captured_twice:
  assumes "\<forall>a \<in> set (re_applications env). \<forall>b \<in> set (re_applications env).
      rc_pid a = rc_pid b \<longrightarrow> rc_selector a = rc_selector b"
  shows "distinct (map (\<lambda>(_, _, pid). pid) (capture_requests (reconcile_routes env r)))"
proof -
  let ?m = "rr_plans (reconcile_routes env r)"
  have "distinct (filter_map captured_pid (bt_values ?m))"
  proof (rule distinct_filter_map_by)
    fix k l pid
    assume kl: "k < length (bt_values ?m)" "l < length (bt_values ?m)"
      and pids: "captured_pid (bt_values ?m ! k) = Some pid" "captured_pid (bt_values ?m ! l) = Some pid"
    then have k: "k < length ?m" "captured_pid (snd (?m ! k)) = Some pid"
      and l: "l < length ?m" "captured_pid (snd (?m ! l)) = Some pid"
      by (simp_all add: bt_values_def)
    from captured_plan [OF bt_values_nth [OF reconciled_wf k(1)] k(2)] obtain a where
      a: "rc_pid a = pid" "route_candidate_for (rr_rules r) (fst (?m ! k)) env a"
        "fst (?m ! k) < length (rr_rules r)" .
    from captured_plan [OF bt_values_nth [OF reconciled_wf l(1)] l(2)] obtain b where
      b: "rc_pid b = pid" "route_candidate_for (rr_rules r) (fst (?m ! l)) env b"
        "fst (?m ! l) < length (rr_rules r)" .
    have "rc_selector a = rc_selector b"
      using assms candidate_is_live(1) [OF a(2)] candidate_is_live(1) [OF b(2)] a(1) b(1) by metis
    from one_rule_per_application [OF a(2) b(2) a(3) b(3) this] have "fst (?m ! k) = fst (?m ! l)" .
    then have "map fst ?m ! k = map fst ?m ! l" using k l by simp
    moreover have "distinct (map fst ?m)" using distinct_bt_keys [OF reconciled_wf] by (simp add: bt_keys_def)
    ultimately show "k = l" using k(1) l(1) by (metis length_map nth_eq_iff_index_eq)
  qed
  moreover have "(\<lambda>x. map_option (\<lambda>(_, _, pid). pid)
      (if rp_state x \<in> {RS_ActivatingCapture, RS_PreparingEffects, RS_Active} then
         map_option (\<lambda>a. (rp_rule_index x, rc_selector a, rc_pid a)) (rp_application x)
       else None)) = captured_pid"
    by (auto simp: captured_pid_def fun_eq_iff option.map_comp comp_def)
  ultimately show ?thesis unfolding capture_requests_def map_filter_map by simp
qed

subsection \<open>Migration of old destination fields\<close>

text \<open>The ids of an endpoint; they identify it when no other render endpoint has one of them.\<close>

definition endpoint_ids :: "windows_endpoint \<Rightarrow> string set" where
  "endpoint_ids e = set_option (es_stable_id e) \<union> set_option (es_current_mmdevice_id e)"

definition identified :: "windows_endpoint list \<Rightarrow> windows_endpoint \<Rightarrow> bool" where
  "identified endpoints e \<longleftrightarrow> distinct endpoints \<and>
     (\<forall>x \<in> set endpoints. es_data_flow x = Flow_Render \<and> x \<noteq> e \<longrightarrow> endpoint_ids x \<inter> endpoint_ids e = {})"

lemma render_matches_in:
  "render_matches P endpoints = [e] \<Longrightarrow> e \<in> set endpoints \<and> es_data_flow e = Flow_Render \<and> P e"
proof -
  assume "render_matches P endpoints = [e]"
  then have "e \<in> set (render_matches P endpoints)" by simp
  then show ?thesis by (auto simp: render_matches_def)
qed

lemma distinct_filter_singleton:
  "distinct xs \<Longrightarrow> x \<in> set xs \<Longrightarrow> (\<And>y. y \<in> set xs \<Longrightarrow> P y \<longleftrightarrow> y = x) \<Longrightarrow> filter P xs = [x]"
proof (induction xs)
  case Nil
  then show ?case by simp
next
  case (Cons y ys)
  then show ?case by (cases "y = x") (auto simp: filter_empty_conv)
qed

lemma identified_match:
  assumes "identified endpoints e" "e \<in> set endpoints" "es_data_flow e = Flow_Render"
    and "P e" "\<And>x. P x \<Longrightarrow> endpoint_ids x \<inter> endpoint_ids e \<noteq> {}"
  shows "render_matches P endpoints = [e]"
  unfolding render_matches_def
  using assms by (intro distinct_filter_singleton) (auto simp: identified_def)

lemma name_resolved:
  assumes "resolve_by_name n endpoints = Inr (Some e)"
  shows "n \<noteq> None" "e \<in> set endpoints" "es_data_flow e = Flow_Render"
  using assms by (auto simp: resolve_by_name_def single_match_iff dest!: render_matches_in
      split: option.splits)

lemma current_resolved:
  assumes "resolve_by_current c n endpoints = Inr (Some e)"
  shows "e \<in> set endpoints" "es_data_flow e = Flow_Render"
  using assms name_resolved [of n endpoints e]
  by (auto simp: resolve_by_current_def single_match_iff dest!: render_matches_in
      split: option.splits)

lemma resolved_is_live:
  assumes "resolve_destination r endpoints = Inr (Some e)"
  shows "e \<in> set endpoints" "es_data_flow e = Flow_Render"
  using assms current_resolved [of _ "ar_destination_name r" endpoints e]
  by (auto simp: resolve_destination_def Let_def single_match_iff dest!: render_matches_in
      split: option.splits)

text \<open>Missing fields filled from the endpoint found leave each stage's answer alone.\<close>

lemma name_filled:
  assumes "resolve_by_name n endpoints = Inr (Some e)"
  shows "resolve_by_name (or_option n x) endpoints = Inr (Some e)"
  using assms name_resolved(1) [OF assms] by (auto simp: or_option_def)

lemma current_filled:
  assumes res: "resolve_by_current (or_option mm old) n endpoints = Inr (Some e)"
    and current: "\<And>c. es_current_mmdevice_id e = Some c \<Longrightarrow>
      render_matches (\<lambda>x. es_current_mmdevice_id x = Some c \<or> es_stable_id x = Some c) endpoints = [e]"
  shows "resolve_by_current (or_option (or_option mm (es_current_mmdevice_id e)) old) (or_option n x)
      endpoints = Inr (Some e)"
proof (cases "mm = None \<and> es_current_mmdevice_id e \<noteq> None")
  case True
  then obtain c where "mm = None" "es_current_mmdevice_id e = Some c" by auto
  with current [of c] show ?thesis by (simp add: or_option_def resolve_by_current_def single_match_iff)
next
  case False
  then have "or_option (or_option mm (es_current_mmdevice_id e)) old = or_option mm old"
    by (auto simp: or_option_def split: option.splits)
  with res show ?thesis
    by (auto simp: resolve_by_current_def single_match_iff name_filled split: option.splits)
qed

text \<open>
  Migrating a route that resolves to an endpoint nobody else shares an id with never
  changes which endpoint it resolves to, and it overwrites no field the configuration had.
\<close>

lemma migration_keeps_destination:
  assumes "resolve_destination r endpoints = Inr (Some e)" and "identified endpoints e"
  shows "resolve_destination (migrate_destination endpoints r) endpoints = Inr (Some e)"
    and "or_option (ar_destination_stable_id r) (es_stable_id e)
      = ar_destination_stable_id (migrate_destination endpoints r)"
    and "ar_destination_endpoint_id (migrate_destination endpoints r) = ar_destination_endpoint_id r"
proof -
  let ?r = "migrate_destination endpoints r"
  have live: "e \<in> set endpoints" "es_data_flow e = Flow_Render"
    using resolved_is_live [OF assms(1)] by blast+
  have stable: "render_matches (\<lambda>x. es_stable_id x = Some s) endpoints = [e]" if "es_stable_id e = Some s" for s
    using that by (intro identified_match [OF assms(2) live]) (auto simp: endpoint_ids_def)
  have current: "render_matches (\<lambda>x. es_current_mmdevice_id x = Some c \<or> es_stable_id x = Some c) endpoints = [e]"
    if "es_current_mmdevice_id e = Some c" for c
    using that by (intro identified_match [OF assms(2) live]) (auto simp: endpoint_ids_def)
  have m: "?r = r\<lparr>ar_destination_stable_id := or_option (ar_destination_stable_id r) (es_stable_id e),
      ar_destination_mmdevice_id := or_option (ar_destination_mmdevice_id r) (es_current_mmdevice_id e),
      ar_destination_name := or_option (ar_destination_name r) (es_friendly_name e)\<rparr>"
    using assms(1) by (simp add: migrate_destination_def)
  show "resolve_destination ?r endpoints = Inr (Some e)"
  proof (cases "ar_destination_stable_id r")
    case None
    with assms(1) have res: "resolve_by_current (or_option (ar_destination_mmdevice_id r)
        (ar_destination_endpoint_id r)) (ar_destination_name r) endpoints = Inr (Some e)"
      by (simp add: resolve_destination_def Let_def)
    show ?thesis
    proof (cases "es_stable_id e")
      case n: None
      with None current_filled [OF res current] show ?thesis
        by (simp add: m resolve_destination_def Let_def or_option_def [of None])
    next
      case (Some s)
      with None stable show ?thesis
        by (simp add: m resolve_destination_def Let_def or_option_def [of None] single_match_iff)
    qed
  next
    case (Some s)
    with assms(1) current_filled [OF _ current] show ?thesis
      by (auto simp: m resolve_destination_def Let_def or_option_def [of "Some s"] single_match_iff)
  qed
  show "or_option (ar_destination_stable_id r) (es_stable_id e) = ar_destination_stable_id ?r"
    "ar_destination_endpoint_id ?r = ar_destination_endpoint_id r" by (simp_all add: m)
qed

subsection \<open>A concrete system\<close>

definition player :: app_selector where
  "player = \<lparr>ws_executable_path_hash = Some ''hash'', ws_executable_name = Some ''player.exe'',
     ws_package_family_name = None, ws_app_user_model_id = None, ws_display_name = None\<rparr>"

definition player_route :: app_route where
  "player_route = \<lparr>ar_application = player, ar_destination_stable_id = None,
     ar_destination_mmdevice_id = None, ar_destination_endpoint_id = Some ''speaker'',
     ar_destination_name = None, ar_virtualization_required = True, ar_effect_chain = [],
     ar_effect_instances = [], ar_gain = 0, ar_enabled = True\<rparr>"

definition speaker :: windows_endpoint where
  "speaker = \<lparr>es_stable_id = Some ''stable-speaker'', es_current_mmdevice_id = Some ''speaker'',
     es_friendly_name = Some ''Speakers'', es_data_flow = Flow_Render\<rparr>"

definition headset :: windows_endpoint where
  "headset = \<lparr>es_stable_id = Some ''stable-headset'', es_current_mmdevice_id = Some ''headset'',
     es_friendly_name = Some ''Headset'', es_data_flow = Flow_Render\<rparr>"

definition player_system :: route_environment where
  "player_system = \<lparr>re_os_supported = True, re_virtual_driver_ready = True,
     re_effects_available = True,
     re_applications = [\<lparr>rc_selector = player, rc_pid = 42, rc_isolated = True\<rparr>],
     re_endpoints = [speaker, headset], re_captures = [((''hash'', 42), Capture_Ready)]\<rparr>"

text \<open>Two rules for one application: only one of them may capture it.\<close>

theorem no_process_captured_twice_witness:
  "map (\<lambda>(i, _, pid). (i, pid)) (capture_requests (reconcile_routes player_system
      (route_reconciler_new [player_route, player_route]))) = [(0, 42)]
   \<and> distinct (map (\<lambda>(_, _, pid). pid) (capture_requests (reconcile_routes player_system
      (route_reconciler_new [player_route, player_route]))))"
proof
  show "map (\<lambda>(i, _, pid). (i, pid)) (capture_requests (reconcile_routes player_system
      (route_reconciler_new [player_route, player_route]))) = [(0, 42)]" by code_simp
  show "distinct (map (\<lambda>(_, _, pid). pid) (capture_requests (reconcile_routes player_system
      (route_reconciler_new [player_route, player_route]))))"
    by (rule no_process_captured_twice) (simp add: player_system_def)
qed

end
