(* ===== verification/Spec2Isabelle.thy ===== *)
theory Spec2Isabelle
  imports Resolution Layout_Props Demo_Driver Stack_Props Move_Props Patchbay_Props Activation_Props
    Reconciler_Props Patchbay_Xml Audio_Path Resume_Props Flow_Progress Engine_Tables Trust_Props
    Live_Backend Wet_Timeline Dry_Delay Effect_Pool_Props App_Route_Props
begin

text \<open>
  A verification development for qpwgraph-rs, a patchbay for audio, video and MIDI graphs.
  Paths are relative to \<^verbatim>\<open>src/crates\<close>.

  The program keeps a \<^emph>\<open>graph\<close> of nodes, ports and links (\<^verbatim>\<open>pw-graph-core\<close>) that a
  \<^emph>\<open>driver\<close> (\<^verbatim>\<open>pw-graph-backend\<close>) refreshes from a native registry and mutates. User
  actions are \<^emph>\<open>commands\<close> on a driver, kept on an undo stack (\<^verbatim>\<open>pw-graph-command\<close>).
  A \<^emph>\<open>patchbay\<close> (\<^verbatim>\<open>pw-graph-patchbay\<close>) is a saved set of connection rules; it is
  activated once, or kept applied by the reconciler, again through the driver. Ids change
  when an application restarts, so commands and rules name ports by stable keys, which the
  graph resolves to current ids.

  \<^bold>\<open>Theories.\<close>

  \<^item> \<^verbatim>\<open>Prelude\<close>, \<^verbatim>\<open>Ordered_Map\<close>: results, rendering, list lemmas; the ordered map of the
    standard library with its interface as the locale \<open>ordered_map\<close>.
  \<^item> \<^verbatim>\<open>Ids\<close> (\<^verbatim>\<open>pw-graph-core/src/id.rs\<close>): the 64-bit ids and their backend byte.
  \<^item> \<^verbatim>\<open>Endpoint\<close> (\<^verbatim>\<open>endpoint.rs\<close>, \<^verbatim>\<open>identity.rs\<close>, \<^verbatim>\<open>node.rs\<close>, \<^verbatim>\<open>relay.rs\<close>,
    \<^verbatim>\<open>matching.rs\<close>): nodes, ports, links, keys, selectors, identity matching.
  \<^item> \<^verbatim>\<open>Graph_Model\<close>, \<^verbatim>\<open>Graph_Props\<close>, \<^verbatim>\<open>Resolution\<close> (\<^verbatim>\<open>graph.rs\<close>): the graph, its
    mutations and their invariants; selector resolution and its specification.
  \<^item> \<^verbatim>\<open>Layout\<close>, \<^verbatim>\<open>Layout_Props\<close> (\<^verbatim>\<open>layout.rs\<close>): the default canvas layout: a
    worklist assigns layers, bounded by the number of nodes and increasing along the routes
    of a graph without cycles; every node is placed once and columns never overlap.
  \<^item> \<^verbatim>\<open>Driver\<close>, \<^verbatim>\<open>Driver_Contract\<close> (\<^verbatim>\<open>pw-graph-backend/src/api.rs\<close>): the driver trait as
    a record of operations and its provided methods; the locale \<open>stable_driver\<close> states what
    the clients rely on (each operation changes the connected pairs as announced, or fails
    and changes nothing), and the effect of every provided method is derived from it.
  \<^item> \<^verbatim>\<open>Demo_Driver\<close> (\<^verbatim>\<open>demo.rs\<close>): the in-memory driver, which interprets that locale.
  \<^item> \<^verbatim>\<open>Composite_Driver\<close>, \<^verbatim>\<open>Composite_Props\<close>, \<^verbatim>\<open>Live_Backend\<close>
    (\<^verbatim>\<open>pw-graph-app-core/src/composite\<close>): the live backend, one merged graph over an audio
    and a MIDI driver. Over two well-behaved children it keeps the driver contract itself,
    so what is proved of commands, undo and the patchbay holds for it.
  \<^item> \<^verbatim>\<open>Transaction\<close>, \<^verbatim>\<open>Commands\<close>, \<^verbatim>\<open>Command_Stack\<close>
    (\<^verbatim>\<open>pw-graph-command/src/command\<close>): rollback helpers, the commands, the stack;
    \<^verbatim>\<open>Command_Props\<close>, \<^verbatim>\<open>Stack_Props\<close>, \<^verbatim>\<open>Move_Props\<close>: atomicity and undo.
  \<^item> \<^verbatim>\<open>Patchbay\<close>, \<^verbatim>\<open>Activation\<close>, \<^verbatim>\<open>Reconciler\<close>, \<^verbatim>\<open>Patchbay_Xml\<close>
    (\<^verbatim>\<open>pw-graph-patchbay/src\<close>): rules, one-shot activation, the continuous reconciler,
    the XML format with its selector sidecar; with \<^verbatim>\<open>Patchbay_Props\<close>,
    \<^verbatim>\<open>Activation_Props\<close>, \<^verbatim>\<open>Reconciler_Props\<close>.

  The relay (\<^verbatim>\<open>pw-graph-relay/src\<close>) carries audio between two installations. A pairing or a
  trusted credential gives both ends session keys; a control channel carries framed, sealed
  messages; audio travels in sealed datagrams through a jitter buffer into a sample queue.

  \<^item> \<^verbatim>\<open>Byte_Codec\<close>, \<^verbatim>\<open>Relay_Crypto\<close>, \<^verbatim>\<open>Relay_Crypto_Props\<close> (\<^verbatim>\<open>crypto.rs\<close>): big-endian
    fields, key derivation, nonces, sealing and opening, the replay window. The library
    primitives are the record \<open>aead\<close> and functions passed in; the replay window is proved
    equivalent to remembering every counter.
  \<^item> \<^verbatim>\<open>Audio_Packet\<close>, \<^verbatim>\<open>Jitter_Buffer\<close>, \<^verbatim>\<open>Jitter_Props\<close> (\<^verbatim>\<open>audio.rs\<close>): datagrams, the
    jitter buffer, its order, bounds and progress; \<^verbatim>\<open>Pcm_Queue\<close> (\<^verbatim>\<open>queue.rs\<close>): the sample
    queue, a refinement of a queue of whole frames.
  \<^item> \<^verbatim>\<open>Audio_Receive\<close>, \<^verbatim>\<open>Audio_Path\<close> (\<^verbatim>\<open>session/audio_worker.rs\<close>, \<^verbatim>\<open>codec.rs\<close>): what one
    received datagram does, and the path of audio from one queue to the other.
  \<^item> \<^verbatim>\<open>Control_Protocol\<close> (\<^verbatim>\<open>protocol.rs\<close>): formats, offers, framing of the control stream.
  \<^item> \<^verbatim>\<open>Flow_Negotiation\<close>, \<^verbatim>\<open>Session_Record\<close> (\<^verbatim>\<open>engine/record.rs\<close>,
    \<^verbatim>\<open>session/resume.rs\<close>): the negotiation of the emitter and the ownership of the control
    channel; \<^verbatim>\<open>Flow_Net\<close>, \<^verbatim>\<open>Flow_Props\<close>, \<^verbatim>\<open>Flow_Progress\<close> run two ends over a network that
    delays, repeats and reorders, and show that they agree and can settle;
    \<^verbatim>\<open>Resume_Props\<close>: at most one owner of the control channel, and the end of the grace wait.
  \<^item> \<^verbatim>\<open>Engine_State\<close>, \<^verbatim>\<open>Engine_Props\<close>, \<^verbatim>\<open>Engine_Tables\<close>, \<^verbatim>\<open>Trust_Props\<close>
    (\<^verbatim>\<open>engine/inner.rs\<close>, \<^verbatim>\<open>limits.rs\<close>, \<^verbatim>\<open>trust.rs\<close>): the tables an untrusted peer can grow,
    the rate limiter, the handshake slots and the enrollment of trusted peers.

  An audio effect (\<^verbatim>\<open>pw-graph-effects/src\<close>) is prepared by a pool of loader threads and then
  runs in the audio callback. The noise suppressor hands its audio to a worker through a ring
  of blocks and mixes the answers, as they arrive, over the delayed dry signal.

  \<^item> \<^verbatim>\<open>Simulation\<close>: runs of labelled steps and the locale \<open>forward_simulation\<close>, which turns a
    step lemma into trace inclusion in a deterministic specification.
  \<^item> \<^verbatim>\<open>Block_Queue\<close>, \<^verbatim>\<open>Wet_Timeline\<close> (\<^verbatim>\<open>hush_queue.rs\<close>), \<^verbatim>\<open>Dry_Delay\<close>
    (\<^verbatim>\<open>hush_delay.rs\<close>): the lock-free ring, one step per access to shared memory, refines a
    bounded queue and its two sides never touch one slot; reading the timeline copies every
    usable sample to its own frame and nothing else; the dry delay is the played signal
    delayed. Samples are a type parameter: nothing is computed with them here.
  \<^item> \<^verbatim>\<open>Effect_Host\<close> (\<^verbatim>\<open>lib.rs\<close>): channel negotiation, the provider registry, preparing an
    instance; \<^verbatim>\<open>Effect_Pool\<close>, \<^verbatim>\<open>Effect_Pool_Props\<close> (\<^verbatim>\<open>lifecycle.rs\<close>): tickets,
    cancellation, the loaders and the events, refining a contract of the control thread.

  On Windows an application can be routed through effects to an endpoint by a persisted rule.

  \<^item> \<^verbatim>\<open>App_Routes\<close>, \<^verbatim>\<open>App_Route_Props\<close> (\<^verbatim>\<open>pw-graph-config/src/windows.rs\<close>,
    \<^verbatim>\<open>pw-graph-backend/src/windows/app_route_reconciler.rs\<close>): selectors, rules, the
    resolution of destinations and the plan of every rule for a snapshot of the system.

  \<^bold>\<open>Bounds and fuel.\<close> Ids, sequence numbers, counters and generations are words of the width
  the code uses; queue lengths and clock readings are natural numbers. The layout worklist and
  the release loop of the receive worker are total functions with a termination measure, the
  grace wait recurses over the list of its polls. The timeline loop takes the 128 rounds of
  the code, enough for every block of a ring of that capacity. A theorem that needs a counter not to wrap
  says so in a hypothesis (a run shorter than 2 to the 64 steps).

  \<^bold>\<open>Concurrency.\<close> An operation that runs under one lock is one step. Theorems about several
  threads quantify over every interleaving of such steps (\<open>flow_step\<close>, \<open>trust_step\<close>,
  \<open>host_step\<close>, \<open>pool_step\<close>, \<open>ring_step\<close>, the events of the door). The acquire and release
  accesses of the ring are sequentially consistent steps of one index each. A poisoned lock is not modelled.

  \<^bold>\<open>Not modelled.\<close> The native drivers (PipeWire, ALSA, Windows), the signal processing of the
  effects with the neural worker and the module hosts, the video filters, the settings file
  and the user interface: they are calls into libraries or
  floating-point arithmetic. Of the relay the sockets, name resolution, the Opus codec and
  the foreign function bindings.
\<close>

end
